(* ===== verification/Prelude.thy ===== *)
theory Prelude
  imports Main "HOL-Library.Word"
begin

text \<open>
  What every theory of the development shares: the machine types of the Rust sources, the outcome
  of a Rust expression (a value, an \<^verbatim>\<open>Err\<close> or a panic), the outcome of a method that takes
  \<^verbatim>\<open>&mut self\<close> (an outcome together with the object as it is left), slices and stores into
  arrays with their bounds checks, and the big-endian \<^verbatim>\<open>u16\<close> conversions of the standard library.
  The lemmas at the end are the generic facts about these operations that the component theories use.

  An arithmetic overflow of a fixed-width integer is a panic, as in the default profile of
  \<^verbatim>\<open>cargo\<close>; a theorem that a function does not panic says in particular that no overflow occurs, so
  that the profile without overflow checks computes the same values. The type \<^verbatim>\<open>usize\<close> is \<open>nat\<close>:
  its values are lengths of and offsets into objects in memory, which cannot overflow. The one function
  that computes other numbers in a \<^verbatim>\<open>usize\<close>, \<^verbatim>\<open>read_variable_length\<close>, has its width written out.
\<close>

unbundle bit_operations_syntax

section \<open>Machine types\<close>

type_synonym u8 = "8 word"
type_synonym u16 = "16 word"
type_synonym u64 = "64 word"
type_synonym u128 = "128 word"
type_synonym usize = nat
type_synonym bytes = "u8 list"

section \<open>Outcomes\<close>

datatype ('a, 'e) result = Ok 'a | Err 'e | Panic

text \<open>The sequencing that the operator \<^verbatim>\<open>?\<close> performs, on values and on methods with a receiver.\<close>

fun and_then :: "('a, 'e) result \<Rightarrow> ('a \<Rightarrow> ('b, 'e) result) \<Rightarrow> ('b, 'e) result" where
  "and_then (Ok a) f = f a"
| "and_then (Err e) f = Err e"
| "and_then Panic f = Panic"

fun map_ok :: "('a \<Rightarrow> 'b) \<Rightarrow> ('a, 'e) result \<Rightarrow> ('b, 'e) result" where
  "map_ok f (Ok a) = Ok (f a)"
| "map_ok f (Err e) = Err e"
| "map_ok f Panic = Panic"

fun map_err :: "('e \<Rightarrow> 'd) \<Rightarrow> ('a, 'e) result \<Rightarrow> ('a, 'd) result" where
  "map_err f (Ok a) = Ok a"
| "map_err f (Err e) = Err (f e)"
| "map_err f Panic = Panic"

fun is_ok :: "('a, 'e) result \<Rightarrow> bool" where
  "is_ok (Ok a) = True"
| "is_ok (Err e) = False"
| "is_ok Panic = False"

definition ok_or :: "'a option \<Rightarrow> 'e \<Rightarrow> ('a, 'e) result" where
  "ok_or x e = (case x of Some a \<Rightarrow> Ok a | None \<Rightarrow> Err e)"

type_synonym ('s, 'a, 'e) action = "'s \<Rightarrow> ('a, 'e) result \<times> 's"

definition ret :: "'a \<Rightarrow> ('s, 'a, 'e) action" where
  "ret a = (\<lambda>s. (Ok a, s))"

definition fail :: "'e \<Rightarrow> ('s, 'a, 'e) action" where
  "fail e = (\<lambda>s. (Err e, s))"

definition panic :: "('s, 'a, 'e) action" where
  "panic = (\<lambda>s. (Panic, s))"

definition then_do :: "('s, 'a, 'e) action \<Rightarrow> ('a \<Rightarrow> ('s, 'b, 'e) action) \<Rightarrow> ('s, 'b, 'e) action" where
  "then_do m f = (\<lambda>s. case m s of
       (Ok a, s') \<Rightarrow> f a s'
     | (Err e, s') \<Rightarrow> (Err e, s')
     | (Panic, s') \<Rightarrow> (Panic, s'))"

text \<open>The operator \<^verbatim>\<open>?\<close> on the result of a function that does not touch the receiver.\<close>

definition of_result :: "('a, 'e) result \<Rightarrow> ('s, 'a, 'e) action" where
  "of_result r = (\<lambda>s. (r, s))"

text \<open>A local object on which one fallible method is called: the object, if the call succeeds.\<close>

definition built :: "('s, unit, 'e) action \<Rightarrow> 's \<Rightarrow> ('s, 'e) result" where
  "built m s = (case m s of (r, s') \<Rightarrow> map_ok (\<lambda>_. s') r)"

definition map_err_m :: "('e \<Rightarrow> 'd) \<Rightarrow> ('s, 'a, 'e) action \<Rightarrow> ('s, 'a, 'd) action" where
  "map_err_m f m = (\<lambda>s. case m s of (r, s') \<Rightarrow> (map_err f r, s'))"

text \<open>A method of a field: the receiver is a component of a larger object.\<close>

definition on_field ::
    "('s \<Rightarrow> 't) \<Rightarrow> ('t \<Rightarrow> 's \<Rightarrow> 's) \<Rightarrow> ('t, 'a, 'e) action \<Rightarrow> ('s, 'a, 'e) action" where
  "on_field get put m = (\<lambda>s. case m (get s) of (r, t) \<Rightarrow> (r, put t s))"

section \<open>Arrays, slices, iterators\<close>

definition index :: "'a list \<Rightarrow> usize \<Rightarrow> ('a, 'e) result" where
  "index xs i = (if i < length xs then Ok (xs ! i) else Panic)"

definition slice :: "'a list \<Rightarrow> usize \<Rightarrow> usize \<Rightarrow> ('a list, 'e) result" where
  "slice xs a b = (if a \<le> b \<and> b \<le> length xs then Ok (take (b - a) (drop a xs)) else Panic)"

definition slice_from :: "'a list \<Rightarrow> usize \<Rightarrow> ('a list, 'e) result" where
  "slice_from xs a = (if a \<le> length xs then Ok (drop a xs) else Panic)"

definition store :: "usize \<Rightarrow> 'a \<Rightarrow> ('a list, unit, 'e) action" where
  "store i v = (\<lambda>xs. if i < length xs then (Ok (), xs[i := v]) else (Panic, xs))"

text \<open>\<^verbatim>\<open>buf[a..a + ys.len()].copy_from_slice(ys)\<close>\<close>

definition put_at :: "'a list \<Rightarrow> usize \<Rightarrow> 'a list \<Rightarrow> 'a list" where
  "put_at xs a ys = take a xs @ ys @ drop (a + length ys) xs"

definition copy_at :: "usize \<Rightarrow> 'a list \<Rightarrow> ('a list, unit, 'e) action" where
  "copy_at a ys = (\<lambda>xs. if a + length ys \<le> length xs then (Ok (), put_at xs a ys) else (Panic, xs))"

text \<open>A callee that is handed \<^verbatim>\<open>&mut buf[a..]\<close>.\<close>

definition on_suffix :: "usize \<Rightarrow> ('a list, 'b, 'e) action \<Rightarrow> ('a list, 'b, 'e) action" where
  "on_suffix a m = (\<lambda>xs. if a \<le> length xs
     then (case m (drop a xs) of (r, ys) \<Rightarrow> (r, take a xs @ ys))
     else (Panic, xs))"

text \<open>\<^verbatim>\<open>Iterator::position\<close> and the element it designates.\<close>

fun position :: "('a \<Rightarrow> bool) \<Rightarrow> 'a list \<Rightarrow> usize option" where
  "position P [] = None"
| "position P (x # xs) = (if P x then Some 0 else map_option Suc (position P xs))"

section \<open>Integers\<close>

definition checked_add :: "'w::len word \<Rightarrow> 'w word \<Rightarrow> 'w word option" where
  "checked_add a b = (if unat a + unat b < 2 ^ LENGTH('w) then Some (a + b) else None)"

definition saturating_sub :: "'w::len word \<Rightarrow> 'w word \<Rightarrow> 'w word" where
  "saturating_sub a b = (if a < b then 0 else a - b)"

definition to_be_bytes :: "u16 \<Rightarrow> bytes" where
  "to_be_bytes x = [ucast (drop_bit 8 x), ucast x]"

definition from_be_bytes :: "u8 \<Rightarrow> u8 \<Rightarrow> u16" where
  "from_be_bytes hi lo = push_bit 8 (ucast hi) OR ucast lo"

section \<open>Lemmas on outcomes and methods\<close>

named_theorems method_simps \<open>unfolding of the combinators on outcomes and methods\<close>

lemma result_bind_assoc: "and_then (and_then r f) g = and_then r (\<lambda>a. and_then (f a) g)"
  by (cases r) auto

lemma and_then_eq_Ok: "and_then r f = Ok b \<longleftrightarrow> (\<exists>a. r = Ok a \<and> f a = Ok b)"
  by (cases r) auto

lemma and_then_eq_Panic: "and_then r f = Panic \<longleftrightarrow> r = Panic \<or> (\<exists>a. r = Ok a \<and> f a = Panic)"
  by (cases r) auto

lemma map_ok_eq: "map_ok f r = Ok b \<longleftrightarrow> (\<exists>a. r = Ok a \<and> b = f a)" "map_ok f r = Panic \<longleftrightarrow> r = Panic"
  by (cases r; auto)+

lemma map_err_eq:
  "map_err f r = Ok a \<longleftrightarrow> r = Ok a"
  "map_err f r = Err d \<longleftrightarrow> (\<exists>e. r = Err e \<and> d = f e)"
  "map_err f r = Panic \<longleftrightarrow> r = Panic"
  by (cases r; auto)+

lemma is_ok_iff: "is_ok r \<longleftrightarrow> (\<exists>a. r = Ok a)"
  by (cases r) auto

lemma ret_apply [simp]: "ret a s = (Ok a, s)"
  by (simp add: ret_def)

lemma fail_apply [simp]: "fail e s = (Err e, s)"
  by (simp add: fail_def)

lemma of_result_simps [simp]: "of_result (Ok a) = ret a" "of_result (Err e) = fail e" "of_result Panic = panic"
  by (simp_all add: of_result_def ret_def fail_def panic_def)

lemma panic_apply [simp]: "panic s = (Panic, s)"
  by (simp add: panic_def)

lemma then_do_apply:
  "then_do m f s = (case fst (m s) of Ok a \<Rightarrow> f a (snd (m s)) | Err e \<Rightarrow> (Err e, snd (m s))
     | Panic \<Rightarrow> (Panic, snd (m s)))"
  by (simp add: then_do_def split: prod.split result.split)

lemma then_do_cases:
  "m s = (Ok a, s') \<Longrightarrow> then_do m f s = f a s'"
  "m s = (Err e, s') \<Longrightarrow> then_do m f s = (Err e, s')"
  "m s = (Panic, s') \<Longrightarrow> then_do m f s = (Panic, s')"
  by (simp_all add: then_do_def)

lemma then_do_basic [simp]:
  "then_do (ret a) f = f a" "then_do (fail e) f = fail e" "then_do panic f = panic"
  by (simp_all add: then_do_def fun_eq_iff)

lemma then_do_assoc: "then_do (then_do m f) g = then_do m (\<lambda>a. then_do (f a) g)"
  by (rule ext) (simp add: then_do_def split: prod.split result.split)

lemma then_do_eq_Ok:
  "then_do m f s = (Ok b, t) \<longleftrightarrow> (\<exists>a s'. m s = (Ok a, s') \<and> f a s' = (Ok b, t))"
  by (cases "m s"; cases "fst (m s)") (auto simp: then_do_def)

lemma then_do_eq_Panic:
  "then_do m f s = (Panic, t) \<longleftrightarrow>
     m s = (Panic, t) \<or> (\<exists>a s'. m s = (Ok a, s') \<and> f a s' = (Panic, t))"
  by (cases "m s"; cases "fst (m s)") (auto simp: then_do_def)

lemma map_err_m_apply: "map_err_m f m s = (map_err f (fst (m s)), snd (m s))"
  by (simp add: map_err_m_def split: prod.split)

lemmas [method_simps] = then_do_apply map_err_m_apply on_field_def

section \<open>Lemmas on arrays and iterators\<close>

lemma length_put_at [simp]: "a + length ys \<le> length xs \<Longrightarrow> length (put_at xs a ys) = length xs"
  by (simp add: put_at_def)

lemma put_at_Nil [simp]: "put_at xs a [] = xs"
  by (simp add: put_at_def)

lemma put_at_append:
  "a + length ys + length zs \<le> length xs \<Longrightarrow>
     put_at (put_at xs a ys) (a + length ys) zs = put_at xs a (ys @ zs)"
  by (simp add: put_at_def ac_simps)

lemma list_update_put_at: "i < length xs \<Longrightarrow> xs[i := v] = put_at xs i [v]"
  by (simp add: put_at_def upd_conv_take_nth_drop)

lemma take_put_at_0: "take (length ys) (put_at xs 0 ys) = ys"
  by (simp add: put_at_def)

lemma drop_put_at_0: "drop (length ys) (put_at xs 0 ys) = drop (length ys) xs"
  by (simp add: put_at_def)

lemma put_at_suffix:
  "a \<le> length xs \<Longrightarrow> take a xs @ put_at (drop a xs) 0 ys = put_at xs a ys"
  by (simp add: put_at_def add.commute)

lemma slice_from_eq_Panic: "slice_from xs a = Panic \<longleftrightarrow> length xs < a"
  and slice_from_eq_Ok: "slice_from xs a = Ok ys \<longleftrightarrow> a \<le> length xs \<and> ys = drop a xs"
  by (auto simp: slice_from_def)

lemma slice_eq_Panic: "slice xs a b = Panic \<longleftrightarrow> b < a \<or> length xs < b"
  and slice_eq_Ok: "slice xs a b = Ok ys \<longleftrightarrow> a \<le> b \<and> b \<le> length xs \<and> ys = take (b - a) (drop a xs)"
  by (auto simp: slice_def)

lemmas decode_cases = and_then_eq_Ok and_then_eq_Panic map_err_eq slice_from_eq_Panic slice_from_eq_Ok
  slice_eq_Panic slice_eq_Ok

lemma position_None_iff: "position P xs = None \<longleftrightarrow> (\<forall>x \<in> set xs. \<not> P x)"
  by (induction xs) auto

lemma position_Some:
  "position P xs = Some i \<Longrightarrow> i < length xs \<and> P (xs ! i) \<and> (\<forall>j < i. \<not> P (xs ! j))"
proof (induction xs arbitrary: i)
  case Nil
  then show ?case by simp
next
  case (Cons x xs)
  show ?case
  proof (cases "P x")
    case True
    with Cons.prems show ?thesis by simp
  next
    case False
    with Cons.prems obtain k where k: "position P xs = Some k" "i = Suc k" by auto
    with Cons.IH False show ?thesis by (auto simp: less_Suc_eq_0_disj)
  qed
qed

lemma position_Some_split:
  "position P xs = Some i \<Longrightarrow>
     xs = take i xs @ xs ! i # drop (Suc i) xs \<and> P (xs ! i) \<and> (\<forall>x \<in> set (take i xs). \<not> P x)"
  by (drule position_Some) (auto simp: id_take_nth_drop in_set_conv_nth)

section \<open>Lemmas on integers\<close>

lemma checked_add_Some:
  fixes a b :: "'w::len word"
  assumes "unat a + unat b < 2 ^ LENGTH('w)"
  shows "checked_add a b = Some (a + b)" and "unat (a + b) = unat a + unat b"
  using assms by (simp_all add: checked_add_def unat_word_ariths)

lemma unat_saturating_sub: "unat (saturating_sub a b) = unat a - unat b"
  by (simp add: saturating_sub_def word_less_nat_alt unat_sub word_le_nat_alt)

lemma unat_u8_less [simp]: "unat (x :: u8) < 256" and unat_u16_less [simp]: "unat (y :: u16) < 65536"
  using unsigned_less [of x, where ?'a = nat] unsigned_less [of y, where ?'a = nat] by simp_all

lemma unat_ucast_u8_u16 [simp]: "unat (ucast (x :: u8) :: u16) = unat x"
proof -
  have "unat x < 65536" using unat_u8_less [of x] by linarith
  then show ?thesis by (simp add: unsigned_ucast_eq take_bit_eq_mod)
qed

lemma length_to_be_bytes [simp]: "length (to_be_bytes x) = 2"
  by (simp add: to_be_bytes_def)

lemma unat_from_be_bytes: "unat (from_be_bytes hi lo) = 256 * unat hi + unat lo"
proof -
  have disj: "push_bit 8 (ucast hi :: u16) AND ucast lo = 0"
    by (rule bit_word_eqI) (auto simp: bit_simps dest: bit_imp_le_length)
  have "from_be_bytes hi lo = push_bit 8 (ucast hi) + ucast lo"
    using disj by (simp add: from_be_bytes_def disjunctive_add_eq_or)
  moreover have "unat (push_bit 8 (ucast hi :: u16)) = 256 * unat hi"
    using unat_u8_less [of hi] by (simp add: push_bit_eq_mult unat_word_ariths)
  moreover have "256 * unat hi + unat lo < 65536"
    using unat_u8_less [of hi] unat_u8_less [of lo] by linarith
  ultimately show ?thesis by (simp add: unat_word_ariths)
qed

lemma from_be_to_be: "from_be_bytes (ucast (drop_bit 8 x)) (ucast x) = x"
  by (rule bit_word_eqI) (auto simp: from_be_bytes_def bit_simps)

end
