(* ===== verification/Utf8.thy ===== *)
theory Utf8
  imports Prelude
begin

text \<open>
  The parts of the Rust standard library that concern text and that the sources call: the check that
  \<^verbatim>\<open>core::str::from_utf8\<close> performs on a byte slice, and the encoding of one \<^verbatim>\<open>char\<close> by
  \<^verbatim>\<open>char::len_utf8\<close> and \<^verbatim>\<open>char::encode_utf8\<close>. A \<^verbatim>\<open>&str\<close> is the list of its bytes; a \<^verbatim>\<open>char\<close> is
  its scalar value. The lemmas show that the encoding of a scalar value is accepted by the check and
  that the check is closed under concatenation.
\<close>

section \<open>Validation\<close>

definition continuation :: "u8 \<Rightarrow> bool" where
  "continuation b \<longleftrightarrow> 0x80 \<le> b \<and> b \<le> 0xBF"

definition second_of_three :: "u8 \<Rightarrow> u8 \<Rightarrow> bool" where
  "second_of_three a b \<longleftrightarrow>
     (a = 0xE0 \<and> 0xA0 \<le> b \<and> b \<le> 0xBF) \<or>
     (0xE1 \<le> a \<and> a \<le> 0xEC \<and> 0x80 \<le> b \<and> b \<le> 0xBF) \<or>
     (a = 0xED \<and> 0x80 \<le> b \<and> b \<le> 0x9F) \<or>
     (0xEE \<le> a \<and> a \<le> 0xEF \<and> 0x80 \<le> b \<and> b \<le> 0xBF)"

definition second_of_four :: "u8 \<Rightarrow> u8 \<Rightarrow> bool" where
  "second_of_four a b \<longleftrightarrow>
     (a = 0xF0 \<and> 0x90 \<le> b \<and> b \<le> 0xBF) \<or>
     (0xF1 \<le> a \<and> a \<le> 0xF3 \<and> 0x80 \<le> b \<and> b \<le> 0xBF) \<or>
     (a = 0xF4 \<and> 0x80 \<le> b \<and> b \<le> 0x8F)"

text \<open>The number of bytes after the first byte of a well-formed character, if there is one.\<close>

definition char_tail :: "u8 \<Rightarrow> bytes \<Rightarrow> nat option" where
  "char_tail a r =
     (if a < 0x80 then Some 0
      else if 0xC2 \<le> a \<and> a \<le> 0xDF then
        (case r of b # _ \<Rightarrow> if continuation b then Some 1 else None | _ \<Rightarrow> None)
      else if 0xE0 \<le> a \<and> a \<le> 0xEF then
        (case r of b # c # _ \<Rightarrow> if second_of_three a b \<and> continuation c then Some 2 else None
         | _ \<Rightarrow> None)
      else if 0xF0 \<le> a \<and> a \<le> 0xF4 then
        (case r of b # c # d # _ \<Rightarrow>
           if second_of_four a b \<and> continuation c \<and> continuation d then Some 3 else None
         | _ \<Rightarrow> None)
      else None)"

fun valid_utf8 :: "bytes \<Rightarrow> bool" where
  "valid_utf8 [] = True"
| "valid_utf8 (a # r) = (case char_tail a r of None \<Rightarrow> False | Some n \<Rightarrow> valid_utf8 (drop n r))"

definition from_utf8 :: "bytes \<Rightarrow> bytes option" where
  "from_utf8 bs = (if valid_utf8 bs then Some bs else None)"

section \<open>Encoding a char\<close>

definition is_char :: "nat \<Rightarrow> bool" where
  "is_char c \<longleftrightarrow> c < 0xD800 \<or> (0xE000 \<le> c \<and> c < 0x110000)"

definition len_utf8 :: "nat \<Rightarrow> usize" where
  "len_utf8 c = (if c < 0x80 then 1 else if c < 0x800 then 2 else if c < 0x10000 then 3 else 4)"

definition encode_utf8 :: "nat \<Rightarrow> bytes" where
  "encode_utf8 c = map of_nat
     (if c < 0x80 then [c]
      else if c < 0x800 then [0xC0 + c div 64, 0x80 + c mod 64]
      else if c < 0x10000 then [0xE0 + c div 4096, 0x80 + c div 64 mod 64, 0x80 + c mod 64]
      else [0xF0 + c div 262144, 0x80 + c div 4096 mod 64, 0x80 + c div 64 mod 64, 0x80 + c mod 64])"

section \<open>Lemmas\<close>

lemma len_utf8_progress: "i + len_utf8 c \<le> n \<Longrightarrow> n - (i + len_utf8 c) < n - i"
  by (simp add: len_utf8_def split: if_splits)

lemma length_encode_utf8 [simp]: "length (encode_utf8 c) = len_utf8 c"
  by (simp add: encode_utf8_def len_utf8_def)

lemma len_utf8_bounds: "0 < len_utf8 c" "len_utf8 c \<le> 4"
  by (simp_all add: len_utf8_def)

lemma char_tail_append: "char_tail a r = Some n \<Longrightarrow> n \<le> length r \<and> char_tail a (r @ ys) = Some n"
  unfolding char_tail_def by (auto split: if_splits list.splits)

lemma valid_utf8_append: "valid_utf8 xs \<Longrightarrow> valid_utf8 (xs @ ys) = valid_utf8 ys"
proof (induction xs rule: valid_utf8.induct)
  case 1
  then show ?case by simp
next
  case (2 a r)
  then obtain n where n: "char_tail a r = Some n" "valid_utf8 (drop n r)"
    by (auto split: option.splits)
  with char_tail_append [OF n(1), of ys] 2 show ?case by simp
qed

lemma valid_utf8_ascii: "(\<forall>b \<in> set bs. b < 0x80) \<Longrightarrow> valid_utf8 bs"
  by (induction bs) (auto simp: char_tail_def)

lemma of_nat_u8_le_iff:
  "n < 256 \<Longrightarrow> (numeral k :: u8) \<le> of_nat n \<longleftrightarrow> unat (numeral k :: u8) \<le> n"
  "n < 256 \<Longrightarrow> (of_nat n :: u8) \<le> numeral k \<longleftrightarrow> n \<le> unat (numeral k :: u8)"
  "n < 256 \<Longrightarrow> (of_nat n :: u8) < numeral k \<longleftrightarrow> n < unat (numeral k :: u8)"
  by (simp_all add: word_le_nat_alt word_less_nat_alt unat_of_nat)

lemma of_nat_u8_eq_iff:
  "n < 256 \<Longrightarrow> (of_nat n :: u8) = numeral k \<longleftrightarrow> n = unat (numeral k :: u8)"
  by (simp add: word_unat_eq_iff unat_of_nat)

lemmas of_nat_u8_simps = of_nat_u8_le_iff of_nat_u8_eq_iff

lemma continuation_of_nat: "continuation (of_nat (0x80 + n mod 64))"
proof -
  have "0x80 + n mod 64 < 256" "0x80 + n mod 64 \<le> 0xBF"
    using mod_less_divisor [of 64 n] by linarith+
  then show ?thesis by (simp only: continuation_def of_nat_u8_simps) simp
qed

lemma second_of_three_of_nat:
  assumes "q \<le> 15" "0x80 \<le> b" "b \<le> 0xBF" "q = 0 \<longrightarrow> 0xA0 \<le> b" "q = 13 \<longrightarrow> b \<le> 0x9F"
  shows "second_of_three (of_nat (0xE0 + q)) (of_nat b)"
proof -
  have "0xE0 + q < 256" "b < 256" using assms by linarith+
  then show ?thesis
    using assms unfolding second_of_three_def by (simp only: of_nat_u8_simps) (simp, arith)
qed

lemma second_of_four_of_nat:
  assumes "q \<le> 4" "0x80 \<le> b" "b \<le> 0xBF" "q = 0 \<longrightarrow> 0x90 \<le> b" "q = 4 \<longrightarrow> b \<le> 0x8F"
  shows "second_of_four (of_nat (0xF0 + q)) (of_nat b)"
proof -
  have "0xF0 + q < 256" "b < 256" using assms by linarith+
  then show ?thesis
    using assms unfolding second_of_four_def by (simp only: of_nat_u8_simps) (simp, arith)
qed

lemma char_tail_encode_2:
  assumes "0x80 \<le> c" "c < 0x800"
  shows "char_tail (of_nat (0xC0 + c div 64)) [of_nat (0x80 + c mod 64)] = Some 1"
proof -
  have "0xC0 + c div 64 < 256" "0xC2 \<le> 0xC0 + c div 64" "0xC0 + c div 64 \<le> 0xDF"
    using assms by linarith+
  then show ?thesis
    using continuation_of_nat [of c] by (simp only: char_tail_def of_nat_u8_simps) simp
qed

lemma char_tail_encode_3:
  assumes "0x800 \<le> c" "c < 0x10000" "c < 0xD800 \<or> 0xE000 \<le> c"
  shows "char_tail (of_nat (0xE0 + c div 4096)) [of_nat (0x80 + c div 64 mod 64), of_nat (0x80 + c mod 64)]
    = Some 2"
proof -
  let ?b = "0x80 + c div 64 mod 64"
  have a: "0xE0 + c div 4096 < 256" "0xE0 + c div 4096 \<le> 0xEF" "?b < 256" "?b \<le> 0xBF"
    using assms mod_less_divisor [of 64 "c div 64"] by linarith+
  have d: "c div 64 = 64 * (c div 4096) + c div 64 mod 64"
    by (simp add: div_mult2_eq [of c 64 64, simplified])
  have "c div 4096 = 0 \<Longrightarrow> 0xA0 \<le> ?b" "c div 4096 = 13 \<Longrightarrow> ?b \<le> 0x9F"
    using assms d by linarith+
  then have "second_of_three (of_nat (0xE0 + c div 4096)) (of_nat ?b)"
    using a by (intro second_of_three_of_nat) auto
  then show ?thesis
    using a continuation_of_nat [of c] by (simp only: char_tail_def of_nat_u8_simps) simp
qed

lemma char_tail_encode_4:
  assumes "0x10000 \<le> c" "c < 0x110000"
  shows "char_tail (of_nat (0xF0 + c div 262144))
    [of_nat (0x80 + c div 4096 mod 64), of_nat (0x80 + c div 64 mod 64), of_nat (0x80 + c mod 64)] = Some 3"
proof -
  let ?b = "0x80 + c div 4096 mod 64"
  have a: "0xF0 + c div 262144 < 256" "0xF0 + c div 262144 \<le> 0xF4" "?b < 256" "?b \<le> 0xBF"
    using assms mod_less_divisor [of 64 "c div 4096"] by linarith+
  have d: "c div 4096 = 64 * (c div 262144) + c div 4096 mod 64"
    by (simp add: div_mult2_eq [of c 4096 64, simplified])
  have "c div 262144 = 0 \<Longrightarrow> 0x90 \<le> ?b" "c div 262144 = 4 \<Longrightarrow> ?b \<le> 0x8F"
    using assms d by linarith+
  then have "second_of_four (of_nat (0xF0 + c div 262144)) (of_nat ?b)"
    using a by (intro second_of_four_of_nat) auto
  then show ?thesis
    using a continuation_of_nat [of c] continuation_of_nat [of "c div 64"]
    by (simp only: char_tail_def of_nat_u8_simps) simp
qed

lemma valid_utf8_encode_utf8:
  assumes "is_char c"
  shows "valid_utf8 (encode_utf8 c)"
proof -
  consider "c < 0x80" | "0x80 \<le> c" "c < 0x800" | "0x800 \<le> c" "c < 0x10000" "c < 0xD800 \<or> 0xE000 \<le> c"
    | "0x10000 \<le> c" "c < 0x110000"
    using assms unfolding is_char_def by linarith
  then show ?thesis
  proof cases
    case 1
    then show ?thesis by (simp add: encode_utf8_def char_tail_def of_nat_u8_simps)
  next
    case 2
    then show ?thesis using char_tail_encode_2 by (simp add: encode_utf8_def)
  next
    case 3
    then show ?thesis using char_tail_encode_3 by (simp add: encode_utf8_def)
  next
    case 4
    then show ?thesis using char_tail_encode_4 by (simp add: encode_utf8_def)
  qed
qed

end
