(* ===== verification/Errors.thy ===== *)
theory Errors
  imports Prelude
begin

text \<open>
  The error values of the sources: \<^verbatim>\<open>ProtocolError\<close> of \<^verbatim>\<open>src/protocol/error.rs\<close>, \<^verbatim>\<open>NetworkError\<close> and
  \<^verbatim>\<open>BrokerError\<close> of \<^verbatim>\<open>src/error.rs\<close> with its \<^verbatim>\<open>From\<close> conversions, and \<^verbatim>\<open>PushError\<close> of
  \<^verbatim>\<open>src/protocol/heapless.rs\<close>. The fields of a struct-like variant are the arguments of its
  constructor, in the order of the declaration.
\<close>

datatype PushError = PushError

datatype ProtocolError =
    BufferTooSmall (buffer_size: usize)
  | ClientIdEmpty
  | ClientIdLengthExceeded usize usize
  | IncompletePacket (available: usize)
  | InvalidConnectFlags u8
  | InvalidConnectReturnCode u8
  | InvalidPacketLength (expected: usize) (actual: usize)
  | InvalidPacketType u8
  | InvalidProtocolName
  | InvalidSessionPresentFlag u8
  | InvalidUtf8String
  | MissingPacketId
  | PasswordLengthExceeded usize usize
  | PayloadTooLarge usize usize
  | InvalidQosLevel u8
  | TopicEmpty
  | TopicNameLengthExceeded usize usize
  | UnsupportedProtocolLevel u8
  | UsernameLengthExceeded usize usize

datatype NetworkError =
    ConnectionClosed | ReadFailed | ReadWouldBlock | ReadTimedOut | ReadInterrupted | WriteFailed
  | WriteWouldBlock | WriteTimedOut | WriteInterrupted | FlushFailed | AcceptFailed
  | AcceptWouldBlock | CloseFailed

datatype BrokerError =
    SessionAlreadyExists u128
  | SessionNotFound u128
  | SessionQueueFull u128 usize
  | SessionDisconnected u128
  | MaxSessionsReached usize usize
  | MaxSubscribersPerTopicReached usize usize
  | MaxTopicsReached usize usize
  | Network NetworkError
  | Protocol ProtocolError
  | BufferFull

definition BrokerError_from_NetworkError :: "NetworkError \<Rightarrow> BrokerError" where
  "BrokerError_from_NetworkError e = Network e"

definition BrokerError_from_ProtocolError :: "ProtocolError \<Rightarrow> BrokerError" where
  "BrokerError_from_ProtocolError e = Protocol e"

definition BrokerError_from_PushError :: "PushError \<Rightarrow> BrokerError" where
  "BrokerError_from_PushError e = BufferFull"

end
