(* ===== verification/Heapless.thy ===== *)
theory Heapless
  imports Utf8 Errors
begin

text \<open>
  The fixed-capacity containers of \<^verbatim>\<open>src/protocol/heapless.rs\<close>. A \<^verbatim>\<open>HeaplessVec<T, N>\<close> is a record of
  its \<^verbatim>\<open>u16\<close> length and its array; the const generic \<open>N\<close> is the length of the array. A
  \<^verbatim>\<open>HeaplessString<N>\<close> has a \<^verbatim>\<open>u8\<close> length. Every operation is translated with its index arithmetic
  and its loops; the lemmas show what it does to the contents (\<open>as_slice\<close>, \<open>as_str\<close>) and that the
  representation invariants are kept. The locale \<open>bounded_vec\<close> is the contract the other components rely
  on; \<^verbatim>\<open>HeaplessVec\<close> is its interpretation.

  The slices \<^verbatim>\<open>&self.data[..self.length as usize]\<close> are written with \<open>take\<close>: they are in range by the
  representation invariant, which every operation keeps and which no code outside the module can break,
  since the fields are private.
\<close>

section \<open>HeaplessString\<close>

record HeaplessString =
  slength :: u8
  sdata :: bytes

definition HeaplessString_new :: "usize \<Rightarrow> HeaplessString" where
  "HeaplessString_new N = \<lparr>slength = 0, sdata = replicate N 0\<rparr>"

definition HeaplessString_try_from :: "usize \<Rightarrow> bytes \<Rightarrow> (HeaplessString, PushError) result" where
  "HeaplessString_try_from N value =
     (if length value > N then Err PushError
      else Ok \<lparr>slength = of_nat (length value), sdata = put_at (replicate N 0) 0 value\<rparr>)"

definition HeaplessString_bytes :: "HeaplessString \<Rightarrow> bytes" where
  "HeaplessString_bytes s = take (unat (slength s)) (sdata s)"

definition HeaplessString_as_str :: "HeaplessString \<Rightarrow> bytes" where
  "HeaplessString_as_str s =
     (case from_utf8 (HeaplessString_bytes s) of Some str \<Rightarrow> str | None \<Rightarrow> [])"

definition HeaplessString_len :: "HeaplessString \<Rightarrow> usize" where
  "HeaplessString_len s = unat (slength s)"

definition HeaplessString_is_empty :: "HeaplessString \<Rightarrow> bool" where
  "HeaplessString_is_empty s \<longleftrightarrow> slength s = 0"

definition HeaplessString_capacity :: "HeaplessString \<Rightarrow> usize" where
  "HeaplessString_capacity s = length (sdata s)"

definition HeaplessString_clear :: "HeaplessString \<Rightarrow> HeaplessString" where
  "HeaplessString_clear s = \<lparr>slength = 0, sdata = replicate (length (sdata s)) 0\<rparr>"

text \<open>\<^verbatim>\<open>self.length += n as u8\<close> after \<open>n\<close> bytes have been copied behind the contents.\<close>

definition HeaplessString_append :: "bytes \<Rightarrow> (HeaplessString, unit, 'e) action" where
  "HeaplessString_append bs = (\<lambda>s.
     if unat (slength s) + length bs \<le> length (sdata s) then
       let s' = s\<lparr>sdata := put_at (sdata s) (unat (slength s)) bs\<rparr> in
       (case checked_add (slength s) (of_nat (length bs)) of
          Some l \<Rightarrow> (Ok (), s'\<lparr>slength := l\<rparr>)
        | None \<Rightarrow> (Panic, s'))
     else (Panic, s))"

definition HeaplessString_push :: "nat \<Rightarrow> (HeaplessString, unit, PushError) action" where
  "HeaplessString_push ch = (\<lambda>s.
     if unat (slength s) + len_utf8 ch > length (sdata s) then (Err PushError, s)
     else HeaplessString_append (encode_utf8 ch) s)"

definition HeaplessString_push_str :: "bytes \<Rightarrow> (HeaplessString, unit, PushError) action" where
  "HeaplessString_push_str str = (\<lambda>s.
     if unat (slength s) + length str > length (sdata s) then (Err PushError, s)
     else HeaplessString_append str s)"

definition HeaplessString_write_str :: "bytes \<Rightarrow> (HeaplessString, unit, unit) action" where
  "HeaplessString_write_str str = (\<lambda>s.
     let remaining = length (sdata s) - unat (slength s);
         to_copy = min (length str) remaining
     in HeaplessString_append (take to_copy str) s)"

definition HeaplessString_write_char :: "nat \<Rightarrow> (HeaplessString, unit, unit) action" where
  "HeaplessString_write_char c = HeaplessString_write_str (encode_utf8 c)"

text \<open>\<^verbatim>\<open>repeat\<close>: the loop fills the array with as many copies of the character as fit.\<close>

function HeaplessString_repeat_loop :: "nat \<Rightarrow> usize \<Rightarrow> HeaplessString \<Rightarrow> (HeaplessString, unit) result" where
  "HeaplessString_repeat_loop c i s =
     (if i + len_utf8 c \<le> length (sdata s) then
        (case checked_add (slength s) (of_nat (len_utf8 c)) of
           Some l \<Rightarrow> HeaplessString_repeat_loop c (i + len_utf8 c)
                    \<lparr>slength = l, sdata = put_at (sdata s) i (encode_utf8 c)\<rparr>
         | None \<Rightarrow> Panic)
      else Ok s)"
  by pat_completeness auto
termination
  by (relation "measure (\<lambda>(c, i, s). length (sdata s) - i)")
    (auto simp: len_utf8_progress)

definition HeaplessString_repeat :: "usize \<Rightarrow> nat \<Rightarrow> (HeaplessString, unit) result" where
  "HeaplessString_repeat N c = HeaplessString_repeat_loop c 0 (HeaplessString_new N)"

declare HeaplessString_repeat_loop.simps [simp del]

section \<open>HeaplessVec\<close>

record 'a HeaplessVec =
  vlength :: u16
  vdata :: "'a list"

definition HeaplessVec_new :: "usize \<Rightarrow> 'a \<Rightarrow> 'a HeaplessVec" where
  "HeaplessVec_new N dflt = \<lparr>vlength = 0, vdata = replicate N dflt\<rparr>"

definition HeaplessVec_len :: "'a HeaplessVec \<Rightarrow> usize" where
  "HeaplessVec_len v = unat (vlength v)"

definition HeaplessVec_is_empty :: "'a HeaplessVec \<Rightarrow> bool" where
  "HeaplessVec_is_empty v \<longleftrightarrow> vlength v = 0"

definition HeaplessVec_capacity :: "'a HeaplessVec \<Rightarrow> usize" where
  "HeaplessVec_capacity v = length (vdata v)"

definition HeaplessVec_clear :: "'a HeaplessVec \<Rightarrow> 'a HeaplessVec" where
  "HeaplessVec_clear v = v\<lparr>vlength := 0\<rparr>"

definition HeaplessVec_push :: "'a \<Rightarrow> ('a HeaplessVec, unit, PushError) action" where
  "HeaplessVec_push item = (\<lambda>v.
     if unat (vlength v) \<ge> length (vdata v) then (Err PushError, v)
     else
       let v' = v\<lparr>vdata := (vdata v)[unat (vlength v) := item]\<rparr> in
       (case checked_add (vlength v) 1 of
          Some l \<Rightarrow> (Ok (), v'\<lparr>vlength := l\<rparr>)
        | None \<Rightarrow> (Panic, v')))"

definition HeaplessVec_pop :: "'a \<Rightarrow> ('a HeaplessVec, 'a option, 'e) action" where
  "HeaplessVec_pop dflt = (\<lambda>v.
     if vlength v = 0 then (Ok None, v)
     else
       let l = vlength v - 1; v' = v\<lparr>vlength := l\<rparr> in
       (if unat l < length (vdata v)
        then (Ok (Some (vdata v ! unat l)), v'\<lparr>vdata := (vdata v)[unat l := dflt]\<rparr>)
        else (Panic, v')))"

definition HeaplessVec_as_slice :: "'a HeaplessVec \<Rightarrow> 'a list" where
  "HeaplessVec_as_slice v = take (unat (vlength v)) (vdata v)"

definition HeaplessVec_get :: "usize \<Rightarrow> 'a HeaplessVec \<Rightarrow> ('a option, 'e) result" where
  "HeaplessVec_get i v =
     (if i < unat (vlength v) then map_ok Some (index (vdata v) i) else Ok None)"

text \<open>\<^verbatim>\<open>extend_from_slice\<close>: the loop stores item \<open>i\<close> of the slice at \<open>length + i\<close>.\<close>

fun HeaplessVec_extend_loop :: "usize \<Rightarrow> 'a list \<Rightarrow> ('a list, unit, 'e) action" where
  "HeaplessVec_extend_loop k [] d = (Ok (), d)"
| "HeaplessVec_extend_loop k (x # xs) d = then_do (store k x) (\<lambda>_. HeaplessVec_extend_loop (Suc k) xs) d"

definition HeaplessVec_extend_from_slice :: "'a list \<Rightarrow> ('a HeaplessVec, unit, PushError) action" where
  "HeaplessVec_extend_from_slice xs = (\<lambda>v.
     if unat (vlength v) + length xs > length (vdata v) then (Err PushError, v)
     else
       then_do (on_field vdata (\<lambda>d w. w\<lparr>vdata := d\<rparr>) (HeaplessVec_extend_loop (unat (vlength v)) xs))
         (\<lambda>_ w. case checked_add (vlength w) (of_nat (length xs)) of
            Some l \<Rightarrow> (Ok (), w\<lparr>vlength := l\<rparr>)
          | None \<Rightarrow> (Panic, w)) v)"

function HeaplessVec_retain_loop ::
    "('a \<Rightarrow> bool) \<Rightarrow> usize \<Rightarrow> usize \<Rightarrow> usize \<Rightarrow> 'a list \<Rightarrow> (usize \<times> 'a list) option" where
  "HeaplessVec_retain_loop f read_idx len write_idx d =
     (if read_idx < len then
        (if length d \<le> read_idx then None
         else if f (d ! read_idx) then
           HeaplessVec_retain_loop f (Suc read_idx) len (Suc write_idx)
             (if write_idx \<noteq> read_idx then d[write_idx := d ! read_idx] else d)
         else HeaplessVec_retain_loop f (Suc read_idx) len write_idx d)
      else Some (write_idx, d))"
  by pat_completeness auto
termination
  by (relation "measure (\<lambda>(f, r, len, w, d). len - r)") auto

declare HeaplessVec_retain_loop.simps [simp del]

definition HeaplessVec_retain :: "('a \<Rightarrow> bool) \<Rightarrow> ('a HeaplessVec, unit, 'e) action" where
  "HeaplessVec_retain f = (\<lambda>v.
     case HeaplessVec_retain_loop f 0 (unat (vlength v)) 0 (vdata v) of
       Some (write_idx, d) \<Rightarrow> (Ok (), \<lparr>vlength = of_nat write_idx, vdata = d\<rparr>)
     | None \<Rightarrow> (Panic, v))"

text \<open>
  The loop \<^verbatim>\<open>for i in a..n { self.data[i] = self.data[i + 1].clone() }\<close>; \<open>None\<close> is the panic of an
  index out of range, here as in the loop of \<^verbatim>\<open>retain\<close>.
\<close>

function HeaplessVec_shift_loop :: "usize \<Rightarrow> usize \<Rightarrow> 'a list \<Rightarrow> 'a list option" where
  "HeaplessVec_shift_loop i n d =
     (if i < n then
        (if Suc i < length d then HeaplessVec_shift_loop (Suc i) n (d[i := d ! Suc i]) else None)
      else Some d)"
  by pat_completeness auto
termination
  by (relation "measure (\<lambda>(i, n, d). n - i)") auto

declare HeaplessVec_shift_loop.simps [simp del]

definition HeaplessVec_remove :: "usize \<Rightarrow> ('a HeaplessVec, unit, 'e) action" where
  "HeaplessVec_remove i = (\<lambda>v.
     if i \<ge> unat (vlength v) then (Panic, v)
     else case HeaplessVec_shift_loop i (unat (vlength v) - 1) (vdata v) of
       Some d \<Rightarrow> (Ok (), \<lparr>vlength = vlength v - 1, vdata = d\<rparr>)
     | None \<Rightarrow> (Panic, v))"

definition HeaplessVec_dequeue_front :: "('a HeaplessVec, 'a option, 'e) action" where
  "HeaplessVec_dequeue_front = (\<lambda>v.
     if vlength v = 0 then (Ok None, v)
     else if vdata v = [] then (Panic, v)
     else
       let item = vdata v ! 0 in
       (case HeaplessVec_shift_loop 0 (unat (vlength v) - 1) (vdata v) of
          Some d \<Rightarrow> (Ok (Some item), \<lparr>vlength = vlength v - 1, vdata = d\<rparr>)
        | None \<Rightarrow> (Panic, v)))"

definition HeaplessVec_front :: "'a HeaplessVec \<Rightarrow> ('a option, 'e) result" where
  "HeaplessVec_front v = (if vlength v = 0 then Ok None else map_ok Some (index (vdata v) 0))"

text \<open>\<^verbatim>\<open>HeaplessVec<u8, N>::repeat\<close>\<close>

function HeaplessVec_repeat_loop :: "'a \<Rightarrow> usize \<Rightarrow> 'a HeaplessVec \<Rightarrow> ('a HeaplessVec, unit) result" where
  "HeaplessVec_repeat_loop n i v =
     (if i < length (vdata v) then
        (case checked_add (vlength v) 1 of
           Some l \<Rightarrow> HeaplessVec_repeat_loop n (Suc i) \<lparr>vlength = l, vdata = (vdata v)[i := n]\<rparr>
         | None \<Rightarrow> Panic)
      else Ok v)"
  by pat_completeness auto
termination
  by (relation "measure (\<lambda>(n, i, v). length (vdata v) - i)") auto

declare HeaplessVec_repeat_loop.simps [simp del]

definition HeaplessVec_repeat :: "usize \<Rightarrow> u8 \<Rightarrow> (u8 HeaplessVec, unit) result" where
  "HeaplessVec_repeat N n = HeaplessVec_repeat_loop n 0 (HeaplessVec_new N 0)"

text \<open>The iterator by value.\<close>

record 'a HeaplessVecIntoIterator =
  ivec :: "'a HeaplessVec"
  iindex :: u16

definition HeaplessVec_into_iter :: "'a HeaplessVec \<Rightarrow> 'a HeaplessVecIntoIterator" where
  "HeaplessVec_into_iter v = \<lparr>ivec = v, iindex = 0\<rparr>"

definition HeaplessVecIntoIterator_next ::
    "'a \<Rightarrow> ('a HeaplessVecIntoIterator, 'a option, 'e) action" where
  "HeaplessVecIntoIterator_next dflt = (\<lambda>it.
     let v = ivec it; i = unat (iindex it) in
     if iindex it \<ge> vlength v then (Ok None, it)
     else if length (vdata v) \<le> i then (Panic, it)
     else
       let item = vdata v ! i; v1 = v\<lparr>vdata := (vdata v)[i := dflt]\<rparr> in
       (case checked_add (iindex it) 1 of
          Some j \<Rightarrow>
            (Ok (Some item),
             \<lparr>ivec = (if j = vlength v then v1\<lparr>vlength := 0\<rparr> else v1), iindex = j\<rparr>)
        | None \<Rightarrow> (Panic, it\<lparr>ivec := v1\<rparr>)))"

text \<open>
  What a \<^verbatim>\<open>for\<close> loop over a vector by value visits: the items of successive calls of \<^verbatim>\<open>next\<close>, up to
  the first \<^verbatim>\<open>None\<close>.
\<close>

function HeaplessVec_collect :: "'a \<Rightarrow> 'a HeaplessVecIntoIterator \<Rightarrow> ('a list, unit) result" where
  "HeaplessVec_collect dflt it =
     (case HeaplessVecIntoIterator_next dflt it of
        (Ok (Some x), it') \<Rightarrow> map_ok (\<lambda>xs. x # xs) (HeaplessVec_collect dflt it')
      | (Ok None, it') \<Rightarrow> Ok []
      | (Err e, it') \<Rightarrow> Err e
      | (Panic, it') \<Rightarrow> Panic)"
  by pat_completeness auto
termination
  by (relation "measure (\<lambda>(d, it). 2 ^ 16 - unat (iindex it))")
    (auto simp: HeaplessVecIntoIterator_next_def Let_def checked_add_def unat_word_ariths
      split: if_splits)

declare HeaplessVec_collect.simps [simp del]

section \<open>The contents of a vector\<close>

text \<open>
  \<open>vec_wf\<close> is the representation invariant: the length is at most the capacity, and the capacity is one
  the \<^verbatim>\<open>u16\<close> length can count to (every configuration of the repository has capacities of at most 1024).
\<close>

definition vec_wf :: "'a HeaplessVec \<Rightarrow> bool" where
  "vec_wf v \<longleftrightarrow> unat (vlength v) \<le> length (vdata v) \<and> length (vdata v) < 2 ^ 16"

lemmas vec_defs = HeaplessVec_as_slice_def HeaplessVec_capacity_def HeaplessVec_len_def
  HeaplessVec_is_empty_def HeaplessVec_clear_def HeaplessVec_new_def

lemma length_as_slice: "vec_wf v \<Longrightarrow> length (HeaplessVec_as_slice v) = unat (vlength v)"
  by (simp add: vec_wf_def HeaplessVec_as_slice_def)

lemma HeaplessVec_new_wf:
  assumes "N < 2 ^ 16"
  shows "vec_wf (HeaplessVec_new N x)" "HeaplessVec_as_slice (HeaplessVec_new N x) = []"
    "HeaplessVec_capacity (HeaplessVec_new N x) = N"
  using assms by (simp_all add: vec_wf_def vec_defs)

lemma HeaplessVec_len_as_slice: "vec_wf v \<Longrightarrow> HeaplessVec_len v = length (HeaplessVec_as_slice v)"
  by (simp add: length_as_slice HeaplessVec_len_def)

lemma HeaplessVec_is_empty_iff: "vec_wf v \<Longrightarrow> HeaplessVec_is_empty v \<longleftrightarrow> HeaplessVec_as_slice v = []"
  by (simp add: vec_wf_def vec_defs unat_eq_0) (auto simp: unat_eq_zero)

lemma HeaplessVec_clear_wf:
  "vec_wf v \<Longrightarrow> vec_wf (HeaplessVec_clear v)" "HeaplessVec_as_slice (HeaplessVec_clear v) = []"
  "HeaplessVec_capacity (HeaplessVec_clear v) = HeaplessVec_capacity v"
  by (simp_all add: vec_wf_def vec_defs)

lemma HeaplessVec_get_eq:
  "vec_wf v \<Longrightarrow> HeaplessVec_get i v =
     Ok (if i < length (HeaplessVec_as_slice v) then Some (HeaplessVec_as_slice v ! i) else None)"
  by (simp add: HeaplessVec_get_def index_def length_as_slice vec_wf_def HeaplessVec_as_slice_def)

lemma vec_length_inc:
  assumes "vec_wf v" "unat (vlength v) < length (vdata v)"
  shows "checked_add (vlength v) 1 = Some (vlength v + 1)" "unat (vlength v + 1) = Suc (unat (vlength v))"
proof -
  have "unat (vlength v) + unat (1 :: u16) < 2 ^ LENGTH(16)" using assms by (simp add: vec_wf_def)
  then show "checked_add (vlength v) 1 = Some (vlength v + 1)"
    and "unat (vlength v + 1) = Suc (unat (vlength v))"
    by (simp_all add: checked_add_Some)
qed

lemma vec_length_dec: "vlength v \<noteq> 0 \<Longrightarrow> unat (vlength v - 1) = unat (vlength v) - 1"
  by (simp add: unat_minus_one)

lemma HeaplessVec_push_full:
  "vec_wf v \<Longrightarrow> length (HeaplessVec_as_slice v) = HeaplessVec_capacity v \<Longrightarrow>
     HeaplessVec_push x v = (Err PushError, v)"
  by (simp add: HeaplessVec_push_def length_as_slice HeaplessVec_capacity_def)

lemma HeaplessVec_push_room:
  assumes "vec_wf v" "length (HeaplessVec_as_slice v) < HeaplessVec_capacity v"
  shows "\<exists>v'. HeaplessVec_push x v = (Ok (), v') \<and> vec_wf v' \<and>
     HeaplessVec_as_slice v' = HeaplessVec_as_slice v @ [x] \<and>
     HeaplessVec_capacity v' = HeaplessVec_capacity v"
proof -
  have lt: "unat (vlength v) < length (vdata v)"
    using assms by (simp add: length_as_slice HeaplessVec_capacity_def)
  then show ?thesis
    using assms(1) vec_length_inc [OF assms(1) lt]
    by (simp add: HeaplessVec_push_def vec_wf_def vec_defs take_Suc_conv_app_nth)
qed

lemma HeaplessVec_shift_loop_eq:
  "i \<le> n \<Longrightarrow> n < length d \<Longrightarrow>
     HeaplessVec_shift_loop i n d = Some (take i d @ take (n - i) (drop (Suc i) d) @ drop n d)"
proof (induction i n d rule: HeaplessVec_shift_loop.induct)
  case (1 i n d)
  show ?case
  proof (cases "i < n")
    case True
    with 1 have "HeaplessVec_shift_loop i n d = HeaplessVec_shift_loop (Suc i) n (d[i := d ! Suc i])"
      by (subst HeaplessVec_shift_loop.simps) simp
    also have "\<dots> = Some (take (Suc i) (d[i := d ! Suc i]) @
        take (n - Suc i) (drop (Suc (Suc i)) (d[i := d ! Suc i])) @ drop n (d[i := d ! Suc i]))"
      using True 1 by simp
    also have "take (Suc i) (d[i := d ! Suc i]) = take i d @ [d ! Suc i]"
      using True 1 by (simp add: take_Suc_conv_app_nth)
    also have "take (n - i) (drop (Suc i) d) = d ! Suc i # take (n - Suc i) (drop (Suc (Suc i)) d)"
      using True 1 by (simp add: Cons_nth_drop_Suc [symmetric] Suc_diff_Suc [symmetric])
    ultimately show ?thesis using True by simp
  next
    case False
    with 1 show ?thesis by (subst HeaplessVec_shift_loop.simps) simp
  qed
qed

lemma HeaplessVec_remove_eq:
  assumes "vec_wf v" "i < length (HeaplessVec_as_slice v)"
  shows "\<exists>v'. HeaplessVec_remove i v = (Ok (), v') \<and> vec_wf v' \<and>
     HeaplessVec_as_slice v' = take i (HeaplessVec_as_slice v) @ drop (Suc i) (HeaplessVec_as_slice v) \<and>
     HeaplessVec_capacity v' = HeaplessVec_capacity v"
proof -
  let ?n = "unat (vlength v)"
  have i: "i < ?n" "?n \<le> length (vdata v)"
    using assms by (simp_all add: length_as_slice vec_wf_def)
  then have n: "unat (vlength v - 1) = ?n - 1" by (intro vec_length_dec) auto
  have "i \<le> ?n - Suc 0" "?n - Suc 0 < length (vdata v)" using i by linarith+
  then show ?thesis
    using i n assms(1)
    by (simp add: HeaplessVec_remove_def HeaplessVec_shift_loop_eq vec_wf_def vec_defs drop_take
      min.absorb1 min.absorb2)
qed

lemma HeaplessVec_dequeue_front_eq:
  assumes "vec_wf v"
  shows "\<exists>v'. HeaplessVec_dequeue_front v =
       (Ok (case HeaplessVec_as_slice v of [] \<Rightarrow> None | x # _ \<Rightarrow> Some x), v') \<and> vec_wf v' \<and>
     HeaplessVec_as_slice v' = tl (HeaplessVec_as_slice v) \<and>
     HeaplessVec_capacity v' = HeaplessVec_capacity v"
proof (cases "vlength v = 0")
  case True
  then show ?thesis using assms by (simp add: HeaplessVec_dequeue_front_def vec_defs)
next
  case False
  let ?n = "unat (vlength v)"
  have n: "0 < ?n" "?n \<le> length (vdata v)" "unat (vlength v - 1) = ?n - 1"
    using False assms by (simp_all add: vec_wf_def vec_length_dec unat_gt_0)
  then obtain x xs where d: "vdata v = x # xs" by (cases "vdata v") auto
  have "?n - Suc 0 < length (vdata v)" using n by linarith
  moreover have "take ?n (x # xs) = x # take (?n - 1) xs" using n(1) by (cases ?n) auto
  ultimately show ?thesis
    using False n assms d
    by (simp add: HeaplessVec_dequeue_front_def HeaplessVec_shift_loop_eq vec_wf_def vec_defs index_def)
qed

lemma HeaplessVec_retain_loop_eq:
  "w \<le> r \<Longrightarrow> r \<le> len \<Longrightarrow> len \<le> length d \<Longrightarrow>
     \<exists>w' d'. HeaplessVec_retain_loop f r len w d = Some (w', d') \<and> length d' = length d \<and> w' \<le> len \<and>
       take w' d' = take w d @ filter f (take (len - r) (drop r d))"
proof (induction f r len w d rule: HeaplessVec_retain_loop.induct)
  case (1 f r len w d)
  show ?case
  proof (cases "r < len")
    case False
    with 1 show ?thesis by (subst HeaplessVec_retain_loop.simps) simp
  next
    case True
    then have hd: "take (len - r) (drop r d) = d ! r # take (len - Suc r) (drop (Suc r) d)"
      using 1 by (simp add: Cons_nth_drop_Suc [symmetric] Suc_diff_Suc [symmetric])
    show ?thesis
    proof (cases "f (d ! r)")
      case keep: True
      have upd: "(if w \<noteq> r then d[w := d ! r] else d) = d[w := d ! r]" by simp
      have "take (Suc w) (d[w := d ! r]) = take w d @ [d ! r]"
        using True 1 by (simp add: take_Suc_conv_app_nth)
      then show ?thesis
        using True keep 1 hd by (subst HeaplessVec_retain_loop.simps) (simp add: upd del: if_weak_cong)
    next
      case drop: False
      then show ?thesis using True 1 hd by (subst HeaplessVec_retain_loop.simps) simp
    qed
  qed
qed

lemma HeaplessVec_retain_eq:
  assumes "vec_wf v"
  shows "\<exists>v'. HeaplessVec_retain f v = (Ok (), v') \<and> vec_wf v' \<and>
     HeaplessVec_as_slice v' = filter f (HeaplessVec_as_slice v) \<and>
     HeaplessVec_capacity v' = HeaplessVec_capacity v"
proof -
  obtain w d where "HeaplessVec_retain_loop f 0 (unat (vlength v)) 0 (vdata v) = Some (w, d)"
    "length d = length (vdata v)" "w \<le> unat (vlength v)"
    "take w d = filter f (take (unat (vlength v)) (vdata v))"
    using HeaplessVec_retain_loop_eq [of 0 0 "unat (vlength v)" "vdata v" f] assms
    by (auto simp: vec_wf_def)
  then show ?thesis
    using assms by (simp add: HeaplessVec_retain_def vec_wf_def vec_defs unat_of_nat)
qed

lemma HeaplessVec_extend_loop_eq:
  "k + length xs \<le> length d \<Longrightarrow> HeaplessVec_extend_loop k xs d = (Ok (), put_at d k xs)"
proof (induction xs arbitrary: k d)
  case Nil
  then show ?case by simp
next
  case (Cons x xs)
  then have "put_at (d[k := x]) (Suc k) xs = put_at d k (x # xs)"
    using put_at_append [of k "[x]" xs d] by (simp add: list_update_put_at)
  with Cons show ?case by (simp add: store_def then_do_apply)
qed

lemma HeaplessVec_extend_full:
  "vec_wf v \<Longrightarrow> HeaplessVec_capacity v < length (HeaplessVec_as_slice v) + length xs \<Longrightarrow>
     HeaplessVec_extend_from_slice xs v = (Err PushError, v)"
  by (simp add: HeaplessVec_extend_from_slice_def length_as_slice HeaplessVec_capacity_def)

lemma HeaplessVec_extend_room:
  assumes "vec_wf v" "length (HeaplessVec_as_slice v) + length xs \<le> HeaplessVec_capacity v"
  shows "\<exists>v'. HeaplessVec_extend_from_slice xs v = (Ok (), v') \<and> vec_wf v' \<and>
     HeaplessVec_as_slice v' = HeaplessVec_as_slice v @ xs \<and>
     HeaplessVec_capacity v' = HeaplessVec_capacity v"
proof -
  let ?n = "unat (vlength v)" and ?l = "of_nat (length xs) :: u16"
  have n: "?n + length xs \<le> length (vdata v)" "length (vdata v) < 2 ^ 16"
    using assms by (simp_all add: length_as_slice HeaplessVec_capacity_def vec_wf_def)
  then have l: "unat ?l = length xs" by (simp add: unat_of_nat)
  with n have "?n + unat ?l < 2 ^ LENGTH(16)" by simp
  note add = checked_add_Some [OF this]
  show ?thesis
    using n l add assms(1)
    by (simp add: HeaplessVec_extend_from_slice_def then_do_apply on_field_def
      HeaplessVec_extend_loop_eq vec_wf_def vec_defs put_at_def)
qed

text \<open>
  A vector that was filled from a slice and not changed since: the slots behind its contents still hold
  the default value. Two such vectors with the same contents are equal in the sense of the derived
  \<^verbatim>\<open>PartialEq\<close>, which compares the whole array.
\<close>

definition vec_padded :: "'a \<Rightarrow> 'a HeaplessVec \<Rightarrow> bool" where
  "vec_padded x v \<longleftrightarrow> vec_wf v \<and>
     drop (unat (vlength v)) (vdata v) = replicate (length (vdata v) - unat (vlength v)) x"

lemma vec_padded_eqI:
  assumes "vec_padded x v" "vec_padded x w" "HeaplessVec_as_slice v = HeaplessVec_as_slice w"
    "HeaplessVec_capacity v = HeaplessVec_capacity w"
  shows "v = w"
proof -
  have l: "vlength v = vlength w"
    using assms length_as_slice unfolding vec_padded_def by (metis word_unat_eq_iff)
  moreover have "vdata v = vdata w"
    using assms l unfolding vec_padded_def vec_defs by (metis append_take_drop_id)
  ultimately show ?thesis by simp
qed

lemma HeaplessVec_extend_new:
  assumes "length xs \<le> N" "N < 2 ^ 16"
  shows "\<exists>v. HeaplessVec_extend_from_slice xs (HeaplessVec_new N x) = (Ok (), v) \<and> vec_padded x v \<and>
    HeaplessVec_as_slice v = xs \<and> HeaplessVec_capacity v = N"
proof -
  have l: "unat (of_nat (length xs) :: u16) = length xs" using assms by (simp add: unat_of_nat)
  then have "unat (0 :: u16) + unat (of_nat (length xs) :: u16) < 2 ^ LENGTH(16)" using assms by simp
  note add = checked_add_Some [OF this]
  show ?thesis
    using assms l add
    by (simp add: HeaplessVec_extend_from_slice_def then_do_apply on_field_def
      HeaplessVec_extend_loop_eq vec_padded_def vec_wf_def vec_defs put_at_def)
qed

lemma HeaplessVec_extend_new_full:
  "N < length xs \<Longrightarrow> HeaplessVec_extend_from_slice xs (HeaplessVec_new N x) = (Err PushError, HeaplessVec_new N x)"
  by (simp add: HeaplessVec_extend_from_slice_def HeaplessVec_new_def)

lemma HeaplessVec_rebuild:
  assumes "vec_padded x v"
  shows "HeaplessVec_extend_from_slice (HeaplessVec_as_slice v) (HeaplessVec_new (HeaplessVec_capacity v) x) =
    (Ok (), v)"
proof -
  have "length (HeaplessVec_as_slice v) \<le> HeaplessVec_capacity v" "HeaplessVec_capacity v < 2 ^ 16"
    using assms by (simp_all add: vec_padded_def vec_wf_def HeaplessVec_as_slice_def HeaplessVec_capacity_def)
  from HeaplessVec_extend_new [OF this] vec_padded_eqI [OF _ assms] show ?thesis by blast
qed

lemma HeaplessVec_pop_eq:
  assumes "vec_wf v"
  shows "\<exists>v'. HeaplessVec_pop dflt v =
       (Ok (if HeaplessVec_as_slice v = [] then None else Some (last (HeaplessVec_as_slice v))), v') \<and>
     vec_wf v' \<and> HeaplessVec_as_slice v' = butlast (HeaplessVec_as_slice v) \<and>
     HeaplessVec_capacity v' = HeaplessVec_capacity v"
proof (cases "vlength v = 0")
  case True
  then show ?thesis using assms by (simp add: HeaplessVec_pop_def vec_defs)
next
  case False
  let ?n = "unat (vlength v)"
  have n: "0 < ?n" "?n \<le> length (vdata v)" "unat (vlength v - 1) = ?n - 1"
    using False assms by (simp_all add: vec_wf_def vec_length_dec unat_gt_0)
  then have ne: "take ?n (vdata v) \<noteq> []" by auto
  moreover have "last (take ?n (vdata v)) = vdata v ! (?n - 1)"
    using n by (simp add: last_conv_nth [OF ne] min.absorb2)
  ultimately show ?thesis
    using False n assms
    by (simp add: HeaplessVec_pop_def Let_def vec_wf_def vec_defs butlast_conv_take)
qed

lemma HeaplessVec_collect_from:
  "unat (vlength (ivec it)) \<le> length (vdata (ivec it)) \<Longrightarrow>
     HeaplessVec_collect dflt it =
       Ok (drop (unat (iindex it)) (HeaplessVec_as_slice (ivec it)))"
proof (induction dflt it rule: HeaplessVec_collect.induct)
  case (1 dflt it)
  let ?i = "unat (iindex it)" and ?n = "unat (vlength (ivec it))" and ?d = "vdata (ivec it)"
  show ?case
  proof (cases "iindex it \<ge> vlength (ivec it)")
    case True
    then show ?thesis
      by (subst HeaplessVec_collect.simps)
        (simp add: HeaplessVecIntoIterator_next_def HeaplessVec_as_slice_def word_le_nat_alt)
  next
    case False
    then have lt: "?i < ?n" by (simp add: word_le_nat_alt)
    then have "?i + 1 < 65536" using unat_u16_less [of "vlength (ivec it)"] by linarith
    then have "?i + unat (1 :: u16) < 2 ^ LENGTH(16)" by simp
    note add = checked_add_Some [OF this]
    define v1 where "v1 = (ivec it)\<lparr>vdata := ?d[?i := dflt]\<rparr>"
    define it' where "it' = \<lparr>ivec = (if iindex it + 1 = vlength (ivec it) then v1\<lparr>vlength := 0\<rparr> else v1),
      iindex = iindex it + 1\<rparr>"
    have nx: "HeaplessVecIntoIterator_next dflt it = (Ok (Some (?d ! ?i)) :: (_, unit) result, it')"
      using False lt 1 add by (simp add: HeaplessVecIntoIterator_next_def Let_def it'_def v1_def)
    have wf: "unat (vlength (ivec it')) \<le> length (vdata (ivec it'))"
      using 1 by (simp add: it'_def v1_def)
    have "iindex it + 1 = vlength (ivec it) \<longleftrightarrow> Suc ?i = ?n"
      using add(2) by (auto simp: word_unat_eq_iff)
    then have "drop (unat (iindex it')) (HeaplessVec_as_slice (ivec it')) = drop (Suc ?i) (take ?n ?d)"
      using add(2) by (simp add: it'_def v1_def HeaplessVec_as_slice_def drop_take)
    moreover have "drop ?i (take ?n ?d) = ?d ! ?i # drop (Suc ?i) (take ?n ?d)"
      using lt 1 by (simp add: Cons_nth_drop_Suc [symmetric])
    ultimately show ?thesis
      using "1.IH" [OF nx [symmetric] refl refl wf] nx
      by (subst HeaplessVec_collect.simps) (simp add: HeaplessVec_as_slice_def)
  qed
qed

lemma HeaplessVec_collect_into_iter:
  "vec_wf v \<Longrightarrow> HeaplessVec_collect dflt (HeaplessVec_into_iter v) = Ok (HeaplessVec_as_slice v)"
  by (simp add: HeaplessVec_collect_from HeaplessVec_into_iter_def vec_wf_def)

section \<open>The contract of a bounded vector\<close>

primrec push_all :: "('a \<Rightarrow> ('v, unit, 'e) action) \<Rightarrow> 'a list \<Rightarrow> ('v, unit, 'e) action" where
  "push_all push [] = ret ()"
| "push_all push (x # xs) = then_do (push x) (\<lambda>_. push_all push xs)"

primrec dequeue_many :: "('v, 'a option, 'e) action \<Rightarrow> nat \<Rightarrow> ('v, 'a option list, 'e) action" where
  "dequeue_many deq 0 = ret []"
| "dequeue_many deq (Suc n) = then_do deq (\<lambda>x. then_do (dequeue_many deq n) (\<lambda>xs. ret (x # xs)))"

locale bounded_vec =
  fixes items :: "'v \<Rightarrow> 'a list" and capacity :: "'v \<Rightarrow> nat" and wf :: "'v \<Rightarrow> bool"
    and push :: "'a \<Rightarrow> ('v, unit, PushError) action"
    and remove :: "nat \<Rightarrow> ('v, unit, 'e) action"
  assumes within_capacity: "wf v \<Longrightarrow> length (items v) \<le> capacity v"
    and push_room: "wf v \<Longrightarrow> length (items v) < capacity v \<Longrightarrow>
      \<exists>v'. push x v = (Ok (), v') \<and> wf v' \<and> items v' = items v @ [x] \<and> capacity v' = capacity v"
    and push_full: "wf v \<Longrightarrow> length (items v) = capacity v \<Longrightarrow> push x v = (Err PushError, v)"
    and remove_item: "wf v \<Longrightarrow> i < length (items v) \<Longrightarrow>
      \<exists>v'. remove i v = (Ok (), v') \<and> wf v' \<and> items v' = take i (items v) @ drop (Suc i) (items v) \<and>
        capacity v' = capacity v"
begin

lemma push_cases:
  assumes "wf v"
  obtains (room) v' where "length (items v) < capacity v" "push x v = (Ok (), v')" "wf v'"
      "items v' = items v @ [x]" "capacity v' = capacity v"
    | (full) "length (items v) = capacity v" "push x v = (Err PushError, v)"
  using push_room [OF assms] push_full [OF assms] within_capacity [OF assms]
  by (metis le_neq_implies_less)

lemma push_all_room:
  "wf v \<Longrightarrow> length (items v) + length xs \<le> capacity v \<Longrightarrow>
     \<exists>v'. push_all push xs v = (Ok (), v') \<and> wf v' \<and> items v' = items v @ xs \<and> capacity v' = capacity v"
proof (induction xs arbitrary: v)
  case Nil
  then show ?case by simp
next
  case (Cons x xs)
  from Cons.prems have "length (items v) < capacity v" by simp
  with Cons.prems(1) obtain v1 where v1: "push x v = (Ok (), v1)" "wf v1" "items v1 = items v @ [x]"
    "capacity v1 = capacity v" using push_room by blast
  with Cons.IH [of v1] Cons.prems show ?case by (auto simp: then_do_cases(1))
qed

end

locale fifo_queue = bounded_vec items capacity wf push remove
  for items :: "'v \<Rightarrow> 'a list" and capacity and wf and push and remove :: "nat \<Rightarrow> ('v, unit, 'e) action" +
  fixes dequeue :: "('v, 'a option, 'e) action"
  assumes dequeue_item: "wf v \<Longrightarrow>
      \<exists>v'. dequeue v = (Ok (case items v of [] \<Rightarrow> None | x # _ \<Rightarrow> Some x), v') \<and> wf v' \<and>
        items v' = tl (items v) \<and> capacity v' = capacity v"
begin

lemma dequeue_many_items:
  "wf v \<Longrightarrow> n \<le> length (items v) \<Longrightarrow>
     \<exists>v'. dequeue_many dequeue n v = (Ok (map Some (take n (items v))), v') \<and> wf v' \<and>
       items v' = drop n (items v)"
proof (induction n arbitrary: v)
  case 0
  then show ?case by simp
next
  case (Suc n)
  then obtain x xs where xs: "items v = x # xs" by (cases "items v") auto
  from dequeue_item [OF Suc.prems(1)] obtain v1 where v1: "dequeue v = (Ok (Some x), v1)" "wf v1"
    "items v1 = xs" using xs by auto
  with Suc.IH [of v1] Suc.prems xs show ?case by (auto simp: then_do_cases(1))
qed

lemma first_in_first_out:
  assumes "wf v" "items v = []" "length xs \<le> capacity v"
  shows "\<exists>v1 v2. push_all push xs v = (Ok (), v1) \<and>
    dequeue_many dequeue (length xs) v1 = (Ok (map Some xs), v2) \<and> items v2 = []"
proof -
  from push_all_room [OF assms(1), of xs] assms obtain v1 where v1: "push_all push xs v = (Ok (), v1)"
    "wf v1" "items v1 = xs" by auto
  with dequeue_many_items [of v1 "length xs"] show ?thesis by auto
qed

end

interpretation hv: fifo_queue HeaplessVec_as_slice HeaplessVec_capacity vec_wf HeaplessVec_push
    HeaplessVec_remove HeaplessVec_dequeue_front
proof
  fix v :: "'a HeaplessVec"
  assume "vec_wf v"
  then show "length (HeaplessVec_as_slice v) \<le> HeaplessVec_capacity v"
    by (simp add: length_as_slice HeaplessVec_capacity_def vec_wf_def)
qed (rule HeaplessVec_push_room HeaplessVec_push_full HeaplessVec_remove_eq HeaplessVec_dequeue_front_eq;
  assumption)+

section \<open>The contents of a string\<close>

text \<open>
  \<open>str_wf\<close>: the length is in range, the capacity is one the \<^verbatim>\<open>u8\<close> length can count to, and the bytes
  behind the contents are zero. \<open>str_ok\<close> adds that the contents are text.
\<close>

definition str_wf :: "HeaplessString \<Rightarrow> bool" where
  "str_wf s \<longleftrightarrow> unat (slength s) \<le> length (sdata s) \<and> length (sdata s) < 2 ^ 8 \<and>
     drop (unat (slength s)) (sdata s) = replicate (length (sdata s) - unat (slength s)) 0"

definition str_ok :: "HeaplessString \<Rightarrow> bool" where
  "str_ok s \<longleftrightarrow> str_wf s \<and> valid_utf8 (HeaplessString_bytes s)"

lemma length_HeaplessString_bytes: "str_wf s \<Longrightarrow> length (HeaplessString_bytes s) = unat (slength s)"
  by (simp add: str_wf_def HeaplessString_bytes_def)

lemma HeaplessString_len_eq: "str_wf s \<Longrightarrow> HeaplessString_len s = length (HeaplessString_bytes s)"
  by (simp add: HeaplessString_len_def length_HeaplessString_bytes)

lemma HeaplessString_is_empty_eq: "str_wf s \<Longrightarrow> HeaplessString_is_empty s \<longleftrightarrow> HeaplessString_bytes s = []"
  by (metis HeaplessString_is_empty_def length_0_conv length_HeaplessString_bytes unat_eq_zero)

lemma HeaplessString_as_str_eq: "str_ok s \<Longrightarrow> HeaplessString_as_str s = HeaplessString_bytes s"
  by (simp add: HeaplessString_as_str_def from_utf8_def str_ok_def)

lemma str_wf_sdata:
  "str_wf s \<Longrightarrow> sdata s = HeaplessString_bytes s @ replicate (length (sdata s) - unat (slength s)) 0"
  unfolding HeaplessString_bytes_def str_wf_def by (metis append_take_drop_id)

lemma str_wf_eqI:
  assumes "str_wf s" "str_wf t" "HeaplessString_capacity s = HeaplessString_capacity t"
    "HeaplessString_bytes s = HeaplessString_bytes t"
  shows "s = t"
proof -
  have l: "slength s = slength t"
    using assms length_HeaplessString_bytes by (metis word_unat_eq_iff)
  moreover have "sdata s = sdata t"
    using assms l str_wf_sdata [OF assms(1)] str_wf_sdata [OF assms(2)]
    by (simp add: HeaplessString_capacity_def)
  ultimately show ?thesis by simp
qed

lemma HeaplessString_try_from_long: "N < length v \<Longrightarrow> HeaplessString_try_from N v = Err PushError"
  by (simp add: HeaplessString_try_from_def)

lemma HeaplessString_try_from_fits:
  assumes "length v \<le> N" "N < 2 ^ 8"
  shows "\<exists>s. HeaplessString_try_from N v = Ok s \<and> str_wf s \<and> HeaplessString_bytes s = v \<and>
    HeaplessString_capacity s = N"
  using assms
  by (simp add: HeaplessString_try_from_def str_wf_def HeaplessString_bytes_def put_at_def unat_of_nat
    HeaplessString_capacity_def)

lemma HeaplessString_try_from_bytes:
  assumes "str_wf s"
  shows "HeaplessString_try_from (HeaplessString_capacity s) (HeaplessString_bytes s) = Ok s"
proof -
  have "length (HeaplessString_bytes s) \<le> HeaplessString_capacity s" "HeaplessString_capacity s < 2 ^ 8"
    using assms by (simp_all add: str_wf_def HeaplessString_bytes_def HeaplessString_capacity_def)
  from HeaplessString_try_from_fits [OF this] show ?thesis
    using str_wf_eqI assms by blast
qed

lemma HeaplessString_append_eq:
  assumes "str_wf s" "length (HeaplessString_bytes s) + length bs \<le> HeaplessString_capacity s"
  shows "\<exists>s'. HeaplessString_append bs s = (Ok (), s') \<and> str_wf s' \<and>
    HeaplessString_bytes s' = HeaplessString_bytes s @ bs \<and>
    HeaplessString_capacity s' = HeaplessString_capacity s"
proof -
  let ?n = "unat (slength s)" and ?l = "of_nat (length bs) :: u8"
  have n: "?n + length bs \<le> length (sdata s)" "length (sdata s) < 2 ^ 8"
    using assms by (simp_all add: length_HeaplessString_bytes HeaplessString_capacity_def str_wf_def)
  then have l: "unat ?l = length bs" by (simp add: unat_of_nat)
  with n have "?n + unat ?l < 2 ^ LENGTH(8)" by simp
  note add = checked_add_Some [OF this]
  have z: "drop (?n + length bs) (sdata s) = replicate (length (sdata s) - (?n + length bs)) 0"
    using assms(1) by (simp add: str_wf_def add.commute drop_drop [symmetric] del: drop_drop)
  show ?thesis
    using n l add z assms(1)
    by (simp add: HeaplessString_append_def Let_def str_wf_def HeaplessString_bytes_def
      HeaplessString_capacity_def put_at_def)
qed

lemma HeaplessString_write_str_eq:
  assumes "str_wf s"
  shows "\<exists>s'. HeaplessString_write_str t s = (Ok (), s') \<and> str_wf s' \<and>
    HeaplessString_bytes s' = take (HeaplessString_capacity s) (HeaplessString_bytes s @ t) \<and>
    HeaplessString_capacity s' = HeaplessString_capacity s"
proof -
  let ?k = "min (length t) (length (sdata s) - unat (slength s))"
  have fits: "length (HeaplessString_bytes s) + length (take ?k t) \<le> HeaplessString_capacity s"
    using assms by (auto simp: length_HeaplessString_bytes HeaplessString_capacity_def str_wf_def)
  have "take (HeaplessString_capacity s) (HeaplessString_bytes s @ t) =
      HeaplessString_bytes s @ take ?k t"
    using assms by (auto simp: length_HeaplessString_bytes HeaplessString_capacity_def str_wf_def min_def)
  then show ?thesis
    unfolding HeaplessString_write_str_def Let_def
    by (simp only:) (rule HeaplessString_append_eq [OF assms fits])
qed

lemma HeaplessString_new_wf:
  assumes "N < 2 ^ 8"
  shows "str_wf (HeaplessString_new N)" "HeaplessString_bytes (HeaplessString_new N) = []"
    "HeaplessString_capacity (HeaplessString_new N) = N"
  using assms
  by (simp_all add: str_wf_def HeaplessString_new_def HeaplessString_bytes_def HeaplessString_capacity_def)

lemma HeaplessString_push_eq:
  assumes "str_ok s" "is_char c"
  shows "len_utf8 c + length (HeaplessString_bytes s) \<le> HeaplessString_capacity s \<Longrightarrow>
      \<exists>s'. HeaplessString_push c s = (Ok (), s') \<and> str_ok s' \<and>
        HeaplessString_bytes s' = HeaplessString_bytes s @ encode_utf8 c"
    and "HeaplessString_capacity s < len_utf8 c + length (HeaplessString_bytes s) \<Longrightarrow>
      HeaplessString_push c s = (Err PushError, s)"
  using assms HeaplessString_append_eq [of s "encode_utf8 c"] valid_utf8_encode_utf8 [OF assms(2)]
  by (auto simp: HeaplessString_push_def str_ok_def length_HeaplessString_bytes valid_utf8_append
    HeaplessString_capacity_def add.commute)

section \<open>Properties\<close>

text \<open>
  A \<^verbatim>\<open>HeaplessVec\<close> that is used as a queue is first-in first-out: from an empty vector, pushing as many
  items as the capacity allows succeeds, and as many calls of \<^verbatim>\<open>dequeue_front\<close> return exactly these items in
  order and leave it empty.
\<close>

theorem vec_first_in_first_out:
  assumes "vec_wf v" "HeaplessVec_as_slice v = []" "length xs \<le> HeaplessVec_capacity v"
  shows "\<exists>v1 v2. push_all HeaplessVec_push xs v = (Ok (), v1) \<and>
    dequeue_many HeaplessVec_dequeue_front (length xs) v1 = (Ok (map Some xs) :: (_, unit) result, v2) \<and>
    HeaplessVec_as_slice v2 = []"
  using hv.first_in_first_out [OF assms] .

theorem vec_first_in_first_out_witness:
  "\<exists>v1 v2. push_all HeaplessVec_push [1, 2, 3 :: u8] (HeaplessVec_new 3 0) = (Ok (), v1) \<and>
    dequeue_many HeaplessVec_dequeue_front 3 v1 = (Ok [Some 1, Some 2, Some 3] :: (_, unit) result, v2) \<and>
    HeaplessVec_as_slice v2 = []"
  using vec_first_in_first_out [of "HeaplessVec_new 3 (0 :: u8)" "[1, 2, 3]"]
  by (simp add: HeaplessVec_new_wf numeral_3_eq_3)

text \<open>
  A text of at most \<open>N\<close> bytes is stored by \<^verbatim>\<open>HeaplessString::try_from\<close> and read back unchanged by
  \<^verbatim>\<open>as_str\<close>, for every capacity that the \<^verbatim>\<open>u8\<close> length can count to; a longer one is refused.
\<close>

lemma string_round_trip:
  assumes "N < 2 ^ 8" "valid_utf8 v"
  shows "if length v \<le> N
    then \<exists>s. HeaplessString_try_from N v = Ok s \<and> str_ok s \<and> HeaplessString_as_str s = v \<and>
      HeaplessString_len s = length v \<and> HeaplessString_capacity s = N
    else HeaplessString_try_from N v = Err PushError"
proof (cases "length v \<le> N")
  case True
  from HeaplessString_try_from_fits [OF True assms(1)] show ?thesis
    using assms(2) True HeaplessString_as_str_eq HeaplessString_len_eq by (auto simp: str_ok_def)
qed (simp add: HeaplessString_try_from_long)

text \<open>
  The truncation of \<^verbatim>\<open>write_str\<close> counts bytes, not characters: a two-byte character written to a string of
  capacity one leaves a string of length one that \<^verbatim>\<open>as_str\<close> reads as empty.
\<close>

lemma string_write_str_splits_char:
  "\<exists>s'. HeaplessString_write_str (encode_utf8 0xE9) (HeaplessString_new 1) = (Ok (), s') \<and>
    HeaplessString_len s' = 1 \<and> HeaplessString_as_str s' = []"
  by (simp add: HeaplessString_write_str_def HeaplessString_append_def HeaplessString_new_def encode_utf8_def
    checked_add_def put_at_def HeaplessString_len_def HeaplessString_as_str_def HeaplessString_bytes_def
    from_utf8_def char_tail_def)

text \<open>
  With a capacity of 256 or more the \<^verbatim>\<open>u8\<close> length of a \<^verbatim>\<open>HeaplessString\<close> wraps: a text of 256 bytes is
  accepted by \<^verbatim>\<open>try_from\<close> and reads back as the empty string.
\<close>

lemma string_length_wraps:
  "\<exists>s. HeaplessString_try_from 256 (replicate 256 0x61) = Ok s \<and> HeaplessString_len s = 0 \<and>
    HeaplessString_as_str s = []"
  by (simp add: HeaplessString_try_from_def HeaplessString_len_def HeaplessString_as_str_def
    HeaplessString_bytes_def from_utf8_def)

text \<open>
  The derived \<^verbatim>\<open>PartialEq\<close> of \<^verbatim>\<open>HeaplessVec\<close> compares the whole array: two vectors with the same length
  and the same contents can differ, because \<^verbatim>\<open>remove\<close> leaves the removed slot behind.
\<close>

lemma vec_equality_sees_stale_slots:
  "\<exists>v w. push_all HeaplessVec_push [1 :: u8] (HeaplessVec_new 2 0) = (Ok (), v) \<and>
    then_do (push_all HeaplessVec_push [1, 2]) (\<lambda>_. HeaplessVec_remove 1) (HeaplessVec_new 2 0) = (Ok (), w) \<and>
    HeaplessVec_as_slice v = HeaplessVec_as_slice w \<and> v \<noteq> w"
proof -
  have "replicate 2 (0 :: u8) = [0, 0]" by (simp add: numeral_2_eq_2)
  then show ?thesis
    by (simp add: then_do_apply HeaplessVec_push_def HeaplessVec_new_def checked_add_def HeaplessVec_remove_def
    HeaplessVec_shift_loop.simps HeaplessVec_as_slice_def)
qed

end
