(* ===== verification/Wire.thy ===== *)
theory Wire
  imports Heapless
begin

text \<open>
  The wire-level building blocks: \<^verbatim>\<open>src/protocol/qos.rs\<close>, \<^verbatim>\<open>src/protocol/packet_type.rs\<close> and the readers
  and writers of \<^verbatim>\<open>src/protocol/utils.rs\<close>. A writer is a method of the buffer that returns the new
  offset; a reader takes the bytes and the offset and returns the value with the new offset. The
  second half states what the writers emit and what the readers read back, as the predicates \<open>emits\<close>
  and \<open>has_at\<close>, which compose; the packet theories use only these.
\<close>

section \<open>QoS\<close>

datatype QoS = AtMostOnce | AtLeastOnce | ExactlyOnce

fun QoS_as_u8 :: "QoS \<Rightarrow> u8" where
  "QoS_as_u8 AtMostOnce = 0"
| "QoS_as_u8 AtLeastOnce = 1"
| "QoS_as_u8 ExactlyOnce = 2"

definition QoS_from_u8 :: "u8 \<Rightarrow> (QoS, ProtocolError) result" where
  "QoS_from_u8 value =
     (if value = 0 then Ok AtMostOnce
      else if value = 1 then Ok AtLeastOnce
      else if value = 2 then Ok ExactlyOnce
      else Err (InvalidQosLevel value))"

text \<open>The derived \<^verbatim>\<open>Ord\<close> compares the discriminants.\<close>

instantiation QoS :: linorder
begin

definition less_eq_QoS :: "QoS \<Rightarrow> QoS \<Rightarrow> bool" where
  "less_eq_QoS a b \<longleftrightarrow> QoS_as_u8 a \<le> QoS_as_u8 b"

definition less_QoS :: "QoS \<Rightarrow> QoS \<Rightarrow> bool" where
  "less_QoS a b \<longleftrightarrow> QoS_as_u8 a < QoS_as_u8 b"

instance
proof
  fix x y z :: QoS
  show "(x < y) = (x \<le> y \<and> \<not> y \<le> x)" by (auto simp: less_eq_QoS_def less_QoS_def)
  show "x \<le> x" by (simp add: less_eq_QoS_def)
  show "x \<le> y \<Longrightarrow> y \<le> z \<Longrightarrow> x \<le> z" by (simp add: less_eq_QoS_def)
  show "x \<le> y \<Longrightarrow> y \<le> x \<Longrightarrow> x = y" by (cases x; cases y; simp add: less_eq_QoS_def word_le_nat_alt)
  show "x \<le> y \<or> y \<le> x" by (auto simp: less_eq_QoS_def)
qed

end

section \<open>PacketType\<close>

datatype PacketType =
    PT_Reserved | PT_Connect | PT_ConnAck | PT_Publish | PT_PubAck | PT_PubRec | PT_PubRel | PT_PubComp
  | PT_Subscribe | PT_SubAck | PT_Unsubscribe | PT_UnsubAck | PT_PingReq | PT_PingResp | PT_Disconnect
  | PT_Reserved2

fun PacketType_as_u8 :: "PacketType \<Rightarrow> u8" where
  "PacketType_as_u8 PT_Reserved = 0"
| "PacketType_as_u8 PT_Connect = 1"
| "PacketType_as_u8 PT_ConnAck = 2"
| "PacketType_as_u8 PT_Publish = 3"
| "PacketType_as_u8 PT_PubAck = 4"
| "PacketType_as_u8 PT_PubRec = 5"
| "PacketType_as_u8 PT_PubRel = 6"
| "PacketType_as_u8 PT_PubComp = 7"
| "PacketType_as_u8 PT_Subscribe = 8"
| "PacketType_as_u8 PT_SubAck = 9"
| "PacketType_as_u8 PT_Unsubscribe = 10"
| "PacketType_as_u8 PT_UnsubAck = 11"
| "PacketType_as_u8 PT_PingReq = 12"
| "PacketType_as_u8 PT_PingResp = 13"
| "PacketType_as_u8 PT_Disconnect = 14"
| "PacketType_as_u8 PT_Reserved2 = 15"

function PacketType_from :: "u8 \<Rightarrow> PacketType" where
  "PacketType_from byte =
     (if byte = 0 then PT_Reserved
      else if byte = 1 then PT_Connect
      else if byte = 2 then PT_ConnAck
      else if byte = 3 then PT_Publish
      else if byte = 4 then PT_PubAck
      else if byte = 5 then PT_PubRec
      else if byte = 6 then PT_PubRel
      else if byte = 7 then PT_PubComp
      else if byte = 8 then PT_Subscribe
      else if byte = 9 then PT_SubAck
      else if byte = 10 then PT_Unsubscribe
      else if byte = 11 then PT_UnsubAck
      else if byte = 12 then PT_PingReq
      else if byte = 13 then PT_PingResp
      else if byte = 14 then PT_Disconnect
      else if byte = 15 then PT_Reserved2
      else PacketType_from (drop_bit 4 byte))"
  by pat_completeness auto
termination
proof (relation "measure unat")
  fix byte :: u8
  assume "byte \<noteq> 0"
  then have "0 < unat byte" by (simp add: unat_gt_0)
  then show "(drop_bit 4 byte, byte) \<in> measure unat"
    by (simp add: drop_bit_eq_div unat_div)
qed simp

declare PacketType_from.simps [simp del]

section \<open>Variable-length integers\<close>

definition MAX_VARIABLE_LENGTH :: usize where
  "MAX_VARIABLE_LENGTH = 268435455"

definition variable_length_length :: "usize \<Rightarrow> usize" where
  "variable_length_length value =
     (if value < 128 then 1 else if value < 16384 then 2 else if value < 2097152 then 3 else 4)"

text \<open>
  \<open>bits\<close> is the width of \<^verbatim>\<open>usize\<close>: 64 on the targets of the tokio programs, 32 on the RP2040. An
  overflow of the product, of the sum or of the multiplier is a panic.
\<close>

function read_variable_length_loop ::
    "nat \<Rightarrow> bytes \<Rightarrow> usize \<Rightarrow> usize \<Rightarrow> usize \<Rightarrow> (usize \<times> usize, ProtocolError) result" where
  "read_variable_length_loop bits bs multiplier value bytes_read =
     (if bytes_read \<ge> length bs then Err (IncompletePacket (length bs))
      else
        let byte = unat (bs ! bytes_read);
            bytes_read' = bytes_read + 1;
            product = (byte AND 0x7F) * multiplier;
            value' = value + product
        in if product \<ge> 2 ^ bits \<or> value' \<ge> 2 ^ bits then Panic
           else if value' > MAX_VARIABLE_LENGTH
             then Err (InvalidPacketLength MAX_VARIABLE_LENGTH value')
           else
             let multiplier' = multiplier * 128 in
             if multiplier' \<ge> 2 ^ bits then Panic
             else if multiplier' > 128 * 128 * 128 * 128
               then Err (InvalidPacketLength MAX_VARIABLE_LENGTH value')
             else if byte AND 0x80 = 0 then Ok (value', bytes_read')
             else read_variable_length_loop bits bs multiplier' value' bytes_read')"
  by pat_completeness auto
termination
  by (relation "measure (\<lambda>(bits, bs, m, v, k). length bs - k)") auto

declare read_variable_length_loop.simps [simp del]

definition read_variable_length_at :: "nat \<Rightarrow> bytes \<Rightarrow> (usize \<times> usize, ProtocolError) result" where
  "read_variable_length_at bits bs = read_variable_length_loop bits bs 1 0 0"

definition read_variable_length :: "bytes \<Rightarrow> (usize \<times> usize, ProtocolError) result" where
  "read_variable_length bs = read_variable_length_at 64 bs"

function write_variable_length_loop :: "usize \<Rightarrow> usize \<Rightarrow> (bytes, usize, ProtocolError) action" where
  "write_variable_length_loop encoded bytes_written buffer =
     (if bytes_written \<ge> length buffer then (Err (BufferTooSmall (length buffer)), buffer)
      else
        let byte = of_nat (encoded AND 0x7F) :: u8;
            encoded' = drop_bit 7 encoded;
            byte' = (if encoded' > 0 then byte OR 0x80 else byte);
            buffer' = buffer[bytes_written := byte']
        in if encoded' = 0 then (Ok (bytes_written + 1), buffer')
           else write_variable_length_loop encoded' (bytes_written + 1) buffer')"
  by pat_completeness auto
termination
  by (relation "measure (\<lambda>(e, k, b). e)") (auto simp: drop_bit_eq_div intro!: div_less_dividend)

declare write_variable_length_loop.simps [simp del]

definition write_variable_length :: "usize \<Rightarrow> (bytes, usize, ProtocolError) action" where
  "write_variable_length value = (\<lambda>buffer.
     if value > MAX_VARIABLE_LENGTH then (Err (InvalidPacketLength MAX_VARIABLE_LENGTH value), buffer)
     else write_variable_length_loop value 0 buffer)"

section \<open>Strings and binary data\<close>

definition read_binary :: "bytes \<Rightarrow> usize \<Rightarrow> (bytes \<times> usize, ProtocolError) result" where
  "read_binary bs offset =
     (if offset + 2 > length bs then Err (IncompletePacket (length bs))
      else
        let len = unat (from_be_bytes (bs ! offset) (bs ! (offset + 1))); offset' = offset + 2 in
        if offset' + len > length bs then Err (IncompletePacket (length bs))
        else Ok (take len (drop offset' bs), offset' + len))"

definition read_string :: "bytes \<Rightarrow> usize \<Rightarrow> (bytes \<times> usize, ProtocolError) result" where
  "read_string bs offset =
     (if offset + 2 > length bs then Err (IncompletePacket (length bs))
      else
        let len = unat (from_be_bytes (bs ! offset) (bs ! (offset + 1))); offset' = offset + 2 in
        if offset' + len > length bs then Err (IncompletePacket (length bs))
        else
          let str_bytes = take len (drop offset' bs) in
          and_then (ok_or (from_utf8 str_bytes) InvalidUtf8String) (\<lambda>str. Ok (str, offset' + len)))"

definition write_binary :: "bytes \<Rightarrow> usize \<Rightarrow> (bytes, usize, ProtocolError) action" where
  "write_binary data offset = (\<lambda>buffer.
     let len = length data in
     if offset + 2 + len > length buffer then (Err (BufferTooSmall (length buffer)), buffer)
     else
       let len_bytes = to_be_bytes (of_nat len) in
       then_do (store offset (len_bytes ! 0)) (\<lambda>_.
       then_do (store (offset + 1) (len_bytes ! 1)) (\<lambda>_.
       then_do (copy_at (offset + 2) data) (\<lambda>_. ret (offset + 2 + len)))) buffer)"

definition write_string :: "bytes \<Rightarrow> usize \<Rightarrow> (bytes, usize, ProtocolError) action" where
  "write_string s offset = (\<lambda>buffer.
     let len = length s in
     if offset + 2 + len > length buffer then (Err (BufferTooSmall (length buffer)), buffer)
     else
       let len_bytes = to_be_bytes (of_nat len) in
       then_do (store offset (len_bytes ! 0)) (\<lambda>_.
       then_do (store (offset + 1) (len_bytes ! 1)) (\<lambda>_.
       then_do (copy_at (offset + 2) s) (\<lambda>_. ret (offset + 2 + len)))) buffer)"

section \<open>Lemmas on enumerations\<close>

lemma QoS_from_u8_as_u8 [simp]: "QoS_from_u8 (QoS_as_u8 q) = Ok q"
  by (cases q) (simp_all add: QoS_from_u8_def)

lemma QoS_from_u8_Ok: "QoS_from_u8 b = Ok q \<Longrightarrow> QoS_as_u8 q = b"
  by (auto simp: QoS_from_u8_def split: if_splits)

lemma QoS_from_u8_not_Panic [simp]: "QoS_from_u8 b \<noteq> Panic"
  by (simp add: QoS_from_u8_def)

lemma PacketType_from_as_u8 [simp]: "PacketType_from (PacketType_as_u8 t) = t"
  by (cases t) (simp_all add: PacketType_from.simps)

lemma PacketType_as_u8_from:
  assumes "unat b < 16"
  shows "PacketType_as_u8 (PacketType_from b) = b"
proof -
  have "b = of_nat (unat b)" by simp
  moreover have "\<forall>n < 16. PacketType_as_u8 (PacketType_from (of_nat n)) = of_nat n"
    by (simp add: numeral_eq_Suc All_less_Suc PacketType_from.simps)
  ultimately show ?thesis using assms by metis
qed

section \<open>The reference encoding of a variable-length integer\<close>

fun varlen :: "nat \<Rightarrow> bytes" where
  "varlen n = (if n < 128 then [of_nat n] else of_nat (n mod 128 + 128) # varlen (n div 128))"

declare varlen.simps [simp del]

lemma nat_and_127: "(n :: nat) AND 127 = n mod 128"
  using take_bit_eq_mask [of 7 n] by (simp add: take_bit_eq_mod mask_eq_exp_minus_1)

lemma nat_and_128:
  assumes "(n :: nat) < 256"
  shows "n AND 128 = 0 \<longleftrightarrow> n < 128"
proof -
  have "n AND 2 ^ 7 = 0 \<longleftrightarrow> \<not> bit n 7" by (rule and_exp_eq_0_iff_not_bit)
  also have "bit n 7 \<longleftrightarrow> odd (n div 128)" by (simp add: bit_iff_odd)
  also have "odd (n div 128) \<longleftrightarrow> \<not> n < 128"
  proof (cases "n < 128")
    case False
    with assms have "n div 128 = 1" by (intro div_nat_eqI) auto
    with False show ?thesis by simp
  qed simp
  finally show ?thesis by simp
qed

lemma varlen_byte_or: "(of_nat (n mod 128) :: u8) OR 0x80 = of_nat (n mod 128 + 128)"
proof -
  have "n mod 128 = take_bit 7 n" by (simp add: take_bit_eq_mod)
  then have "\<not> bit (of_nat (n mod 128) :: u8) 7" by (simp only: bit_simps) simp
  then have "(of_nat (n mod 128) :: u8) AND 2 ^ 7 = 0" by (simp only: and_exp_eq_0_iff_not_bit not_False_eq_True)
  then show ?thesis by (simp add: disjunctive_add_eq_or [symmetric])
qed

lemma varlen_nonempty [simp]: "varlen n \<noteq> []"
  by (subst varlen.simps) simp

lemma length_varlen: "n \<le> MAX_VARIABLE_LENGTH \<Longrightarrow> length (varlen n) = variable_length_length n"
  unfolding MAX_VARIABLE_LENGTH_def variable_length_length_def
  by (simp add: varlen.simps [of n] varlen.simps [of "n div 128"] varlen.simps [of "n div 16384"]
    varlen.simps [of "n div 2097152"] div_mult2_eq [symmetric] less_mult_imp_div_less
    flip: div_mult2_eq) linarith

lemma variable_length_length_bounds: "1 \<le> variable_length_length n" "variable_length_length n \<le> 4"
  by (simp_all add: variable_length_length_def)

lemma write_variable_length_loop_room:
  "k + length (varlen e) \<le> length buf \<Longrightarrow>
     write_variable_length_loop e k buf = (Ok (k + length (varlen e)), put_at buf k (varlen e))"
proof (induction e k buf rule: write_variable_length_loop.induct)
  case (1 e k buf)
  have "0 < length (varlen e)" by simp
  with "1.prems" have k: "k < length buf" by linarith
  show ?case
  proof (cases "e < 128")
    case True
    then show ?thesis
      using k by (subst write_variable_length_loop.simps)
        (simp add: varlen.simps drop_bit_eq_div nat_and_127 list_update_put_at)
  next
    case False
    let ?b = "of_nat (e mod 128 + 128) :: u8"
    have v: "varlen e = ?b # varlen (e div 128)" using False by (subst varlen.simps) simp
    have d: "drop_bit 7 e = e div 128" by (simp add: drop_bit_eq_div)
    have gt: "0 < e div 128" using False by (simp add: div_greater_zero_iff)
    have "write_variable_length_loop e k buf =
        write_variable_length_loop (e div 128) (k + 1) (buf[k := ?b])"
      using k False gt by (subst write_variable_length_loop.simps)
        (simp add: d nat_and_127 varlen_byte_or Let_def)
    also have "\<dots> = (Ok (k + 1 + length (varlen (e div 128))),
        put_at (buf[k := ?b]) (k + 1) (varlen (e div 128)))"
    proof -
      have r: "k + 1 + length (varlen (e div 128)) \<le> length (buf[k := ?b])"
        using "1.prems" v by simp
      show ?thesis
        using "1.IH" [OF _ refl refl refl refl] k gt r by (simp add: d nat_and_127 varlen_byte_or)
    qed
    also have "put_at (buf[k := ?b]) (k + 1) (varlen (e div 128)) = put_at buf k (varlen e)"
      using k "1.prems" v put_at_append [of k "[?b]" "varlen (e div 128)" buf]
      by (simp add: list_update_put_at)
    finally show ?thesis using v by simp
  qed
qed

lemma write_variable_length_loop_full:
  "length buf < k + length (varlen e) \<Longrightarrow>
     \<exists>buf'. write_variable_length_loop e k buf = (Err (BufferTooSmall (length buf)), buf') \<and>
       length buf' = length buf"
proof (induction e k buf rule: write_variable_length_loop.induct)
  case (1 e k buf)
  show ?case
  proof (cases "k < length buf")
    case False
    then show ?thesis by (subst write_variable_length_loop.simps) simp
  next
    case k: True
    with "1.prems" have e: "\<not> e < 128" by (subst (asm) varlen.simps) (auto split: if_splits)
    let ?b = "of_nat (e mod 128 + 128) :: u8"
    have v: "varlen e = ?b # varlen (e div 128)" using e by (subst varlen.simps) simp
    have d: "drop_bit 7 e = e div 128" by (simp add: drop_bit_eq_div)
    have gt: "0 < e div 128" using e by (simp add: div_greater_zero_iff)
    have "write_variable_length_loop e k buf =
        write_variable_length_loop (e div 128) (k + 1) (buf[k := ?b])"
      using k e gt by (subst write_variable_length_loop.simps)
        (simp add: d nat_and_127 varlen_byte_or Let_def)
    then show ?thesis
      using "1.IH" [OF _ refl refl refl refl] k gt "1.prems" v
      by (simp add: d nat_and_127 varlen_byte_or)
  qed
qed

section \<open>Reading variable-length integers\<close>

lemma unat_varlen_byte: "unat (of_nat (n mod 128 + 128) :: u8) = n mod 128 + 128"
proof -
  have "n mod 128 + 128 < 256" by (simp add: less_diff_conv2)
  then show ?thesis by (simp only: unat_of_nat) simp
qed

text \<open>The widths for which nothing overflows before the checks of the loop are made.\<close>

lemma read_variable_length_step:
  assumes k: "k < length bs" and m: "m \<le> 128 ^ 3" and v: "v \<le> MAX_VARIABLE_LENGTH" and bits: "32 \<le> bits"
  shows "read_variable_length_loop bits bs m v k =
    (let byte = unat (bs ! k); v' = v + (byte mod 128) * m in
     if v' > MAX_VARIABLE_LENGTH then Err (InvalidPacketLength MAX_VARIABLE_LENGTH v')
     else if byte < 128 then Ok (v', k + 1)
     else read_variable_length_loop bits bs (m * 128) v' (k + 1))"
proof -
  let ?b = "unat (bs ! k)"
  have le: "?b mod 128 * m \<le> 127 * 128 ^ 3"
    using m mod_less_divisor [of 128 ?b] by (intro mult_le_mono) simp_all
  have big: "(2 :: nat) ^ 32 \<le> 2 ^ bits" using bits by (intro power_increasing) auto
  have o1: "\<not> 2 ^ bits \<le> ?b mod 128 * m" "\<not> 2 ^ bits \<le> v + ?b mod 128 * m" "\<not> 2 ^ bits \<le> m * 128"
    using le big v m by (simp_all add: MAX_VARIABLE_LENGTH_def not_le)
  have o2: "\<not> m * 128 > 128 * 128 * 128 * 128" using m by simp
  show ?thesis
    using k o1 o2 unat_u8_less [of "bs ! k"]
    by (subst read_variable_length_loop.simps) (simp add: nat_and_127 nat_and_128 Let_def)
qed

lemma read_variable_length_loop_varlen:
  "drop k bs = varlen n @ rest \<Longrightarrow> j \<le> 3 \<Longrightarrow> n < 128 ^ (4 - j) \<Longrightarrow> v + n * 128 ^ j \<le> MAX_VARIABLE_LENGTH \<Longrightarrow>
     32 \<le> bits \<Longrightarrow>
     read_variable_length_loop bits bs (128 ^ j) v k = Ok (v + n * 128 ^ j, k + length (varlen n))"
proof (induction n arbitrary: j v k rule: varlen.induct)
  case (1 n)
  have k: "k < length bs" using "1.prems"(1) by (cases "k < length bs") auto
  have m: "(128 :: nat) ^ j \<le> 128 ^ 3" using "1.prems"(2) by (intro power_increasing) auto
  have v: "v \<le> MAX_VARIABLE_LENGTH" using "1.prems"(4) by simp
  note step = read_variable_length_step [OF k m v "1.prems"(5)]
  show ?case
  proof (cases "n < 128")
    case True
    then have "bs ! k = of_nat n"
      using "1.prems"(1) k by (metis append_Cons append_Nil hd_drop_conv_nth list.sel(1) varlen.simps)
    then show ?thesis
      using step True "1.prems"(4) by (simp add: unat_of_nat varlen.simps [of n])
  next
    case False
    let ?b = "of_nat (n mod 128 + 128) :: u8"
    have vn: "varlen n = ?b # varlen (n div 128)" using False by (subst varlen.simps) simp
    have b: "bs ! k = ?b" and rest: "drop (k + 1) bs = varlen (n div 128) @ rest"
      using "1.prems"(1) k vn by (metis append_Cons hd_drop_conv_nth list.sel(1),
        metis Suc_eq_plus1 append_Cons drop_Suc drop_tl list.sel(3))
    note ub = unat_varlen_byte [of n]
    have j3: "j + 1 \<le> 3" using False "1.prems"(2,3) by (cases "j = 3") auto
    have "v + r * 128 ^ j + q * 128 ^ (j + 1) = v + (r + q * 128) * 128 ^ j" for r q :: nat
      by (simp add: algebra_simps)
    from this [of "n mod 128" "n div 128"]
    have sum: "v + n mod 128 * 128 ^ j + n div 128 * 128 ^ (j + 1) = v + n * 128 ^ j"
      by (simp only: mod_div_mult_eq)
    have lt: "n div 128 < 128 ^ (4 - (j + 1))"
    proof (rule less_mult_imp_div_less)
      have "4 - j = Suc (4 - (j + 1))" using j3 by simp
      with "1.prems"(3) show "n < 128 ^ (4 - (j + 1)) * 128" by (metis power_Suc2)
    qed
    have v': "v + n mod 128 * 128 ^ j \<le> MAX_VARIABLE_LENGTH" using sum "1.prems"(4) by linarith
    have "read_variable_length_loop bits bs (128 ^ j) v k =
        read_variable_length_loop bits bs (128 ^ (j + 1)) (v + n mod 128 * 128 ^ j) (k + 1)"
      using step v' by (simp only: b ub Let_def) (simp add: mult.commute)
    also have "\<dots> = Ok (v + n * 128 ^ j, k + 1 + length (varlen (n div 128)))"
      using "1.IH" [OF False rest j3 lt _ "1.prems"(5)] sum "1.prems"(4) by simp
    finally show ?thesis using vn by simp
  qed
qed

lemma read_variable_length_varlen:
  assumes "n \<le> MAX_VARIABLE_LENGTH"
  shows "read_variable_length (varlen n @ rest) = Ok (n, variable_length_length n)"
  using read_variable_length_loop_varlen [of 0 "varlen n @ rest" n rest 0 0 64] assms length_varlen [OF assms]
  by (simp add: read_variable_length_def read_variable_length_at_def MAX_VARIABLE_LENGTH_def)

text \<open>
  With a 64-bit \<^verbatim>\<open>usize\<close> the loop never overflows, reads at most four bytes, none of them beyond the
  end, and returns at most the maximum.
\<close>

lemma read_variable_length_loop_64:
  "j \<le> 4 \<Longrightarrow> v \<le> MAX_VARIABLE_LENGTH \<Longrightarrow>
     read_variable_length_loop 64 bs (128 ^ j) v j \<noteq> Panic \<and>
     (\<forall>n k. read_variable_length_loop 64 bs (128 ^ j) v j = Ok (n, k) \<longrightarrow>
        n \<le> MAX_VARIABLE_LENGTH \<and> j < k \<and> k \<le> 4 \<and> k \<le> length bs)"
proof (induction "4 - j" arbitrary: j v)
  case 0
  then have j: "j = 4" by simp
  have "unat (bs ! 4) AND 127 \<le> 127" by (simp add: nat_and_127 less_Suc_eq_le [symmetric])
  then show ?case
    using 0 j by (subst (1 2) read_variable_length_loop.simps)
      (simp add: Let_def MAX_VARIABLE_LENGTH_def)
next
  case (Suc d)
  then have j: "j \<le> 3" by simp
  show ?case
  proof (cases "j < length bs")
    case False
    then show ?thesis by (subst (1 2) read_variable_length_loop.simps) simp
  next
    case k: True
    have m: "(128 :: nat) ^ j \<le> 128 ^ 3" using j by (intro power_increasing) auto
    let ?v = "v + unat (bs ! j) mod 128 * 128 ^ j"
    have IH: "?v \<le> MAX_VARIABLE_LENGTH \<Longrightarrow>
        read_variable_length_loop 64 bs (128 ^ (j + 1)) ?v (j + 1) \<noteq> Panic \<and>
        (\<forall>n k. read_variable_length_loop 64 bs (128 ^ (j + 1)) ?v (j + 1) = Ok (n, k) \<longrightarrow>
          n \<le> MAX_VARIABLE_LENGTH \<and> j + 1 < k \<and> k \<le> 4 \<and> k \<le> length bs)"
      using Suc.hyps(1) [of "j + 1" ?v] Suc.hyps(2) j by simp
    show ?thesis
      using read_variable_length_step [OF k m Suc.prems(2), of 64] IH k j
      by (auto simp: Let_def mult.commute split: if_splits)
  qed
qed

lemma read_variable_length_not_Panic [simp]: "read_variable_length bs \<noteq> Panic"
  and read_variable_length_Ok:
    "read_variable_length bs = Ok (n, k) \<Longrightarrow> n \<le> MAX_VARIABLE_LENGTH \<and> 0 < k \<and> k \<le> 4 \<and> k \<le> length bs"
  using read_variable_length_loop_64 [of 0 0 bs]
  by (simp_all add: read_variable_length_def read_variable_length_at_def)

section \<open>What the writers emit\<close>

text \<open>
  \<open>emits bad m off bs\<close>: from the offset \<open>off\<close>, the writer \<open>m\<close> stores exactly the bytes \<open>bs\<close> and returns
  the offset behind them if they fit, and otherwise fails with a result in \<open>bad\<close>; the buffer keeps
  its length. \<open>too_small\<close> is the failure of the writers that check the length of the buffer.
\<close>

definition too_small :: "(usize, ProtocolError) result \<Rightarrow> bool" where
  "too_small r \<longleftrightarrow> (\<exists>n. r = Err (BufferTooSmall n))"

definition emits ::
    "((usize, ProtocolError) result \<Rightarrow> bool) \<Rightarrow> (bytes, usize, ProtocolError) action \<Rightarrow> usize \<Rightarrow> bytes \<Rightarrow> bool" where
  "emits bad m off bs \<longleftrightarrow> (\<forall>buf. off \<le> length buf \<longrightarrow>
     (if off + length bs \<le> length buf then m buf = (Ok (off + length bs), put_at buf off bs)
      else (\<exists>r buf'. m buf = (r, buf') \<and> bad r \<and> \<not> is_ok r \<and> length buf' = length buf)))"

lemma emits_then:
  assumes m: "emits bad m off bs" and f: "emits bad (f (off + length bs)) (off + length bs) cs"
  shows "emits bad (then_do m f) off (bs @ cs)"
  unfolding emits_def
proof (intro allI impI)
  fix buf :: bytes
  assume off: "off \<le> length buf"
  show "if off + length (bs @ cs) \<le> length buf
    then then_do m f buf = (Ok (off + length (bs @ cs)), put_at buf off (bs @ cs))
    else \<exists>r buf'. then_do m f buf = (r, buf') \<and> bad r \<and> \<not> is_ok r \<and> length buf' = length buf"
  proof (cases "off + length bs \<le> length buf")
    case True
    with m off have "m buf = (Ok (off + length bs), put_at buf off bs)" by (simp add: emits_def)
    then have "then_do m f buf = f (off + length bs) (put_at buf off bs)" by (rule then_do_cases)
    moreover have "length (put_at buf off bs) = length buf" using True by simp
    ultimately show ?thesis
      using f [unfolded emits_def, rule_format, of "put_at buf off bs"] True put_at_append [of off bs cs buf]
      by (simp add: add.assoc split: if_splits)
  next
    case False
    with m [unfolded emits_def, rule_format, OF off] obtain r buf' where
      r: "m buf = (r, buf')" "bad r" "\<not> is_ok r" "length buf' = length buf"
      by auto
    with False show ?thesis by (cases r) (auto simp: then_do_cases)
  qed
qed

lemma emits_ret: "emits bad (ret off) off []"
  by (simp add: emits_def)

lemma emits_weaken: "emits bad m off bs \<Longrightarrow> (\<And>r. bad r \<Longrightarrow> bad' r) \<Longrightarrow> emits bad' m off bs"
  unfolding emits_def by (auto; metis)

text \<open>The idioms with which the encoders write a byte, a \<^verbatim>\<open>u16\<close> and the remaining length at the offset.\<close>

definition put_byte :: "usize \<Rightarrow> u8 \<Rightarrow> (bytes, usize, ProtocolError) action" where
  "put_byte offset b = (\<lambda>buffer.
     if offset \<ge> length buffer then (Err (BufferTooSmall (length buffer)), buffer)
     else then_do (store offset b) (\<lambda>_. ret (offset + 1)) buffer)"

definition put_u16 :: "usize \<Rightarrow> u16 \<Rightarrow> (bytes, usize, ProtocolError) action" where
  "put_u16 offset v = (\<lambda>buffer.
     if offset + 2 > length buffer then (Err (BufferTooSmall (length buffer)), buffer)
     else
       let v_bytes = to_be_bytes v in
       then_do (store offset (v_bytes ! 0)) (\<lambda>_.
       then_do (store (offset + 1) (v_bytes ! 1)) (\<lambda>_. ret (offset + 2))) buffer)"

definition put_remaining_length :: "usize \<Rightarrow> usize \<Rightarrow> (bytes, usize, ProtocolError) action" where
  "put_remaining_length offset remaining_length =
     then_do (on_suffix offset (write_variable_length remaining_length)) (\<lambda>n. ret (offset + n))"

lemma store_two:
  assumes "i + 2 \<le> length xs"
  shows "then_do (store i (ys ! 0)) (\<lambda>_. then_do (store (i + 1) (ys ! 1)) f) xs = f () (put_at xs i [ys ! 0, ys ! 1])"
  using assms put_at_append [of i "[ys ! 0]" "[ys ! 1]" xs]
  by (simp add: then_do_apply store_def list_update_put_at)

lemma emits_put_byte: "emits too_small (put_byte off b) off [b]"
  by (auto simp: emits_def put_byte_def too_small_def then_do_apply store_def list_update_put_at)

lemma emits_put_u16: "emits too_small (put_u16 off v) off (to_be_bytes v)"
proof -
  have "[to_be_bytes v ! 0, to_be_bytes v ! 1] = to_be_bytes v" by (simp add: to_be_bytes_def)
  then show ?thesis
    by (auto simp: emits_def put_u16_def too_small_def Let_def store_two [simplified])
qed

definition length_prefixed :: "bytes \<Rightarrow> bytes" where
  "length_prefixed bs = to_be_bytes (of_nat (length bs)) @ bs"

lemma length_length_prefixed [simp]: "length (length_prefixed bs) = 2 + length bs"
  by (simp add: length_prefixed_def)

lemma emits_write_binary: "emits too_small (write_binary bs off) off (length_prefixed bs)"
proof -
  let ?l = "to_be_bytes (of_nat (length bs))"
  have l: "[?l ! 0, ?l ! Suc 0] = ?l" by (simp add: to_be_bytes_def)
  have "write_binary bs off buf = (Ok (off + length (length_prefixed bs)), put_at buf off (length_prefixed bs))"
    if "off + length (length_prefixed bs) \<le> length buf" for buf
    using that put_at_append [of off ?l bs buf]
    by (simp add: write_binary_def Let_def store_two [simplified] l)
      (simp add: then_do_apply copy_at_def length_prefixed_def)
  then show ?thesis by (auto simp: emits_def too_small_def write_binary_def)
qed

lemma write_string_eq: "write_string = write_binary"
  by (simp add: fun_eq_iff write_string_def write_binary_def)

lemma emits_write_string: "emits too_small (write_string bs off) off (length_prefixed bs)"
  by (simp add: write_string_eq emits_write_binary)

lemma emits_put_remaining_length:
  assumes "n \<le> MAX_VARIABLE_LENGTH"
  shows "emits too_small (put_remaining_length off n) off (varlen n)"
  unfolding emits_def
proof (intro allI impI)
  fix buf :: bytes
  assume off: "off \<le> length buf"
  have eq: "put_remaining_length off n buf =
      (case write_variable_length_loop n 0 (drop off buf) of (r, ys) \<Rightarrow> (map_ok (\<lambda>k. off + k) r, take off buf @ ys))"
    using off assms
    by (auto simp: put_remaining_length_def on_suffix_def then_do_apply write_variable_length_def split: prod.split result.split)
  show "if off + length (varlen n) \<le> length buf
    then put_remaining_length off n buf = (Ok (off + length (varlen n)), put_at buf off (varlen n))
    else \<exists>r buf'. put_remaining_length off n buf = (r, buf') \<and> too_small r \<and> \<not> is_ok r \<and> length buf' = length buf"
  proof (cases "off + length (varlen n) \<le> length buf")
    case True
    then show ?thesis
      using off write_variable_length_loop_room [of 0 n "drop off buf"] by (simp add: eq put_at_suffix)
  next
    case False
    then have "length (drop off buf) < 0 + length (varlen n)" using off by simp
    from write_variable_length_loop_full [OF this] False off show ?thesis
      by (auto simp: eq too_small_def)
  qed
qed

lemmas emits_intros = emits_put_byte emits_put_u16 emits_write_binary emits_write_string
  emits_put_remaining_length

section \<open>What the readers read\<close>

definition has_at :: "bytes \<Rightarrow> usize \<Rightarrow> bytes \<Rightarrow> bool" where
  "has_at B off bs \<longleftrightarrow> off \<le> length B \<and> (\<exists>rest. drop off B = bs @ rest)"

lemma has_at_Nil [simp]: "has_at B off [] \<longleftrightarrow> off \<le> length B"
  by (simp add: has_at_def)

lemma has_at_Cons: "has_at B off (b # bs) \<longleftrightarrow> off < length B \<and> B ! off = b \<and> has_at B (Suc off) bs"
proof (cases "off < length B")
  case True
  then show ?thesis by (auto simp: has_at_def Cons_nth_drop_Suc [symmetric])
qed (simp add: has_at_def)

lemma has_at_append: "has_at B off (xs @ ys) \<longleftrightarrow> has_at B off xs \<and> has_at B (off + length xs) ys"
  by (induction xs arbitrary: off) (auto simp: has_at_Cons, auto simp: has_at_def)

lemma has_at_length: "has_at B off bs \<Longrightarrow> off + length bs \<le> length B"
  by (auto simp: has_at_def dest!: arg_cong [where f = length])

lemma has_at_take: "has_at B off bs \<Longrightarrow> take (length bs) (drop off B) = bs"
  by (auto simp: has_at_def)

lemma has_at_0: "has_at B 0 bs \<longleftrightarrow> (\<exists>rest. B = bs @ rest)"
  by (simp add: has_at_def)

lemma has_at_u16:
  assumes "has_at B off (to_be_bytes v)"
  shows "off + 2 \<le> length B" "from_be_bytes (B ! off) (B ! Suc off) = v"
  using assms by (auto simp: to_be_bytes_def has_at_Cons from_be_to_be)

lemma has_at_varlen:
  assumes "has_at B off (varlen n)" "n \<le> MAX_VARIABLE_LENGTH"
  shows "read_variable_length (drop off B) = Ok (n, variable_length_length n)"
  using assms read_variable_length_varlen by (auto simp: has_at_def)

lemma has_at_read_binary:
  assumes "has_at B off (length_prefixed bs)" "length bs < 2 ^ 16"
  shows "read_binary B off = Ok (bs, off + 2 + length bs)"
proof -
  have h: "has_at B off (to_be_bytes (of_nat (length bs)))" "has_at B (off + 2) bs"
    using assms(1) by (simp_all add: length_prefixed_def has_at_append)
  show ?thesis
    using has_at_u16 [OF h(1)] has_at_length [OF h(2)] has_at_take [OF h(2)] assms(2)
    by (simp add: read_binary_def unat_of_nat)
qed

lemma has_at_read_string:
  assumes "has_at B off (length_prefixed bs)" "length bs < 2 ^ 16" "valid_utf8 bs"
  shows "read_string B off = Ok (bs, off + 2 + length bs)"
  using has_at_read_binary [OF assms(1,2)] assms(3)
  by (auto simp: read_binary_def read_string_def Let_def ok_or_def from_utf8_def split: if_splits)

lemma read_string_not_Panic [simp]: "read_string B off \<noteq> Panic"
  and read_binary_not_Panic [simp]: "read_binary B off \<noteq> Panic"
  by (auto simp: read_string_def read_binary_def Let_def ok_or_def split: option.splits)

lemma read_binary_Ok:
  assumes "read_binary B off = Ok (bs, off')"
  shows "off' = off + 2 + length bs \<and> off' \<le> length B"
  using assms by (auto simp: read_binary_def Let_def split: if_splits)

lemma read_string_Ok:
  assumes "read_string B off = Ok (bs, off')"
  shows "off' = off + 2 + length bs \<and> off' \<le> length B \<and> valid_utf8 bs"
  using assms
  by (auto simp: read_string_def from_utf8_def ok_or_def Let_def split: if_splits)

section \<open>Properties\<close>

text \<open>
  Variable-length integers round-trip: every length up to the maximum is written in at most four bytes, as
  many as \<^verbatim>\<open>variable_length_length\<close> says, into any buffer that has room for them, and is read back from the
  buffer, whatever follows.
\<close>

lemma variable_length_round_trip:
  assumes "n \<le> MAX_VARIABLE_LENGTH" "variable_length_length n \<le> length buf"
  shows "\<exists>buf'. write_variable_length n buf = (Ok (variable_length_length n), buf') \<and>
    length buf' = length buf \<and> variable_length_length n \<le> 4 \<and>
    drop (variable_length_length n) buf' = drop (variable_length_length n) buf \<and>
    read_variable_length buf' = Ok (n, variable_length_length n)"
proof -
  note l = length_varlen [OF assms(1)]
  have w: "write_variable_length n buf = (Ok (variable_length_length n), put_at buf 0 (varlen n))"
    using assms write_variable_length_loop_room [of 0 n buf] l by (simp add: write_variable_length_def)
  have "put_at buf 0 (varlen n) = varlen n @ drop (variable_length_length n) buf" by (simp add: put_at_def l)
  then show ?thesis
    using w assms read_variable_length_varlen [OF assms(1)] variable_length_length_bounds(2) [of n] l by simp
qed

text \<open>
  With a 32-bit \<^verbatim>\<open>usize\<close>, as on the RP2040, the product of the fifth byte overflows before the limit is
  checked: five continuation bytes make \<^verbatim>\<open>read_variable_length\<close> panic where it means to return
  \<^verbatim>\<open>InvalidPacketLength\<close>, which is what the 64-bit version returns.
\<close>

theorem read_variable_length_overflows_32:
  "read_variable_length_at 32 [0x80, 0x80, 0x80, 0x80, 0x10] = Panic \<and>
   read_variable_length_at 64 [0x80, 0x80, 0x80, 0x80, 0x10] = Err (InvalidPacketLength MAX_VARIABLE_LENGTH 4294967296)"
  by (simp add: read_variable_length_at_def read_variable_length_loop.simps nat_and_127 nat_and_128
    MAX_VARIABLE_LENGTH_def)

end
