(* ===== verification/Codec.thy ===== *)
theory Codec
  imports Wire
begin

text \<open>
  The traits of \<^verbatim>\<open>src/protocol/packets/mod.rs\<close> that every packet implements, with the default methods
  as definitions over the associated constants, and the contract of a packet codec: a locale whose laws
  say which bytes \<^verbatim>\<open>encode\<close> stores and that \<^verbatim>\<open>decode\<close> reads the packet back from a buffer that begins
  with them. Each packet theory interprets the locale; its lemmas are the round trip, the behaviour on a
  buffer that is too small, and that no encoded packet is a prefix of another one.
\<close>

section \<open>Trait methods\<close>

definition header_first_byte :: "PacketType \<Rightarrow> u8 \<Rightarrow> u8" where
  "header_first_byte packet_type flags =
     push_bit 4 (PacketType_as_u8 packet_type) OR (flags AND 0x0F)"

definition validate_packet_type :: "PacketType \<Rightarrow> u8 \<Rightarrow> (unit, ProtocolError) result" where
  "validate_packet_type PACKET_TYPE header =
     (let type_byte = drop_bit 4 header; packet_type = PacketType_from type_byte in
      if packet_type \<noteq> PACKET_TYPE then Err (InvalidPacketType type_byte) else Ok ())"

definition validate_buffer_size :: "usize \<Rightarrow> usize \<Rightarrow> (unit, ProtocolError) result" where
  "validate_buffer_size PACKET_SIZE buffer_len =
     (if buffer_len < PACKET_SIZE then Err (BufferTooSmall buffer_len) else Ok ())"

text \<open>
  The expected length is computed as \<^verbatim>\<open>PACKET_SIZE - int_length - 1\<close> in a \<^verbatim>\<open>usize\<close>; the subtraction
  panics when the length field alone is longer than the packet may be.
\<close>

definition validate_remaining_length :: "usize \<Rightarrow> usize \<Rightarrow> (unit, ProtocolError) result" where
  "validate_remaining_length PACKET_SIZE remaining_length =
     (let int_length = variable_length_length remaining_length in
      if PACKET_SIZE < int_length \<or> PACKET_SIZE - int_length < 1 then Panic
      else if remaining_length \<noteq> PACKET_SIZE - int_length - 1
        then Err (InvalidPacketLength PACKET_SIZE (remaining_length + int_length + 1))
      else Ok ())"

lemma drop_bit_header:
  "drop_bit 4 (header_first_byte t f) = PacketType_as_u8 t"
  by (cases t) (simp_all add: header_first_byte_def drop_bit_or drop_bit_and)

lemma validate_packet_type_header [simp]: "validate_packet_type t (header_first_byte t f) = Ok ()"
  by (simp add: validate_packet_type_def drop_bit_header)

lemma validate_packet_type_not_Panic [simp]: "validate_packet_type t b \<noteq> Panic"
  by (simp add: validate_packet_type_def Let_def)

lemma validate_buffer_size_cases:
  "s \<le> n \<Longrightarrow> validate_buffer_size s n = Ok ()"
  "n < s \<Longrightarrow> validate_buffer_size s n = Err (BufferTooSmall n)"
  by (simp_all add: validate_buffer_size_def)

section \<open>The contract of a codec\<close>

locale packet_codec =
  fixes encode :: "'p \<Rightarrow> (bytes, usize, ProtocolError) action"
    and decode :: "bytes \<Rightarrow> ('p, ProtocolError) result"
    and wire :: "'p \<Rightarrow> bytes"
    and wf :: "'p \<Rightarrow> bool"
    and bad :: "(usize, ProtocolError) result \<Rightarrow> bool"
  assumes encode_emits: "wf p \<Longrightarrow> emits bad (encode p) 0 (wire p)"
    and decode_wire: "wf p \<Longrightarrow> has_at B 0 (wire p) \<Longrightarrow> decode B = Ok p"
begin

lemma encode_fits:
  "wf p \<Longrightarrow> length (wire p) \<le> length buf \<Longrightarrow>
     encode p buf = (Ok (length (wire p)), put_at buf 0 (wire p))"
  using encode_emits [of p] by (simp add: emits_def)

lemma encode_small:
  "wf p \<Longrightarrow> length buf < length (wire p) \<Longrightarrow>
     \<exists>r buf'. encode p buf = (r, buf') \<and> bad r \<and> \<not> is_ok r \<and> length buf' = length buf"
  using encode_emits [of p] unfolding emits_def by (metis add_0 le0 linorder_not_le)

lemma encode_Ok:
  assumes "wf p" "encode p buf = (Ok n, buf')"
  shows "n = length (wire p)" "n \<le> length buf" "take n buf' = wire p" "drop n buf' = drop n buf"
proof -
  have "length (wire p) \<le> length buf"
    using encode_small [OF assms(1), of buf] assms(2) by (cases "length buf < length (wire p)") auto
  with encode_fits [OF assms(1) this] assms(2)
  show "n = length (wire p)" "n \<le> length buf" "take n buf' = wire p" "drop n buf' = drop n buf"
    by (auto simp: take_put_at_0 drop_put_at_0)
qed

lemma decode_append: "wf p \<Longrightarrow> decode (wire p @ rest) = Ok p"
  by (rule decode_wire) (auto simp: has_at_0)

lemma round_trip:
  assumes "wf p" "encode p buf = (Ok n, buf')"
  shows "decode (take n buf') = Ok p" "decode buf' = Ok p"
  using decode_append [OF assms(1), of "[]"] decode_append [OF assms(1), of "drop n buf'"] encode_Ok(3) [OF assms]
    append_take_drop_id [of n buf']
  by simp_all

lemma wire_prefix_free:
  assumes "wf p" "wf q" "wire p @ xs = wire q @ ys"
  shows "p = q"
  using decode_append [OF assms(1), of xs] decode_append [OF assms(2), of ys] assms(3) by simp

end

end
