(* ===== verification/Packets_Fixed.thy ===== *)
theory Packets_Fixed
  imports Codec
begin

text \<open>
  The packets of a fixed size: PUBACK, PUBREC, PUBREL, PUBCOMP and UNSUBACK, whose sources are one text
  up to the constants and are modelled by \<open>packet_id_encode\<close> and \<open>packet_id_decode\<close>; PINGREQ, PINGRESP and
  DISCONNECT, likewise; CONNACK with its return codes; and SUBACK. Each is shown to be a \<open>packet_codec\<close>.
\<close>

section \<open>Packets that carry a packet identifier\<close>

definition packet_id_encode :: "PacketType \<Rightarrow> u8 \<Rightarrow> u16 \<Rightarrow> (bytes, usize, ProtocolError) action" where
  "packet_id_encode PACKET_TYPE PACKET_FLAGS packet_id = (\<lambda>buffer.
     then_do (of_result (validate_buffer_size 4 (length buffer))) (\<lambda>_.
     then_do (store 0 (header_first_byte PACKET_TYPE PACKET_FLAGS)) (\<lambda>_.
     then_do (store 1 2) (\<lambda>_.
     let pid_bytes = to_be_bytes packet_id in
     then_do (store 2 (pid_bytes ! 0)) (\<lambda>_.
     then_do (store 3 (pid_bytes ! 1)) (\<lambda>_.
     ret 4))))) buffer)"

definition packet_id_decode :: "PacketType \<Rightarrow> bytes \<Rightarrow> (u16, ProtocolError) result" where
  "packet_id_decode PACKET_TYPE bs =
     and_then (validate_buffer_size 4 (length bs)) (\<lambda>_.
     and_then (index bs 0) (\<lambda>header.
     and_then (validate_packet_type PACKET_TYPE header) (\<lambda>_.
     and_then (slice_from bs 1) (\<lambda>tail.
     and_then (read_variable_length tail) (\<lambda>(remaining_length, _).
     and_then (validate_remaining_length 4 remaining_length) (\<lambda>_.
     and_then (index bs 2) (\<lambda>b2.
     and_then (index bs 3) (\<lambda>b3.
     Ok (from_be_bytes b2 b3)))))))))"

record PubAckPacket = puback_packet_id :: u16
record PubRecPacket = pubrec_packet_id :: u16
record PubRelPacket = pubrel_packet_id :: u16
record PubCompPacket = pubcomp_packet_id :: u16
record UnsubAckPacket = unsuback_packet_id :: u16

definition PubAckPacket_encode :: "PubAckPacket \<Rightarrow> (bytes, usize, ProtocolError) action" where
  "PubAckPacket_encode p = packet_id_encode PT_PubAck 0 (puback_packet_id p)"

definition PubAckPacket_decode :: "bytes \<Rightarrow> (PubAckPacket, ProtocolError) result" where
  "PubAckPacket_decode bs = map_ok (\<lambda>i. \<lparr>puback_packet_id = i\<rparr>) (packet_id_decode PT_PubAck bs)"

definition PubRecPacket_encode :: "PubRecPacket \<Rightarrow> (bytes, usize, ProtocolError) action" where
  "PubRecPacket_encode p = packet_id_encode PT_PubRec 0 (pubrec_packet_id p)"

definition PubRecPacket_decode :: "bytes \<Rightarrow> (PubRecPacket, ProtocolError) result" where
  "PubRecPacket_decode bs = map_ok (\<lambda>i. \<lparr>pubrec_packet_id = i\<rparr>) (packet_id_decode PT_PubRec bs)"

definition PubRelPacket_encode :: "PubRelPacket \<Rightarrow> (bytes, usize, ProtocolError) action" where
  "PubRelPacket_encode p = packet_id_encode PT_PubRel 2 (pubrel_packet_id p)"

definition PubRelPacket_decode :: "bytes \<Rightarrow> (PubRelPacket, ProtocolError) result" where
  "PubRelPacket_decode bs = map_ok (\<lambda>i. \<lparr>pubrel_packet_id = i\<rparr>) (packet_id_decode PT_PubRel bs)"

definition PubCompPacket_encode :: "PubCompPacket \<Rightarrow> (bytes, usize, ProtocolError) action" where
  "PubCompPacket_encode p = packet_id_encode PT_PubComp 0 (pubcomp_packet_id p)"

definition PubCompPacket_decode :: "bytes \<Rightarrow> (PubCompPacket, ProtocolError) result" where
  "PubCompPacket_decode bs = map_ok (\<lambda>i. \<lparr>pubcomp_packet_id = i\<rparr>) (packet_id_decode PT_PubComp bs)"

definition UnsubAckPacket_encode :: "UnsubAckPacket \<Rightarrow> (bytes, usize, ProtocolError) action" where
  "UnsubAckPacket_encode p = packet_id_encode PT_UnsubAck 0 (unsuback_packet_id p)"

definition UnsubAckPacket_decode :: "bytes \<Rightarrow> (UnsubAckPacket, ProtocolError) result" where
  "UnsubAckPacket_decode bs = map_ok (\<lambda>i. \<lparr>unsuback_packet_id = i\<rparr>) (packet_id_decode PT_UnsubAck bs)"

section \<open>Packets without content\<close>

definition empty_encode :: "PacketType \<Rightarrow> u8 \<Rightarrow> (bytes, usize, ProtocolError) action" where
  "empty_encode PACKET_TYPE PACKET_FLAGS = (\<lambda>buffer.
     then_do (of_result (validate_buffer_size 2 (length buffer))) (\<lambda>_.
     then_do (store 0 (header_first_byte PACKET_TYPE PACKET_FLAGS)) (\<lambda>_.
     then_do (store 1 0) (\<lambda>_.
     ret 2))) buffer)"

definition empty_decode :: "PacketType \<Rightarrow> bytes \<Rightarrow> (unit, ProtocolError) result" where
  "empty_decode PACKET_TYPE bs =
     and_then (validate_buffer_size 2 (length bs)) (\<lambda>_.
     and_then (index bs 0) (\<lambda>header.
     and_then (validate_packet_type PACKET_TYPE header) (\<lambda>_.
     and_then (slice_from bs 1) (\<lambda>tail.
     and_then (read_variable_length tail) (\<lambda>(remaining_length, _).
     and_then (validate_remaining_length 2 remaining_length) (\<lambda>_.
     Ok ()))))))"

datatype PingReqPacket = PingReqPacket
datatype PingRespPacket = PingRespPacket
datatype DisconnectPacket = DisconnectPacket

definition PingReqPacket_encode :: "PingReqPacket \<Rightarrow> (bytes, usize, ProtocolError) action" where
  "PingReqPacket_encode p = empty_encode PT_PingReq 0"

definition PingReqPacket_decode :: "bytes \<Rightarrow> (PingReqPacket, ProtocolError) result" where
  "PingReqPacket_decode bs = map_ok (\<lambda>_. PingReqPacket) (empty_decode PT_PingReq bs)"

definition PingRespPacket_encode :: "PingRespPacket \<Rightarrow> (bytes, usize, ProtocolError) action" where
  "PingRespPacket_encode p = empty_encode PT_PingResp 0"

definition PingRespPacket_decode :: "bytes \<Rightarrow> (PingRespPacket, ProtocolError) result" where
  "PingRespPacket_decode bs = map_ok (\<lambda>_. PingRespPacket) (empty_decode PT_PingResp bs)"

definition DisconnectPacket_encode :: "DisconnectPacket \<Rightarrow> (bytes, usize, ProtocolError) action" where
  "DisconnectPacket_encode p = empty_encode PT_Disconnect 0"

definition DisconnectPacket_decode :: "bytes \<Rightarrow> (DisconnectPacket, ProtocolError) result" where
  "DisconnectPacket_decode bs = map_ok (\<lambda>_. DisconnectPacket) (empty_decode PT_Disconnect bs)"

section \<open>CONNACK\<close>

datatype ConnectReturnCode =
    Accepted | UnacceptableProtocolVersion | IdentifierRejected | ServerUnavailable
  | BadUserNameOrPassword | NotAuthorized

fun ConnectReturnCode_as_u8 :: "ConnectReturnCode \<Rightarrow> u8" where
  "ConnectReturnCode_as_u8 Accepted = 0"
| "ConnectReturnCode_as_u8 UnacceptableProtocolVersion = 1"
| "ConnectReturnCode_as_u8 IdentifierRejected = 2"
| "ConnectReturnCode_as_u8 ServerUnavailable = 3"
| "ConnectReturnCode_as_u8 BadUserNameOrPassword = 4"
| "ConnectReturnCode_as_u8 NotAuthorized = 5"

definition ConnectReturnCode_try_from :: "u8 \<Rightarrow> (ConnectReturnCode, ProtocolError) result" where
  "ConnectReturnCode_try_from code =
     (if code = 0 then Ok Accepted
      else if code = 1 then Ok UnacceptableProtocolVersion
      else if code = 2 then Ok IdentifierRejected
      else if code = 3 then Ok ServerUnavailable
      else if code = 4 then Ok BadUserNameOrPassword
      else if code = 5 then Ok NotAuthorized
      else Err (InvalidConnectReturnCode code))"

record ConnAckPacket =
  session_present :: bool
  return_code :: ConnectReturnCode

definition ConnAckPacket_default :: ConnAckPacket where
  "ConnAckPacket_default = \<lparr>session_present = False, return_code = Accepted\<rparr>"

definition ConnAckPacket_encode :: "ConnAckPacket \<Rightarrow> (bytes, usize, ProtocolError) action" where
  "ConnAckPacket_encode p = (\<lambda>buffer.
     then_do (of_result (validate_buffer_size 4 (length buffer))) (\<lambda>_.
     then_do (store 0 (header_first_byte PT_ConnAck 0)) (\<lambda>_.
     then_do (store 1 2) (\<lambda>_.
     then_do (store 2 (if session_present p then 1 else 0)) (\<lambda>_.
     then_do (store 3 (ConnectReturnCode_as_u8 (return_code p))) (\<lambda>_.
     ret 4))))) buffer)"

definition ConnAckPacket_decode :: "bytes \<Rightarrow> (ConnAckPacket, ProtocolError) result" where
  "ConnAckPacket_decode bs =
     and_then (validate_buffer_size 4 (length bs)) (\<lambda>_.
     and_then (index bs 0) (\<lambda>header.
     and_then (validate_packet_type PT_ConnAck header) (\<lambda>_.
     and_then (slice_from bs 1) (\<lambda>tail.
     and_then (read_variable_length tail) (\<lambda>(remaining_length, _).
     and_then (validate_remaining_length 4 remaining_length) (\<lambda>_.
     and_then (index bs 2) (\<lambda>session_present_byte.
     and_then (if session_present_byte = 0 then Ok False
               else if session_present_byte = 1 then Ok True
               else Err (InvalidSessionPresentFlag session_present_byte)) (\<lambda>sp.
     and_then (index bs 3) (\<lambda>b3.
     and_then (ConnectReturnCode_try_from b3) (\<lambda>rc.
     Ok \<lparr>session_present = sp, return_code = rc\<rparr>))))))))))"

section \<open>SUBACK\<close>

record SubAckPacket =
  suback_packet_id :: u16
  granted_qos :: QoS

definition SubAckPacket_encode :: "SubAckPacket \<Rightarrow> (bytes, usize, ProtocolError) action" where
  "SubAckPacket_encode p = (\<lambda>buffer.
     if length buffer < 5 then (Err (BufferTooSmall (length buffer)), buffer)
     else
       (then_do (store 0 (header_first_byte PT_SubAck 0)) (\<lambda>_.
        then_do (store 1 3) (\<lambda>_.
        let pid_bytes = to_be_bytes (suback_packet_id p) in
        then_do (store 2 (pid_bytes ! 0)) (\<lambda>_.
        then_do (store 3 (pid_bytes ! 1)) (\<lambda>_.
        then_do (store 4 (QoS_as_u8 (granted_qos p))) (\<lambda>_.
        ret 5)))))) buffer)"

definition SubAckPacket_decode :: "bytes \<Rightarrow> (SubAckPacket, ProtocolError) result" where
  "SubAckPacket_decode bs =
     (if length bs < 5 then Err (IncompletePacket (length bs))
      else
        and_then (index bs 0) (\<lambda>header.
        and_then (validate_packet_type PT_SubAck header) (\<lambda>_.
        and_then (slice_from bs 1) (\<lambda>tail.
        and_then (read_variable_length tail) (\<lambda>(remaining_length, _).
        if remaining_length \<noteq> 3 then Err (InvalidPacketLength 3 remaining_length)
        else
          and_then (index bs 2) (\<lambda>b2.
          and_then (index bs 3) (\<lambda>b3.
          and_then (index bs 4) (\<lambda>qos_value.
          and_then (QoS_from_u8 qos_value) (\<lambda>q.
          Ok \<lparr>suback_packet_id = from_be_bytes b2 b3, granted_qos = q\<rparr>)))))))))"

section \<open>The bytes on the wire\<close>

definition packet_id_wire :: "PacketType \<Rightarrow> u8 \<Rightarrow> u16 \<Rightarrow> bytes" where
  "packet_id_wire t f i = header_first_byte t f # 2 # to_be_bytes i"

definition empty_wire :: "PacketType \<Rightarrow> u8 \<Rightarrow> bytes" where
  "empty_wire t f = [header_first_byte t f, 0]"

definition ConnAckPacket_wire :: "ConnAckPacket \<Rightarrow> bytes" where
  "ConnAckPacket_wire p = [header_first_byte PT_ConnAck 0, 2, of_bool (session_present p),
     ConnectReturnCode_as_u8 (return_code p)]"

definition SubAckPacket_wire :: "SubAckPacket \<Rightarrow> bytes" where
  "SubAckPacket_wire p = header_first_byte PT_SubAck 0 # 3 # to_be_bytes (suback_packet_id p) @
     [QoS_as_u8 (granted_qos p)]"

lemma store_prefix:
  "1 < length xs \<Longrightarrow> store 0 v xs = (Ok (), put_at xs 0 [v])"
  "i = length ys \<Longrightarrow> i < length xs \<Longrightarrow> store i v (put_at xs 0 ys) = (Ok (), put_at xs 0 (ys @ [v]))"
  using put_at_append [of 0 ys "[v]" xs] by (auto simp: store_def list_update_put_at)

lemma unit_packets: "PingReqPacket = p" "PingRespPacket = q" "DisconnectPacket = r"
  by (cases p, cases q, cases r; simp)+

lemma small_varlen: "n < 128 \<Longrightarrow> read_variable_length (of_nat n # bs) = Ok (n, 1)"
  using read_variable_length_varlen [of n bs]
  by (simp add: varlen.simps MAX_VARIABLE_LENGTH_def variable_length_length_def)

lemma read_small_length [simp]:
  "read_variable_length (0 # bs) = Ok (0, 1)"
  "read_variable_length (2 # bs) = Ok (2, 1)"
  "read_variable_length (3 # bs) = Ok (3, 1)"
  using small_varlen [of 0 bs] small_varlen [of 2 bs] small_varlen [of 3 bs] by simp_all

lemma validate_small_length [simp]:
  "validate_remaining_length 2 0 = Ok ()" "validate_remaining_length 4 2 = Ok ()"
  by (simp_all add: validate_remaining_length_def variable_length_length_def)

lemmas fixed_simps = then_do_apply store_prefix validate_buffer_size_def index_def slice_from_def
  to_be_bytes_def has_at_0 Let_def

lemma packet_id_emits: "emits too_small (packet_id_encode t f i) 0 (packet_id_wire t f i)"
  by (auto simp: emits_def too_small_def packet_id_encode_def packet_id_wire_def fixed_simps)

lemma packet_id_decode_wire: "has_at B 0 (packet_id_wire t f i) \<Longrightarrow> packet_id_decode t B = Ok i"
  by (auto simp: packet_id_decode_def packet_id_wire_def fixed_simps from_be_to_be)

lemma empty_emits: "emits too_small (empty_encode t f) 0 (empty_wire t f)"
  by (auto simp: emits_def too_small_def empty_encode_def empty_wire_def fixed_simps)

lemma empty_decode_wire: "has_at B 0 (empty_wire t f) \<Longrightarrow> empty_decode t B = Ok ()"
  by (auto simp: empty_decode_def empty_wire_def fixed_simps)

lemma ConnectReturnCode_round_trip [simp]:
  "ConnectReturnCode_try_from (ConnectReturnCode_as_u8 c) = Ok c"
  by (cases c) (simp_all add: ConnectReturnCode_try_from_def)

interpretation puback: packet_codec PubAckPacket_encode PubAckPacket_decode
    "\<lambda>p. packet_id_wire PT_PubAck 0 (puback_packet_id p)" "\<lambda>_. True" too_small
  by unfold_locales (auto simp: PubAckPacket_encode_def PubAckPacket_decode_def packet_id_emits packet_id_decode_wire)

interpretation pubrec: packet_codec PubRecPacket_encode PubRecPacket_decode
    "\<lambda>p. packet_id_wire PT_PubRec 0 (pubrec_packet_id p)" "\<lambda>_. True" too_small
  by unfold_locales (auto simp: PubRecPacket_encode_def PubRecPacket_decode_def packet_id_emits packet_id_decode_wire)

interpretation pubrel: packet_codec PubRelPacket_encode PubRelPacket_decode
    "\<lambda>p. packet_id_wire PT_PubRel 2 (pubrel_packet_id p)" "\<lambda>_. True" too_small
  by unfold_locales (auto simp: PubRelPacket_encode_def PubRelPacket_decode_def packet_id_emits packet_id_decode_wire)

interpretation pubcomp: packet_codec PubCompPacket_encode PubCompPacket_decode
    "\<lambda>p. packet_id_wire PT_PubComp 0 (pubcomp_packet_id p)" "\<lambda>_. True" too_small
  by unfold_locales (auto simp: PubCompPacket_encode_def PubCompPacket_decode_def packet_id_emits packet_id_decode_wire)

interpretation unsuback: packet_codec UnsubAckPacket_encode UnsubAckPacket_decode
    "\<lambda>p. packet_id_wire PT_UnsubAck 0 (unsuback_packet_id p)" "\<lambda>_. True" too_small
  by unfold_locales
    (auto simp: UnsubAckPacket_encode_def UnsubAckPacket_decode_def packet_id_emits packet_id_decode_wire)

interpretation pingreq: packet_codec PingReqPacket_encode PingReqPacket_decode
    "\<lambda>_. empty_wire PT_PingReq 0" "\<lambda>_. True" too_small
  by unfold_locales (auto simp: PingReqPacket_encode_def PingReqPacket_decode_def empty_emits empty_decode_wire
    unit_packets)

interpretation pingresp: packet_codec PingRespPacket_encode PingRespPacket_decode
    "\<lambda>_. empty_wire PT_PingResp 0" "\<lambda>_. True" too_small
  by unfold_locales (auto simp: PingRespPacket_encode_def PingRespPacket_decode_def empty_emits empty_decode_wire
    unit_packets)

interpretation disconnect: packet_codec DisconnectPacket_encode DisconnectPacket_decode
    "\<lambda>_. empty_wire PT_Disconnect 0" "\<lambda>_. True" too_small
  by unfold_locales (auto simp: DisconnectPacket_encode_def DisconnectPacket_decode_def empty_emits
    empty_decode_wire unit_packets)

interpretation connack: packet_codec ConnAckPacket_encode ConnAckPacket_decode
    ConnAckPacket_wire "\<lambda>_. True" too_small
proof
  fix p B
  show "emits too_small (ConnAckPacket_encode p) 0 (ConnAckPacket_wire p)"
    by (auto simp: emits_def too_small_def ConnAckPacket_encode_def ConnAckPacket_wire_def fixed_simps)
  show "has_at B 0 (ConnAckPacket_wire p) \<Longrightarrow> ConnAckPacket_decode B = Ok p"
    by (auto simp: ConnAckPacket_decode_def ConnAckPacket_wire_def fixed_simps)
qed

interpretation suback: packet_codec SubAckPacket_encode SubAckPacket_decode
    SubAckPacket_wire "\<lambda>_. True" too_small
proof
  fix p B
  show "emits too_small (SubAckPacket_encode p) 0 (SubAckPacket_wire p)"
    by (auto simp: emits_def too_small_def SubAckPacket_encode_def SubAckPacket_wire_def fixed_simps)
  show "has_at B 0 (SubAckPacket_wire p) \<Longrightarrow> SubAckPacket_decode B = Ok p"
    by (auto simp: SubAckPacket_decode_def SubAckPacket_wire_def fixed_simps from_be_to_be)
qed

end
