(* ===== verification/Packets_Var.thy ===== *)
theory Packets_Var
  imports Codec
begin

text \<open>
  PUBLISH, SUBSCRIBE and UNSUBSCRIBE (\<^verbatim>\<open>src/protocol/packets/publish.rs\<close>, \<^verbatim>\<open>subscribe.rs\<close>,
  \<^verbatim>\<open>unsubscribe.rs\<close>). The const generics \<^verbatim>\<open>MAX_TOPIC_NAME_LENGTH\<close> and \<^verbatim>\<open>MAX_PAYLOAD_SIZE\<close> are the
  arguments \<open>N\<close> and \<open>M\<close> of the decoders; an encoder finds them in the capacities of its containers. A
  \<^verbatim>\<open>TopicName\<close> is its \<^verbatim>\<open>HeaplessString\<close>.
\<close>

type_synonym TopicName = HeaplessString

section \<open>PUBLISH\<close>

record PublishFlags =
  pf_dup :: bool
  pf_qos :: QoS
  pf_retain :: bool

definition PublishFlags_to_nibble :: "PublishFlags \<Rightarrow> u8" where
  "PublishFlags_to_nibble f =
     (let dup = (if pf_dup f then 1 else 0); retain = (if pf_retain f then 1 else 0) in
      push_bit 3 dup OR push_bit 1 (QoS_as_u8 (pf_qos f)) OR retain)"

definition PublishFlags_publish_header_byte :: "PublishFlags \<Rightarrow> u8" where
  "PublishFlags_publish_header_byte f =
     push_bit 4 (PacketType_as_u8 PT_Publish) OR (PublishFlags_to_nibble f AND 0x0F)"

definition PublishFlags_from_nibble :: "u8 \<Rightarrow> (PublishFlags, ProtocolError) result" where
  "PublishFlags_from_nibble nibble =
     and_then (QoS_from_u8 (drop_bit 1 nibble AND 3)) (\<lambda>q.
     Ok \<lparr>pf_dup = (nibble AND 8 \<noteq> 0), pf_qos = q, pf_retain = (nibble AND 1 \<noteq> 0)\<rparr>)"

record PublishPacket =
  pub_topic_name :: TopicName
  pub_packet_id :: "u16 option"
  pub_payload :: "u8 HeaplessVec"
  pub_qos :: QoS
  pub_dup :: bool
  pub_retain :: bool

definition PublishPacket_flags :: "PublishPacket \<Rightarrow> u8" where
  "PublishPacket_flags p = PublishFlags_publish_header_byte
     \<lparr>pf_dup = pub_dup p, pf_qos = pub_qos p, pf_retain = pub_retain p\<rparr>"

definition PublishPacket_encode :: "PublishPacket \<Rightarrow> (bytes, usize, ProtocolError) action" where
  "PublishPacket_encode p =
     (let offset = 0;
          remaining_length = 2 + HeaplessString_len (pub_topic_name p)
            + (if pub_qos p \<noteq> AtMostOnce then 2 else 0) + HeaplessVec_len (pub_payload p)
      in
      then_do (put_byte offset (PublishFlags_publish_header_byte
        \<lparr>pf_dup = pub_dup p, pf_qos = pub_qos p, pf_retain = pub_retain p\<rparr>)) (\<lambda>offset.
      then_do (put_remaining_length offset remaining_length) (\<lambda>offset.
      then_do (write_string (HeaplessString_as_str (pub_topic_name p)) offset) (\<lambda>offset.
      then_do
        (if pub_qos p \<noteq> AtMostOnce then (\<lambda>buffer.
           if offset + 2 > length buffer then (Err (BufferTooSmall (length buffer)), buffer)
           else
             then_do (of_result (ok_or (pub_packet_id p) MissingPacketId)) (\<lambda>pid.
             let pid_bytes = to_be_bytes pid in
             then_do (store offset (pid_bytes ! 0)) (\<lambda>_.
             then_do (store (offset + 1) (pid_bytes ! 1)) (\<lambda>_. ret (offset + 2)))) buffer)
         else ret offset) (\<lambda>offset buffer.
      if offset + HeaplessVec_len (pub_payload p) > length buffer
        then (Err (BufferTooSmall (length buffer)), buffer)
      else then_do (copy_at offset (HeaplessVec_as_slice (pub_payload p))) (\<lambda>_.
             ret (offset + HeaplessVec_len (pub_payload p))) buffer)))))"

definition PublishPacket_decode :: "usize \<Rightarrow> usize \<Rightarrow> bytes \<Rightarrow> (PublishPacket, ProtocolError) result" where
  "PublishPacket_decode N M bs =
     (let offset = 0 in
      if offset \<ge> length bs then Err (IncompletePacket (length bs))
      else
      let header_byte = bs ! offset;
          offset = offset + 1;
          packet_type = drop_bit 4 header_byte AND 0x0F
      in
      if packet_type \<noteq> PacketType_as_u8 PT_Publish then Err (InvalidPacketType packet_type)
      else
      and_then (PublishFlags_from_nibble (header_byte AND 0x0F)) (\<lambda>publish_flags.
      and_then (slice_from bs offset) (\<lambda>tail.
      and_then (read_variable_length tail) (\<lambda>(remaining_length, var_len_bytes).
      let offset = offset + var_len_bytes; start_offset = offset in
      and_then (read_string bs offset) (\<lambda>(topic_str, offset).
      if topic_str = [] then Err TopicEmpty
      else
      and_then (map_err (\<lambda>_. TopicNameLengthExceeded N (length topic_str))
        (HeaplessString_try_from N topic_str)) (\<lambda>topic_name.
      and_then
        (if pf_qos publish_flags \<noteq> AtMostOnce then
           if offset + 2 > length bs then Err (IncompletePacket (length bs))
           else
             let pid = from_be_bytes (bs ! offset) (bs ! (offset + 1)) in
             if pid = 0 then Err MissingPacketId else Ok (Some pid, offset + 2)
         else Ok (None, offset)) (\<lambda>(packet_id, offset).
      let payload_end = start_offset + remaining_length in
      if payload_end > length bs then Err (IncompletePacket (length bs))
      else
      and_then (slice bs offset payload_end) (\<lambda>payload_bytes.
      and_then (map_err (\<lambda>_. PayloadTooLarge M (length payload_bytes))
        (built (HeaplessVec_extend_from_slice payload_bytes) (HeaplessVec_new M 0))) (\<lambda>payload.
      let actual_consumed = offset - start_offset + length payload_bytes in
      if actual_consumed \<noteq> remaining_length
        then Err (InvalidPacketLength remaining_length actual_consumed)
      else Ok \<lparr>pub_topic_name = topic_name, pub_packet_id = packet_id, pub_payload = payload,
        pub_qos = pf_qos publish_flags, pub_dup = pf_dup publish_flags,
        pub_retain = pf_retain publish_flags\<rparr>)))))))))"

section \<open>SUBSCRIBE and UNSUBSCRIBE\<close>

record SubscribePacket =
  sub_packet_id :: u16
  sub_topic_filter :: TopicName
  sub_requested_qos :: QoS

definition SubscribePacket_encode :: "SubscribePacket \<Rightarrow> (bytes, usize, ProtocolError) action" where
  "SubscribePacket_encode p =
     (let offset = 0; remaining_length = 2 + 2 + HeaplessString_len (sub_topic_filter p) + 1 in
      then_do (put_byte offset (push_bit 4 (PacketType_as_u8 PT_Subscribe) OR 2)) (\<lambda>offset.
      then_do (put_remaining_length offset remaining_length) (\<lambda>offset.
      then_do (put_u16 offset (sub_packet_id p)) (\<lambda>offset.
      then_do (write_string (HeaplessString_as_str (sub_topic_filter p)) offset) (\<lambda>offset.
      put_byte offset (QoS_as_u8 (sub_requested_qos p)))))))"

definition SubscribePacket_decode :: "usize \<Rightarrow> bytes \<Rightarrow> (SubscribePacket, ProtocolError) result" where
  "SubscribePacket_decode N bs =
     (let offset = 0 in
      if offset \<ge> length bs then Err (IncompletePacket (length bs))
      else
      let header_byte = bs ! offset;
          offset = offset + 1;
          packet_type = drop_bit 4 header_byte AND 0x0F
      in
      if packet_type \<noteq> PacketType_as_u8 PT_Subscribe then Err (InvalidPacketType packet_type)
      else
      and_then (slice_from bs offset) (\<lambda>tail.
      and_then (read_variable_length tail) (\<lambda>(remaining_length, var_len_bytes).
      let offset = offset + var_len_bytes; start_offset = offset in
      if offset + 2 > length bs then Err (IncompletePacket (length bs))
      else
      let packet_id = from_be_bytes (bs ! offset) (bs ! (offset + 1)) in
      if packet_id = 0 then Err MissingPacketId
      else
      let offset = offset + 2 in
      and_then (read_string bs offset) (\<lambda>(topic_filter, offset).
      if topic_filter = [] then Err TopicEmpty
      else
      and_then (map_err (\<lambda>_. TopicNameLengthExceeded N (length topic_filter))
        (HeaplessString_try_from N topic_filter)) (\<lambda>topic_name.
      if offset + 1 > length bs then Err (IncompletePacket (length bs))
      else
      and_then (QoS_from_u8 (bs ! offset)) (\<lambda>requested_qos.
      let offset = offset + 1; actual_consumed = offset - start_offset in
      if actual_consumed \<noteq> remaining_length
        then Err (InvalidPacketLength remaining_length actual_consumed)
      else Ok \<lparr>sub_packet_id = packet_id, sub_topic_filter = topic_name,
        sub_requested_qos = requested_qos\<rparr>))))))"

record UnsubscribePacket =
  unsub_packet_id :: u16
  unsub_topic_filter :: TopicName

definition UnsubscribePacket_encode :: "UnsubscribePacket \<Rightarrow> (bytes, usize, ProtocolError) action" where
  "UnsubscribePacket_encode p =
     (let offset = 0; remaining_length = 2 + 2 + HeaplessString_len (unsub_topic_filter p) in
      then_do (put_byte offset (push_bit 4 (PacketType_as_u8 PT_Unsubscribe) OR 2)) (\<lambda>offset.
      then_do (put_remaining_length offset remaining_length) (\<lambda>offset.
      then_do (put_u16 offset (unsub_packet_id p)) (\<lambda>offset.
      write_string (HeaplessString_as_str (unsub_topic_filter p)) offset))))"

definition UnsubscribePacket_decode :: "usize \<Rightarrow> bytes \<Rightarrow> (UnsubscribePacket, ProtocolError) result" where
  "UnsubscribePacket_decode N bs =
     (let offset = 0 in
      if offset \<ge> length bs then Err (IncompletePacket (length bs))
      else
      let header_byte = bs ! offset;
          offset = offset + 1;
          packet_type = drop_bit 4 header_byte AND 0x0F
      in
      if packet_type \<noteq> PacketType_as_u8 PT_Unsubscribe then Err (InvalidPacketType packet_type)
      else
      and_then (slice_from bs offset) (\<lambda>tail.
      and_then (read_variable_length tail) (\<lambda>(remaining_length, var_len_bytes).
      let offset = offset + var_len_bytes; start_offset = offset in
      if offset + 2 > length bs then Err (IncompletePacket (length bs))
      else
      let packet_id = from_be_bytes (bs ! offset) (bs ! (offset + 1)) in
      if packet_id = 0 then Err MissingPacketId
      else
      let offset = offset + 2 in
      and_then (read_string bs offset) (\<lambda>(topic_filter, offset).
      if topic_filter = [] then Err TopicEmpty
      else
      and_then (map_err (\<lambda>_. TopicNameLengthExceeded N (length topic_filter))
        (HeaplessString_try_from N topic_filter)) (\<lambda>topic_name.
      let actual_consumed = offset - start_offset in
      if actual_consumed \<noteq> remaining_length
        then Err (InvalidPacketLength remaining_length actual_consumed)
      else Ok \<lparr>unsub_packet_id = packet_id, unsub_topic_filter = topic_name\<rparr>)))))"

section \<open>Well-formed packets and their bytes\<close>

definition topic_wf :: "usize \<Rightarrow> TopicName \<Rightarrow> bool" where
  "topic_wf N t \<longleftrightarrow> str_ok t \<and> HeaplessString_capacity t = N \<and> HeaplessString_bytes t \<noteq> []"

definition payload_wf :: "usize \<Rightarrow> u8 HeaplessVec \<Rightarrow> bool" where
  "payload_wf M v \<longleftrightarrow> vec_padded 0 v \<and> HeaplessVec_capacity v = M"

definition PublishPacket_wf :: "usize \<Rightarrow> usize \<Rightarrow> PublishPacket \<Rightarrow> bool" where
  "PublishPacket_wf N M p \<longleftrightarrow> topic_wf N (pub_topic_name p) \<and> payload_wf M (pub_payload p) \<and>
     (pub_packet_id p = None \<longleftrightarrow> pub_qos p = AtMostOnce) \<and> pub_packet_id p \<noteq> Some 0"

definition SubscribePacket_wf :: "usize \<Rightarrow> SubscribePacket \<Rightarrow> bool" where
  "SubscribePacket_wf N p \<longleftrightarrow> topic_wf N (sub_topic_filter p) \<and> sub_packet_id p \<noteq> 0"

definition UnsubscribePacket_wf :: "usize \<Rightarrow> UnsubscribePacket \<Rightarrow> bool" where
  "UnsubscribePacket_wf N p \<longleftrightarrow> topic_wf N (unsub_topic_filter p) \<and> unsub_packet_id p \<noteq> 0"

definition PublishPacket_body :: "PublishPacket \<Rightarrow> bytes" where
  "PublishPacket_body p = length_prefixed (HeaplessString_bytes (pub_topic_name p)) @
     (case pub_packet_id p of Some i \<Rightarrow> to_be_bytes i | None \<Rightarrow> []) @ HeaplessVec_as_slice (pub_payload p)"

definition SubscribePacket_body :: "SubscribePacket \<Rightarrow> bytes" where
  "SubscribePacket_body p = to_be_bytes (sub_packet_id p) @
     length_prefixed (HeaplessString_bytes (sub_topic_filter p)) @ [QoS_as_u8 (sub_requested_qos p)]"

definition UnsubscribePacket_body :: "UnsubscribePacket \<Rightarrow> bytes" where
  "UnsubscribePacket_body p = to_be_bytes (unsub_packet_id p) @
     length_prefixed (HeaplessString_bytes (unsub_topic_filter p))"

definition framed :: "u8 \<Rightarrow> bytes \<Rightarrow> bytes" where
  "framed header body = [header] @ varlen (length body) @ body"

definition PublishPacket_wire :: "PublishPacket \<Rightarrow> bytes" where
  "PublishPacket_wire p = framed (PublishPacket_flags p) (PublishPacket_body p)"

definition SubscribePacket_wire :: "SubscribePacket \<Rightarrow> bytes" where
  "SubscribePacket_wire p = framed (header_first_byte PT_Subscribe 2) (SubscribePacket_body p)"

definition UnsubscribePacket_wire :: "UnsubscribePacket \<Rightarrow> bytes" where
  "UnsubscribePacket_wire p = framed (header_first_byte PT_Unsubscribe 2) (UnsubscribePacket_body p)"

lemma topic_wf_facts:
  assumes "topic_wf N t"
  shows "HeaplessString_as_str t = HeaplessString_bytes t"
    "HeaplessString_len t = length (HeaplessString_bytes t)"
    "length (HeaplessString_bytes t) < 256" "valid_utf8 (HeaplessString_bytes t)" "HeaplessString_bytes t \<noteq> []"
    "HeaplessString_try_from N (HeaplessString_bytes t) = Ok t"
  using assms HeaplessString_try_from_bytes [of t] length_HeaplessString_bytes [of t]
  by (auto simp: topic_wf_def str_ok_def str_wf_def HeaplessString_as_str_eq HeaplessString_len_def)

lemma payload_wf_facts:
  assumes "payload_wf M v"
  shows "HeaplessVec_len v = length (HeaplessVec_as_slice v)" "length (HeaplessVec_as_slice v) < 65536"
    "built (HeaplessVec_extend_from_slice (HeaplessVec_as_slice v)) (HeaplessVec_new M 0) = Ok v"
  using assms HeaplessVec_rebuild [of 0 v] HeaplessVec_len_as_slice [of v] length_as_slice [of v]
  by (auto simp: payload_wf_def vec_padded_def built_def)

text \<open>The header and the length field of a framed packet, as the decoders read them.\<close>

lemma framed_has_at:
  assumes "has_at B 0 (framed h body)" "length body \<le> MAX_VARIABLE_LENGTH"
  shows "0 < length B" "B ! 0 = h" "slice_from B 1 = (Ok (drop 1 B) :: (bytes, ProtocolError) result)"
    "read_variable_length (drop 1 B) = Ok (length body, variable_length_length (length body))"
    "has_at B (1 + variable_length_length (length body)) body"
proof -
  have h: "0 < length B" "B ! 0 = h" "has_at B 1 (varlen (length body))"
      "has_at B (1 + variable_length_length (length body)) body"
    using assms length_varlen [OF assms(2)] by (auto simp: framed_def has_at_append has_at_Cons)
  then show "0 < length B" "B ! 0 = h" "slice_from B 1 = (Ok (drop 1 B) :: (bytes, ProtocolError) result)"
    "has_at B (1 + variable_length_length (length body)) body"
    by (auto simp: slice_from_def Suc_le_eq)
  show "read_variable_length (drop 1 B) = Ok (length body, variable_length_length (length body))"
    using has_at_varlen [OF h(3) assms(2)] .
qed

lemma header_nibble: "drop_bit 4 (header_first_byte t f) AND 0x0F = PacketType_as_u8 t"
  by (cases t) (simp_all add: drop_bit_header)

lemma publish_header:
  "drop_bit 4 (PublishFlags_publish_header_byte f) AND 0x0F = 3"
  "PublishFlags_from_nibble (PublishFlags_publish_header_byte f AND 0x0F) = Ok f"
  by (cases f; rename_tac d q r; case_tac d; case_tac q; case_tac r;
      simp add: PublishFlags_publish_header_byte_def PublishFlags_to_nibble_def
        PublishFlags_from_nibble_def QoS_from_u8_def)+

section \<open>Encoders and decoders\<close>

lemma emits_put_pid:
  assumes "pid = None \<longleftrightarrow> q = AtMostOnce"
  shows "emits too_small
    (if q \<noteq> AtMostOnce then (\<lambda>buffer.
       if off + 2 > length buffer then (Err (BufferTooSmall (length buffer)), buffer)
       else then_do (of_result (ok_or pid MissingPacketId)) (\<lambda>pid.
         then_do (store off (to_be_bytes pid ! 0)) (\<lambda>_.
         then_do (store (off + 1) (to_be_bytes pid ! 1)) (\<lambda>_. ret (off + 2)))) buffer)
     else ret off) off (case pid of Some i \<Rightarrow> to_be_bytes i | None \<Rightarrow> [])"
proof (cases pid)
  case None
  with assms show ?thesis by (simp add: emits_ret)
next
  case (Some i)
  with assms emits_put_u16 [of off i] show ?thesis by (simp add: put_u16_def ok_or_def Let_def cong: if_cong)
qed

lemma emits_put_slice:
  assumes "n = length data"
  shows "emits too_small (\<lambda>buffer.
      if off + n > length buffer then (Err (BufferTooSmall (length buffer)), buffer)
      else then_do (copy_at off data) (\<lambda>_. ret (off + n)) buffer) off data"
  using assms by (auto simp: emits_def too_small_def then_do_apply copy_at_def)

lemma PublishPacket_emits:
  assumes "PublishPacket_wf N M p"
  shows "emits too_small (PublishPacket_encode p) 0 (PublishPacket_wire p)"
proof -
  note wf = assms [unfolded PublishPacket_wf_def]
  note t = topic_wf_facts [OF wf [THEN conjunct1]]
  have p: "payload_wf M (pub_payload p)" using wf by simp
  note pl = payload_wf_facts [OF p]
  let ?rl = "2 + HeaplessString_len (pub_topic_name p) + (if pub_qos p \<noteq> AtMostOnce then 2 else 0)
    + HeaplessVec_len (pub_payload p)"
  have rl: "?rl = length (PublishPacket_body p)"
    using wf t(2) pl(1) by (auto simp: PublishPacket_body_def)
  moreover have max: "?rl \<le> MAX_VARIABLE_LENGTH" using t(2,3) pl(1,2) by (simp add: MAX_VARIABLE_LENGTH_def)
  ultimately show ?thesis
    unfolding PublishPacket_wire_def PublishPacket_encode_def framed_def Let_def rl [symmetric]
    unfolding PublishPacket_body_def PublishPacket_flags_def t(1)
    using wf
    by (intro emits_then emits_put_byte emits_put_remaining_length emits_write_string emits_put_slice
      emits_put_pid pl(1)) auto
qed

lemma PublishPacket_decode_wire:
  assumes "PublishPacket_wf N M p" "has_at B 0 (PublishPacket_wire p)"
  shows "PublishPacket_decode N M B = Ok p"
proof -
  note wf = assms(1) [unfolded PublishPacket_wf_def]
  note t = topic_wf_facts [OF wf [THEN conjunct1]]
  have p: "payload_wf M (pub_payload p)" using wf by simp
  note pl = payload_wf_facts [OF p]
  let ?topic = "HeaplessString_bytes (pub_topic_name p)" and ?data = "HeaplessVec_as_slice (pub_payload p)"
  let ?n = "length (PublishPacket_body p)" and ?id = "case pub_packet_id p of Some i \<Rightarrow> to_be_bytes i | None \<Rightarrow> []"
  let ?s = "1 + variable_length_length ?n"
  have n: "?n = 2 + length ?topic + length ?id + length ?data" by (simp add: PublishPacket_body_def)
  have "?n \<le> MAX_VARIABLE_LENGTH"
    using t(3) pl(2) by (simp add: n MAX_VARIABLE_LENGTH_def split: option.split)
  note f = framed_has_at [OF assms(2) [unfolded PublishPacket_wire_def] this]
  have b: "has_at B ?s (length_prefixed ?topic)" "has_at B (?s + 2 + length ?topic) ?id"
    "has_at B (?s + 2 + length ?topic + length ?id) ?data"
    using f(5) unfolding PublishPacket_body_def [of p] by (simp_all add: has_at_append add.assoc)
  note rs = has_at_read_string [OF b(1) _ t(4)]
  have sl: "slice B (?s + 2 + length ?topic + length ?id) (?s + ?n) =
      (Ok ?data :: (bytes, ProtocolError) result)"
    using has_at_length [OF b(3)] has_at_take [OF b(3)] by (simp add: slice_def n)
  have len: "?s + ?n \<le> length B" using has_at_length [OF b(3)] n by simp
  show ?thesis
  proof (cases "pub_packet_id p")
    case None
    with wf have q: "pub_qos p = AtMostOnce" by simp
    show ?thesis
      using f(1-4) rs t(3,5,6) sl len n None q pl(3)
      by (simp add: PublishPacket_decode_def Let_def publish_header PublishPacket_flags_def)
  next
    case (Some i)
    with wf have q: "pub_qos p \<noteq> AtMostOnce" "i \<noteq> 0" by auto
    have id: "?s + 2 + length ?topic + 2 \<le> length B"
      "from_be_bytes (B ! (?s + 2 + length ?topic)) (B ! Suc (?s + 2 + length ?topic)) = i"
      using has_at_u16 b(2) Some by auto
    show ?thesis
      using f(1-4) rs t(3,5,6) sl len n Some q pl(3) id
      by (simp add: PublishPacket_decode_def Let_def publish_header PublishPacket_flags_def)
  qed
qed

lemma SubscribePacket_emits:
  assumes "SubscribePacket_wf N p"
  shows "emits too_small (SubscribePacket_encode p) 0 (SubscribePacket_wire p)"
proof -
  note t = topic_wf_facts [OF assms [unfolded SubscribePacket_wf_def, THEN conjunct1]]
  let ?rl = "2 + 2 + HeaplessString_len (sub_topic_filter p) + 1"
  have rl: "?rl = length (SubscribePacket_body p)" using t(2) by (simp add: SubscribePacket_body_def)
  have max: "?rl \<le> MAX_VARIABLE_LENGTH" using t(2,3) by (simp add: MAX_VARIABLE_LENGTH_def)
  have h: "push_bit 4 (PacketType_as_u8 PT_Subscribe) OR 2 = header_first_byte PT_Subscribe 2"
    by (simp add: header_first_byte_def)
  show ?thesis
    unfolding SubscribePacket_wire_def SubscribePacket_encode_def framed_def Let_def rl [symmetric]
    unfolding SubscribePacket_body_def t(1) h
    by (intro emits_then emits_put_byte emits_put_remaining_length emits_write_string emits_put_u16 max)
qed

lemma SubscribePacket_decode_wire:
  assumes "SubscribePacket_wf N p" "has_at B 0 (SubscribePacket_wire p)"
  shows "SubscribePacket_decode N B = Ok p"
proof -
  note t = topic_wf_facts [OF assms(1) [unfolded SubscribePacket_wf_def, THEN conjunct1]]
  let ?topic = "HeaplessString_bytes (sub_topic_filter p)" and ?n = "length (SubscribePacket_body p)"
  let ?s = "1 + variable_length_length ?n"
  have n: "?n = 5 + length ?topic" by (simp add: SubscribePacket_body_def)
  then have "?n \<le> MAX_VARIABLE_LENGTH" using t(3) by (simp add: MAX_VARIABLE_LENGTH_def)
  note f = framed_has_at [OF assms(2) [unfolded SubscribePacket_wire_def] this]
  have b: "has_at B ?s (to_be_bytes (sub_packet_id p))" "has_at B (?s + 2) (length_prefixed ?topic)"
    "?s + 2 + 2 + length ?topic < length B" "B ! (?s + 2 + 2 + length ?topic) = QoS_as_u8 (sub_requested_qos p)"
    using f(5) unfolding SubscribePacket_body_def [of p]
    by (simp_all add: has_at_append has_at_Cons add.assoc numeral_eq_Suc)
  show ?thesis
    using f(1-4) has_at_u16 [OF b(1)] has_at_read_string [OF b(2) _ t(4)] b(3,4) t(3,5,6) n assms(1)
    by (simp add: SubscribePacket_decode_def Let_def header_nibble SubscribePacket_wf_def add.assoc)
qed

lemma UnsubscribePacket_emits:
  assumes "UnsubscribePacket_wf N p"
  shows "emits too_small (UnsubscribePacket_encode p) 0 (UnsubscribePacket_wire p)"
proof -
  note t = topic_wf_facts [OF assms [unfolded UnsubscribePacket_wf_def, THEN conjunct1]]
  let ?rl = "2 + 2 + HeaplessString_len (unsub_topic_filter p)"
  have rl: "?rl = length (UnsubscribePacket_body p)" using t(2) by (simp add: UnsubscribePacket_body_def)
  have max: "?rl \<le> MAX_VARIABLE_LENGTH" using t(2,3) by (simp add: MAX_VARIABLE_LENGTH_def)
  have h: "push_bit 4 (PacketType_as_u8 PT_Unsubscribe) OR 2 = header_first_byte PT_Unsubscribe 2"
    by (simp add: header_first_byte_def)
  show ?thesis
    unfolding UnsubscribePacket_wire_def UnsubscribePacket_encode_def framed_def Let_def rl [symmetric]
    unfolding UnsubscribePacket_body_def t(1) h
    by (intro emits_then emits_put_byte emits_put_remaining_length emits_write_string emits_put_u16 max)
qed

lemma UnsubscribePacket_decode_wire:
  assumes "UnsubscribePacket_wf N p" "has_at B 0 (UnsubscribePacket_wire p)"
  shows "UnsubscribePacket_decode N B = Ok p"
proof -
  note t = topic_wf_facts [OF assms(1) [unfolded UnsubscribePacket_wf_def, THEN conjunct1]]
  let ?topic = "HeaplessString_bytes (unsub_topic_filter p)" and ?n = "length (UnsubscribePacket_body p)"
  let ?s = "1 + variable_length_length ?n"
  have n: "?n = 4 + length ?topic" by (simp add: UnsubscribePacket_body_def)
  then have "?n \<le> MAX_VARIABLE_LENGTH" using t(3) by (simp add: MAX_VARIABLE_LENGTH_def)
  note f = framed_has_at [OF assms(2) [unfolded UnsubscribePacket_wire_def] this]
  have b: "has_at B ?s (to_be_bytes (unsub_packet_id p))" "has_at B (?s + 2) (length_prefixed ?topic)"
    using f(5) unfolding UnsubscribePacket_body_def [of p] by (simp_all add: has_at_append add.assoc)
  show ?thesis
    using f(1-4) has_at_u16 [OF b(1)] has_at_read_string [OF b(2) _ t(4)] t(3,5,6) n assms(1)
    by (simp add: UnsubscribePacket_decode_def Let_def header_nibble UnsubscribePacket_wf_def add.assoc)
qed

interpretation publish: packet_codec PublishPacket_encode "PublishPacket_decode N M" PublishPacket_wire
    "PublishPacket_wf N M" too_small for N M
  by unfold_locales (rule PublishPacket_emits PublishPacket_decode_wire; assumption)+

interpretation subscribe: packet_codec SubscribePacket_encode "SubscribePacket_decode N" SubscribePacket_wire
    "SubscribePacket_wf N" too_small for N
  by unfold_locales (rule SubscribePacket_emits SubscribePacket_decode_wire; assumption)+

interpretation unsubscribe: packet_codec UnsubscribePacket_encode "UnsubscribePacket_decode N"
    UnsubscribePacket_wire "UnsubscribePacket_wf N" too_small for N
  by unfold_locales (rule UnsubscribePacket_emits UnsubscribePacket_decode_wire; assumption)+

section \<open>What the decoders return\<close>

lemma try_from_Ok:
  assumes "HeaplessString_try_from N v = Ok s" "N < 2 ^ 8" "valid_utf8 v" "v \<noteq> []"
  shows "topic_wf N s"
  using assms HeaplessString_try_from_fits [of v N] HeaplessString_try_from_long [of N v]
  by (cases "length v \<le> N") (auto simp: topic_wf_def str_ok_def)

lemma try_from_not_Panic [simp]: "HeaplessString_try_from N v \<noteq> Panic"
  by (simp add: HeaplessString_try_from_def)

lemma built_extend:
  assumes "M < 2 ^ 16"
  shows "built (HeaplessVec_extend_from_slice xs) (HeaplessVec_new M 0) \<noteq> Panic"
    "built (HeaplessVec_extend_from_slice xs) (HeaplessVec_new M 0) = Ok v \<Longrightarrow>
       payload_wf M v \<and> HeaplessVec_as_slice v = xs"
  using HeaplessVec_extend_new [of xs M "0 :: u8"] HeaplessVec_extend_new_full [of M xs "0 :: u8"] assms
  by (cases "length xs \<le> M"; auto simp: built_def payload_wf_def)+

lemma PublishFlags_from_nibble_not_Panic [simp]: "PublishFlags_from_nibble b \<noteq> Panic"
  by (simp add: PublishFlags_from_nibble_def and_then_eq_Panic)

lemma PublishPacket_decode_Ok:
  assumes "N < 2 ^ 8" "M < 2 ^ 16" "PublishPacket_decode N M bs = Ok p"
  shows "PublishPacket_wf N M p"
  using assms(3)
  by (auto simp: PublishPacket_decode_def Let_def decode_cases PublishPacket_wf_def
    split: if_splits dest!: read_string_Ok dest: try_from_Ok [OF _ assms(1)] built_extend(2) [OF assms(2)])

lemma PublishPacket_decode_Panic:
  assumes "M < 2 ^ 16" "PublishPacket_decode N M bs = Panic"
  shows "\<exists>n k. read_variable_length (drop 1 bs) = Ok (n, k) \<and> 1 + k + n < length bs"
  using assms(2)
  by (auto simp: PublishPacket_decode_def Let_def decode_cases built_extend(1) [OF assms(1)]
    split: if_splits dest!: read_string_Ok)

lemma SubscribePacket_decode_Ok:
  assumes "N < 2 ^ 8" "SubscribePacket_decode N bs = Ok p"
  shows "SubscribePacket_wf N p"
  using assms(2)
  by (auto simp: SubscribePacket_decode_def Let_def decode_cases SubscribePacket_wf_def
    split: if_splits dest!: read_string_Ok dest: try_from_Ok [OF _ assms(1)])

lemma SubscribePacket_decode_not_Panic: "SubscribePacket_decode N bs \<noteq> Panic"
  by (auto simp: SubscribePacket_decode_def Let_def decode_cases split: if_splits)

lemma UnsubscribePacket_decode_Ok:
  assumes "N < 2 ^ 8" "UnsubscribePacket_decode N bs = Ok p"
  shows "UnsubscribePacket_wf N p"
  using assms(2)
  by (auto simp: UnsubscribePacket_decode_def Let_def decode_cases UnsubscribePacket_wf_def
    split: if_splits dest!: read_string_Ok dest: try_from_Ok [OF _ assms(1)])

lemma UnsubscribePacket_decode_not_Panic: "UnsubscribePacket_decode N bs \<noteq> Panic"
  by (auto simp: UnsubscribePacket_decode_def Let_def decode_cases split: if_splits)

end
