(* ===== verification/Connect_Packet.thy ===== *)
theory Connect_Packet
  imports Packets_Var
begin

text \<open>
  The CONNECT packet of \<^verbatim>\<open>src/protocol/packets/connect.rs\<close> with its flags, and \<^verbatim>\<open>ClientId\<close> of
  \<^verbatim>\<open>src/client.rs\<close>. The encoder stores single bytes without a check of the buffer, so that it may panic
  where the other encoders return an error. The three optional groups of fields that the decoder reads
  behind the client identifier are definitions of their own.
\<close>

section \<open>ClientId\<close>

definition MAX_CLIENT_ID_LENGTH :: usize where
  "MAX_CLIENT_ID_LENGTH = 23"

type_synonym ClientId = HeaplessString

definition ClientId_try_from :: "bytes \<Rightarrow> (ClientId, ProtocolError) result" where
  "ClientId_try_from value =
     map_err (\<lambda>_. ClientIdLengthExceeded MAX_CLIENT_ID_LENGTH (length value))
       (HeaplessString_try_from MAX_CLIENT_ID_LENGTH value)"

section \<open>ConnectFlags\<close>

type_synonym ConnectFlags = u8

definition ConnectFlags_RESERVED :: ConnectFlags where "ConnectFlags_RESERVED = 1"
definition ConnectFlags_CLEAN_SESSION :: ConnectFlags where "ConnectFlags_CLEAN_SESSION = 2"
definition ConnectFlags_WILL_FLAG :: ConnectFlags where "ConnectFlags_WILL_FLAG = 4"
definition ConnectFlags_WILL_QOS_1 :: ConnectFlags where "ConnectFlags_WILL_QOS_1 = 8"
definition ConnectFlags_WILL_QOS_2 :: ConnectFlags where "ConnectFlags_WILL_QOS_2 = 16"
definition ConnectFlags_WILL_RETAIN :: ConnectFlags where "ConnectFlags_WILL_RETAIN = 32"
definition ConnectFlags_PASSWORD :: ConnectFlags where "ConnectFlags_PASSWORD = 64"
definition ConnectFlags_USERNAME :: ConnectFlags where "ConnectFlags_USERNAME = 128"
definition ConnectFlags_ALL_FLAGS :: ConnectFlags where "ConnectFlags_ALL_FLAGS = 254"

definition ConnectFlags_empty :: ConnectFlags where
  "ConnectFlags_empty = 0"

definition ConnectFlags_contains :: "ConnectFlags \<Rightarrow> ConnectFlags \<Rightarrow> bool" where
  "ConnectFlags_contains f other \<longleftrightarrow> f AND other = other"

definition ConnectFlags_insert :: "ConnectFlags \<Rightarrow> ConnectFlags \<Rightarrow> ConnectFlags" where
  "ConnectFlags_insert other f = f OR other"

definition ConnectFlags_remove :: "ConnectFlags \<Rightarrow> ConnectFlags \<Rightarrow> ConnectFlags" where
  "ConnectFlags_remove other f = f AND NOT other"

definition ConnectFlags_toggle :: "ConnectFlags \<Rightarrow> ConnectFlags \<Rightarrow> ConnectFlags" where
  "ConnectFlags_toggle other f = f XOR other"

section \<open>ConnectPacket\<close>

record ConnectPacket =
  connect_flags :: ConnectFlags
  con_keep_alive :: u16
  con_client_id :: ClientId
  will_topic :: "TopicName option"
  will_payload :: "u8 HeaplessVec option"
  username :: "HeaplessString option"
  password :: "u8 HeaplessVec option"

text \<open>\<^verbatim>\<open>"MQTT"\<close> and the protocol level of MQTT 3.1.1\<close>

definition MQTT_PROTOCOL_NAME :: bytes where
  "MQTT_PROTOCOL_NAME = [0x4D, 0x51, 0x54, 0x54]"

definition MQTT_3_1_1_PROTOCOL_LEVEL :: u8 where
  "MQTT_3_1_1_PROTOCOL_LEVEL = 4"

text \<open>\<^verbatim>\<open>buffer[offset] = b; offset += 1;\<close> and its counterpart for a slice, without a check\<close>

definition set_byte :: "usize \<Rightarrow> u8 \<Rightarrow> (bytes, usize, ProtocolError) action" where
  "set_byte offset b = then_do (store offset b) (\<lambda>_. ret (offset + 1))"

definition set_slice :: "usize \<Rightarrow> bytes \<Rightarrow> (bytes, usize, ProtocolError) action" where
  "set_slice offset bs = then_do (copy_at offset bs) (\<lambda>_. ret (offset + length bs))"

definition ConnectPacket_remaining_length :: "ConnectPacket \<Rightarrow> usize" where
  "ConnectPacket_remaining_length p =
     (2 + length MQTT_PROTOCOL_NAME) + 1 + 1 + 2 + (2 + HeaplessString_len (con_client_id p))
     + (case will_topic p of Some t \<Rightarrow> 2 + length (HeaplessString_as_str t) | None \<Rightarrow> 0)
     + (case will_payload p of Some v \<Rightarrow> 2 + HeaplessVec_len v | None \<Rightarrow> 0)
     + (case username p of Some u \<Rightarrow> 2 + HeaplessString_len u | None \<Rightarrow> 0)
     + (case password p of Some v \<Rightarrow> 2 + HeaplessVec_len v | None \<Rightarrow> 0)"

definition ConnectPacket_encode :: "ConnectPacket \<Rightarrow> (bytes, usize, ProtocolError) action" where
  "ConnectPacket_encode p =
     (let offset = 0; remaining_length = ConnectPacket_remaining_length p in
      then_do (set_byte offset (header_first_byte PT_Connect 0)) (\<lambda>offset.
      then_do (put_remaining_length offset remaining_length) (\<lambda>offset.
      then_do (write_string MQTT_PROTOCOL_NAME offset) (\<lambda>offset.
      then_do (set_byte offset MQTT_3_1_1_PROTOCOL_LEVEL) (\<lambda>offset.
      then_do (set_byte offset (connect_flags p)) (\<lambda>offset.
      then_do (set_slice offset (to_be_bytes (con_keep_alive p))) (\<lambda>offset.
      then_do (write_string (HeaplessString_as_str (con_client_id p)) offset) (\<lambda>offset.
      then_do (case will_topic p of Some t \<Rightarrow> write_string (HeaplessString_as_str t) offset
        | None \<Rightarrow> ret offset) (\<lambda>offset.
      then_do (case will_payload p of Some v \<Rightarrow> write_binary (HeaplessVec_as_slice v) offset
        | None \<Rightarrow> ret offset) (\<lambda>offset.
      then_do (case username p of Some u \<Rightarrow> write_string (HeaplessString_as_str u) offset
        | None \<Rightarrow> ret offset) (\<lambda>offset.
      (case password p of Some v \<Rightarrow> write_binary (HeaplessVec_as_slice v) offset
        | None \<Rightarrow> ret offset))))))))))))"

definition ConnectPacket_decode_will :: "usize \<Rightarrow> usize \<Rightarrow> bytes \<Rightarrow> bool \<Rightarrow> usize \<Rightarrow>
    (TopicName option \<times> u8 HeaplessVec option \<times> usize, ProtocolError) result" where
  "ConnectPacket_decode_will N M bs will_flag offset =
     (if will_flag then
        and_then (read_string bs offset) (\<lambda>(will_topic_str, offset).
        if will_topic_str = [] then Err TopicEmpty
        else
        and_then (map_err (\<lambda>_. TopicNameLengthExceeded N (length will_topic_str))
          (HeaplessString_try_from N will_topic_str)) (\<lambda>topic.
        and_then (read_binary bs offset) (\<lambda>(will_payload_bytes, offset).
        if length will_payload_bytes > M then Err (PayloadTooLarge M (length will_payload_bytes))
        else
        and_then (map_err (\<lambda>_. PayloadTooLarge M (length will_payload_bytes))
          (built (HeaplessVec_extend_from_slice will_payload_bytes) (HeaplessVec_new M 0))) (\<lambda>will_payload_vec.
        Ok (Some topic, Some will_payload_vec, offset)))))
      else Ok (None, None, offset))"

definition ConnectPacket_decode_username :: "usize \<Rightarrow> bytes \<Rightarrow> bool \<Rightarrow> usize \<Rightarrow>
    (HeaplessString option \<times> usize, ProtocolError) result" where
  "ConnectPacket_decode_username N bs username_flag offset =
     (if username_flag then
        and_then (read_string bs offset) (\<lambda>(username_str, offset).
        and_then (map_err (\<lambda>_. UsernameLengthExceeded N (length username_str))
          (HeaplessString_try_from N username_str)) (\<lambda>u.
        Ok (Some u, offset)))
      else Ok (None, offset))"

definition ConnectPacket_decode_password :: "usize \<Rightarrow> bytes \<Rightarrow> bool \<Rightarrow> usize \<Rightarrow>
    (u8 HeaplessVec option \<times> usize, ProtocolError) result" where
  "ConnectPacket_decode_password N bs password_flag offset =
     (if password_flag then
        and_then (read_binary bs offset) (\<lambda>(password_bytes, offset).
        and_then (map_err (\<lambda>_. PasswordLengthExceeded N (length password_bytes))
          (built (HeaplessVec_extend_from_slice password_bytes) (HeaplessVec_new N 0))) (\<lambda>password_vec.
        Ok (Some password_vec, offset)))
      else Ok (None, offset))"

definition ConnectPacket_decode :: "usize \<Rightarrow> usize \<Rightarrow> bytes \<Rightarrow> (ConnectPacket, ProtocolError) result" where
  "ConnectPacket_decode N M bs =
     and_then (index bs 0) (\<lambda>header.
     and_then (validate_packet_type PT_Connect header) (\<lambda>_.
     and_then (slice_from bs 1) (\<lambda>tail.
     and_then (read_variable_length tail) (\<lambda>(remaining_length, int_length).
     let offset = 1 + int_length in
     if offset \<ge> length bs then Err (IncompletePacket (length bs))
     else
     and_then (read_string bs offset) (\<lambda>(protocol_name, offset).
     if protocol_name \<noteq> MQTT_PROTOCOL_NAME then Err InvalidProtocolName
     else if offset \<ge> length bs then Err (IncompletePacket (length bs))
     else
     let protocol_level = bs ! offset; offset = offset + 1 in
     if protocol_level \<noteq> MQTT_3_1_1_PROTOCOL_LEVEL then Err (UnsupportedProtocolLevel protocol_level)
     else if offset \<ge> length bs then Err (IncompletePacket (length bs))
     else
     let flags = bs ! offset; offset = offset + 1 in
     if ConnectFlags_contains flags ConnectFlags_RESERVED then Err (InvalidConnectFlags flags)
     else
     let clean_session = ConnectFlags_contains flags ConnectFlags_CLEAN_SESSION;
         will_flag = ConnectFlags_contains flags ConnectFlags_WILL_FLAG;
         username_flag = ConnectFlags_contains flags ConnectFlags_USERNAME;
         password_flag = ConnectFlags_contains flags ConnectFlags_PASSWORD
     in
     if offset + 2 > length bs then Err (IncompletePacket (length bs))
     else
     let keep_alive = from_be_bytes (bs ! offset) (bs ! (offset + 1)); offset = offset + 2 in
     and_then (read_string bs offset) (\<lambda>(client_id_str, offset).
     if client_id_str = [] \<and> \<not> clean_session then Err ClientIdEmpty
     else
     and_then (map_err (\<lambda>_. ClientIdLengthExceeded N (length client_id_str))
       (HeaplessString_try_from MAX_CLIENT_ID_LENGTH client_id_str)) (\<lambda>client_id.
     and_then (ConnectPacket_decode_will N M bs will_flag offset) (\<lambda>(wt, wp, offset).
     and_then (ConnectPacket_decode_username N bs username_flag offset) (\<lambda>(u, offset).
     and_then (ConnectPacket_decode_password N bs password_flag offset) (\<lambda>(pw, offset).
     let actual_payload_size = offset - 1 - int_length in
     if actual_payload_size \<noteq> remaining_length
       then Err (InvalidPacketLength remaining_length actual_payload_size)
     else Ok \<lparr>connect_flags = flags, con_keep_alive = keep_alive, con_client_id = client_id,
       will_topic = wt, will_payload = wp, username = u, password = pw\<rparr>))))))))))"

section \<open>Well-formed packets and their bytes\<close>

definition text_wf :: "usize \<Rightarrow> HeaplessString \<Rightarrow> bool" where
  "text_wf N s \<longleftrightarrow> str_ok s \<and> HeaplessString_capacity s = N"

text \<open>The flags say which of the optional fields are present; the other flags are free.\<close>

definition ConnectPacket_wf :: "usize \<Rightarrow> usize \<Rightarrow> ConnectPacket \<Rightarrow> bool" where
  "ConnectPacket_wf N M p \<longleftrightarrow>
     \<not> ConnectFlags_contains (connect_flags p) ConnectFlags_RESERVED \<and>
     text_wf MAX_CLIENT_ID_LENGTH (con_client_id p) \<and>
     (HeaplessString_bytes (con_client_id p) = [] \<longrightarrow>
        ConnectFlags_contains (connect_flags p) ConnectFlags_CLEAN_SESSION) \<and>
     (case will_topic p of Some t \<Rightarrow> topic_wf N t | None \<Rightarrow> True) \<and>
     (case will_payload p of Some v \<Rightarrow> payload_wf M v | None \<Rightarrow> True) \<and>
     (case username p of Some u \<Rightarrow> text_wf N u | None \<Rightarrow> True) \<and>
     (case password p of Some v \<Rightarrow> payload_wf N v | None \<Rightarrow> True) \<and>
     (will_topic p \<noteq> None \<longleftrightarrow> ConnectFlags_contains (connect_flags p) ConnectFlags_WILL_FLAG) \<and>
     (will_payload p \<noteq> None \<longleftrightarrow> ConnectFlags_contains (connect_flags p) ConnectFlags_WILL_FLAG) \<and>
     (username p \<noteq> None \<longleftrightarrow> ConnectFlags_contains (connect_flags p) ConnectFlags_USERNAME) \<and>
     (password p \<noteq> None \<longleftrightarrow> ConnectFlags_contains (connect_flags p) ConnectFlags_PASSWORD)"

definition optional :: "('a \<Rightarrow> bytes) \<Rightarrow> 'a option \<Rightarrow> bytes" where
  "optional f x = (case x of Some y \<Rightarrow> length_prefixed (f y) | None \<Rightarrow> [])"

definition ConnectPacket_body :: "ConnectPacket \<Rightarrow> bytes" where
  "ConnectPacket_body p = length_prefixed MQTT_PROTOCOL_NAME @ [MQTT_3_1_1_PROTOCOL_LEVEL] @ [connect_flags p] @
     to_be_bytes (con_keep_alive p) @ length_prefixed (HeaplessString_bytes (con_client_id p)) @
     optional HeaplessString_bytes (will_topic p) @ optional HeaplessVec_as_slice (will_payload p) @
     optional HeaplessString_bytes (username p) @ optional HeaplessVec_as_slice (password p)"

definition ConnectPacket_wire :: "ConnectPacket \<Rightarrow> bytes" where
  "ConnectPacket_wire p = framed (header_first_byte PT_Connect 0) (ConnectPacket_body p)"

definition too_small_or_panic :: "(usize, ProtocolError) result \<Rightarrow> bool" where
  "too_small_or_panic r \<longleftrightarrow> too_small r \<or> r = Panic"

lemma text_wf_facts:
  assumes "text_wf N t"
  shows "HeaplessString_as_str t = HeaplessString_bytes t"
    "HeaplessString_len t = length (HeaplessString_bytes t)"
    "length (HeaplessString_bytes t) < 256" "valid_utf8 (HeaplessString_bytes t)"
    "HeaplessString_try_from N (HeaplessString_bytes t) = Ok t"
  using assms HeaplessString_try_from_bytes [of t] length_HeaplessString_bytes [of t]
  by (auto simp: text_wf_def str_ok_def str_wf_def HeaplessString_as_str_eq HeaplessString_len_def)

lemma topic_wf_text: "topic_wf N t \<Longrightarrow> text_wf N t"
  by (simp add: topic_wf_def text_wf_def)

lemma ConnectPacket_wf_parts:
  assumes "ConnectPacket_wf N M p"
  shows "text_wf MAX_CLIENT_ID_LENGTH (con_client_id p)"
    "will_topic p = Some t \<Longrightarrow> topic_wf N t" "will_payload p = Some v \<Longrightarrow> payload_wf M v"
    "username p = Some u \<Longrightarrow> text_wf N u" "password p = Some w \<Longrightarrow> payload_wf N w"
  using assms by (auto simp: ConnectPacket_wf_def)

section \<open>The encoder\<close>

lemma emits_set_byte: "emits too_small_or_panic (set_byte off b) off [b]"
  by (auto simp: emits_def too_small_or_panic_def set_byte_def then_do_apply store_def list_update_put_at)

lemma emits_set_slice: "emits too_small_or_panic (set_slice off bs) off bs"
  by (auto simp: emits_def too_small_or_panic_def set_slice_def then_do_apply copy_at_def)

lemma emits_checked: "emits too_small m off bs \<Longrightarrow> emits too_small_or_panic m off bs"
  by (erule emits_weaken) (simp add: too_small_or_panic_def)

lemma emits_optional_string:
  assumes "\<And>t. x = Some t \<Longrightarrow> text_wf N t"
  shows "emits too_small_or_panic
    (case x of Some t \<Rightarrow> write_string (HeaplessString_as_str t) off | None \<Rightarrow> ret off) off
    (optional HeaplessString_bytes x)"
  using assms
  by (cases x) (auto simp: optional_def emits_ret text_wf_facts intro!: emits_checked emits_write_string)

lemma emits_optional_binary:
  "emits too_small_or_panic
    (case x of Some v \<Rightarrow> write_binary (HeaplessVec_as_slice v) off | None \<Rightarrow> ret off) off
    (optional HeaplessVec_as_slice x)"
  by (cases x) (auto simp: optional_def emits_ret intro!: emits_checked emits_write_binary)

lemma length_optional_string:
  assumes "\<And>t. x = Some t \<Longrightarrow> text_wf N t"
  shows "length (optional HeaplessString_bytes x) < 258"
    "(case x of Some t \<Rightarrow> 2 + length (HeaplessString_as_str t) | None \<Rightarrow> 0) = length (optional HeaplessString_bytes x)"
    "(case x of Some t \<Rightarrow> 2 + HeaplessString_len t | None \<Rightarrow> 0) = length (optional HeaplessString_bytes x)"
  using assms text_wf_facts by (cases x; force simp: optional_def)+

lemma length_optional_binary:
  assumes "\<And>v. x = Some v \<Longrightarrow> payload_wf M v"
  shows "length (optional HeaplessVec_as_slice x) < 65538"
    "(case x of Some v \<Rightarrow> 2 + HeaplessVec_len v | None \<Rightarrow> 0) = length (optional HeaplessVec_as_slice x)"
  using assms payload_wf_facts by (cases x; force simp: optional_def)+

lemma ConnectPacket_body_length:
  assumes "ConnectPacket_wf N M p"
  shows "ConnectPacket_remaining_length p = length (ConnectPacket_body p)"
    "length (ConnectPacket_body p) \<le> MAX_VARIABLE_LENGTH"
proof -
  note w = ConnectPacket_wf_parts [OF assms]
  note t = length_optional_string [where x = "will_topic p", OF w(2) [THEN topic_wf_text]]
  note v = length_optional_binary [where x = "will_payload p", OF w(3)]
  note u = length_optional_string [where x = "username p", OF w(4)]
  note pw = length_optional_binary [where x = "password p", OF w(5)]
  show "ConnectPacket_remaining_length p = length (ConnectPacket_body p)"
    using t(2) v(2) u(3) pw(2) text_wf_facts(2) [OF w(1)]
    by (simp add: ConnectPacket_remaining_length_def ConnectPacket_body_def)
  show "length (ConnectPacket_body p) \<le> MAX_VARIABLE_LENGTH"
    using t(1) v(1) u(1) pw(1) text_wf_facts(3) [OF w(1)]
    by (simp add: ConnectPacket_body_def MQTT_PROTOCOL_NAME_def MAX_VARIABLE_LENGTH_def)
qed

lemma ConnectPacket_emits:
  assumes "ConnectPacket_wf N M p"
  shows "emits too_small_or_panic (ConnectPacket_encode p) 0 (ConnectPacket_wire p)"
proof -
  note w = ConnectPacket_wf_parts [OF assms] and l = ConnectPacket_body_length [OF assms]
  show ?thesis
    unfolding ConnectPacket_encode_def ConnectPacket_wire_def framed_def Let_def l(1)
    unfolding ConnectPacket_body_def [of p] text_wf_facts(1) [OF w(1)]
    using l(2) [unfolded ConnectPacket_body_def]
    by (intro emits_then emits_set_byte emits_set_slice emits_optional_binary
      emits_optional_string [OF w(2) [THEN topic_wf_text]] emits_optional_string [OF w(4)]
      emits_checked [OF emits_put_remaining_length] emits_checked [OF emits_write_string])
qed

section \<open>The decoder\<close>

lemma decode_will_wire:
  assumes "has_at B off (optional HeaplessString_bytes t @ optional HeaplessVec_as_slice v)"
    "\<And>x. t = Some x \<Longrightarrow> topic_wf N x" "\<And>x. v = Some x \<Longrightarrow> payload_wf M x"
    "t \<noteq> None \<longleftrightarrow> flag" "v \<noteq> None \<longleftrightarrow> flag"
  shows "ConnectPacket_decode_will N M B flag off =
    Ok (t, v, off + length (optional HeaplessString_bytes t) + length (optional HeaplessVec_as_slice v))"
proof (cases flag)
  case False
  with assms(4,5) show ?thesis by (simp add: ConnectPacket_decode_will_def optional_def)
next
  case True
  with assms(4,5) obtain x y where xy: "t = Some x" "v = Some y" by auto
  note x = topic_wf_facts [OF assms(2) [OF xy(1)]] and y = payload_wf_facts [OF assms(3) [OF xy(2)]]
  have "length (HeaplessVec_as_slice y) \<le> M"
    using assms(3) [OF xy(2)]
    by (simp add: payload_wf_def vec_padded_def vec_wf_def HeaplessVec_as_slice_def HeaplessVec_capacity_def)
  moreover have "has_at B off (length_prefixed (HeaplessString_bytes x))"
    "has_at B (off + 2 + length (HeaplessString_bytes x)) (length_prefixed (HeaplessVec_as_slice y))"
    using assms(1) by (simp_all add: xy optional_def has_at_append add.assoc)
  ultimately show ?thesis
    using has_at_read_string [of B off "HeaplessString_bytes x"]
      has_at_read_binary [of B "off + 2 + length (HeaplessString_bytes x)" "HeaplessVec_as_slice y"] x y True
    by (simp add: ConnectPacket_decode_will_def xy optional_def add.assoc)
qed

lemma decode_username_wire:
  assumes "has_at B off (optional HeaplessString_bytes u)"
    "\<And>x. u = Some x \<Longrightarrow> text_wf N x" "u \<noteq> None \<longleftrightarrow> flag"
  shows "ConnectPacket_decode_username N B flag off = Ok (u, off + length (optional HeaplessString_bytes u))"
proof (cases u)
  case None
  with assms(3) show ?thesis by (simp add: ConnectPacket_decode_username_def optional_def)
next
  case (Some x)
  note x = text_wf_facts [OF assms(2) [OF Some]]
  with assms(1,3) Some has_at_read_string [of B off "HeaplessString_bytes x"] show ?thesis
    by (simp add: ConnectPacket_decode_username_def optional_def add.assoc)
qed

lemma decode_password_wire:
  assumes "has_at B off (optional HeaplessVec_as_slice v)"
    "\<And>x. v = Some x \<Longrightarrow> payload_wf N x" "v \<noteq> None \<longleftrightarrow> flag"
  shows "ConnectPacket_decode_password N B flag off = Ok (v, off + length (optional HeaplessVec_as_slice v))"
proof (cases v)
  case None
  with assms(3) show ?thesis by (simp add: ConnectPacket_decode_password_def optional_def)
next
  case (Some x)
  note x = payload_wf_facts [OF assms(2) [OF Some]]
  with assms(1,3) Some has_at_read_binary [of B off "HeaplessVec_as_slice x"] show ?thesis
    by (simp add: ConnectPacket_decode_password_def optional_def add.assoc)
qed

lemma ConnectPacket_decode_wire:
  assumes wf: "ConnectPacket_wf N M p" and B: "has_at B 0 (ConnectPacket_wire p)"
  shows "ConnectPacket_decode N M B = Ok p"
proof -
  note w = ConnectPacket_wf_parts [OF wf] and l = ConnectPacket_body_length(2) [OF wf]
  note f = framed_has_at [OF B [unfolded ConnectPacket_wire_def] l]
  define k where "k = variable_length_length (length (ConnectPacket_body p))"
  define o1 where "o1 = 1 + k + 6"
  define c where "c = length (HeaplessString_bytes (con_client_id p))"
  define o2 where "o2 = o1 + 4 + 2 + c"
  let ?wt = "optional HeaplessString_bytes (will_topic p)" and ?wp = "optional HeaplessVec_as_slice (will_payload p)"
    and ?user = "optional HeaplessString_bytes (username p)" and ?pass = "optional HeaplessVec_as_slice (password p)"
  have name: "length MQTT_PROTOCOL_NAME = 4" "valid_utf8 MQTT_PROTOCOL_NAME"
    by (simp_all add: MQTT_PROTOCOL_NAME_def char_tail_def)
  have n: "o2 + length ?wt + length ?wp + length ?user + length ?pass = 1 + k + length (ConnectPacket_body p)"
    by (simp add: ConnectPacket_body_def name c_def o2_def o1_def)
  have b: "has_at B (1 + k) (length_prefixed MQTT_PROTOCOL_NAME)"
    "o1 < length B" "B ! o1 = 4" "o1 + 1 < length B" "B ! (o1 + 1) = connect_flags p"
    "has_at B (o1 + 2) (to_be_bytes (con_keep_alive p))"
    "has_at B (o1 + 4) (length_prefixed (HeaplessString_bytes (con_client_id p)))"
    "has_at B o2 (?wt @ ?wp)" "has_at B (o2 + length ?wt + length ?wp) ?user"
    "has_at B (o2 + length ?wt + length ?wp + length ?user) ?pass"
    using f(5) unfolding k_def [symmetric] o2_def o1_def c_def
    unfolding ConnectPacket_body_def MQTT_3_1_1_PROTOCOL_LEVEL_def
    by (simp_all add: has_at_append has_at_Cons name ac_simps)
  have h: "index B 0 = (Ok (header_first_byte PT_Connect 0) :: (u8, ProtocolError) result)"
    using f(1,2) by (simp add: index_def)
  have r1: "read_string B (1 + k) = Ok (MQTT_PROTOCOL_NAME, o1)" "1 + k < length B"
    using has_at_read_string [OF b(1) _ name(2)] b(2) by (simp_all add: name(1) o1_def)
  have r2: "read_string B (o1 + 4) = Ok (HeaplessString_bytes (con_client_id p), o2)"
    using has_at_read_string [OF b(7) _ text_wf_facts(4) [OF w(1)]] text_wf_facts(3) [OF w(1)]
    by (simp add: o2_def c_def)
  have ka: "o1 + 4 \<le> length B" "from_be_bytes (B ! (o1 + 2)) (B ! (o1 + 3)) = con_keep_alive p"
    using has_at_u16 [OF b(6)] by (simp_all add: numeral_eq_Suc)
  note fl = wf [unfolded ConnectPacket_wf_def]
  note will = decode_will_wire [where flag = "ConnectFlags_contains (connect_flags p) ConnectFlags_WILL_FLAG",
      OF b(8) w(2) w(3)]
    and user = decode_username_wire [where flag = "ConnectFlags_contains (connect_flags p) ConnectFlags_USERNAME",
      OF b(9) w(4)]
    and pass = decode_password_wire [where flag = "ConnectFlags_contains (connect_flags p) ConnectFlags_PASSWORD",
      OF b(10) w(5)]
  have off: "o1 + 1 + 1 = o1 + 2" "o1 + 2 + 1 = o1 + 3" "o1 + 2 + 2 = o1 + 4" by simp_all
  have last: "o2 + length ?wt + length ?wp + length ?user + length ?pass - 1 - k = length (ConnectPacket_body p)"
    using n by simp
  show ?thesis
    using r1 r2 b(2-5) ka fl will user pass text_wf_facts(5) [OF w(1)] last h f(3) f(4) [folded k_def]
    by (simp only: ConnectPacket_decode_def and_then.simps validate_packet_type_header prod.case Let_def
      off map_err.simps MQTT_3_1_1_PROTOCOL_LEVEL_def) auto
qed

interpretation connect: packet_codec ConnectPacket_encode "ConnectPacket_decode N M" ConnectPacket_wire
    "ConnectPacket_wf N M" too_small_or_panic for N M
  by unfold_locales (rule ConnectPacket_emits ConnectPacket_decode_wire; assumption)+

section \<open>What the decoder returns\<close>

lemma try_from_text:
  assumes "HeaplessString_try_from N v = Ok s" "N < 2 ^ 8" "valid_utf8 v"
  shows "text_wf N s" "HeaplessString_bytes s = v"
  using assms HeaplessString_try_from_fits [of v N] HeaplessString_try_from_long [of N v]
  by (cases "length v \<le> N"; auto simp: text_wf_def str_ok_def)+

lemma index_eq_Ok: "index xs i = Ok x \<longleftrightarrow> i < length xs \<and> x = xs ! i"
  and index_eq_Panic: "index xs i = Panic \<longleftrightarrow> length xs \<le> i"
  by (auto simp: index_def)

lemma decode_will_Ok:
  assumes "ConnectPacket_decode_will N M bs flag off = Ok (t, v, off')" "N < 2 ^ 8" "M < 2 ^ 16"
  shows "case t of Some x \<Rightarrow> topic_wf N x | None \<Rightarrow> True" "case v of Some x \<Rightarrow> payload_wf M x | None \<Rightarrow> True"
    "t \<noteq> None \<longleftrightarrow> flag" "v \<noteq> None \<longleftrightarrow> flag"
  using assms(1)
  by (auto simp: ConnectPacket_decode_will_def decode_cases split: if_splits dest!: read_string_Ok
    dest: try_from_Ok [OF _ assms(2)] built_extend(2) [OF assms(3)])

lemma decode_username_Ok:
  assumes "ConnectPacket_decode_username N bs flag off = Ok (u, off')" "N < 2 ^ 8"
  shows "case u of Some x \<Rightarrow> text_wf N x | None \<Rightarrow> True" "u \<noteq> None \<longleftrightarrow> flag"
  using assms(1)
  by (auto simp: ConnectPacket_decode_username_def decode_cases split: if_splits dest!: read_string_Ok
    dest: try_from_text(1) [OF _ assms(2)])

lemma decode_password_Ok:
  assumes "ConnectPacket_decode_password N bs flag off = Ok (v, off')" "N < 2 ^ 16"
  shows "case v of Some x \<Rightarrow> payload_wf N x | None \<Rightarrow> True" "v \<noteq> None \<longleftrightarrow> flag"
  using assms(1)
  by (auto simp: ConnectPacket_decode_password_def decode_cases split: if_splits
    dest: built_extend(2) [OF assms(2)])

lemma ConnectPacket_decode_Ok:
  assumes "N < 2 ^ 8" "M < 2 ^ 16" "ConnectPacket_decode N M bs = Ok p"
  shows "ConnectPacket_wf N M p"
proof -
  have N: "N < 2 ^ 16" using assms(1) by simp
  have "MAX_CLIENT_ID_LENGTH < 2 ^ 8" by (simp add: MAX_CLIENT_ID_LENGTH_def)
  note id = try_from_text [OF _ this]
  show ?thesis
    using assms(3) unfolding ConnectPacket_decode_def
    by (auto simp: Let_def decode_cases ConnectPacket_wf_def split: if_splits dest!: read_string_Ok
      dest: id decode_will_Ok [OF _ assms(1,2)] decode_username_Ok [OF _ assms(1)] decode_password_Ok [OF _ N])
qed

lemma ConnectPacket_decode_Panic:
  assumes "N < 2 ^ 16" "M < 2 ^ 16" "ConnectPacket_decode N M bs = Panic"
  shows "bs = []"
  using assms(3)
  by (auto simp: ConnectPacket_decode_def Let_def decode_cases index_eq_Panic index_eq_Ok Suc_le_eq
    ConnectPacket_decode_will_def ConnectPacket_decode_username_def ConnectPacket_decode_password_def
    built_extend(1) [OF assms(1)] built_extend(1) [OF assms(2)] split: if_splits)

end
