(* ===== verification/Packets.thy ===== *)
theory Packets
  imports Packets_Fixed Connect_Packet
begin

text \<open>
  The enumeration \<^verbatim>\<open>Packet\<close> of \<^verbatim>\<open>src/protocol/packets/mod.rs\<close> with its dispatch to the packets' encoders and
  decoders. The enumeration is a \<open>packet_codec\<close> because every variant is and the type nibbles of the headers
  differ. The last section says what \<^verbatim>\<open>Packet::decode\<close> returns on arbitrary bytes: well-formed packets
  only, and a panic only on the inputs that are characterised there.
\<close>

datatype Packet =
    Connect ConnectPacket
  | ConnAck ConnAckPacket
  | Publish PublishPacket
  | PubAck PubAckPacket
  | PubRec PubRecPacket
  | PubRel PubRelPacket
  | PubComp PubCompPacket
  | Subscribe SubscribePacket
  | SubAck SubAckPacket
  | Unsubscribe UnsubscribePacket
  | UnsubAck UnsubAckPacket
  | PingReq PingReqPacket
  | PingResp PingRespPacket
  | Disconnect DisconnectPacket

fun Packet_packet_type :: "Packet \<Rightarrow> PacketType" where
  "Packet_packet_type (Connect _) = PT_Connect"
| "Packet_packet_type (ConnAck _) = PT_ConnAck"
| "Packet_packet_type (Publish _) = PT_Publish"
| "Packet_packet_type (PubAck _) = PT_PubAck"
| "Packet_packet_type (PubRec _) = PT_PubRec"
| "Packet_packet_type (PubRel _) = PT_PubRel"
| "Packet_packet_type (PubComp _) = PT_PubComp"
| "Packet_packet_type (Subscribe _) = PT_Subscribe"
| "Packet_packet_type (SubAck _) = PT_SubAck"
| "Packet_packet_type (Unsubscribe _) = PT_Unsubscribe"
| "Packet_packet_type (UnsubAck _) = PT_UnsubAck"
| "Packet_packet_type (PingReq _) = PT_PingReq"
| "Packet_packet_type (PingResp _) = PT_PingResp"
| "Packet_packet_type (Disconnect _) = PT_Disconnect"

fun Packet_flags :: "Packet \<Rightarrow> u8" where
  "Packet_flags (Connect _) = 0"
| "Packet_flags (ConnAck _) = 0"
| "Packet_flags (Publish p) = PublishPacket_flags p"
| "Packet_flags (PubAck _) = 0"
| "Packet_flags (PubRec _) = 0"
| "Packet_flags (PubRel _) = 2"
| "Packet_flags (PubComp _) = 0"
| "Packet_flags (Subscribe _) = 2"
| "Packet_flags (SubAck _) = 0"
| "Packet_flags (Unsubscribe _) = 2"
| "Packet_flags (UnsubAck _) = 0"
| "Packet_flags (PingReq _) = 0"
| "Packet_flags (PingResp _) = 0"
| "Packet_flags (Disconnect _) = 0"

fun Packet_encode :: "Packet \<Rightarrow> (bytes, usize, ProtocolError) action" where
  "Packet_encode (Connect p) = ConnectPacket_encode p"
| "Packet_encode (ConnAck p) = ConnAckPacket_encode p"
| "Packet_encode (Publish p) = PublishPacket_encode p"
| "Packet_encode (PubAck p) = PubAckPacket_encode p"
| "Packet_encode (PubRec p) = PubRecPacket_encode p"
| "Packet_encode (PubRel p) = PubRelPacket_encode p"
| "Packet_encode (PubComp p) = PubCompPacket_encode p"
| "Packet_encode (Subscribe p) = SubscribePacket_encode p"
| "Packet_encode (SubAck p) = SubAckPacket_encode p"
| "Packet_encode (Unsubscribe p) = UnsubscribePacket_encode p"
| "Packet_encode (UnsubAck p) = UnsubAckPacket_encode p"
| "Packet_encode (PingReq p) = PingReqPacket_encode p"
| "Packet_encode (PingResp p) = PingRespPacket_encode p"
| "Packet_encode (Disconnect p) = DisconnectPacket_encode p"

definition Packet_decode :: "usize \<Rightarrow> usize \<Rightarrow> bytes \<Rightarrow> (Packet, ProtocolError) result" where
  "Packet_decode N M bs =
     and_then (index bs 0) (\<lambda>b0.
     let type_byte = drop_bit 4 b0 in
     (case PacketType_from type_byte of
        PT_Reserved \<Rightarrow> Err (InvalidPacketType type_byte)
      | PT_Connect \<Rightarrow> map_ok Connect (ConnectPacket_decode N M bs)
      | PT_ConnAck \<Rightarrow> map_ok ConnAck (ConnAckPacket_decode bs)
      | PT_Publish \<Rightarrow> map_ok Publish (PublishPacket_decode N M bs)
      | PT_PubAck \<Rightarrow> map_ok PubAck (PubAckPacket_decode bs)
      | PT_PubRec \<Rightarrow> map_ok PubRec (PubRecPacket_decode bs)
      | PT_PubRel \<Rightarrow> map_ok PubRel (PubRelPacket_decode bs)
      | PT_PubComp \<Rightarrow> map_ok PubComp (PubCompPacket_decode bs)
      | PT_Subscribe \<Rightarrow> map_ok Subscribe (SubscribePacket_decode N bs)
      | PT_SubAck \<Rightarrow> map_ok SubAck (SubAckPacket_decode bs)
      | PT_Unsubscribe \<Rightarrow> map_ok Unsubscribe (UnsubscribePacket_decode N bs)
      | PT_UnsubAck \<Rightarrow> map_ok UnsubAck (UnsubAckPacket_decode bs)
      | PT_PingReq \<Rightarrow> map_ok PingReq (PingReqPacket_decode bs)
      | PT_PingResp \<Rightarrow> map_ok PingResp (PingRespPacket_decode bs)
      | PT_Disconnect \<Rightarrow> map_ok Disconnect (DisconnectPacket_decode bs)
      | PT_Reserved2 \<Rightarrow> Err (InvalidPacketType type_byte)))"

section \<open>The codec of the enumeration\<close>

fun Packet_wire :: "Packet \<Rightarrow> bytes" where
  "Packet_wire (Connect p) = ConnectPacket_wire p"
| "Packet_wire (ConnAck p) = ConnAckPacket_wire p"
| "Packet_wire (Publish p) = PublishPacket_wire p"
| "Packet_wire (PubAck p) = packet_id_wire PT_PubAck 0 (puback_packet_id p)"
| "Packet_wire (PubRec p) = packet_id_wire PT_PubRec 0 (pubrec_packet_id p)"
| "Packet_wire (PubRel p) = packet_id_wire PT_PubRel 2 (pubrel_packet_id p)"
| "Packet_wire (PubComp p) = packet_id_wire PT_PubComp 0 (pubcomp_packet_id p)"
| "Packet_wire (Subscribe p) = SubscribePacket_wire p"
| "Packet_wire (SubAck p) = SubAckPacket_wire p"
| "Packet_wire (Unsubscribe p) = UnsubscribePacket_wire p"
| "Packet_wire (UnsubAck p) = packet_id_wire PT_UnsubAck 0 (unsuback_packet_id p)"
| "Packet_wire (PingReq p) = empty_wire PT_PingReq 0"
| "Packet_wire (PingResp p) = empty_wire PT_PingResp 0"
| "Packet_wire (Disconnect p) = empty_wire PT_Disconnect 0"

fun Packet_wf :: "usize \<Rightarrow> usize \<Rightarrow> Packet \<Rightarrow> bool" where
  "Packet_wf N M (Connect p) = ConnectPacket_wf N M p"
| "Packet_wf N M (Publish p) = PublishPacket_wf N M p"
| "Packet_wf N M (Subscribe p) = SubscribePacket_wf N p"
| "Packet_wf N M (Unsubscribe p) = UnsubscribePacket_wf N p"
| "Packet_wf N M _ = True"

lemma PublishPacket_flags_header: "PublishPacket_flags p = header_first_byte PT_Publish (PublishPacket_flags p)"
  by (cases "pub_dup p"; cases "pub_qos p"; cases "pub_retain p")
    (simp_all add: PublishPacket_flags_def PublishFlags_publish_header_byte_def PublishFlags_to_nibble_def
      header_first_byte_def)

lemma Packet_wire_header:
  "\<exists>tl. Packet_wire p = header_first_byte (Packet_packet_type p) (Packet_flags p) # tl"
  using PublishPacket_flags_header
  by (cases p) (simp_all add: ConnectPacket_wire_def ConnAckPacket_wire_def PublishPacket_wire_def
    SubscribePacket_wire_def SubAckPacket_wire_def UnsubscribePacket_wire_def packet_id_wire_def
    empty_wire_def framed_def)

lemma Packet_emits:
  assumes "Packet_wf N M p"
  shows "emits too_small_or_panic (Packet_encode p) 0 (Packet_wire p)"
  using assms connect.encode_emits publish.encode_emits subscribe.encode_emits unsubscribe.encode_emits
  by (cases p)
    (auto intro!: emits_checked connack.encode_emits suback.encode_emits puback.encode_emits
      pubrec.encode_emits pubrel.encode_emits pubcomp.encode_emits unsuback.encode_emits
      pingreq.encode_emits pingresp.encode_emits disconnect.encode_emits)

lemma Packet_decode_wire:
  assumes "Packet_wf N M p" "has_at B 0 (Packet_wire p)"
  shows "Packet_decode N M B = Ok p"
proof -
  obtain tl where "Packet_wire p = header_first_byte (Packet_packet_type p) (Packet_flags p) # tl"
    using Packet_wire_header by blast
  then have "index B 0 = (Ok (header_first_byte (Packet_packet_type p) (Packet_flags p)) :: (u8, ProtocolError) result)"
    using assms(2) by (auto simp: has_at_0 index_def)
  moreover have "PacketType_from (drop_bit 4 (header_first_byte (Packet_packet_type p) (Packet_flags p))) =
      Packet_packet_type p"
    by (simp add: drop_bit_header)
  ultimately show ?thesis
    using assms
    by (cases p)
      (auto simp: Packet_decode_def map_ok_eq intro: connect.decode_wire publish.decode_wire
        subscribe.decode_wire unsubscribe.decode_wire connack.decode_wire suback.decode_wire
        puback.decode_wire pubrec.decode_wire pubrel.decode_wire pubcomp.decode_wire unsuback.decode_wire
        pingreq.decode_wire pingresp.decode_wire disconnect.decode_wire)
qed

interpretation packet: packet_codec Packet_encode "Packet_decode N M" Packet_wire "Packet_wf N M"
    too_small_or_panic for N M
  by unfold_locales (rule Packet_emits Packet_decode_wire; assumption)+

section \<open>What the decoder returns\<close>

lemma Packet_decode_Ok:
  assumes "N < 2 ^ 8" "M < 2 ^ 16" "Packet_decode N M bs = Ok p"
  shows "Packet_wf N M p"
  using assms(3) ConnectPacket_decode_Ok [OF assms(1,2)] PublishPacket_decode_Ok [OF assms(1,2)]
    SubscribePacket_decode_Ok [OF assms(1)] UnsubscribePacket_decode_Ok [OF assms(1)]
  by (cases "PacketType_from (drop_bit 4 (bs ! 0))")
    (auto simp: Packet_decode_def Let_def and_then_eq_Ok map_ok_eq index_eq_Ok)

text \<open>The size that the fixed-size packets compare the remaining length with.\<close>

definition fixed_size :: "PacketType \<Rightarrow> usize option" where
  "fixed_size t =
     (if t \<in> {PT_PingReq, PT_PingResp, PT_Disconnect} then Some 2
      else if t \<in> {PT_ConnAck, PT_PubAck, PT_PubRec, PT_PubRel, PT_PubComp, PT_UnsubAck} then Some 4
      else None)"

lemma validate_remaining_length_Panic:
  "validate_remaining_length s n = Panic \<longleftrightarrow> s \<le> variable_length_length n"
  by (auto simp: validate_remaining_length_def Let_def)

lemma validate_buffer_size_eq:
  "validate_buffer_size s n \<noteq> Panic" "validate_buffer_size s n = Ok u \<longleftrightarrow> s \<le> n"
  by (auto simp: validate_buffer_size_def)

lemma fixed_decode_Panic:
  "packet_id_decode t bs = Panic \<Longrightarrow>
     \<exists>n k. read_variable_length (drop 1 bs) = Ok (n, k) \<and> 4 \<le> variable_length_length n"
  "empty_decode t bs = Panic \<Longrightarrow>
     \<exists>n k. read_variable_length (drop 1 bs) = Ok (n, k) \<and> 2 \<le> variable_length_length n"
  "ConnAckPacket_decode bs = Panic \<Longrightarrow>
     \<exists>n k. read_variable_length (drop 1 bs) = Ok (n, k) \<and> 4 \<le> variable_length_length n"
  by (auto simp: packet_id_decode_def empty_decode_def ConnAckPacket_decode_def decode_cases index_eq_Ok
    index_eq_Panic validate_remaining_length_Panic validate_buffer_size_eq ConnectReturnCode_try_from_def
    split: if_splits)

lemma SubAckPacket_decode_not_Panic: "SubAckPacket_decode bs \<noteq> Panic"
  by (auto simp: SubAckPacket_decode_def decode_cases index_eq_Ok index_eq_Panic split: if_splits)

text \<open>
  Where \<^verbatim>\<open>Packet::decode\<close> can panic: on no bytes at all; on a PUBLISH in a buffer that is longer than its
  frame; and on a fixed-size packet whose length field needs as many bytes as the whole packet may have.
\<close>

lemma Packet_decode_Panic:
  assumes "N < 2 ^ 16" "M < 2 ^ 16" "Packet_decode N M bs = Panic"
  shows "bs = [] \<or> (\<exists>n k. read_variable_length (drop 1 bs) = Ok (n, k) \<and>
    (PacketType_from (drop_bit 4 (bs ! 0)) = PT_Publish \<and> 1 + k + n < length bs \<or>
     (\<exists>s. fixed_size (PacketType_from (drop_bit 4 (bs ! 0))) = Some s \<and> s \<le> variable_length_length n)))"
proof (cases "bs = []")
  case False
  then have i: "index bs 0 = (Ok (bs ! 0) :: (u8, ProtocolError) result)" by (simp add: index_def)
  show ?thesis
    using assms(3) i ConnectPacket_decode_Panic [OF assms(1,2)] PublishPacket_decode_Panic [OF assms(2)]
      SubscribePacket_decode_not_Panic UnsubscribePacket_decode_not_Panic SubAckPacket_decode_not_Panic
      fixed_decode_Panic [where bs = bs] False
    by (cases "PacketType_from (drop_bit 4 (bs ! 0))")
      (auto simp: Packet_decode_def Let_def map_ok_eq fixed_size_def PubAckPacket_decode_def
        PubRecPacket_decode_def PubRelPacket_decode_def PubCompPacket_decode_def UnsubAckPacket_decode_def
        PingReqPacket_decode_def PingRespPacket_decode_def DisconnectPacket_decode_def)
qed simp

lemma Packet_too_small:
  assumes "Packet_wf N M p" "Packet_packet_type p \<noteq> PT_Connect" "length buf < length (Packet_wire p)"
  shows "\<exists>n buf'. Packet_encode p buf = (Err (BufferTooSmall n), buf') \<and> length buf' = length buf"
proof -
  have "emits too_small (Packet_encode p) 0 (Packet_wire p)"
    using assms(1,2) publish.encode_emits subscribe.encode_emits unsubscribe.encode_emits
    by (cases p) (auto intro!: connack.encode_emits suback.encode_emits puback.encode_emits
      pubrec.encode_emits pubrel.encode_emits pubcomp.encode_emits unsuback.encode_emits
      pingreq.encode_emits pingresp.encode_emits disconnect.encode_emits)
  from this [unfolded emits_def, rule_format, of buf] assms(3) show ?thesis by (auto simp: too_small_def)
qed

section \<open>Properties\<close>

text \<open>
  C5: Every well-formed packet round-trips: if the buffer has room for its bytes, \<^verbatim>\<open>Packet::encode\<close> stores
  exactly these bytes at the front, leaves the rest of the buffer alone and returns their number, and
  \<^verbatim>\<open>Packet::decode\<close> returns the packet from these bytes, also when other bytes follow.
\<close>

theorem packet_round_trip:
  assumes "Packet_wf N M p" "length (Packet_wire p) \<le> length buf"
  shows "\<exists>buf'. Packet_encode p buf = (Ok (length (Packet_wire p)), buf') \<and>
    take (length (Packet_wire p)) buf' = Packet_wire p \<and>
    drop (length (Packet_wire p)) buf' = drop (length (Packet_wire p)) buf \<and>
    Packet_decode N M (take (length (Packet_wire p)) buf') = Ok p \<and> Packet_decode N M buf' = Ok p"
  using packet.encode_fits [OF assms] packet.encode_Ok(3,4) [OF assms(1)] packet.round_trip [OF assms(1)] by metis

theorem packet_round_trip_witness:
  "let p = Publish \<lparr>pub_topic_name = \<lparr>slength = 1, sdata = [0x61, 0]\<rparr>, pub_packet_id = Some 5,
      pub_payload = \<lparr>vlength = 1, vdata = [7]\<rparr>, pub_qos = AtLeastOnce, pub_dup = False, pub_retain = False\<rparr>
   in \<exists>buf'. Packet_encode p [9, 9, 9, 9, 9, 9, 9, 9, 9] = (Ok 8, buf') \<and>
     take 8 buf' = [0x32, 6, 0, 1, 0x61, 0, 5, 7] \<and> drop 8 buf' = [9] \<and>
     Packet_decode 2 1 (take 8 buf') = Ok p \<and> Packet_decode 2 1 buf' = Ok p"
proof -
  let ?p = "Publish \<lparr>pub_topic_name = \<lparr>slength = 1, sdata = [0x61, 0]\<rparr>, pub_packet_id = Some 5,
      pub_payload = \<lparr>vlength = 1, vdata = [7]\<rparr>, pub_qos = AtLeastOnce, pub_dup = False, pub_retain = False\<rparr>"
  have wire: "Packet_wire ?p = [0x32, 6, 0, 1, 0x61, 0, 5, 7]"
    by (simp add: PublishPacket_wire_def framed_def PublishPacket_body_def PublishPacket_flags_def
      PublishFlags_publish_header_byte_def header_first_byte_def length_prefixed_def HeaplessString_bytes_def
      HeaplessVec_as_slice_def to_be_bytes_def varlen.simps PublishFlags_to_nibble_def)
  have len: "length [0x32, 6, 0, 1, 0x61, 0, 5, 7 :: u8] = 8" by simp
  have "Packet_wf 2 1 ?p"
    by (simp add: PublishPacket_wf_def topic_wf_def payload_wf_def str_ok_def str_wf_def vec_wf_def char_tail_def
      HeaplessString_bytes_def HeaplessString_capacity_def HeaplessVec_capacity_def vec_padded_def)
  from packet_round_trip [OF this, of "[9, 9, 9, 9, 9, 9, 9, 9, 9]", unfolded wire len]
  show ?thesis by (simp add: Let_def)
qed

text \<open>
  C32: Whatever bytes \<^verbatim>\<open>Packet::decode\<close> accepts, the packet it returns is well-formed: topics are non-empty
  text within the capacity, packet identifiers are non-zero where one is required, and the flags of a
  CONNECT agree with the fields that are present.
\<close>

theorem packet_decode_well_formed:
  assumes "N < 2 ^ 8" "M < 2 ^ 16" "Packet_decode N M bs = Ok p"
  shows "Packet_wf N M p"
  using Packet_decode_Ok [OF assms] .

theorem packet_decode_well_formed_witness: "Packet_wf 30 128 (PingReq PingReqPacket)"
  by (rule packet_decode_well_formed [of 30 128 "[0xC0, 0]"])
    (simp_all add: Packet_decode_def index_def PacketType_from.simps PingReqPacket_decode_def empty_decode_def
      validate_buffer_size_def validate_packet_type_def slice_from_def)



lemma ping_length_panics: "Packet_decode N M ([0xC0, 0x80, 1] @ replicate 128 0) = Panic"
proof -
  have "read_variable_length (varlen 128 @ replicate 128 0) = Ok (128, 2)"
    using read_variable_length_varlen [of 128] by (simp add: MAX_VARIABLE_LENGTH_def variable_length_length_def)
  then have "read_variable_length (0x80 # 1 # replicate 128 0) = Ok (128, 2)"
    by (simp add: varlen.simps)
  then show ?thesis
    by (simp add: Packet_decode_def index_def PacketType_from.simps PingReqPacket_decode_def empty_decode_def
      validate_buffer_size_def validate_packet_type_def slice_from_def validate_remaining_length_def
      variable_length_length_def)
qed

text \<open>
  Each of the three kinds of panic happens: on the empty slice; on a PUBLISH of remaining length 2 whose
  topic runs into the next packet; and on a PINGREQ with remaining length 128, where
  \<^verbatim>\<open>PACKET_SIZE - int_length - 1\<close> underflows although the frame is complete.
\<close>

theorem packet_decode_panics:
  "Packet_decode 30 128 [] = Panic \<and> Packet_decode 30 128 [0x30, 2, 0, 1, 0x61] = Panic \<and>
   Packet_decode 30 128 ([0xC0, 0x80, 1] @ replicate 128 0) = Panic"
proof -
  have "Packet_decode 30 128 [0x30, 2, 0, 1, 0x61] = Panic"
    by (simp add: Packet_decode_def index_def PacketType_from.simps PublishPacket_decode_def
      PublishFlags_from_nibble_def QoS_from_u8_def slice_from_def read_string_def from_be_bytes_def ok_or_def
      from_utf8_def char_tail_def HeaplessString_try_from_def slice_def Let_def)
  moreover have "Packet_decode 30 128 [] = Panic" by (simp add: Packet_decode_def index_def)
  ultimately show ?thesis using ping_length_panics by blast
qed

text \<open>
  \<^verbatim>\<open>ConnectPacket::encode\<close> stores single bytes without a check: on a buffer of eight bytes, which has room
  for the header and the protocol name only, it panics instead of returning \<^verbatim>\<open>BufferTooSmall\<close>.
\<close>

lemma connect_encode_panics:
  "fst (Packet_encode (Connect \<lparr>connect_flags = 2, con_keep_alive = 60, con_client_id = HeaplessString_new 23,
     will_topic = None, will_payload = None, username = None, password = None\<rparr>) [0, 0, 0, 0, 0, 0, 0, 0]) = Panic"
  by (simp add: ConnectPacket_encode_def ConnectPacket_remaining_length_def then_do_apply set_byte_def store_def
    put_remaining_length_def on_suffix_def write_variable_length_def MAX_VARIABLE_LENGTH_def
    write_variable_length_loop.simps write_string_def MQTT_PROTOCOL_NAME_def HeaplessString_new_def
    HeaplessString_len_def to_be_bytes_def copy_at_def put_at_def Let_def)

end
