(* ===== verification/Sessions.thy ===== *)
theory Sessions
  imports Packets
begin

text \<open>
  Sessions and their registry, \<^verbatim>\<open>src/session.rs\<close>. A session has two bounded queues of packets; the registry is
  a vector of optional sessions that is searched by session id. The const generics \<^verbatim>\<open>QUEUE_SIZE\<close> and
  \<^verbatim>\<open>MAX_SESSIONS\<close> are the capacities of the queues and of the vector; \<open>Q\<close> is \<^verbatim>\<open>QUEUE_SIZE\<close> where a session is
  made. The lemmas show that the registry implements a finite map from session ids to sessions that
  remembers the order of registration, which the locale \<open>session_store\<close> states for its clients.
\<close>

section \<open>Session\<close>

datatype SessionState = Connecting | Connected | Disconnected

type_synonym queue = "Packet option HeaplessVec"

record Session =
  session_id :: u128
  client_id :: "ClientId option"
  sess_state :: SessionState
  keep_alive_secs :: u16
  last_activity :: u128
  rx_queue :: queue
  tx_queue :: queue

record ExpirationInfo =
  ei_session_id :: u128
  ei_current_time :: u128
  ei_last_activity :: u128
  ei_keep_alive_secs :: u16

definition ExpirationInfo_is_expired :: "ExpirationInfo \<Rightarrow> bool" where
  "ExpirationInfo_is_expired i =
     (if ei_keep_alive_secs i = 0 then False
      else
        let timeout_secs = ucast (ei_keep_alive_secs i) * 3 div 2 :: u128;
            timeout_nanos = timeout_secs * 1000000000;
            elapsed = saturating_sub (ei_current_time i) (ei_last_activity i)
        in elapsed > timeout_nanos)"

definition Session_new :: "usize \<Rightarrow> u128 \<Rightarrow> u16 \<Rightarrow> u128 \<Rightarrow> Session" where
  "Session_new Q sid keep_alive current_time =
     \<lparr>session_id = sid, client_id = None, sess_state = Connecting, keep_alive_secs = keep_alive,
      last_activity = current_time, rx_queue = HeaplessVec_new Q None, tx_queue = HeaplessVec_new Q None\<rparr>"

definition Session_expiration_info :: "u128 \<Rightarrow> Session \<Rightarrow> ExpirationInfo" where
  "Session_expiration_info current_time s =
     \<lparr>ei_session_id = session_id s, ei_current_time = current_time, ei_last_activity = last_activity s,
      ei_keep_alive_secs = keep_alive_secs s\<rparr>"

definition Session_update_activity :: "u128 \<Rightarrow> Session \<Rightarrow> Session" where
  "Session_update_activity current_time s = s\<lparr>last_activity := current_time\<rparr>"

definition Session_queue_tx_packet :: "Packet \<Rightarrow> (Session, unit, BrokerError) action" where
  "Session_queue_tx_packet packet =
     on_field tx_queue (\<lambda>q s. s\<lparr>tx_queue := q\<rparr>) (map_err_m (\<lambda>_. BufferFull) (HeaplessVec_push (Some packet)))"

definition Session_dequeue_tx_packet :: "(Session, Packet option, BrokerError) action" where
  "Session_dequeue_tx_packet =
     then_do (on_field tx_queue (\<lambda>q s. s\<lparr>tx_queue := q\<rparr>) HeaplessVec_dequeue_front) (\<lambda>x. ret (Option.bind x id))"

definition Session_queue_rx_packet :: "Packet \<Rightarrow> (Session, unit, BrokerError) action" where
  "Session_queue_rx_packet packet =
     on_field rx_queue (\<lambda>q s. s\<lparr>rx_queue := q\<rparr>) (map_err_m (\<lambda>_. BufferFull) (HeaplessVec_push (Some packet)))"

definition Session_dequeue_rx_packet :: "(Session, Packet option, BrokerError) action" where
  "Session_dequeue_rx_packet =
     then_do (on_field rx_queue (\<lambda>q s. s\<lparr>rx_queue := q\<rparr>) HeaplessVec_dequeue_front) (\<lambda>x. ret (Option.bind x id))"

section \<open>SessionRegistry\<close>

record SessionRegistry =
  reg_sessions :: "Session option HeaplessVec"

definition SessionRegistry_default :: "usize \<Rightarrow> SessionRegistry" where
  "SessionRegistry_default MAX_SESSIONS = \<lparr>reg_sessions = HeaplessVec_new MAX_SESSIONS None\<rparr>"

text \<open>\<^verbatim>\<open>(&self.sessions).into_iter().flatten()\<close>\<close>

definition flatten :: "'a option list \<Rightarrow> 'a list" where
  "flatten xs = concat (map (\<lambda>x. case x of Some y \<Rightarrow> [y] | None \<Rightarrow> []) xs)"

text \<open>
  The loop that the three listing methods share: the sessions that satisfy the test fill the array from
  the front, as long as there is room.
\<close>

primrec fill_slots :: "('a \<Rightarrow> bool) \<Rightarrow> ('a \<Rightarrow> 'b) \<Rightarrow> 'a list \<Rightarrow> usize \<Rightarrow> 'b option list \<Rightarrow> 'b option list" where
  "fill_slots test f [] count slots = slots"
| "fill_slots test f (x # xs) count slots =
     (if test x \<and> count < length slots
      then fill_slots test f xs (count + 1) (slots[count := Some (f x)])
      else fill_slots test f xs count slots)"

definition SessionRegistry_get_all_sessions :: "SessionRegistry \<Rightarrow> u128 option list" where
  "SessionRegistry_get_all_sessions r =
     fill_slots (\<lambda>_. True) session_id (flatten (HeaplessVec_as_slice (reg_sessions r))) 0
       (replicate (HeaplessVec_capacity (reg_sessions r)) None)"

definition SessionRegistry_get_expired_sessions :: "u128 \<Rightarrow> SessionRegistry \<Rightarrow> ExpirationInfo option list" where
  "SessionRegistry_get_expired_sessions current_time r =
     fill_slots (\<lambda>s. ExpirationInfo_is_expired (Session_expiration_info current_time s))
       (Session_expiration_info current_time) (flatten (HeaplessVec_as_slice (reg_sessions r))) 0
       (replicate (HeaplessVec_capacity (reg_sessions r)) None)"

definition SessionRegistry_get_disconnected_sessions :: "SessionRegistry \<Rightarrow> u128 option list" where
  "SessionRegistry_get_disconnected_sessions r =
     fill_slots (\<lambda>s. sess_state s = Disconnected) session_id
       (flatten (HeaplessVec_as_slice (reg_sessions r))) 0
       (replicate (HeaplessVec_capacity (reg_sessions r)) None)"

text \<open>The index at which \<^verbatim>\<open>find_session\<close> finds the session, and a method of the session that it returns.\<close>

definition has_id :: "u128 \<Rightarrow> Session option \<Rightarrow> bool" where
  "has_id sid x = (case x of Some s \<Rightarrow> session_id s = sid | None \<Rightarrow> False)"

definition SessionRegistry_find_session :: "u128 \<Rightarrow> SessionRegistry \<Rightarrow> usize option" where
  "SessionRegistry_find_session sid r = position (has_id sid) (HeaplessVec_as_slice (reg_sessions r))"

definition on_session :: "u128 \<Rightarrow> (Session, 'a, BrokerError) action \<Rightarrow> (SessionRegistry, 'a, BrokerError) action" where
  "on_session sid m = (\<lambda>r.
     case SessionRegistry_find_session sid r of
       Some i \<Rightarrow>
         (case vdata (reg_sessions r) ! i of
            Some s \<Rightarrow>
              (case m s of (x, s') \<Rightarrow>
                 (x, r\<lparr>reg_sessions := (reg_sessions r)\<lparr>vdata := (vdata (reg_sessions r))[i := Some s']\<rparr>\<rparr>))
          | None \<Rightarrow> (Err (SessionNotFound sid), r))
     | None \<Rightarrow> (Err (SessionNotFound sid), r))"

definition SessionRegistry_mark_connected :: "u128 \<Rightarrow> (SessionRegistry, unit, BrokerError) action" where
  "SessionRegistry_mark_connected sid = on_session sid (\<lambda>s. (Ok (), s\<lparr>sess_state := Connected\<rparr>))"

definition SessionRegistry_mark_disconnected :: "u128 \<Rightarrow> (SessionRegistry, unit, BrokerError) action" where
  "SessionRegistry_mark_disconnected sid = on_session sid (\<lambda>s. (Ok (), s\<lparr>sess_state := Disconnected\<rparr>))"

definition SessionRegistry_register_new_session ::
    "usize \<Rightarrow> u128 \<Rightarrow> u16 \<Rightarrow> u128 \<Rightarrow> (SessionRegistry, unit, BrokerError) action" where
  "SessionRegistry_register_new_session Q sid keep_alive current_time = (\<lambda>r.
     let current = HeaplessVec_len (reg_sessions r); MAX_SESSIONS = HeaplessVec_capacity (reg_sessions r) in
     if current \<ge> MAX_SESSIONS then (Err (MaxSessionsReached current MAX_SESSIONS), r)
     else if SessionRegistry_find_session sid r \<noteq> None then (Err (SessionAlreadyExists sid), r)
     else
       let session = Session_new Q sid keep_alive current_time in
       on_field reg_sessions (\<lambda>v r. r\<lparr>reg_sessions := v\<rparr>)
         (map_err_m (\<lambda>_. BufferFull) (HeaplessVec_push (Some session))) r)"

definition SessionRegistry_remove_session :: "u128 \<Rightarrow> (SessionRegistry, bool, BrokerError) action" where
  "SessionRegistry_remove_session sid = (\<lambda>r.
     case position (has_id sid) (HeaplessVec_as_slice (reg_sessions r)) of
       Some idx \<Rightarrow>
         then_do (on_field reg_sessions (\<lambda>v r. r\<lparr>reg_sessions := v\<rparr>) (HeaplessVec_remove idx)) (\<lambda>_. ret True) r
     | None \<Rightarrow> (Ok False, r))"

definition SessionRegistry_update_session_activity ::
    "u128 \<Rightarrow> u128 \<Rightarrow> (SessionRegistry, unit, BrokerError) action" where
  "SessionRegistry_update_session_activity sid current_time =
     on_session sid (\<lambda>s. (Ok (), Session_update_activity current_time s))"

definition SessionRegistry_update_client_id :: "u128 \<Rightarrow> ClientId \<Rightarrow> (SessionRegistry, unit, BrokerError) action" where
  "SessionRegistry_update_client_id sid c = on_session sid (\<lambda>s. (Ok (), s\<lparr>client_id := Some c\<rparr>))"

definition SessionRegistry_update_keep_alive :: "u128 \<Rightarrow> u16 \<Rightarrow> (SessionRegistry, unit, BrokerError) action" where
  "SessionRegistry_update_keep_alive sid keep_alive =
     on_session sid (\<lambda>s. (Ok (), s\<lparr>keep_alive_secs := keep_alive\<rparr>))"

definition SessionRegistry_queue_rx_packet :: "u128 \<Rightarrow> Packet \<Rightarrow> (SessionRegistry, unit, BrokerError) action" where
  "SessionRegistry_queue_rx_packet sid packet =
     on_session sid (\<lambda>s.
       map_err_m (\<lambda>_. SessionQueueFull sid (HeaplessVec_capacity (rx_queue s))) (Session_queue_rx_packet packet) s)"

definition SessionRegistry_queue_tx_packet :: "u128 \<Rightarrow> Packet \<Rightarrow> (SessionRegistry, unit, BrokerError) action" where
  "SessionRegistry_queue_tx_packet sid packet =
     on_session sid (\<lambda>s.
       map_err_m (\<lambda>_. SessionQueueFull sid (HeaplessVec_capacity (tx_queue s))) (Session_queue_tx_packet packet) s)"

definition SessionRegistry_dequeue_rx_packet :: "u128 \<Rightarrow> (SessionRegistry, Packet option, BrokerError) action" where
  "SessionRegistry_dequeue_rx_packet sid = on_session sid Session_dequeue_rx_packet"

definition SessionRegistry_dequeue_tx_packet :: "u128 \<Rightarrow> (SessionRegistry, Packet option, BrokerError) action" where
  "SessionRegistry_dequeue_tx_packet sid = on_session sid Session_dequeue_tx_packet"

definition SessionRegistry_has_pending_tx_packets :: "u128 \<Rightarrow> SessionRegistry \<Rightarrow> bool" where
  "SessionRegistry_has_pending_tx_packets sid r =
     (case Option.bind (find (has_id sid) (HeaplessVec_as_slice (reg_sessions r))) id of
        Some s \<Rightarrow> \<not> HeaplessVec_is_empty (tx_queue s)
      | None \<Rightarrow> False)"

section \<open>The contents of the queues\<close>

definition queue_wf :: "usize \<Rightarrow> queue \<Rightarrow> bool" where
  "queue_wf Q q \<longleftrightarrow> vec_wf q \<and> HeaplessVec_capacity q = Q \<and> None \<notin> set (HeaplessVec_as_slice q)"

definition packets :: "queue \<Rightarrow> Packet list" where
  "packets q = flatten (HeaplessVec_as_slice q)"

lemma flatten_simps [simp]:
  "flatten [] = []" "flatten (Some x # xs) = x # flatten xs" "flatten (None # xs) = flatten xs"
  "flatten (xs @ ys) = flatten xs @ flatten ys"
  by (simp_all add: flatten_def)

lemma flatten_map_Some [simp]: "flatten (map Some xs) = xs"
  by (induction xs) auto

lemma map_Some_flatten: "None \<notin> set xs \<Longrightarrow> map Some (flatten xs) = xs"
proof (induction xs)
  case (Cons a xs)
  then show ?case by (cases a) auto
qed simp

lemma set_flatten: "x \<in> set (flatten xs) \<longleftrightarrow> Some x \<in> set xs"
  by (induction xs) (auto simp: flatten_def split: option.splits)

lemma queue_new_wf:
  assumes "Q < 2 ^ 16"
  shows "queue_wf Q (HeaplessVec_new Q None)" "packets (HeaplessVec_new Q None) = []"
  using HeaplessVec_new_wf [OF assms, of "None :: Packet option"] by (simp_all add: queue_wf_def packets_def)

lemma queue_slice: "queue_wf Q q \<Longrightarrow> HeaplessVec_as_slice q = map Some (packets q)"
  by (simp add: queue_wf_def packets_def map_Some_flatten)

lemma queue_length: "queue_wf Q q \<Longrightarrow> length (HeaplessVec_as_slice q) = length (packets q)"
  using queue_slice by (metis length_map)

lemma queue_push_cases:
  assumes "queue_wf Q q"
  obtains (room) q' where "length (packets q) < Q" "HeaplessVec_push (Some p) q = (Ok (), q')" "queue_wf Q q'"
      "packets q' = packets q @ [p]"
    | (full) "length (packets q) = Q" "HeaplessVec_push (Some p) q = (Err PushError, q)"
proof -
  have wf: "vec_wf q" "HeaplessVec_capacity q = Q" "None \<notin> set (HeaplessVec_as_slice q)"
    using assms by (simp_all add: queue_wf_def)
  show ?thesis
  proof (rule hv.push_cases [OF wf(1), of "Some p"])
    fix q' assume "length (HeaplessVec_as_slice q) < HeaplessVec_capacity q"
      "HeaplessVec_push (Some p) q = (Ok (), q')" "vec_wf q'"
      "HeaplessVec_as_slice q' = HeaplessVec_as_slice q @ [Some p]" "HeaplessVec_capacity q' = HeaplessVec_capacity q"
    then show ?thesis
      using wf queue_length [OF assms] by (intro room [of q']) (auto simp: queue_wf_def packets_def)
  next
    assume "length (HeaplessVec_as_slice q) = HeaplessVec_capacity q"
      "HeaplessVec_push (Some p) q = (Err PushError, q)"
    then show ?thesis using wf queue_length [OF assms] by (intro full) auto
  qed
qed

lemma queue_dequeue:
  assumes "queue_wf Q q"
  shows "\<exists>q'. HeaplessVec_dequeue_front q =
      (Ok (case packets q of [] \<Rightarrow> None | p # _ \<Rightarrow> Some (Some p)) :: (_, BrokerError) result, q') \<and>
    queue_wf Q q' \<and> packets q' = tl (packets q)"
proof -
  have wf: "vec_wf q" using assms by (simp add: queue_wf_def)
  note sl = queue_slice [OF assms]
  obtain q' where q': "HeaplessVec_dequeue_front q =
      (Ok (case HeaplessVec_as_slice q of [] \<Rightarrow> None | x # _ \<Rightarrow> Some x) :: (_, BrokerError) result, q')"
    "vec_wf q'" "HeaplessVec_as_slice q' = tl (HeaplessVec_as_slice q)"
    "HeaplessVec_capacity q' = HeaplessVec_capacity q"
    using HeaplessVec_dequeue_front_eq [OF wf] by blast
  then show ?thesis
    using assms unfolding sl by (cases "packets q") (auto simp: queue_wf_def packets_def)
qed

section \<open>The sessions as a map\<close>

definition session_wf :: "usize \<Rightarrow> Session \<Rightarrow> bool" where
  "session_wf Q s \<longleftrightarrow> queue_wf Q (rx_queue s) \<and> queue_wf Q (tx_queue s)"

abbreviation slots :: "SessionRegistry \<Rightarrow> Session option list" where
  "slots r \<equiv> HeaplessVec_as_slice (reg_sessions r)"

definition live :: "SessionRegistry \<Rightarrow> Session list" where
  "live r = flatten (slots r)"

definition ids :: "SessionRegistry \<Rightarrow> u128 list" where
  "ids r = map session_id (live r)"

definition lookup :: "SessionRegistry \<Rightarrow> u128 \<Rightarrow> Session option" where
  "lookup r sid = find (\<lambda>s. session_id s = sid) (live r)"

definition sessions_wf :: "usize \<Rightarrow> usize \<Rightarrow> SessionRegistry \<Rightarrow> bool" where
  "sessions_wf K Q r \<longleftrightarrow> Q < 2 ^ 16 \<and> vec_wf (reg_sessions r) \<and> HeaplessVec_capacity (reg_sessions r) = K \<and>
     None \<notin> set (slots r) \<and> distinct (ids r) \<and> (\<forall>s \<in> set (live r). session_wf Q s)"

lemma find_position: "find P xs = map_option (\<lambda>i. xs ! i) (position P xs)"
  by (induction xs) (auto simp: option.map_comp comp_def)

lemma position_map: "position P (map f xs) = position (\<lambda>x. P (f x)) xs"
  by (induction xs) auto

lemma slots_live: "sessions_wf K Q r \<Longrightarrow> slots r = map Some (live r)"
  by (simp add: sessions_wf_def live_def map_Some_flatten)

lemma find_session_eq:
  "sessions_wf K Q r \<Longrightarrow> SessionRegistry_find_session sid r = position (\<lambda>s. session_id s = sid) (live r)"
  by (simp add: SessionRegistry_find_session_def slots_live position_map has_id_def)

lemma lookup_None: "lookup r sid = None \<longleftrightarrow> sid \<notin> set (ids r)"
  by (auto simp: lookup_def ids_def find_None_iff)

lemma lookup_Some:
  assumes "sessions_wf K Q r" "lookup r sid = Some s"
  obtains i where "SessionRegistry_find_session sid r = Some i" "i < length (live r)" "live r ! i = s"
    "session_id s = sid" "session_wf Q s"
  using assms find_session_eq [OF assms(1), of sid] position_Some [of "\<lambda>s. session_id s = sid" "live r"]
  by (fastforce simp: lookup_def find_position sessions_wf_def)

lemma find_distinct: "distinct (map f xs) \<Longrightarrow> x \<in> set xs \<Longrightarrow> find (\<lambda>y. f y = f x) xs = Some x"
  by (induction xs) (auto simp: image_iff)

lemma lookup_live: "sessions_wf K Q r \<Longrightarrow> s \<in> set (live r) \<Longrightarrow> lookup r (session_id s) = Some s"
  by (simp add: lookup_def find_distinct sessions_wf_def ids_def)

lemma lookup_update:
  assumes "distinct (map session_id xs)" "i < length xs" "session_id s' = session_id (xs ! i)"
  shows "find (\<lambda>s. session_id s = k) (xs[i := s']) =
    (if k = session_id (xs ! i) then Some s' else find (\<lambda>s. session_id s = k) xs)"
  using assms
proof (induction xs arbitrary: i)
  case (Cons x xs)
  show ?case
  proof (cases i)
    case 0
    with Cons.prems show ?thesis by auto
  next
    case (Suc j)
    with Cons.prems have "session_id x \<noteq> session_id (xs ! j)" by auto
    with Suc Cons show ?thesis by auto
  qed
qed simp

text \<open>What a method of one session does to the registry.\<close>

lemma on_session_missing:
  assumes "sessions_wf K Q r" "lookup r sid = None"
  shows "on_session sid m r = (Err (SessionNotFound sid), r)"
proof -
  have "SessionRegistry_find_session sid r = None"
    using assms by (auto simp: find_session_eq lookup_def find_position)
  then show ?thesis by (simp add: on_session_def)
qed

lemma on_session_found:
  assumes wf: "sessions_wf K Q r" and l: "lookup r sid = Some s" and m: "m s = (x, s')"
    and s': "session_id s' = session_id s" "session_wf Q s'"
  shows "\<exists>r'. on_session sid m r = (x, r') \<and> sessions_wf K Q r' \<and> ids r' = ids r \<and>
    lookup r' = (lookup r)(sid \<mapsto> s')"
proof -
  obtain i where i: "SessionRegistry_find_session sid r = Some i" "i < length (live r)" "live r ! i = s"
    "session_id s = sid" using lookup_Some [OF wf l] .
  have vw: "vec_wf (reg_sessions r)" "distinct (map session_id (live r))"
    using wf by (simp_all add: sessions_wf_def ids_def)
  note sl = slots_live [OF wf]
  have il: "i < unat (vlength (reg_sessions r))" "i < length (vdata (reg_sessions r))"
    using i(2) sl length_as_slice [OF vw(1)] vw(1) by (auto simp: vec_wf_def)
  have "slots r ! i = vdata (reg_sessions r) ! i" using il by (simp add: HeaplessVec_as_slice_def)
  then have d: "vdata (reg_sessions r) ! i = Some s" using i sl by simp
  define r' where "r' = r\<lparr>reg_sessions := (reg_sessions r)\<lparr>vdata := (vdata (reg_sessions r))[i := Some s']\<rparr>\<rparr>"
  have op: "on_session sid m r = (x, r')" using i(1) d m by (simp add: on_session_def r'_def)
  have "slots r' = (slots r)[i := Some s']"
    using il by (simp add: r'_def HeaplessVec_as_slice_def take_update_swap)
  then have sl': "slots r' = map Some ((live r)[i := s'])" by (simp add: sl map_update)
  then have live: "live r' = (live r)[i := s']" by (simp add: live_def)
  have ids: "ids r' = ids r" using i s'(1) by (simp add: ids_def live map_update) (metis list_update_id nth_map)
  have "vec_wf (reg_sessions r')" "HeaplessVec_capacity (reg_sessions r') = HeaplessVec_capacity (reg_sessions r)"
    using vw(1) by (simp_all add: r'_def vec_wf_def HeaplessVec_capacity_def)
  moreover have "\<forall>t \<in> set (live r'). session_wf Q t"
    using wf s'(2) set_update_subset_insert [of "live r" i s'] by (auto simp: live sessions_wf_def)
  ultimately have "sessions_wf K Q r'" using wf ids sl' by (auto simp: sessions_wf_def)
  moreover have "lookup r' = (lookup r)(sid \<mapsto> s')"
    using lookup_update [OF vw(2) i(2)] s'(1) i(3,4) by (auto simp: lookup_def live fun_eq_iff)
  ultimately show ?thesis using op ids by blast
qed

lemma on_session_same:
  assumes wf: "sessions_wf K Q r" and l: "lookup r sid = Some s" and m: "m s = (x, s)"
  shows "on_session sid m r = (x, r)"
proof -
  obtain i where i: "SessionRegistry_find_session sid r = Some i" "i < length (live r)" "live r ! i = s"
    using lookup_Some [OF wf l] by metis
  have "i < length (slots r)" "slots r ! i = Some s" using i slots_live [OF wf] by simp_all
  then have "vdata (reg_sessions r) ! i = Some s" by (simp add: HeaplessVec_as_slice_def)
  moreover from this have "(vdata (reg_sessions r))[i := Some s] = vdata (reg_sessions r)" by (metis list_update_id)
  ultimately show ?thesis using i(1) m by (simp add: on_session_def)
qed

lemma find_append: "find P (xs @ ys) = (case find P xs of None \<Rightarrow> find P ys | Some x \<Rightarrow> Some x)"
  by (induction xs) auto

lemma register_cases:
  assumes wf: "sessions_wf K Q r"
  obtains (registered) r' where "length (ids r) < K" "sid \<notin> set (ids r)"
        "SessionRegistry_register_new_session Q sid ka t r = (Ok (), r')" "sessions_wf K Q r'"
        "ids r' = ids r @ [sid]" "lookup r' = (lookup r)(sid \<mapsto> Session_new Q sid ka t)"
    | (no_room) "length (ids r) = K"
        "SessionRegistry_register_new_session Q sid ka t r = (Err (MaxSessionsReached K K), r)"
    | (exists) "length (ids r) < K" "sid \<in> set (ids r)"
        "SessionRegistry_register_new_session Q sid ka t r = (Err (SessionAlreadyExists sid), r)"
proof -
  have vw: "vec_wf (reg_sessions r)" "HeaplessVec_capacity (reg_sessions r) = K" "Q < 2 ^ 16"
    using wf by (simp_all add: sessions_wf_def)
  have len: "length (slots r) = length (ids r)" "HeaplessVec_len (reg_sessions r) = length (ids r)"
    using slots_live [OF wf] vw(1) by (simp_all add: ids_def HeaplessVec_len_as_slice)
  have fs: "SessionRegistry_find_session sid r = None \<longleftrightarrow> sid \<notin> set (ids r)"
    using find_session_eq [OF wf] lookup_None [of r sid] by (simp add: lookup_def find_position)
  consider "length (ids r) = K" | "length (ids r) < K" "sid \<in> set (ids r)" | "length (ids r) < K" "sid \<notin> set (ids r)"
    using hv.within_capacity [OF vw(1)] vw(2) len(1) by fastforce
  then show ?thesis
  proof cases
    case 1
    then show ?thesis using len vw by (intro no_room) (simp_all add: SessionRegistry_register_new_session_def)
  next
    case 2
    then show ?thesis
      using len vw fs by (intro exists) (simp_all add: SessionRegistry_register_new_session_def)
  next
    case 3
    let ?s = "Session_new Q sid ka t"
    obtain v' where v': "HeaplessVec_push (Some ?s) (reg_sessions r) = (Ok (), v')" "vec_wf v'"
      "HeaplessVec_as_slice v' = slots r @ [Some ?s]" "HeaplessVec_capacity v' = K"
      using hv.push_room [OF vw(1), of "Some ?s"] 3 len(1) vw(2) by auto
    define r' where "r' = r\<lparr>reg_sessions := v'\<rparr>"
    have live: "live r' = live r @ [?s]" using v'(3) by (simp add: r'_def live_def)
    then have ids: "ids r' = ids r @ [sid]" by (simp add: ids_def Session_new_def)
    have "session_wf Q ?s" using queue_new_wf [OF vw(3)] by (simp add: session_wf_def Session_new_def)
    then have "sessions_wf K Q r'"
      using wf v' 3 ids live by (auto simp: sessions_wf_def r'_def)
    moreover have "find (\<lambda>s. session_id s = sid) (live r) = None"
      using 3(2) lookup_None [of r sid] by (simp add: lookup_def)
    then have "lookup r' = (lookup r)(sid \<mapsto> ?s)"
      by (auto simp: lookup_def live fun_eq_iff find_append Session_new_def split: option.split)
    moreover have "SessionRegistry_register_new_session Q sid ka t r = (Ok (), r')"
      using 3 len vw fs v'(1)
      by (simp add: SessionRegistry_register_new_session_def on_field_def map_err_m_apply r'_def)
    ultimately show ?thesis using 3 ids by (intro registered)
  qed
qed

lemma filter_neq_middle:
  "f x = a \<Longrightarrow> \<forall>y \<in> set xs \<union> set ys. f y \<noteq> a \<Longrightarrow> filter (\<lambda>y. f y \<noteq> a) (xs @ x # ys) = xs @ ys"
  by (induction xs) (auto simp: filter_id_conv)

lemma find_filter_neq:
  "find (\<lambda>s. session_id s = k) (filter (\<lambda>s. session_id s \<noteq> sid) xs) =
     (if k = sid then None else find (\<lambda>s. session_id s = k) xs)"
  by (induction xs) auto

lemma remove_session_eq:
  assumes wf: "sessions_wf K Q r"
  shows "\<exists>r'. SessionRegistry_remove_session sid r = (Ok (sid \<in> set (ids r)), r') \<and> sessions_wf K Q r' \<and>
    ids r' = filter (\<lambda>k. k \<noteq> sid) (ids r) \<and> lookup r' = (lookup r)(sid := None)"
proof (cases "position (\<lambda>s. session_id s = sid) (live r)")
  case None
  then have "sid \<notin> set (ids r)" by (auto simp: position_None_iff ids_def)
  moreover from this have "lookup r sid = None" by (simp add: lookup_None)
  moreover have "filter (\<lambda>k. k \<noteq> sid) (ids r) = ids r"
    using \<open>sid \<notin> set (ids r)\<close> by (intro filter_True) auto
  ultimately show ?thesis
    using wf None by (auto simp: SessionRegistry_remove_session_def slots_live position_map has_id_def fun_upd_idem)
next
  case (Some i)
  let ?l = "live r"
  have i: "i < length ?l" "session_id (?l ! i) = sid" using position_Some [OF Some] by auto
  have vw: "vec_wf (reg_sessions r)" "distinct (map session_id ?l)"
    using wf by (simp_all add: sessions_wf_def ids_def)
  note sl = slots_live [OF wf]
  obtain v' where v': "HeaplessVec_remove i (reg_sessions r) = (Ok () :: (unit, BrokerError) result, v')" "vec_wf v'"
    "HeaplessVec_as_slice v' = take i (slots r) @ drop (Suc i) (slots r)"
    "HeaplessVec_capacity v' = HeaplessVec_capacity (reg_sessions r)"
    using HeaplessVec_remove_eq [OF vw(1), of i] i(1) sl by auto
  define r' where "r' = r\<lparr>reg_sessions := v'\<rparr>"
  have sp: "?l = take i ?l @ ?l ! i # drop (Suc i) ?l" using i(1) by (rule id_take_nth_drop)
  have d: "distinct (map session_id (take i ?l @ ?l ! i # drop (Suc i) ?l))" using vw(2) sp by metis
  have sl': "slots r' = map Some (take i ?l @ drop (Suc i) ?l)" using v'(3) by (simp add: r'_def sl take_map drop_map)
  then have "live r' = take i ?l @ drop (Suc i) ?l" by (simp add: live_def)
  also have "\<dots> = filter (\<lambda>s. session_id s \<noteq> sid) ?l"
    using d i(2) by (subst (3) sp, subst filter_neq_middle [where f = session_id]) (auto simp: image_iff)
  finally have live: "live r' = filter (\<lambda>s. session_id s \<noteq> sid) ?l" .
  then have ids: "ids r' = filter (\<lambda>k. k \<noteq> sid) (ids r)" by (simp add: ids_def filter_map comp_def)
  have "sessions_wf K Q r'"
    using wf v' sl' ids live by (auto simp: sessions_wf_def r'_def)
  moreover have "lookup r' = (lookup r)(sid := None)"
    by (auto simp: lookup_def live find_filter_neq fun_eq_iff)
  moreover have "sid \<in> set (ids r)" using i by (auto simp: ids_def)
  moreover have "SessionRegistry_remove_session sid r = (Ok True, r')"
    using Some v'(1)
    by (simp add: SessionRegistry_remove_session_def sl position_map has_id_def then_do_apply on_field_def r'_def)
  ultimately show ?thesis using ids by auto
qed

section \<open>The contract of the registry\<close>

locale session_store =
  fixes wf :: "'r \<Rightarrow> bool"
    and lookup :: "'r \<Rightarrow> 'k \<Rightarrow> 's option"
    and ids :: "'r \<Rightarrow> 'k list"
    and inv :: "'s \<Rightarrow> bool"
    and key :: "'s \<Rightarrow> 'k"
    and missing :: "'k \<Rightarrow> 'e"
    and update :: "'k \<Rightarrow> ('s, 'a, 'e) action \<Rightarrow> ('r, 'a, 'e) action"
    and remove :: "'k \<Rightarrow> ('r, bool, 'e) action"
  assumes ids_law: "wf r \<Longrightarrow> distinct (ids r) \<and> dom (lookup r) = set (ids r)"
    and lookup_law: "wf r \<Longrightarrow> lookup r k = Some s \<Longrightarrow> key s = k \<and> inv s"
    and update_missing: "wf r \<Longrightarrow> lookup r k = None \<Longrightarrow> update k m r = (Err (missing k), r)"
    and update_found: "wf r \<Longrightarrow> lookup r k = Some s \<Longrightarrow> m s = (x, s') \<Longrightarrow> key s' = key s \<Longrightarrow> inv s' \<Longrightarrow>
      \<exists>r'. update k m r = (x, r') \<and> wf r' \<and> ids r' = ids r \<and> lookup r' = (lookup r)(k \<mapsto> s')"
    and remove_law: "wf r \<Longrightarrow>
      \<exists>r'. remove k r = (Ok (k \<in> set (ids r)), r') \<and> wf r' \<and> ids r' = filter (\<lambda>j. j \<noteq> k) (ids r) \<and>
        lookup r' = (lookup r)(k := None)"
begin

text \<open>A method that keeps the key and the invariant of a session keeps the store's, and touches one session only.\<close>

lemma update_keeps:
  assumes "wf r" "\<And>s. inv s \<Longrightarrow> key (snd (m s)) = key s \<and> inv (snd (m s))"
  shows "wf (snd (update k m r)) \<and> ids (snd (update k m r)) = ids r \<and>
    (j \<noteq> k \<longrightarrow> lookup (snd (update k m r)) j = lookup r j)"
proof (cases "lookup r k")
  case None
  with update_missing [OF assms(1) None] assms(1) show ?thesis by simp
next
  case (Some s)
  obtain x s' where m: "m s = (x, s')" by force
  have "key s' = key s \<and> inv s'" using assms(2) [of s] lookup_law [OF assms(1) Some] m by simp
  with update_found [where m = m, OF assms(1) Some m] obtain r' where
    "update k m r = (x, r')" "wf r'" "ids r' = ids r" "lookup r' = (lookup r)(k \<mapsto> s')" by blast
  then show ?thesis by simp
qed

lemma update_result:
  assumes "wf r" "\<And>s. inv s \<Longrightarrow> key (snd (m s)) = key s \<and> inv (snd (m s))"
  shows "fst (update k m r) = (case lookup r k of None \<Rightarrow> Err (missing k) | Some s \<Rightarrow> fst (m s))"
    "lookup (snd (update k m r)) k = map_option (\<lambda>s. snd (m s)) (lookup r k)"
proof -
  have "fst (update k m r) = (case lookup r k of None \<Rightarrow> Err (missing k) | Some s \<Rightarrow> fst (m s)) \<and>
    lookup (snd (update k m r)) k = map_option (\<lambda>s. snd (m s)) (lookup r k)"
  proof (cases "lookup r k")
    case None
    with update_missing [OF assms(1) None] show ?thesis by simp
  next
    case (Some s)
    obtain x s' where m: "m s = (x, s')" by force
    have "key s' = key s \<and> inv s'" using assms(2) [of s] lookup_law [OF assms(1) Some] m by simp
    with update_found [where m = m, OF assms(1) Some m] Some m show ?thesis by auto
  qed
  then show "fst (update k m r) = (case lookup r k of None \<Rightarrow> Err (missing k) | Some s \<Rightarrow> fst (m s))"
    "lookup (snd (update k m r)) k = map_option (\<lambda>s. snd (m s)) (lookup r k)" by auto
qed

lemma remove_forgets:
  assumes "wf r" "remove k r = (x, r')"
  shows "wf r'" "lookup r' k = None" "k \<notin> set (ids r')" "j \<noteq> k \<Longrightarrow> lookup r' j = lookup r j"
  using remove_law [OF assms(1), of k] assms(2) by auto

lemma update_after_remove:
  assumes "wf r" "remove k r = (x, r')"
  shows "update k m r' = (Err (missing k), r')"
  using remove_forgets [OF assms] by (intro update_missing) auto

end

interpretation sr: session_store "sessions_wf K Q" lookup ids "session_wf Q" session_id SessionNotFound
    on_session SessionRegistry_remove_session for K Q
proof
  fix r k s m x s'
  assume wf: "sessions_wf K Q r"
  show "distinct (ids r) \<and> dom (lookup r) = set (ids r)"
    using wf lookup_None [of r] by (auto simp: sessions_wf_def dom_def)
  show "lookup r k = Some s \<Longrightarrow> session_id s = k \<and> session_wf Q s"
    using lookup_Some [OF wf] by metis
  show "lookup r k = None \<Longrightarrow> on_session k m r = (Err (SessionNotFound k), r)"
    using on_session_missing [OF wf] .
  show "lookup r k = Some s \<Longrightarrow> m s = (x, s') \<Longrightarrow> session_id s' = session_id s \<Longrightarrow> session_wf Q s' \<Longrightarrow>
    \<exists>r'. on_session k m r = (x, r') \<and> sessions_wf K Q r' \<and> ids r' = ids r \<and> lookup r' = (lookup r)(k \<mapsto> s')"
    using on_session_found [OF wf] .
  show "\<exists>r'. SessionRegistry_remove_session k r = (Ok (k \<in> set (ids r)), r') \<and> sessions_wf K Q r' \<and>
    ids r' = filter (\<lambda>j. j \<noteq> k) (ids r) \<and> lookup r' = (lookup r)(k := None)"
    using remove_session_eq [OF wf] .
qed

section \<open>The operations on one session\<close>

lemma session_state_keeps:
  "session_wf Q (s\<lparr>sess_state := x\<rparr>) = session_wf Q s" "session_wf Q (s\<lparr>client_id := c\<rparr>) = session_wf Q s"
  "session_wf Q (s\<lparr>keep_alive_secs := k\<rparr>) = session_wf Q s" "session_wf Q (s\<lparr>last_activity := t\<rparr>) = session_wf Q s"
  by (simp_all add: session_wf_def)

lemma queue_tx_cases:
  assumes wf: "sessions_wf K Q r" and l: "lookup r sid = Some s"
  obtains (queued) r' q where "length (packets (tx_queue s)) < Q"
        "SessionRegistry_queue_tx_packet sid p r = (Ok (), r')" "sessions_wf K Q r'" "ids r' = ids r"
        "lookup r' = (lookup r)(sid \<mapsto> s\<lparr>tx_queue := q\<rparr>)" "packets q = packets (tx_queue s) @ [p]"
    | (full) "length (packets (tx_queue s)) = Q"
        "SessionRegistry_queue_tx_packet sid p r = (Err (SessionQueueFull sid Q), r)"
proof -
  have sw: "queue_wf Q (rx_queue s)" "queue_wf Q (tx_queue s)" "HeaplessVec_capacity (tx_queue s) = Q"
    using sr.lookup_law [OF wf l] by (auto simp: session_wf_def queue_wf_def)
  show ?thesis
  proof (rule queue_push_cases [OF sw(2), of p])
    fix q assume q: "length (packets (tx_queue s)) < Q" "HeaplessVec_push (Some p) (tx_queue s) = (Ok (), q)"
      "queue_wf Q q" "packets q = packets (tx_queue s) @ [p]"
    have "session_wf Q (s\<lparr>tx_queue := q\<rparr>)" using sw q(3) by (simp add: session_wf_def)
    then show ?thesis
      using on_session_found [OF wf l, of "\<lambda>s. map_err_m (\<lambda>_. SessionQueueFull sid (HeaplessVec_capacity (tx_queue s)))
          (Session_queue_tx_packet p) s" "Ok ()" "s\<lparr>tx_queue := q\<rparr>"] q
      by (auto simp: SessionRegistry_queue_tx_packet_def Session_queue_tx_packet_def map_err_m_apply on_field_def
        intro: queued)
  next
    assume q: "length (packets (tx_queue s)) = Q" "HeaplessVec_push (Some p) (tx_queue s) = (Err PushError, tx_queue s)"
    then show ?thesis
      using on_session_same [OF wf l, of "\<lambda>s. map_err_m (\<lambda>_. SessionQueueFull sid (HeaplessVec_capacity (tx_queue s)))
          (Session_queue_tx_packet p) s" "Err (SessionQueueFull sid Q)"] sw(3)
      by (auto simp: SessionRegistry_queue_tx_packet_def Session_queue_tx_packet_def map_err_m_apply on_field_def
        intro!: full)
  qed
qed

lemma queue_rx_cases:
  assumes wf: "sessions_wf K Q r" and l: "lookup r sid = Some s"
  obtains (queued) r' q where "length (packets (rx_queue s)) < Q"
        "SessionRegistry_queue_rx_packet sid p r = (Ok (), r')" "sessions_wf K Q r'" "ids r' = ids r"
        "lookup r' = (lookup r)(sid \<mapsto> s\<lparr>rx_queue := q\<rparr>)" "packets q = packets (rx_queue s) @ [p]"
    | (full) "length (packets (rx_queue s)) = Q"
        "SessionRegistry_queue_rx_packet sid p r = (Err (SessionQueueFull sid Q), r)"
proof -
  have sw: "queue_wf Q (rx_queue s)" "queue_wf Q (tx_queue s)" "HeaplessVec_capacity (rx_queue s) = Q"
    using sr.lookup_law [OF wf l] by (auto simp: session_wf_def queue_wf_def)
  show ?thesis
  proof (rule queue_push_cases [OF sw(1), of p])
    fix q assume q: "length (packets (rx_queue s)) < Q" "HeaplessVec_push (Some p) (rx_queue s) = (Ok (), q)"
      "queue_wf Q q" "packets q = packets (rx_queue s) @ [p]"
    have "session_wf Q (s\<lparr>rx_queue := q\<rparr>)" using sw q(3) by (simp add: session_wf_def)
    then show ?thesis
      using on_session_found [OF wf l, of "\<lambda>s. map_err_m (\<lambda>_. SessionQueueFull sid (HeaplessVec_capacity (rx_queue s)))
          (Session_queue_rx_packet p) s" "Ok ()" "s\<lparr>rx_queue := q\<rparr>"] q
      by (auto simp: SessionRegistry_queue_rx_packet_def Session_queue_rx_packet_def map_err_m_apply on_field_def
        intro: queued)
  next
    assume q: "length (packets (rx_queue s)) = Q" "HeaplessVec_push (Some p) (rx_queue s) = (Err PushError, rx_queue s)"
    then show ?thesis
      using on_session_same [OF wf l, of "\<lambda>s. map_err_m (\<lambda>_. SessionQueueFull sid (HeaplessVec_capacity (rx_queue s)))
          (Session_queue_rx_packet p) s" "Err (SessionQueueFull sid Q)"] sw(3)
      by (auto simp: SessionRegistry_queue_rx_packet_def Session_queue_rx_packet_def map_err_m_apply on_field_def
        intro!: full)
  qed
qed

text \<open>The front of a packet list, as the dequeue methods return it.\<close>

definition front_of :: "'a list \<Rightarrow> 'a option" where
  "front_of xs = (case xs of [] \<Rightarrow> None | x # _ \<Rightarrow> Some x)"

lemma dequeue_rx_eq:
  assumes wf: "sessions_wf K Q r" and l: "lookup r sid = Some s"
  shows "\<exists>r' q. SessionRegistry_dequeue_rx_packet sid r = (Ok (front_of (packets (rx_queue s))), r') \<and>
    sessions_wf K Q r' \<and> ids r' = ids r \<and> lookup r' = (lookup r)(sid \<mapsto> s\<lparr>rx_queue := q\<rparr>) \<and>
    packets q = tl (packets (rx_queue s))"
proof -
  have sw: "queue_wf Q (rx_queue s)" "queue_wf Q (tx_queue s)"
    using sr.lookup_law [OF wf l] by (auto simp: session_wf_def)
  from queue_dequeue [OF sw(1)] obtain q where q: "HeaplessVec_dequeue_front (rx_queue s) =
      (Ok (case packets (rx_queue s) of [] \<Rightarrow> None | p # _ \<Rightarrow> Some (Some p)) :: (_, BrokerError) result, q)"
    "queue_wf Q q" "packets q = tl (packets (rx_queue s))" by blast
  have "Session_dequeue_rx_packet s = (Ok (front_of (packets (rx_queue s))), s\<lparr>rx_queue := q\<rparr>)"
    using q(1) by (simp add: Session_dequeue_rx_packet_def then_do_apply on_field_def front_of_def split: list.split)
  moreover have "session_wf Q (s\<lparr>rx_queue := q\<rparr>)" using sw q(2) by (simp add: session_wf_def)
  ultimately show ?thesis
    using on_session_found [where m = Session_dequeue_rx_packet, OF wf l] q(3)
    by (fastforce simp: SessionRegistry_dequeue_rx_packet_def)
qed

lemma dequeue_tx_eq:
  assumes wf: "sessions_wf K Q r" and l: "lookup r sid = Some s"
  shows "\<exists>r' q. SessionRegistry_dequeue_tx_packet sid r = (Ok (front_of (packets (tx_queue s))), r') \<and>
    sessions_wf K Q r' \<and> ids r' = ids r \<and> lookup r' = (lookup r)(sid \<mapsto> s\<lparr>tx_queue := q\<rparr>) \<and>
    packets q = tl (packets (tx_queue s))"
proof -
  have sw: "queue_wf Q (rx_queue s)" "queue_wf Q (tx_queue s)"
    using sr.lookup_law [OF wf l] by (auto simp: session_wf_def)
  from queue_dequeue [OF sw(2)] obtain q where q: "HeaplessVec_dequeue_front (tx_queue s) =
      (Ok (case packets (tx_queue s) of [] \<Rightarrow> None | p # _ \<Rightarrow> Some (Some p)) :: (_, BrokerError) result, q)"
    "queue_wf Q q" "packets q = tl (packets (tx_queue s))" by blast
  have "Session_dequeue_tx_packet s = (Ok (front_of (packets (tx_queue s))), s\<lparr>tx_queue := q\<rparr>)"
    using q(1) by (simp add: Session_dequeue_tx_packet_def then_do_apply on_field_def front_of_def split: list.split)
  moreover have "session_wf Q (s\<lparr>tx_queue := q\<rparr>)" using sw q(2) by (simp add: session_wf_def)
  ultimately show ?thesis
    using on_session_found [where m = Session_dequeue_tx_packet, OF wf l] q(3)
    by (fastforce simp: SessionRegistry_dequeue_tx_packet_def)
qed

lemma has_pending_eq:
  assumes "sessions_wf K Q r"
  shows "SessionRegistry_has_pending_tx_packets sid r \<longleftrightarrow>
    (\<exists>s. lookup r sid = Some s \<and> packets (tx_queue s) \<noteq> [])"
proof -
  have "find (has_id sid) (map Some xs) = map_option Some (find (\<lambda>s. session_id s = sid) xs)" for xs
    by (induction xs) (auto simp: has_id_def)
  then have "find (has_id sid) (slots r) = map_option Some (lookup r sid)"
    by (simp add: slots_live [OF assms] lookup_def)
  moreover have "HeaplessVec_is_empty (tx_queue s) \<longleftrightarrow> packets (tx_queue s) = []" if "lookup r sid = Some s" for s
  proof -
    have "queue_wf Q (tx_queue s)" using sr.lookup_law [OF assms that] by (simp add: session_wf_def)
    then show ?thesis using queue_slice by (metis HeaplessVec_is_empty_iff map_is_Nil_conv queue_wf_def)
  qed
  ultimately show ?thesis
    by (cases "lookup r sid") (auto simp: SessionRegistry_has_pending_tx_packets_def)
qed

section \<open>The listings\<close>

lemma fill_slots_eq:
  "count + length (filter test xs) \<le> length arr \<Longrightarrow>
     fill_slots test f xs count arr = put_at arr count (map (\<lambda>x. Some (f x)) (filter test xs))"
proof (induction xs arbitrary: count arr)
  case (Cons x xs)
  show ?case
  proof (cases "test x")
    case True
    then have "fill_slots test f (x # xs) count arr =
        put_at (put_at arr count [Some (f x)]) (count + 1) (map (\<lambda>x. Some (f x)) (filter test xs))"
      using Cons by (simp add: list_update_put_at)
    also have "\<dots> = put_at arr count ([Some (f x)] @ map (\<lambda>x. Some (f x)) (filter test xs))"
      using put_at_append [of count "[Some (f x)]" _ arr] True Cons.prems by simp
    finally show ?thesis using True by simp
  qed (use Cons in simp)
qed simp

lemma live_within: "sessions_wf K Q r \<Longrightarrow> length (live r) \<le> K"
  using slots_live hv.within_capacity unfolding sessions_wf_def by (metis length_map)

lemma listing_eq:
  assumes "sessions_wf K Q r"
  shows "fill_slots test f (flatten (slots r)) 0 (replicate (HeaplessVec_capacity (reg_sessions r)) None) =
    map (\<lambda>s. Some (f s)) (filter test (live r)) @ replicate (K - length (filter test (live r))) None"
proof -
  have c: "HeaplessVec_capacity (reg_sessions r) = K" using assms by (simp add: sessions_wf_def)
  have "length (filter test (live r)) \<le> K"
    using live_within [OF assms] length_filter_le [of test "live r"] by linarith
  then show ?thesis
    using fill_slots_eq [of 0 test "live r" "replicate K None" f] by (simp add: c live_def put_at_def)
qed

lemma flatten_replicate [simp]: "flatten (replicate n None) = []"
  by (induction n) auto

lemma flatten_listing [simp]: "flatten (map (\<lambda>s. Some (f s)) xs) = map f xs"
  by (induction xs) auto

lemma get_all_sessions_eq: "sessions_wf K Q r \<Longrightarrow> flatten (SessionRegistry_get_all_sessions r) = ids r"
  by (simp add: SessionRegistry_get_all_sessions_def listing_eq ids_def)

lemma get_expired_sessions_eq:
  "sessions_wf K Q r \<Longrightarrow> flatten (SessionRegistry_get_expired_sessions t r) =
     map (Session_expiration_info t)
       (filter (\<lambda>s. ExpirationInfo_is_expired (Session_expiration_info t s)) (live r))"
  by (simp add: SessionRegistry_get_expired_sessions_def listing_eq)

lemma get_disconnected_sessions_eq:
  "sessions_wf K Q r \<Longrightarrow> flatten (SessionRegistry_get_disconnected_sessions r) =
     map session_id (filter (\<lambda>s. sess_state s = Disconnected) (live r))"
  by (simp add: SessionRegistry_get_disconnected_sessions_def listing_eq)

text \<open>The arithmetic of \<^verbatim>\<open>is_expired\<close> is exact: no product overflows a \<^verbatim>\<open>u128\<close>.\<close>

lemma unat_timeout:
  "unat (ucast (k :: u16) * 3 div 2 * 1000000000 :: u128) = unat k * 3 div 2 * 1000000000"
proof -
  have b: "unat k < 65536" "unat k * 3 < 196608" "unat k * 3 div 2 * 1000000000 < 98304 * 1000000000"
    using unat_u16_less [of k] by linarith+
  have big: "(65536 :: nat) \<le> 2 ^ 128" "(196608 :: nat) \<le> 2 ^ 128" "(98304 * 1000000000 :: nat) \<le> 2 ^ 128"
    by simp_all
  note lt = b(1) [THEN less_le_trans, OF big(1)] b(2) [THEN less_le_trans, OF big(2)]
    b(3) [THEN less_le_trans, OF big(3)]
  have u: "unat (ucast k :: u128) = unat k" using lt(1) by (simp add: unsigned_ucast_eq take_bit_eq_mod)
  then have "unat (ucast k * 3 :: u128) = unat k * 3" using lt(2) by (simp add: unat_word_ariths)
  then have d: "unat (ucast k * 3 div 2 :: u128) = unat k * 3 div 2" by (simp add: unat_div)
  then show ?thesis using lt(3) by (simp add: unat_word_ariths)
qed

lemma is_expired_iff:
  "ExpirationInfo_is_expired i \<longleftrightarrow> ei_keep_alive_secs i \<noteq> 0 \<and>
     unat (ei_current_time i) - unat (ei_last_activity i) > unat (ei_keep_alive_secs i) * 3 div 2 * 10 ^ 9"
  by (simp add: ExpirationInfo_is_expired_def Let_def word_less_nat_alt unat_saturating_sub unat_timeout)

section \<open>Properties\<close>

text \<open>
  C37: \<^verbatim>\<open>get_expired_sessions\<close> lists, in the order of the table, exactly the sessions with a keep-alive whose last
  activity lies more than one and a half keep-alive intervals (in whole seconds) before the current time; the
  \<^verbatim>\<open>u128\<close> arithmetic of \<^verbatim>\<open>is_expired\<close> neither wraps nor underflows, also when the clock runs backwards.
\<close>

theorem expired_sessions_listed:
  assumes "sessions_wf K Q r"
  shows "flatten (SessionRegistry_get_expired_sessions now r) =
    map (Session_expiration_info now)
      (filter (\<lambda>s. keep_alive_secs s \<noteq> 0 \<and>
         unat (last_activity s) + unat (keep_alive_secs s) * 3 div 2 * 10 ^ 9 < unat now) (live r))"
  using get_expired_sessions_eq [OF assms, of now]
  by (simp add: is_expired_iff Session_expiration_info_def less_diff_conv add.commute)

theorem expired_sessions_listed_witness:
  "flatten (SessionRegistry_get_expired_sessions 16000000000 \<lparr>reg_sessions = \<lparr>vlength = 1, vdata =
     [Some (Session_new 1 7 10 0)]\<rparr>\<rparr>) = [Session_expiration_info 16000000000 (Session_new 1 7 10 0)]"
proof -
  let ?r = "\<lparr>reg_sessions = \<lparr>vlength = 1, vdata = [Some (Session_new 1 7 10 0)]\<rparr>\<rparr>"
  have "sessions_wf 1 1 ?r"
    by (simp add: sessions_wf_def live_def ids_def vec_wf_def vec_defs session_wf_def Session_new_def queue_wf_def)
  from expired_sessions_listed [OF this, of 16000000000] show ?thesis
    by (simp add: live_def vec_defs Session_new_def)
qed

end
