(* ===== verification/Topics.thy ===== *)
theory Topics
  imports Packets_Var
begin

text \<open>
  Topic filters and the subscription registry of \<^verbatim>\<open>src/topics.rs\<close>. The iterator over the levels of a topic
  and the matching loop are translated as they are; the first half of the lemmas shows that they compute
  the level-wise matching of MQTT. \<open>TopicRegistry\<close> is a vector of entries; the second half of the lemmas
  shows that it implements a finite set of pairs of a filter and a session, with two capacity limits. The
  locale \<open>subscription_store\<close> is this contract, on which the broker relies.

  The const generics are the capacities of the vectors; \<open>S\<close> is \<^verbatim>\<open>MAX_SUBSCRIBERS_PER_TOPIC\<close> where a new
  vector is made.
\<close>

section \<open>TopicName\<close>

definition TopicName_try_from :: "usize \<Rightarrow> bytes \<Rightarrow> (TopicName, ProtocolError) result" where
  "TopicName_try_from N value =
     map_err (\<lambda>_. TopicNameLengthExceeded N (length value)) (HeaplessString_try_from N value)"

section \<open>TopicEntry\<close>

record TopicEntry =
  topic_name :: TopicName
  subscribers :: "u128 HeaplessVec"

definition TopicEntry_new :: "usize \<Rightarrow> TopicName \<Rightarrow> TopicEntry" where
  "TopicEntry_new S name = \<lparr>topic_name = name, subscribers = HeaplessVec_new S 0\<rparr>"

definition TopicEntry_default :: "usize \<Rightarrow> usize \<Rightarrow> TopicEntry" where
  "TopicEntry_default N S = TopicEntry_new S (HeaplessString_new N)"

definition TopicEntry_add_subscriber :: "u128 \<Rightarrow> (TopicEntry, unit, BrokerError) action" where
  "TopicEntry_add_subscriber session_id = (\<lambda>e.
     if session_id \<in> set (HeaplessVec_as_slice (subscribers e)) then (Ok (), e)
     else
       let current = HeaplessVec_len (subscribers e) in
       on_field subscribers (\<lambda>v e. e\<lparr>subscribers := v\<rparr>)
         (map_err_m (\<lambda>_. MaxSubscribersPerTopicReached current (HeaplessVec_capacity (subscribers e)))
           (HeaplessVec_push session_id)) e)"

definition TopicEntry_remove_subscriber :: "u128 \<Rightarrow> (TopicEntry, bool, BrokerError) action" where
  "TopicEntry_remove_subscriber session_id = (\<lambda>e.
     case position (\<lambda>x. x = session_id) (HeaplessVec_as_slice (subscribers e)) of
       Some pos \<Rightarrow>
         then_do (on_field subscribers (\<lambda>v e. e\<lparr>subscribers := v\<rparr>) (HeaplessVec_remove pos))
           (\<lambda>_. ret True) e
     | None \<Rightarrow> (Ok False, e))"

definition TopicEntry_is_empty :: "TopicEntry \<Rightarrow> bool" where
  "TopicEntry_is_empty e = HeaplessVec_is_empty (subscribers e)"

definition TopicEntry_subscriber_count :: "TopicEntry \<Rightarrow> usize" where
  "TopicEntry_subscriber_count e = HeaplessVec_len (subscribers e)"

section \<open>Levels of a topic\<close>

record LevelIterator =
  remaining :: bytes
  pending_empty :: bool

definition LevelIterator_new :: "bytes \<Rightarrow> LevelIterator" where
  "LevelIterator_new topic = \<lparr>remaining = topic, pending_empty = False\<rparr>"

definition LevelIterator_next :: "LevelIterator \<Rightarrow> bytes option \<times> LevelIterator" where
  "LevelIterator_next it =
     (if pending_empty it then (Some [], it\<lparr>pending_empty := False\<rparr>)
      else if remaining it = [] then (None, it)
      else
        (case position (\<lambda>b. b = 0x2F) (remaining it) of
           Some pos \<Rightarrow>
             let level = take pos (remaining it); rest = drop (pos + 1) (remaining it) in
             (Some level, \<lparr>remaining = rest, pending_empty = (rest = [])\<rparr>)
         | None \<Rightarrow> (Some (remaining it), it\<lparr>remaining := []\<rparr>)))"

definition iter_size :: "LevelIterator \<Rightarrow> nat" where
  "iter_size it = 2 * length (remaining it) + (if pending_empty it then 1 else 0)"

lemma LevelIterator_next_size:
  "LevelIterator_next it = (Some l, it') \<Longrightarrow> iter_size it' < iter_size it"
  "iter_size (snd (LevelIterator_next it)) \<le> iter_size it"
  by (auto simp: LevelIterator_next_def iter_size_def Let_def split: if_splits option.splits
    dest!: position_Some)

function topic_matches_loop :: "LevelIterator \<Rightarrow> LevelIterator \<Rightarrow> bool" where
  "topic_matches_loop pub_levels sub_levels =
     (case LevelIterator_next pub_levels of (pub_level, pub_levels) \<Rightarrow>
      case LevelIterator_next sub_levels of
        (None, _) \<Rightarrow> pub_level = None
      | (Some level, sub_levels) \<Rightarrow>
          (case (if level = [0x23] then LevelIterator_next sub_levels else (Some [], sub_levels)) of
             (None, _) \<Rightarrow> True
           | (Some _, sub_levels) \<Rightarrow>
               if pub_level = None then False
               else if level = [0x2B] then topic_matches_loop pub_levels sub_levels
               else if pub_level \<noteq> Some level then False
               else topic_matches_loop pub_levels sub_levels))"
  by pat_completeness auto
termination
proof (relation "measure (\<lambda>(p, s). iter_size s)")
  fix p s pl p' sl s' level y s'' z
  assume a: "(sl, s') = LevelIterator_next s" "sl = Some level"
    "(y, s'') = (if level = [0x23] then LevelIterator_next s' else (Some [], s'))"
  then have "iter_size s' < iter_size s" using LevelIterator_next_size(1) [of s] by metis
  moreover have "iter_size s'' \<le> iter_size s'"
    using a(3) LevelIterator_next_size(2) [of s'] by (metis order_refl snd_conv)
  ultimately show "((p', s''), (p, s)) \<in> measure (\<lambda>(p, s). iter_size s)"
    "((p', s''), (p, s)) \<in> measure (\<lambda>(p, s). iter_size s)" by simp_all
qed simp

declare topic_matches_loop.simps [simp del]

definition topic_matches :: "bytes \<Rightarrow> bytes \<Rightarrow> bool" where
  "topic_matches published topic_filter =
     topic_matches_loop (LevelIterator_new published) (LevelIterator_new topic_filter)"

section \<open>TopicRegistry\<close>

record TopicRegistry =
  topics :: "TopicEntry HeaplessVec"

definition TopicRegistry_default :: "usize \<Rightarrow> usize \<Rightarrow> usize \<Rightarrow> TopicRegistry" where
  "TopicRegistry_default N T S = \<lparr>topics = HeaplessVec_new T (TopicEntry_default N S)\<rparr>"

text \<open>A method of the element at an index below the length, through \<^verbatim>\<open>DerefMut\<close> or \<^verbatim>\<open>IndexMut\<close>.\<close>

definition on_entry :: "usize \<Rightarrow> (TopicEntry, 'a, 'e) action \<Rightarrow> (TopicRegistry, 'a, 'e) action" where
  "on_entry i m = (\<lambda>r.
     if i < length (vdata (topics r)) then
       (case m (vdata (topics r) ! i) of (x, e) \<Rightarrow>
          (x, r\<lparr>topics := (topics r)\<lparr>vdata := (vdata (topics r))[i := e]\<rparr>\<rparr>))
     else (Panic, r))"

definition TopicRegistry_subscribe :: "usize \<Rightarrow> u128 \<Rightarrow> TopicName \<Rightarrow> (TopicRegistry, unit, BrokerError) action" where
  "TopicRegistry_subscribe S session_id name = (\<lambda>r.
     case position (\<lambda>t. topic_name t = name) (HeaplessVec_as_slice (topics r)) of
       Some i \<Rightarrow> on_entry i (TopicEntry_add_subscriber session_id) r
     | None \<Rightarrow>
         let current = HeaplessVec_len (topics r); MAX_TOPICS = HeaplessVec_capacity (topics r) in
         if current \<ge> MAX_TOPICS then (Err (MaxTopicsReached current MAX_TOPICS), r)
         else
           (case TopicEntry_add_subscriber session_id (TopicEntry_new S name) of
              (Ok _, new_entry) \<Rightarrow>
                on_field topics (\<lambda>v r. r\<lparr>topics := v\<rparr>) (map_err_m (\<lambda>_. BufferFull) (HeaplessVec_push new_entry)) r
            | (Err e, _) \<Rightarrow> (Err e, r)
            | (Panic, _) \<Rightarrow> (Panic, r)))"

text \<open>
  The inner loop body of \<^verbatim>\<open>get_subscribers\<close>: \<^verbatim>\<open>let _ = subscribers.push(*sub_id)\<close> discards an error but
  not a panic.
\<close>

definition get_subscribers_add :: "u128 \<Rightarrow> u128 HeaplessVec \<Rightarrow> (u128 HeaplessVec, BrokerError) result" where
  "get_subscribers_add sub_id v =
     (if \<not> list_ex (\<lambda>s. s = sub_id) (HeaplessVec_as_slice v) then
        (case HeaplessVec_push sub_id v of (Panic, _) \<Rightarrow> Panic | (_, v') \<Rightarrow> Ok v')
      else Ok v)"

primrec get_subscribers_entry :: "u128 list \<Rightarrow> u128 HeaplessVec \<Rightarrow> (u128 HeaplessVec, BrokerError) result" where
  "get_subscribers_entry [] v = Ok v"
| "get_subscribers_entry (x # xs) v = and_then (get_subscribers_add x v) (get_subscribers_entry xs)"

primrec get_subscribers_loop :: "bytes \<Rightarrow> TopicEntry list \<Rightarrow> u128 HeaplessVec \<Rightarrow>
    (u128 HeaplessVec, BrokerError) result" where
  "get_subscribers_loop published [] v = Ok v"
| "get_subscribers_loop published (entry # es) v =
     and_then
       (if topic_matches published (HeaplessString_as_str (topic_name entry))
        then get_subscribers_entry (HeaplessVec_as_slice (subscribers entry)) v
        else Ok v)
       (get_subscribers_loop published es)"

definition TopicRegistry_get_subscribers :: "usize \<Rightarrow> TopicName \<Rightarrow> TopicRegistry \<Rightarrow>
    (u128 HeaplessVec, BrokerError) result" where
  "TopicRegistry_get_subscribers S topic r =
     get_subscribers_loop (HeaplessString_as_str topic) (HeaplessVec_as_slice (topics r)) (HeaplessVec_new S 0)"

definition TopicRegistry_unsubscribe :: "u128 \<Rightarrow> TopicName \<Rightarrow> (TopicRegistry, bool, BrokerError) action" where
  "TopicRegistry_unsubscribe session_id name = (\<lambda>r.
     case position (\<lambda>e. topic_name e = name) (HeaplessVec_as_slice (topics r)) of
       Some idx \<Rightarrow>
         then_do (on_entry idx (TopicEntry_remove_subscriber session_id)) (\<lambda>removed.
         then_do (\<lambda>r. (index (HeaplessVec_as_slice (topics r)) idx, r)) (\<lambda>entry.
         then_do
           (if TopicEntry_is_empty entry
            then on_field topics (\<lambda>v r. r\<lparr>topics := v\<rparr>) (HeaplessVec_remove idx) else ret ()) (\<lambda>_.
         ret removed))) r
     | None \<Rightarrow> (Ok False, r))"

primrec TopicRegistry_unregister_loop :: "u128 \<Rightarrow> TopicEntry list \<Rightarrow> (usize \<times> TopicEntry list) option" where
  "TopicRegistry_unregister_loop session_id [] = Some (0, [])"
| "TopicRegistry_unregister_loop session_id (e # es) =
     (case TopicEntry_remove_subscriber session_id e of
        (Ok removed, e') \<Rightarrow>
          map_option (\<lambda>(n, es'). ((if removed then n + 1 else n), e' # es'))
            (TopicRegistry_unregister_loop session_id es)
      | _ \<Rightarrow> None)"

definition TopicRegistry_unregister_all :: "u128 \<Rightarrow> (TopicRegistry, usize, BrokerError) action" where
  "TopicRegistry_unregister_all session_id = (\<lambda>r.
     case TopicRegistry_unregister_loop session_id (HeaplessVec_as_slice (topics r)) of
       Some (removed_count, es) \<Rightarrow>
         then_do (on_field topics (\<lambda>v r. r\<lparr>topics := v\<rparr>)
             (HeaplessVec_retain (\<lambda>entry. \<not> TopicEntry_is_empty entry)))
           (\<lambda>_. ret removed_count) (r\<lparr>topics := (topics r)\<lparr>vdata := put_at (vdata (topics r)) 0 es\<rparr>\<rparr>)
     | None \<Rightarrow> (Panic, r))"

definition TopicRegistry_topic_count :: "TopicRegistry \<Rightarrow> usize" where
  "TopicRegistry_topic_count r = HeaplessVec_len (topics r)"

definition TopicRegistry_subscription_count :: "TopicRegistry \<Rightarrow> usize" where
  "TopicRegistry_subscription_count r =
     sum_list (map (\<lambda>t. HeaplessVec_len (subscribers t)) (HeaplessVec_as_slice (topics r)))"

definition TopicRegistry_clear_all :: "TopicRegistry \<Rightarrow> TopicRegistry" where
  "TopicRegistry_clear_all r = r\<lparr>topics := HeaplessVec_clear (topics r)\<rparr>"

section \<open>Matching on lists of levels\<close>

text \<open>The levels of a topic: the pieces between the slashes; the empty topic has none.\<close>

fun split_levels :: "bytes \<Rightarrow> bytes list" where
  "split_levels [] = [[]]"
| "split_levels (b # bs) =
     (if b = 0x2F then [] # split_levels bs
      else (case split_levels bs of l # ls \<Rightarrow> (b # l) # ls | [] \<Rightarrow> [[b]]))"

definition levels :: "bytes \<Rightarrow> bytes list" where
  "levels s = (if s = [] then [] else split_levels s)"

definition iter_levels :: "LevelIterator \<Rightarrow> bytes list" where
  "iter_levels it = (if pending_empty it then [] # levels (remaining it) else levels (remaining it))"

text \<open>
  The loop on lists. A \<^verbatim>\<open>#\<close> that is not the last level takes the level behind it with it, because the
  call of \<^verbatim>\<open>next\<close> in the test has advanced the iterator.
\<close>

function level_match :: "bytes list \<Rightarrow> bytes list \<Rightarrow> bool" where
  "level_match ps [] = (ps = [])"
| "level_match ps (f # fs) =
     (if f = [0x23] \<and> fs = [] then True
      else (case ps of [] \<Rightarrow> False
        | p # ps' \<Rightarrow> (f = [0x2B] \<or> p = f) \<and> level_match ps' (if f = [0x23] then tl fs else fs)))"
  by pat_completeness auto
termination by (relation "measure (\<lambda>(ps, fs). length fs)") auto

definition level_ok :: "bytes \<Rightarrow> bytes \<Rightarrow> bool" where
  "level_ok p f \<longleftrightarrow> f = [0x2B] \<or> p = f"

text \<open>
  The matching of MQTT 3.1.1, section 4.7: level by level, \<^verbatim>\<open>+\<close> for any one level, and a final \<^verbatim>\<open>#\<close> for
  any number of levels, none included.
\<close>

definition filter_matches :: "bytes list \<Rightarrow> bytes list \<Rightarrow> bool" where
  "filter_matches ps fs =
     (if fs \<noteq> [] \<and> last fs = [0x23] then list_all2 level_ok (take (length fs - 1) ps) (butlast fs)
      else list_all2 level_ok ps fs)"

lemma split_levels_nonempty [simp]: "split_levels bs \<noteq> []"
  by (induction bs) (auto split: list.split)

lemma split_levels_position:
  "position (\<lambda>b. b = 0x2F) bs = None \<Longrightarrow> split_levels bs = [bs]"
  "position (\<lambda>b. b = 0x2F) bs = Some i \<Longrightarrow> split_levels bs = take i bs # split_levels (drop (i + 1) bs)"
  by (induction bs arbitrary: i) (auto split: if_splits)

lemma LevelIterator_next_levels:
  "\<exists>it'. LevelIterator_next it = (case iter_levels it of [] \<Rightarrow> None | l # _ \<Rightarrow> Some l, it') \<and>
     iter_levels it' = tl (iter_levels it)"
proof (cases "pending_empty it \<or> remaining it = []")
  case True
  then show ?thesis by (auto simp: LevelIterator_next_def iter_levels_def levels_def)
next
  case False
  then show ?thesis
    using split_levels_position [of "remaining it"]
    by (cases "position (\<lambda>b. b = 0x2F) (remaining it)")
      (auto simp: LevelIterator_next_def iter_levels_def levels_def Let_def)
qed

lemma topic_matches_loop_eq: "topic_matches_loop p s = level_match (iter_levels p) (iter_levels s)"
proof (induction p s rule: topic_matches_loop.induct)
  case (1 p s)
  obtain p' where p: "LevelIterator_next p = (case iter_levels p of [] \<Rightarrow> None | l # _ \<Rightarrow> Some l, p')"
    "iter_levels p' = tl (iter_levels p)" using LevelIterator_next_levels by blast
  obtain s' where s: "LevelIterator_next s = (case iter_levels s of [] \<Rightarrow> None | l # _ \<Rightarrow> Some l, s')"
    "iter_levels s' = tl (iter_levels s)" using LevelIterator_next_levels by blast
  obtain s'' where s': "LevelIterator_next s' = (case iter_levels s' of [] \<Rightarrow> None | l # _ \<Rightarrow> Some l, s'')"
    "iter_levels s'' = tl (iter_levels s')" using LevelIterator_next_levels by blast
  show ?case
  proof (cases "iter_levels s")
    case Nil
    then show ?thesis
      using p s by (subst topic_matches_loop.simps) (simp split: list.split)
  next
    case fs: (Cons f fs)
    show ?thesis
    proof (cases "iter_levels p")
      case Nil
      then show ?thesis
        using p s s' fs by (subst topic_matches_loop.simps) (simp split: list.split)
    next
      case (Cons q ps)
      then show ?thesis
        using p s s' fs 1
        by (subst topic_matches_loop.simps) (auto split: list.split option.split if_splits)
    qed
  qed
qed

lemma topic_matches_eq: "topic_matches p f = level_match (levels p) (levels f)"
  by (simp add: topic_matches_def topic_matches_loop_eq iter_levels_def LevelIterator_new_def)

lemma level_match_filter_matches:
  "[0x23] \<notin> set (butlast fs) \<Longrightarrow> level_match ps fs = filter_matches ps fs"
proof (induction ps fs rule: level_match.induct)
  case (1 ps)
  then show ?case by (simp add: filter_matches_def)
next
  case (2 ps f fs)
  show ?case
  proof (cases "fs = []")
    case True
    then show ?thesis by (cases ps) (auto simp: filter_matches_def level_ok_def)
  next
    case False
    with 2 show ?thesis by (cases ps) (auto simp: filter_matches_def level_ok_def take_Cons')
  qed
qed

section \<open>The registry as a set of subscriptions\<close>

abbreviation subs_of :: "TopicEntry \<Rightarrow> u128 list" where
  "subs_of e \<equiv> HeaplessVec_as_slice (subscribers e)"

abbreviation entries :: "TopicRegistry \<Rightarrow> TopicEntry list" where
  "entries r \<equiv> HeaplessVec_as_slice (topics r)"

definition subs_wf :: "usize \<Rightarrow> TopicEntry \<Rightarrow> bool" where
  "subs_wf S e \<longleftrightarrow> vec_wf (subscribers e) \<and> HeaplessVec_capacity (subscribers e) = S \<and> distinct (subs_of e)"

definition registry_wf :: "usize \<Rightarrow> usize \<Rightarrow> TopicRegistry \<Rightarrow> bool" where
  "registry_wf T S r \<longleftrightarrow> S < 2 ^ 16 \<and> vec_wf (topics r) \<and> HeaplessVec_capacity (topics r) = T \<and>
     distinct (map topic_name (entries r)) \<and>
     (\<forall>e \<in> set (entries r). subs_wf S e \<and> subs_of e \<noteq> [])"

definition entry_subscriptions :: "TopicEntry \<Rightarrow> (TopicName \<times> u128) set" where
  "entry_subscriptions e = {topic_name e} \<times> set (subs_of e)"

definition subscriptions :: "TopicRegistry \<Rightarrow> (TopicName \<times> u128) set" where
  "subscriptions r = \<Union> (entry_subscriptions ` set (entries r))"

lemma TopicEntry_new_wf:
  "S < 2 ^ 16 \<Longrightarrow> subs_wf S (TopicEntry_new S t)" "subs_of (TopicEntry_new S t) = []"
  by (simp_all add: subs_wf_def TopicEntry_new_def vec_defs vec_wf_def)

lemma add_subscriber_cases:
  assumes "subs_wf S e"
  obtains (present) "sid \<in> set (subs_of e)" "TopicEntry_add_subscriber sid e = (Ok (), e)"
    | (added) e' where "sid \<notin> set (subs_of e)" "length (subs_of e) < S"
        "TopicEntry_add_subscriber sid e = (Ok (), e')" "subs_wf S e'" "topic_name e' = topic_name e"
        "subs_of e' = subs_of e @ [sid]"
    | (full) "sid \<notin> set (subs_of e)" "length (subs_of e) = S"
        "TopicEntry_add_subscriber sid e = (Err (MaxSubscribersPerTopicReached S S), e)"
proof (cases "sid \<in> set (subs_of e)")
  case True
  then show ?thesis using present by (simp add: TopicEntry_add_subscriber_def)
next
  case False
  have wf: "vec_wf (subscribers e)" "HeaplessVec_capacity (subscribers e) = S" "distinct (subs_of e)"
    using assms by (simp_all add: subs_wf_def)
  show ?thesis
  proof (rule hv.push_cases [OF wf(1), of sid])
    fix v' assume v': "length (subs_of e) < HeaplessVec_capacity (subscribers e)"
      "HeaplessVec_push sid (subscribers e) = (Ok (), v')" "vec_wf v'"
      "HeaplessVec_as_slice v' = subs_of e @ [sid]"
      "HeaplessVec_capacity v' = HeaplessVec_capacity (subscribers e)"
    then show ?thesis
      using False wf
      by (intro added [of "e\<lparr>subscribers := v'\<rparr>"])
        (auto simp: TopicEntry_add_subscriber_def on_field_def map_err_m_apply subs_wf_def)
  next
    assume "length (subs_of e) = HeaplessVec_capacity (subscribers e)"
      "HeaplessVec_push sid (subscribers e) = (Err PushError, subscribers e)"
    then show ?thesis
      using False wf
      by (intro full) (auto simp: TopicEntry_add_subscriber_def on_field_def map_err_m_apply
        HeaplessVec_len_as_slice)
  qed
qed

lemma filter_neq_id: "a \<notin> set xs \<Longrightarrow> filter (\<lambda>x. x \<noteq> a) xs = xs"
  by (induction xs) auto

lemma set_filter_neq: "{x. x \<in> A \<and> x \<noteq> a} = A - {a}"
  by auto

lemma remove_subscriber_eq:
  assumes "subs_wf S e"
  shows "\<exists>e'. TopicEntry_remove_subscriber sid e = (Ok (sid \<in> set (subs_of e)), e') \<and> subs_wf S e' \<and>
    topic_name e' = topic_name e \<and> subs_of e' = filter (\<lambda>x. x \<noteq> sid) (subs_of e)"
proof (cases "position (\<lambda>x. x = sid) (subs_of e)")
  case None
  then have "sid \<notin> set (subs_of e)" by (auto simp: position_None_iff)
  then show ?thesis using assms None by (simp add: TopicEntry_remove_subscriber_def filter_neq_id)
next
  case (Some i)
  note sp = position_Some_split [OF Some] and i = position_Some [OF Some]
  have wf: "vec_wf (subscribers e)" "distinct (subs_of e)" using assms by (simp_all add: subs_wf_def)
  obtain v' where v': "HeaplessVec_remove i (subscribers e) = (Ok () :: (unit, BrokerError) result, v')"
    "vec_wf v'" "HeaplessVec_as_slice v' = take i (subs_of e) @ drop (Suc i) (subs_of e)"
    "HeaplessVec_capacity v' = HeaplessVec_capacity (subscribers e)"
    using HeaplessVec_remove_eq [OF wf(1), of i] i by blast
  have split: "subs_of e = take i (subs_of e) @ sid # drop (Suc i) (subs_of e)" using sp by metis
  then have d: "distinct (take i (subs_of e) @ sid # drop (Suc i) (subs_of e))" using wf(2) by metis
  then have "filter (\<lambda>x. x \<noteq> sid) (take i (subs_of e) @ sid # drop (Suc i) (subs_of e)) =
      take i (subs_of e) @ drop (Suc i) (subs_of e)"
    by (simp add: filter_neq_id)
  then have "filter (\<lambda>x. x \<noteq> sid) (subs_of e) = HeaplessVec_as_slice v'" using split v'(3) by metis
  moreover have "sid \<in> set (subs_of e)" using split by (metis in_set_conv_decomp)
  ultimately show ?thesis
    using Some v' d assms
    by (simp add: TopicEntry_remove_subscriber_def then_do_apply on_field_def subs_wf_def)
qed

lemma on_entry_eq:
  assumes "vec_wf (topics r)" "i < length (entries r)" "m (entries r ! i) = (x, e')"
  shows "\<exists>r'. on_entry i m r = (x, r') \<and> vec_wf (topics r') \<and> entries r' = (entries r)[i := e'] \<and>
    HeaplessVec_capacity (topics r') = HeaplessVec_capacity (topics r)"
proof -
  have "i < length (vdata (topics r))" "i < unat (vlength (topics r))" "entries r ! i = vdata (topics r) ! i"
    using assms(1,2) by (auto simp: length_as_slice vec_wf_def HeaplessVec_as_slice_def)
  then show ?thesis
    using assms(1,3) by (simp add: on_entry_def vec_wf_def vec_defs take_update_swap)
qed

lemma distinct_names_position:
  assumes "distinct (map topic_name es)" "position (\<lambda>t. topic_name t = name) es = Some i" "e \<in> set es" "topic_name e = name"
  shows "e = es ! i"
proof -
  obtain j where j: "j < length es" "e = es ! j" using assms(3) by (metis in_set_conv_nth)
  with position_Some [OF assms(2)] assms(1,4) have "i = j" by (auto simp: distinct_conv_nth)
  with j show ?thesis by simp
qed

lemma subscriptions_update:
  assumes "i < length es" "topic_name e' = topic_name (es ! i)" "distinct (map topic_name es)"
  shows "\<Union> (entry_subscriptions ` set (es[i := e'])) =
    {p \<in> \<Union> (entry_subscriptions ` set es). fst p \<noteq> topic_name (es ! i)} \<union> entry_subscriptions e'"
proof -
  have sp: "es = take i es @ es ! i # drop (Suc i) es" using assms(1) by (rule id_take_nth_drop)
  have u: "set (es[i := e']) = insert e' (set (take i es @ drop (Suc i) es))"
    using assms(1) by (auto simp: upd_conv_take_nth_drop)
  have s: "set es = insert (es ! i) (set (take i es @ drop (Suc i) es))"
    by (subst sp) auto
  have "\<forall>x \<in> set (take i es @ drop (Suc i) es). topic_name x \<noteq> topic_name (es ! i)"
    using assms(3) by (subst (asm) sp) (force simp: image_iff)
  then show ?thesis unfolding u s by (auto simp: entry_subscriptions_def)
qed

lemma subscriptions_slices:
  assumes "registry_wf T S r"
  shows "fst ` subscriptions r = topic_name ` set (entries r)"
    "card (fst ` subscriptions r) = length (entries r)"
    "e \<in> set (entries r) \<Longrightarrow> {s. (topic_name e, s) \<in> subscriptions r} = set (subs_of e)"
    "e \<in> set (entries r) \<Longrightarrow> card {s. (topic_name e, s) \<in> subscriptions r} = length (subs_of e)"
proof -
  have ne: "\<forall>e \<in> set (entries r). subs_of e \<noteq> []" and d: "distinct (map topic_name (entries r))"
    and ds: "\<forall>e \<in> set (entries r). distinct (subs_of e)"
    using assms by (auto simp: registry_wf_def subs_wf_def)
  have "fst ` entry_subscriptions e = {topic_name e}" if "e \<in> set (entries r)" for e
    using ne that by (simp add: entry_subscriptions_def)
  then show img: "fst ` subscriptions r = topic_name ` set (entries r)"
    by (simp add: subscriptions_def image_UN UNION_singleton_eq_range)
  show "card (fst ` subscriptions r) = length (entries r)"
    using d unfolding img by (metis distinct_card length_map set_map)
  have sub: "{s. (topic_name e, s) \<in> subscriptions r} = set (subs_of e)" if "e \<in> set (entries r)" for e
    using that d by (auto simp: subscriptions_def entry_subscriptions_def distinct_map dest: inj_onD)
  then show "e \<in> set (entries r) \<Longrightarrow> {s. (topic_name e, s) \<in> subscriptions r} = set (subs_of e)" .
  show "e \<in> set (entries r) \<Longrightarrow> card {s. (topic_name e, s) \<in> subscriptions r} = length (subs_of e)"
    using sub ds by (simp add: distinct_card)
qed

lemma registry_wf_update:
  assumes "registry_wf T S r" "i < length (entries r)" "vec_wf (topics r')"
    "HeaplessVec_capacity (topics r') = HeaplessVec_capacity (topics r)"
    "entries r' = (entries r)[i := e']" "subs_wf S e'" "subs_of e' \<noteq> []" "topic_name e' = topic_name (entries r ! i)"
  shows "registry_wf T S r'"
    "subscriptions r' = {p \<in> subscriptions r. fst p \<noteq> topic_name (entries r ! i)} \<union> entry_subscriptions e'"
proof -
  have "map topic_name ((entries r)[i := e']) = map topic_name (entries r)"
    using assms(2,8) by (metis list_update_id map_update nth_map)
  then show "registry_wf T S r'"
    using assms set_update_subset_insert [of "entries r" i e'] unfolding registry_wf_def by auto
  show "subscriptions r' = {p \<in> subscriptions r. fst p \<noteq> topic_name (entries r ! i)} \<union> entry_subscriptions e'"
    using subscriptions_update [OF assms(2,8)] assms(1,5) by (simp add: subscriptions_def registry_wf_def)
qed

lemma slice_update:
  assumes "{s. (n, s) \<in> R} = A"
  shows "{p \<in> R. fst p \<noteq> n} \<union> {n} \<times> insert x A = insert (n, x) R"
    "{p \<in> R. fst p \<noteq> n} \<union> {n} \<times> (A - {x}) = R - {(n, x)}"
  unfolding assms [symmetric] by auto

lemma subscribe_old_filter:
  assumes wf: "registry_wf T S r" and i: "position (\<lambda>t. topic_name t = name) (entries r) = Some i"
  shows "(\<exists>r'. TopicRegistry_subscribe S sid name r = (Ok (), r') \<and> registry_wf T S r' \<and>
        subscriptions r' = insert (name, sid) (subscriptions r)) \<or>
      (TopicRegistry_subscribe S sid name r = (Err (MaxSubscribersPerTopicReached S S), r) \<and>
        (name, sid) \<notin> subscriptions r \<and> card {s. (name, s) \<in> subscriptions r} = S)"
proof -
  let ?e = "entries r ! i"
  have il: "i < length (entries r)" and nm: "topic_name ?e = name" using position_Some [OF i] by auto
  then have mem: "?e \<in> set (entries r)" by simp
  with wf have sw: "subs_wf S ?e" and vw: "vec_wf (topics r)" by (auto simp: registry_wf_def)
  note sl = subscriptions_slices(3,4) [OF wf mem, unfolded nm]
  have op: "TopicRegistry_subscribe S sid name r = on_entry i (TopicEntry_add_subscriber sid) r"
    by (simp add: TopicRegistry_subscribe_def i)
  have same: "on_entry i (TopicEntry_add_subscriber sid) r = (x, r)"
    if "TopicEntry_add_subscriber sid ?e = (x, ?e)" for x
  proof -
    have "?e = vdata (topics r) ! i" "i < length (vdata (topics r))"
      using il by (auto simp: HeaplessVec_as_slice_def)
    with that show ?thesis by (simp add: on_entry_def)
  qed
  from sw show ?thesis
  proof (cases rule: add_subscriber_cases [where sid = sid])
    case present
    then show ?thesis using same op sl wf by (auto simp: insert_absorb)
  next
    case (full)
    then show ?thesis using same op sl by auto
  next
    case (added e')
    from on_entry_eq [where m = "TopicEntry_add_subscriber sid", OF vw il added(3)] obtain r' where r': "on_entry i (TopicEntry_add_subscriber sid) r = (Ok (), r')"
      "vec_wf (topics r')" "entries r' = (entries r)[i := e']"
      "HeaplessVec_capacity (topics r') = HeaplessVec_capacity (topics r)" by blast
    have "subs_of e' \<noteq> []" using added(6) by simp
    note u = registry_wf_update [OF wf il r'(2,4,3) added(4) this added(5)]
    have "subscriptions r' = insert (name, sid) (subscriptions r)"
      using slice_update(1) [OF sl(1), of sid] added(5,6) by (simp add: u(2) entry_subscriptions_def nm)
    then show ?thesis using u(1) r'(1) op by simp
  qed
qed

lemma subscribe_new_filter:
  assumes wf: "registry_wf T S r" and i: "position (\<lambda>t. topic_name t = name) (entries r) = None"
  shows "(\<exists>r'. TopicRegistry_subscribe S sid name r = (Ok (), r') \<and> registry_wf T S r' \<and>
        subscriptions r' = insert (name, sid) (subscriptions r)) \<or>
      (TopicRegistry_subscribe S sid name r = (Err (MaxTopicsReached T T), r) \<and>
        name \<notin> fst ` subscriptions r \<and> card (fst ` subscriptions r) = T) \<or>
      (TopicRegistry_subscribe S sid name r = (Err (MaxSubscribersPerTopicReached S S), r) \<and> S = 0 \<and>
        name \<notin> fst ` subscriptions r)"
proof -
  have vw: "vec_wf (topics r)" "HeaplessVec_capacity (topics r) = T" using wf by (auto simp: registry_wf_def)
  have new: "name \<notin> topic_name ` set (entries r)" using i by (auto simp: position_None_iff)
  have S: "S < 2 ^ 16" using wf by (simp add: registry_wf_def)
  note sl = subscriptions_slices(1,2) [OF wf] and e0 = TopicEntry_new_wf [of S name]
  show ?thesis
  proof (cases "length (entries r) < T")
    case False
    then have "length (entries r) = T" using hv.within_capacity [OF vw(1)] vw(2) by simp
    then show ?thesis
      using i vw new sl by (simp add: TopicRegistry_subscribe_def Let_def HeaplessVec_len_as_slice)
  next
    case True
    from e0(1) [OF S] show ?thesis
    proof (cases rule: add_subscriber_cases [where sid = sid])
      case present
      then show ?thesis using e0(2) by simp
    next
      case full
      then show ?thesis
        using i vw new sl True e0(2)
        by (simp add: TopicRegistry_subscribe_def Let_def HeaplessVec_len_as_slice)
    next
      case (added e')
      obtain v' where v': "HeaplessVec_push e' (topics r) = (Ok (), v')" "vec_wf v'"
        "HeaplessVec_as_slice v' = entries r @ [e']" "HeaplessVec_capacity v' = T"
        using hv.push_room [OF vw(1), of e'] True vw(2) by auto
      have "TopicRegistry_subscribe S sid name r = (Ok (), r\<lparr>topics := v'\<rparr>)"
        using i vw True added(3) v'(1)
        by (simp add: TopicRegistry_subscribe_def Let_def HeaplessVec_len_as_slice on_field_def map_err_m_apply)
      moreover have "registry_wf T S (r\<lparr>topics := v'\<rparr>)"
        using wf v' new added by (auto simp: registry_wf_def TopicEntry_new_def)
      moreover have "subscriptions (r\<lparr>topics := v'\<rparr>) = insert (name, sid) (subscriptions r)"
        using v'(3) added(5,6) e0(2) by (auto simp: subscriptions_def entry_subscriptions_def TopicEntry_new_def)
      ultimately show ?thesis by blast
    qed
  qed
qed

lemma subscribe_full:
  assumes wf: "registry_wf T S r" and e: "TopicRegistry_subscribe S sid name r = (Err e, r')"
  shows "r' = r" "(name, sid) \<notin> subscriptions r"
    "e = MaxTopicsReached T T \<and> name \<notin> fst ` subscriptions r \<and> card (fst ` subscriptions r) = T \<or>
     e = MaxSubscribersPerTopicReached S S \<and> card {s. (name, s) \<in> subscriptions r} = S"
proof -
  have "(e = MaxTopicsReached T T \<and> name \<notin> fst ` subscriptions r \<and> card (fst ` subscriptions r) = T \<or>
     e = MaxSubscribersPerTopicReached S S \<and> card {s. (name, s) \<in> subscriptions r} = S) \<and>
     (name, sid) \<notin> subscriptions r \<and> r' = r"
  proof (cases "position (\<lambda>t. topic_name t = name) (entries r)")
    case None
    have "name \<notin> fst ` subscriptions r \<Longrightarrow> (name, sid) \<notin> subscriptions r \<and> {s. (name, s) \<in> subscriptions r} = {}"
      by force
    with subscribe_new_filter [OF wf None, of sid] e show ?thesis by auto
  next
    case (Some i)
    from subscribe_old_filter [OF wf Some, of sid] e show ?thesis by auto
  qed
  then show "r' = r" "(name, sid) \<notin> subscriptions r"
    "e = MaxTopicsReached T T \<and> name \<notin> fst ` subscriptions r \<and> card (fst ` subscriptions r) = T \<or>
     e = MaxSubscribersPerTopicReached S S \<and> card {s. (name, s) \<in> subscriptions r} = S" by auto
qed

lemma unsubscribe_eq:
  assumes wf: "registry_wf T S r"
  shows "\<exists>r'. TopicRegistry_unsubscribe sid name r = (Ok ((name, sid) \<in> subscriptions r), r') \<and>
    registry_wf T S r' \<and> subscriptions r' = subscriptions r - {(name, sid)}"
proof (cases "position (\<lambda>e. topic_name e = name) (entries r)")
  case None
  then have "name \<notin> fst ` subscriptions r"
    using subscriptions_slices(1) [OF wf] by (auto simp: position_None_iff)
  then have "(name, sid) \<notin> subscriptions r" by force
  then show ?thesis using wf None by (simp add: TopicRegistry_unsubscribe_def)
next
  case (Some i)
  let ?es = "entries r" and ?e = "entries r ! i"
  have il: "i < length ?es" and nm: "topic_name ?e = name" using position_Some [OF Some] by auto
  then have mem: "?e \<in> set ?es" by simp
  with wf have sw: "subs_wf S ?e" and vw: "vec_wf (topics r)" by (auto simp: registry_wf_def)
  note sl = subscriptions_slices(3) [OF wf mem, unfolded nm]
  from remove_subscriber_eq [OF sw, of sid] obtain e' where
    e': "TopicEntry_remove_subscriber sid ?e = (Ok (sid \<in> set (subs_of ?e)), e')" "subs_wf S e'"
    "topic_name e' = topic_name ?e" "subs_of e' = filter (\<lambda>x. x \<noteq> sid) (subs_of ?e)" by blast
  from on_entry_eq [where m = "TopicEntry_remove_subscriber sid", OF vw il e'(1)] obtain r1 where
    r1: "on_entry i (TopicEntry_remove_subscriber sid) r = (Ok (sid \<in> set (subs_of ?e)), r1)"
    "vec_wf (topics r1)" "entries r1 = ?es[i := e']"
    "HeaplessVec_capacity (topics r1) = HeaplessVec_capacity (topics r)" by blast
  have idx: "index (entries r1) i = (Ok e' :: (TopicEntry, BrokerError) result)"
    using r1(3) il by (simp add: index_def)
  have res: "(name, sid) \<in> subscriptions r \<longleftrightarrow> sid \<in> set (subs_of ?e)" using sl by auto
  have em: "TopicEntry_is_empty e' \<longleftrightarrow> subs_of e' = []"
    using e'(2) by (simp add: TopicEntry_is_empty_def subs_wf_def HeaplessVec_is_empty_iff)
  show ?thesis
  proof (cases "subs_of e' = []")
    case False
    note u = registry_wf_update [OF wf il r1(2,4,3) e'(2) False e'(3)]
    have "subscriptions r1 = subscriptions r - {(name, sid)}"
      using slice_update(2) [OF sl, of sid] e'(3,4)
      by (simp add: u(2) entry_subscriptions_def nm set_filter_neq)
    then show ?thesis
      using Some r1(1) idx em False u(1) res
      by (simp add: TopicRegistry_unsubscribe_def then_do_apply)
  next
    case True
    from HeaplessVec_remove_eq [OF r1(2), of i] r1(3) il obtain v' where
      v': "HeaplessVec_remove i (topics r1) = (Ok () :: (unit, BrokerError) result, v')" "vec_wf v'"
      "HeaplessVec_as_slice v' = take i ?es @ drop (Suc i) ?es"
      "HeaplessVec_capacity v' = HeaplessVec_capacity (topics r1)" by auto
    have sp: "?es = take i ?es @ ?e # drop (Suc i) ?es" using il by (rule id_take_nth_drop)
    have d: "distinct (map topic_name (take i ?es @ ?e # drop (Suc i) ?es))"
      and all: "\<forall>e \<in> set (take i ?es @ ?e # drop (Suc i) ?es). subs_wf S e \<and> subs_of e \<noteq> []"
      using wf sp unfolding registry_wf_def by metis+
    have wf': "registry_wf T S (r1\<lparr>topics := v'\<rparr>)"
      using d all v' r1(4) wf by (simp add: registry_wf_def ball_Un)
    have "\<forall>x \<in> set (take i ?es @ drop (Suc i) ?es). topic_name x \<noteq> name"
      using d nm by (auto simp: image_iff)
    moreover have "subscriptions r = \<Union> (entry_subscriptions ` set (take i ?es @ drop (Suc i) ?es)) \<union> entry_subscriptions ?e"
      unfolding subscriptions_def by (subst (1) sp) auto
    moreover have "entry_subscriptions ?e \<subseteq> {(name, sid)}"
      using True e'(4) nm by (auto simp: entry_subscriptions_def filter_empty_conv)
    ultimately have "subscriptions (r1\<lparr>topics := v'\<rparr>) = subscriptions r - {(name, sid)}"
      using v'(3) by (auto simp: subscriptions_def entry_subscriptions_def)
    then show ?thesis
      using Some r1(1) idx em True wf' res v'(1)
      by (simp add: TopicRegistry_unsubscribe_def then_do_apply on_field_def)
  qed
qed

lemma unregister_loop_eq:
  assumes "\<forall>e \<in> set es. subs_wf S e"
  shows "\<exists>es'. TopicRegistry_unregister_loop sid es =
      Some (length (filter (\<lambda>e. sid \<in> set (subs_of e)) es), es') \<and>
    list_all2 (\<lambda>e e'. subs_wf S e' \<and> topic_name e' = topic_name e \<and>
      subs_of e' = filter (\<lambda>x. x \<noteq> sid) (subs_of e)) es es'"
  using assms
proof (induction es)
  case (Cons e es)
  then obtain es' where es': "TopicRegistry_unregister_loop sid es =
      Some (length (filter (\<lambda>e. sid \<in> set (subs_of e)) es), es')"
    "list_all2 (\<lambda>e e'. subs_wf S e' \<and> topic_name e' = topic_name e \<and>
      subs_of e' = filter (\<lambda>x. x \<noteq> sid) (subs_of e)) es es'" by auto
  from remove_subscriber_eq [of S e sid] Cons.prems obtain e' where
    "TopicEntry_remove_subscriber sid e = (Ok (sid \<in> set (subs_of e)), e')" "subs_wf S e'"
    "topic_name e' = topic_name e" "subs_of e' = filter (\<lambda>x. x \<noteq> sid) (subs_of e)" by auto
  with es' show ?case by auto
qed simp

lemma list_all2_Union:
  "list_all2 (\<lambda>e e'. topic_name e' = topic_name e \<and> subs_of e' = filter (\<lambda>x. x \<noteq> sid) (subs_of e)) es es' \<Longrightarrow>
     \<Union> (entry_subscriptions ` set (filter (\<lambda>e. subs_of e \<noteq> []) es')) =
     {p \<in> \<Union> (entry_subscriptions ` set es). snd p \<noteq> sid}"
  by (induction es es' rule: list_all2_induct) (auto simp: entry_subscriptions_def filter_empty_conv)

lemma unregister_all_eq:
  assumes wf: "registry_wf T S r"
  shows "\<exists>r'. TopicRegistry_unregister_all sid r = (Ok (card {t. (t, sid) \<in> subscriptions r}), r') \<and>
    registry_wf T S r' \<and> subscriptions r' = {p \<in> subscriptions r. snd p \<noteq> sid}"
proof -
  let ?es = "entries r" and ?keep = "\<lambda>e. \<not> TopicEntry_is_empty e"
  have vw: "vec_wf (topics r)" "HeaplessVec_capacity (topics r) = T" "distinct (map topic_name ?es)" "S < 2 ^ 16"
    and all: "\<forall>e \<in> set ?es. subs_wf S e" using wf by (auto simp: registry_wf_def)
  from unregister_loop_eq [OF all, of sid] obtain es' where
    es': "TopicRegistry_unregister_loop sid ?es = Some (length (filter (\<lambda>e. sid \<in> set (subs_of e)) ?es), es')"
    and rel: "list_all2 (\<lambda>e e'. subs_wf S e' \<and> topic_name e' = topic_name e \<and>
      subs_of e' = filter (\<lambda>x. x \<noteq> sid) (subs_of e)) ?es es'" by blast
  define v1 where "v1 = (topics r)\<lparr>vdata := put_at (vdata (topics r)) 0 es'\<rparr>"
  have len: "length es' = unat (vlength (topics r))"
    using list_all2_lengthD [OF rel] length_as_slice [OF vw(1)] by simp
  have v1: "vec_wf v1" "HeaplessVec_as_slice v1 = es'" "HeaplessVec_capacity v1 = T"
    using len vw(1,2) by (auto simp: v1_def vec_wf_def vec_defs put_at_def)
  from HeaplessVec_retain_eq [OF v1(1), of ?keep] obtain v2 where
    v2: "HeaplessVec_retain ?keep v1 = (Ok () :: (unit, BrokerError) result, v2)" "vec_wf v2"
      "HeaplessVec_as_slice v2 = filter ?keep es'" "HeaplessVec_capacity v2 = T"
    using v1 by auto
  have names: "map topic_name es' = map topic_name ?es"
    using rel by (simp add: list_eq_iff_nth_eq list_all2_conv_all_nth)
  have sw: "\<forall>e \<in> set es'. subs_wf S e" using rel by (auto simp: list_all2_conv_all_nth in_set_conv_nth)
  then have keep: "filter ?keep es' = filter (\<lambda>e. subs_of e \<noteq> []) es'"
    by (auto simp: TopicEntry_is_empty_def subs_wf_def HeaplessVec_is_empty_iff intro!: filter_cong)
  have "registry_wf T S (r\<lparr>topics := v2\<rparr>)"
    using v2(2-4) vw(3,4) sw names by (auto simp: registry_wf_def keep intro!: distinct_map_filter)
  moreover have "subscriptions (r\<lparr>topics := v2\<rparr>) = {p \<in> subscriptions r. snd p \<noteq> sid}"
  proof -
    have "list_all2 (\<lambda>e e'. topic_name e' = topic_name e \<and> subs_of e' = filter (\<lambda>x. x \<noteq> sid) (subs_of e)) ?es es'"
      using rel by (rule list_all2_mono) simp
    from list_all2_Union [OF this] show ?thesis using v2(3) by (simp add: subscriptions_def keep)
  qed
  moreover have "length (filter (\<lambda>e. sid \<in> set (subs_of e)) ?es) = card {t. (t, sid) \<in> subscriptions r}"
  proof -
    have "{t. (t, sid) \<in> subscriptions r} = topic_name ` set (filter (\<lambda>e. sid \<in> set (subs_of e)) ?es)"
      by (auto simp: subscriptions_def entry_subscriptions_def)
    then show ?thesis
      using distinct_card [OF distinct_map_filter [OF vw(3), of "\<lambda>e. sid \<in> set (subs_of e)"]] by simp
  qed
  ultimately show ?thesis
    using es' v2(1)
    by (simp add: TopicRegistry_unregister_all_def then_do_apply on_field_def v1_def [symmetric])
qed

lemma TopicRegistry_default_wf:
  assumes "T < 2 ^ 16" "S < 2 ^ 16"
  shows "registry_wf T S (TopicRegistry_default N T S)" "subscriptions (TopicRegistry_default N T S) = {}"
  using assms by (simp_all add: registry_wf_def TopicRegistry_default_def HeaplessVec_new_wf subscriptions_def)

lemma TopicRegistry_clear_all_eq:
  assumes "registry_wf T S r"
  shows "registry_wf T S (TopicRegistry_clear_all r)" "subscriptions (TopicRegistry_clear_all r) = {}"
  using assms by (simp_all add: registry_wf_def TopicRegistry_clear_all_def HeaplessVec_clear_wf subscriptions_def)

lemma TopicRegistry_counts:
  assumes "registry_wf T S r"
  shows "TopicRegistry_topic_count r = card (fst ` subscriptions r)"
    "TopicRegistry_subscription_count r = card (subscriptions r)"
proof -
  show "TopicRegistry_topic_count r = card (fst ` subscriptions r)"
    using assms subscriptions_slices(2) [OF assms]
    by (simp add: TopicRegistry_topic_count_def HeaplessVec_len_as_slice registry_wf_def)
  have d: "distinct (map topic_name (entries r))"
    and all: "\<forall>e \<in> set (entries r). HeaplessVec_len (subscribers e) = card (entry_subscriptions e)"
    using assms
    by (auto simp: registry_wf_def subs_wf_def HeaplessVec_len_as_slice entry_subscriptions_def
      distinct_card card_cartesian_product_singleton)
  have "inj_on topic_name (set (entries r))" "distinct (entries r)" using d by (auto simp: distinct_map)
  then have "card (subscriptions r) = (\<Sum>e \<in> set (entries r). card (entry_subscriptions e))"
    unfolding subscriptions_def
    by (intro card_UN_disjoint) (auto simp: entry_subscriptions_def inj_on_def)
  also have "\<dots> = sum_list (map (\<lambda>e. card (entry_subscriptions e)) (entries r))"
    using \<open>distinct (entries r)\<close> by (simp add: sum_list_distinct_conv_sum_set)
  also have "\<dots> = TopicRegistry_subscription_count r"
    unfolding TopicRegistry_subscription_count_def using all by (intro arg_cong [where f = sum_list]) simp
  finally show "TopicRegistry_subscription_count r = card (subscriptions r)" ..
qed

section \<open>The subscribers of a topic\<close>

text \<open>A list without its repetitions, in the order of the first occurrences.\<close>

definition uniq :: "'a list \<Rightarrow> 'a list" where
  "uniq xs = rev (remdups (rev xs))"

lemma uniq_simps:
  "uniq [] = []" "uniq (xs @ [x]) = (if x \<in> set xs then uniq xs else uniq xs @ [x])"
  "set (uniq xs) = set xs" "distinct (uniq xs)"
  by (auto simp: uniq_def)

lemma get_subscribers_add_eq:
  assumes "vec_wf v" "HeaplessVec_capacity v = S" "HeaplessVec_as_slice v = take S (uniq ys)"
  shows "\<exists>v'. get_subscribers_add x v = Ok v' \<and> vec_wf v' \<and> HeaplessVec_capacity v' = S \<and>
    HeaplessVec_as_slice v' = take S (uniq (ys @ [x]))"
  using assms(1)
proof (cases rule: hv.push_cases [where x = x])
  case (room v')
  then have "length (uniq ys) < S" using assms by auto
  then show ?thesis
    using room assms by (auto simp: get_subscribers_add_def list_ex_iff uniq_simps)
next
  case full
  then have "S \<le> length (uniq ys)" using assms by auto
  then have "take S (uniq (ys @ [x])) = take S (uniq ys)" by (simp add: uniq_simps)
  then show ?thesis using full assms by (auto simp: get_subscribers_add_def)
qed

lemma get_subscribers_entry_eq:
  "vec_wf v \<Longrightarrow> HeaplessVec_capacity v = S \<Longrightarrow> HeaplessVec_as_slice v = take S (uniq ys) \<Longrightarrow>
     \<exists>v'. get_subscribers_entry xs v = Ok v' \<and> vec_wf v' \<and> HeaplessVec_capacity v' = S \<and>
       HeaplessVec_as_slice v' = take S (uniq (ys @ xs))"
proof (induction xs arbitrary: v ys)
  case (Cons x xs)
  from get_subscribers_add_eq [OF Cons.prems, of x] obtain v1 where
    "get_subscribers_add x v = Ok v1" "vec_wf v1" "HeaplessVec_capacity v1 = S"
    "HeaplessVec_as_slice v1 = take S (uniq (ys @ [x]))" by blast
  with Cons.IH [of v1 "ys @ [x]"] show ?case by simp
qed simp

definition matching_subscribers :: "bytes \<Rightarrow> TopicEntry list \<Rightarrow> u128 list" where
  "matching_subscribers published es =
     concat (map subs_of (filter (\<lambda>e. topic_matches published (HeaplessString_as_str (topic_name e))) es))"

lemma get_subscribers_loop_eq:
  "vec_wf v \<Longrightarrow> HeaplessVec_capacity v = S \<Longrightarrow> HeaplessVec_as_slice v = take S (uniq ys) \<Longrightarrow>
     \<exists>v'. get_subscribers_loop t es v = Ok v' \<and> vec_wf v' \<and> HeaplessVec_capacity v' = S \<and>
       HeaplessVec_as_slice v' = take S (uniq (ys @ matching_subscribers t es))"
proof (induction es arbitrary: v ys)
  case Nil
  then show ?case by (simp add: matching_subscribers_def)
next
  case (Cons e es)
  show ?case
  proof (cases "topic_matches t (HeaplessString_as_str (topic_name e))")
    case False
    with Cons.IH [OF Cons.prems] show ?thesis by (simp add: matching_subscribers_def)
  next
    case True
    from get_subscribers_entry_eq [OF Cons.prems, of "subs_of e"] obtain v1 where
      "get_subscribers_entry (subs_of e) v = Ok v1" "vec_wf v1" "HeaplessVec_capacity v1 = S"
      "HeaplessVec_as_slice v1 = take S (uniq (ys @ subs_of e))" by blast
    with Cons.IH [of v1 "ys @ subs_of e"] True show ?thesis by (simp add: matching_subscribers_def)
  qed
qed

lemma get_subscribers_eq:
  assumes "S < 2 ^ 16"
  shows "\<exists>v. TopicRegistry_get_subscribers S topic r = Ok v \<and> vec_wf v \<and> HeaplessVec_capacity v = S \<and>
    HeaplessVec_as_slice v = take S (uniq (matching_subscribers (HeaplessString_as_str topic) (entries r)))"
  using get_subscribers_loop_eq [of "HeaplessVec_new S 0" S "[]"] HeaplessVec_new_wf [OF assms, of "0 :: u128"]
  by (simp add: TopicRegistry_get_subscribers_def uniq_simps)

lemma set_matching_subscribers:
  "set (matching_subscribers t (entries r)) =
     {s. \<exists>f. (f, s) \<in> subscriptions r \<and> topic_matches t (HeaplessString_as_str f)}"
  by (auto simp: matching_subscribers_def subscriptions_def entry_subscriptions_def)

section \<open>The contract of the registry\<close>

locale subscription_store =
  fixes wf :: "'r \<Rightarrow> bool"
    and subs :: "'r \<Rightarrow> ('f \<times> 'k) set"
    and subscribe :: "'k \<Rightarrow> 'f \<Rightarrow> ('r, unit, 'e) action"
    and unsubscribe :: "'k \<Rightarrow> 'f \<Rightarrow> ('r, bool, 'e) action"
    and unregister :: "'k \<Rightarrow> ('r, nat, 'e) action"
  assumes subscribe_law: "wf r \<Longrightarrow>
      (\<exists>r'. subscribe k f r = (Ok (), r') \<and> wf r' \<and> subs r' = insert (f, k) (subs r)) \<or>
      (\<exists>e. subscribe k f r = (Err e, r) \<and> (f, k) \<notin> subs r)"
    and unsubscribe_law: "wf r \<Longrightarrow>
      \<exists>r'. unsubscribe k f r = (Ok ((f, k) \<in> subs r), r') \<and> wf r' \<and> subs r' = subs r - {(f, k)}"
    and unregister_law: "wf r \<Longrightarrow>
      \<exists>r'. unregister k r = (Ok (card {f. (f, k) \<in> subs r}), r') \<and> wf r' \<and>
        subs r' = {p \<in> subs r. snd p \<noteq> k}"
begin

lemma subscribe_cases:
  assumes "wf r"
  obtains (subscribed) r' where "subscribe k f r = (Ok (), r')" "wf r'" "subs r' = insert (f, k) (subs r)"
    | (refused) e where "subscribe k f r = (Err e, r)" "(f, k) \<notin> subs r"
  using subscribe_law [OF assms] by metis

lemma subscribe_again:
  assumes "wf r" "(f, k) \<in> subs r"
  shows "\<exists>r'. subscribe k f r = (Ok (), r') \<and> wf r' \<and> subs r' = subs r"
  using subscribe_law [OF assms(1), of k f] assms(2) by (auto simp: insert_absorb)

lemma subscribe_unsubscribe:
  assumes "wf r" "(f, k) \<notin> subs r" "subscribe k f r = (Ok (), r1)"
  shows "\<exists>r2. unsubscribe k f r1 = (Ok True, r2) \<and> wf r2 \<and> subs r2 = subs r"
proof -
  have "wf r1" "subs r1 = insert (f, k) (subs r)" using subscribe_law [OF assms(1), of k f] assms(3) by auto
  with unsubscribe_law [of r1 k f] assms(2) show ?thesis by auto
qed

lemma unregister_forgets:
  assumes "wf r" "unregister k r = (x, r')"
  shows "\<exists>n. x = Ok n" "wf r'" "(f, k) \<notin> subs r'" "k' \<noteq> k \<Longrightarrow> (f, k') \<in> subs r' \<longleftrightarrow> (f, k') \<in> subs r"
  using unregister_law [OF assms(1), of k] assms(2) by auto

lemma wf_preserved:
  assumes "wf r"
  shows "wf (snd (subscribe k f r))" "wf (snd (unsubscribe k f r))" "wf (snd (unregister k r))"
  using subscribe_law [OF assms, of k f] unsubscribe_law [OF assms, of k f] unregister_law [OF assms, of k] assms
  by (metis snd_conv)+

end

interpretation tr: subscription_store "registry_wf T S" subscriptions "TopicRegistry_subscribe S"
    TopicRegistry_unsubscribe TopicRegistry_unregister_all for T S
proof
  fix r k f
  assume wf: "registry_wf T S r"
  have img: "(f, k) \<in> subscriptions r \<Longrightarrow> f \<in> fst ` subscriptions r" by (metis fst_conv imageI)
  show "(\<exists>r'. TopicRegistry_subscribe S k f r = (Ok (), r') \<and> registry_wf T S r' \<and>
      subscriptions r' = insert (f, k) (subscriptions r)) \<or>
    (\<exists>e. TopicRegistry_subscribe S k f r = (Err e, r) \<and> (f, k) \<notin> subscriptions r)"
  proof (cases "position (\<lambda>t. topic_name t = f) (entries r)")
    case None
    from subscribe_new_filter [OF wf None, of k] img show ?thesis by blast
  next
    case (Some i)
    from subscribe_old_filter [OF wf Some, of k] show ?thesis by blast
  qed
qed (rule unsubscribe_eq unregister_all_eq; assumption)+

section \<open>Properties\<close>



text \<open>
  A \<^verbatim>\<open>#\<close> that is not the last level loses the level behind it: the filter \<^verbatim>\<open>a/#/x/b\<close> matches the topic
  \<^verbatim>\<open>a/#/b\<close>, and the filter \<^verbatim>\<open>a/#/b\<close> does not match the identical topic name.
\<close>

theorem topic_matches_inner_hash:
  "topic_matches [0x61, 0x2F, 0x23, 0x2F, 0x62] [0x61, 0x2F, 0x23, 0x2F, 0x78, 0x2F, 0x62] \<and>
   \<not> topic_matches [0x61, 0x2F, 0x23, 0x2F, 0x62] [0x61, 0x2F, 0x23, 0x2F, 0x62]"
  by (simp add: topic_matches_eq levels_def)

text \<open>
  C29: \<^verbatim>\<open>TopicRegistry::subscribe\<close> adds the pair of filter and session to the set of subscriptions and keeps the
  registry well-formed; it fails only when it is full, and then leaves the registry unchanged: with
  \<^verbatim>\<open>MaxTopicsReached\<close> when the filter is new and all entries are used, with \<^verbatim>\<open>MaxSubscribersPerTopicReached\<close>
  when the filter already has its maximal number of other subscribers.
\<close>

theorem registry_subscribe_adds:
  assumes "registry_wf T S r"
  shows "(\<exists>r'. TopicRegistry_subscribe S sid name r = (Ok (), r') \<and> registry_wf T S r' \<and>
        subscriptions r' = insert (name, sid) (subscriptions r)) \<or>
      (TopicRegistry_subscribe S sid name r = (Err (MaxTopicsReached T T), r) \<and>
        name \<notin> fst ` subscriptions r \<and> card (fst ` subscriptions r) = T) \<or>
      (TopicRegistry_subscribe S sid name r = (Err (MaxSubscribersPerTopicReached S S), r) \<and>
        (name, sid) \<notin> subscriptions r \<and> card {s. (name, s) \<in> subscriptions r} = S)"
  using assms
proof (cases rule: tr.subscribe_cases [where k = sid and f = name])
  case (refused e)
  from subscribe_full [OF assms refused(1)] refused(1) show ?thesis by auto
qed auto

theorem registry_subscribe_adds_witness:
  "\<exists>r'. TopicRegistry_subscribe 2 7 (HeaplessString_new 4) (TopicRegistry_default 4 3 2) = (Ok (), r') \<and>
     registry_wf 3 2 r' \<and> subscriptions r' = {(HeaplessString_new 4, 7)}"
  using registry_subscribe_adds [of 3 2 "TopicRegistry_default 4 3 2" 7 "HeaplessString_new 4"]
  by (simp add: TopicRegistry_default_wf)

text \<open>
  \<^verbatim>\<open>TopicRegistry::unsubscribe\<close> removes exactly this pair, reports whether it was there, drops an entry that
  has lost its last subscriber, and never panics, although it indexes the entry it has just changed.
\<close>

theorem registry_unsubscribe_removes:
  assumes "registry_wf T S r"
  shows "\<exists>r'. TopicRegistry_unsubscribe sid name r = (Ok ((name, sid) \<in> subscriptions r), r') \<and>
    registry_wf T S r' \<and> subscriptions r' = subscriptions r - {(name, sid)}"
  using unsubscribe_eq [OF assms] .

theorem registry_unsubscribe_removes_witness:
  "\<exists>r'. TopicRegistry_unsubscribe 7 (HeaplessString_new 4) \<lparr>topics = \<lparr>vlength = 1, vdata =
      [\<lparr>topic_name = HeaplessString_new 4, subscribers = \<lparr>vlength = 1, vdata = [7]\<rparr>\<rparr>]\<rparr>\<rparr> = (Ok True, r') \<and>
    registry_wf 1 1 r' \<and> subscriptions r' = {}"
proof -
  let ?r = "\<lparr>topics = \<lparr>vlength = 1, vdata =
      [\<lparr>topic_name = HeaplessString_new 4, subscribers = \<lparr>vlength = 1, vdata = [7]\<rparr>\<rparr>]\<rparr>\<rparr>"
  have wf: "registry_wf 1 1 ?r" by (simp add: registry_wf_def subs_wf_def vec_wf_def vec_defs)
  have subs: "subscriptions ?r = {(HeaplessString_new 4, 7)}"
    by (simp add: subscriptions_def entry_subscriptions_def vec_defs)
  show ?thesis using registry_unsubscribe_removes [OF wf, of 7 "HeaplessString_new 4"] by (simp add: subs)
qed

text \<open>
  C28: \<^verbatim>\<open>TopicRegistry::unregister_all\<close> removes every subscription of the session and no other one, and returns
  the number of filters it was subscribed to.
\<close>

theorem registry_unregister_all_removes:
  assumes "registry_wf T S r"
  shows "\<exists>r'. TopicRegistry_unregister_all sid r = (Ok (card {t. (t, sid) \<in> subscriptions r}), r') \<and>
    registry_wf T S r' \<and> subscriptions r' = {p \<in> subscriptions r. snd p \<noteq> sid}"
  using unregister_all_eq [OF assms] .

theorem registry_unregister_all_removes_witness:
  "\<exists>r'. TopicRegistry_unregister_all 7 \<lparr>topics = \<lparr>vlength = 1, vdata =
      [\<lparr>topic_name = HeaplessString_new 4, subscribers = \<lparr>vlength = 1, vdata = [7]\<rparr>\<rparr>]\<rparr>\<rparr> = (Ok 1, r') \<and>
    registry_wf 1 1 r' \<and> subscriptions r' = {}"
proof -
  let ?r = "\<lparr>topics = \<lparr>vlength = 1, vdata =
      [\<lparr>topic_name = HeaplessString_new 4, subscribers = \<lparr>vlength = 1, vdata = [7]\<rparr>\<rparr>]\<rparr>\<rparr>"
  have wf: "registry_wf 1 1 ?r" by (simp add: registry_wf_def subs_wf_def vec_wf_def vec_defs)
  have subs: "subscriptions ?r = {(HeaplessString_new 4, 7)}"
    by (simp add: subscriptions_def entry_subscriptions_def vec_defs)
  have "{t. (t, 7) \<in> subscriptions ?r} = {HeaplessString_new 4}" "{p \<in> subscriptions ?r. snd p \<noteq> 7} = {}"
    unfolding subs by auto
  from registry_unregister_all_removes [OF wf, of 7, unfolded this] show ?thesis by simp
qed

text \<open>
  C30: \<^verbatim>\<open>TopicRegistry::get_subscribers\<close> never panics and returns distinct sessions, each with a matching
  subscription; when at most \<^verbatim>\<open>MAX_SUBSCRIBERS_PER_TOPIC\<close> sessions have one, it returns all of them, and
  otherwise it is full.
\<close>

theorem registry_get_subscribers_matching:
  assumes "S < 2 ^ 16"
  shows "\<exists>v. TopicRegistry_get_subscribers S topic r = Ok v \<and> distinct (HeaplessVec_as_slice v) \<and>
    (let matching = {s. \<exists>f. (f, s) \<in> subscriptions r \<and>
       topic_matches (HeaplessString_as_str topic) (HeaplessString_as_str f)} in
     set (HeaplessVec_as_slice v) \<subseteq> matching \<and>
     (if card matching \<le> S then set (HeaplessVec_as_slice v) = matching
      else length (HeaplessVec_as_slice v) = S))"
proof -
  let ?m = "uniq (matching_subscribers (HeaplessString_as_str topic) (entries r))"
  have card: "card (set ?m) = length ?m" by (intro distinct_card uniq_simps(4))
  have distinct: "distinct ?m" by (rule uniq_simps(4))
  have set: "set ?m = {s. \<exists>f. (f, s) \<in> subscriptions r \<and>
      topic_matches (HeaplessString_as_str topic) (HeaplessString_as_str f)}"
    by (simp add: uniq_simps set_matching_subscribers)
  obtain v where "TopicRegistry_get_subscribers S topic r = Ok v" "HeaplessVec_as_slice v = take S ?m"
    using get_subscribers_eq [OF assms, of topic r] by blast
  then show ?thesis
    using card set_take_subset [of S ?m] distinct unfolding set [symmetric] Let_def
    by (intro exI [of _ v]) simp
qed

theorem registry_get_subscribers_matching_witness:
  "\<exists>v. TopicRegistry_get_subscribers 1 \<lparr>slength = 1, sdata = [0x61]\<rparr> \<lparr>topics = \<lparr>vlength = 1, vdata =
      [\<lparr>topic_name = \<lparr>slength = 1, sdata = [0x2B]\<rparr>, subscribers = \<lparr>vlength = 1, vdata = [7]\<rparr>\<rparr>]\<rparr>\<rparr> = Ok v \<and>
    distinct (HeaplessVec_as_slice v) \<and> set (HeaplessVec_as_slice v) = {7}"
  using registry_get_subscribers_matching [of 1 "\<lparr>slength = 1, sdata = [0x61]\<rparr>" "\<lparr>topics = \<lparr>vlength = 1, vdata =
      [\<lparr>topic_name = \<lparr>slength = 1, sdata = [0x2B]\<rparr>, subscribers = \<lparr>vlength = 1, vdata = [7]\<rparr>\<rparr>]\<rparr>\<rparr>"]
  by (simp add: subscriptions_def entry_subscriptions_def vec_defs topic_matches_eq levels_def
    HeaplessString_as_str_def HeaplessString_bytes_def from_utf8_def char_tail_def, auto simp: Let_def)

end
