(* ===== verification/Broker.thy ===== *)
theory Broker
  imports Sessions Topics
begin

text \<open>
  The broker, \<^verbatim>\<open>src/broker.rs\<close>: the two registries and the handlers of the packets that sessions have received.
  The const generics that the code needs beyond the capacities of existing containers are fields of the
  record \<open>config\<close>. The loop of \<^verbatim>\<open>process_all_session_packets\<close> over the received packets of one session is a
  total function: its termination proof shows that no handler touches a receive queue. The lemmas give
  the effect of every handler on the two registries; \<open>broker_wf\<close> is the invariant that ties the registries
  together.
\<close>

record config =
  MAX_TOPIC_NAME_LENGTH :: usize
  MAX_PAYLOAD_SIZE :: usize
  QUEUE_SIZE :: usize
  MAX_SESSIONS :: usize
  MAX_TOPICS :: usize
  MAX_SUBSCRIBERS_PER_TOPIC :: usize

record PicoBroker =
  br_topics :: TopicRegistry
  br_sessions :: SessionRegistry

definition PicoBroker_default :: "config \<Rightarrow> PicoBroker" where
  "PicoBroker_default cfg =
     \<lparr>br_topics = TopicRegistry_default (MAX_TOPIC_NAME_LENGTH cfg) (MAX_TOPICS cfg) (MAX_SUBSCRIBERS_PER_TOPIC cfg),
      br_sessions = SessionRegistry_default (MAX_SESSIONS cfg)\<rparr>"

definition PicoBroker_new :: "config \<Rightarrow> PicoBroker" where
  "PicoBroker_new cfg = PicoBroker_default cfg"

definition on_topics :: "(TopicRegistry, 'a, BrokerError) action \<Rightarrow> (PicoBroker, 'a, BrokerError) action" where
  "on_topics m = on_field br_topics (\<lambda>t b. b\<lparr>br_topics := t\<rparr>) m"

definition on_sessions :: "(SessionRegistry, 'a, BrokerError) action \<Rightarrow> (PicoBroker, 'a, BrokerError) action" where
  "on_sessions m = on_field br_sessions (\<lambda>s b. b\<lparr>br_sessions := s\<rparr>) m"

definition PicoBroker_register_new_session ::
    "config \<Rightarrow> u128 \<Rightarrow> u16 \<Rightarrow> u128 \<Rightarrow> (PicoBroker, unit, BrokerError) action" where
  "PicoBroker_register_new_session cfg sid keep_alive current_time =
     on_sessions (SessionRegistry_register_new_session (QUEUE_SIZE cfg) sid keep_alive current_time)"

definition PicoBroker_mark_session_disconnected :: "u128 \<Rightarrow> (PicoBroker, unit, BrokerError) action" where
  "PicoBroker_mark_session_disconnected sid = on_sessions (SessionRegistry_mark_disconnected sid)"

definition PicoBroker_remove_session :: "u128 \<Rightarrow> (PicoBroker, bool, BrokerError) action" where
  "PicoBroker_remove_session sid =
     then_do (on_topics (TopicRegistry_unregister_all sid)) (\<lambda>_.
     on_sessions (SessionRegistry_remove_session sid))"

definition PicoBroker_get_all_sessions :: "PicoBroker \<Rightarrow> u128 option list" where
  "PicoBroker_get_all_sessions b = SessionRegistry_get_all_sessions (br_sessions b)"

definition PicoBroker_get_expired_sessions :: "u128 \<Rightarrow> PicoBroker \<Rightarrow> ExpirationInfo option list" where
  "PicoBroker_get_expired_sessions current_time b =
     SessionRegistry_get_expired_sessions current_time (br_sessions b)"

definition PicoBroker_get_disconnected_sessions :: "PicoBroker \<Rightarrow> u128 option list" where
  "PicoBroker_get_disconnected_sessions b = SessionRegistry_get_disconnected_sessions (br_sessions b)"

definition PicoBroker_queue_packet_received_from_client ::
    "u128 \<Rightarrow> Packet \<Rightarrow> u128 \<Rightarrow> (PicoBroker, unit, BrokerError) action" where
  "PicoBroker_queue_packet_received_from_client sid packet current_time =
     then_do (on_sessions (SessionRegistry_update_session_activity sid current_time)) (\<lambda>_.
     on_sessions (SessionRegistry_queue_rx_packet sid packet))"

definition PicoBroker_dequeue_packet_to_send_to_client ::
    "u128 \<Rightarrow> (PicoBroker, Packet option, BrokerError) action" where
  "PicoBroker_dequeue_packet_to_send_to_client sid = on_sessions (SessionRegistry_dequeue_tx_packet sid)"

section \<open>The handlers\<close>

definition PicoBroker_handle_connect :: "u128 \<Rightarrow> ConnectPacket \<Rightarrow> (PicoBroker, unit, BrokerError) action" where
  "PicoBroker_handle_connect sid connect =
     then_do
       (if \<not> HeaplessString_is_empty (con_client_id connect)
        then on_sessions (SessionRegistry_update_client_id sid (con_client_id connect)) else ret ()) (\<lambda>_.
     then_do (on_sessions (SessionRegistry_update_keep_alive sid (con_keep_alive connect))) (\<lambda>_.
     then_do (on_sessions (SessionRegistry_mark_connected sid)) (\<lambda>_.
     let connack = ConnAck ConnAckPacket_default in
     then_do (on_sessions (SessionRegistry_queue_tx_packet sid connack)) (\<lambda>_.
     ret ()))))"

primrec deliver_loop :: "PublishPacket \<Rightarrow> u128 list \<Rightarrow> (PicoBroker, unit, BrokerError) action" where
  "deliver_loop publish [] = ret ()"
| "deliver_loop publish (subscriber_id # rest) =
     then_do (on_sessions (SessionRegistry_queue_tx_packet subscriber_id (Publish publish))) (\<lambda>_.
     deliver_loop publish rest)"

definition PicoBroker_handle_publish :: "config \<Rightarrow> u128 \<Rightarrow> PublishPacket \<Rightarrow> (PicoBroker, unit, BrokerError) action" where
  "PicoBroker_handle_publish cfg sid publish = (\<lambda>b.
     then_do
       (of_result (TopicRegistry_get_subscribers (MAX_SUBSCRIBERS_PER_TOPIC cfg) (pub_topic_name publish) (br_topics b)))
       (\<lambda>subs.
     then_do
       (case HeaplessVec_collect 0 (HeaplessVec_into_iter subs) of
          Ok subscriber_ids \<Rightarrow> deliver_loop publish subscriber_ids
        | _ \<Rightarrow> panic) (\<lambda>_.
     if pub_qos publish > AtMostOnce \<and> pub_packet_id publish \<noteq> None then
       (let puback = \<lparr>puback_packet_id = the (pub_packet_id publish)\<rparr> in
        then_do (on_sessions (SessionRegistry_queue_tx_packet sid (PubAck puback))) (\<lambda>_. ret ()))
     else ret ())) b)"

definition PicoBroker_handle_subscribe ::
    "config \<Rightarrow> u128 \<Rightarrow> SubscribePacket \<Rightarrow> (PicoBroker, unit, BrokerError) action" where
  "PicoBroker_handle_subscribe cfg sid subscribe =
     then_do (on_topics (TopicRegistry_subscribe (MAX_SUBSCRIBERS_PER_TOPIC cfg) sid (sub_topic_filter subscribe))) (\<lambda>_.
     let granted = sub_requested_qos subscribe;
         suback = \<lparr>suback_packet_id = sub_packet_id subscribe, granted_qos = granted\<rparr>
     in on_sessions (SessionRegistry_queue_tx_packet sid (SubAck suback)))"

definition PicoBroker_handle_pingreq :: "u128 \<Rightarrow> (PicoBroker, unit, BrokerError) action" where
  "PicoBroker_handle_pingreq sid = on_sessions (SessionRegistry_queue_tx_packet sid (PingResp PingRespPacket))"

definition PicoBroker_handle_disconnect :: "u128 \<Rightarrow> (PicoBroker, unit, BrokerError) action" where
  "PicoBroker_handle_disconnect sid = PicoBroker_mark_session_disconnected sid"

fun PicoBroker_handle_packet :: "config \<Rightarrow> u128 \<Rightarrow> Packet \<Rightarrow> (PicoBroker, unit, BrokerError) action" where
  "PicoBroker_handle_packet cfg sid (Connect connect) = PicoBroker_handle_connect sid connect"
| "PicoBroker_handle_packet cfg sid (ConnAck _) = ret ()"
| "PicoBroker_handle_packet cfg sid (Publish publish) = PicoBroker_handle_publish cfg sid publish"
| "PicoBroker_handle_packet cfg sid (PubAck _) = ret ()"
| "PicoBroker_handle_packet cfg sid (PubRec _) = ret ()"
| "PicoBroker_handle_packet cfg sid (PubRel _) = ret ()"
| "PicoBroker_handle_packet cfg sid (PubComp _) = ret ()"
| "PicoBroker_handle_packet cfg sid (Subscribe subscribe) = PicoBroker_handle_subscribe cfg sid subscribe"
| "PicoBroker_handle_packet cfg sid (SubAck _) = ret ()"
| "PicoBroker_handle_packet cfg sid (Unsubscribe _) = ret ()"
| "PicoBroker_handle_packet cfg sid (UnsubAck _) = ret ()"
| "PicoBroker_handle_packet cfg sid (PingReq _) = PicoBroker_handle_pingreq sid"
| "PicoBroker_handle_packet cfg sid (PingResp _) = ret ()"
| "PicoBroker_handle_packet cfg sid (Disconnect _) = PicoBroker_handle_disconnect sid"

section \<open>The receive queues\<close>

text \<open>
  What the termination of the inner loop rests on, for arbitrary registries: methods that leave the
  receive queue of a session alone do so in the registry and in the broker, and a successful dequeue
  shortens the queue.
\<close>

definition rx_view :: "SessionRegistry \<Rightarrow> (u128 \<times> queue) option list" where
  "rx_view r = map (map_option (\<lambda>s. (session_id s, rx_queue s))) (slots r)"

definition keeps_rx :: "(PicoBroker, 'a, 'e) action \<Rightarrow> bool" where
  "keeps_rx m \<longleftrightarrow> (\<forall>b. rx_view (br_sessions (snd (m b))) = rx_view (br_sessions b))"

definition backlog :: "u128 \<Rightarrow> SessionRegistry \<Rightarrow> nat" where
  "backlog sid r =
     (case find (\<lambda>x. case x of Some (k, _) \<Rightarrow> k = sid | None \<Rightarrow> False) (rx_view r) of
        Some (Some (_, q)) \<Rightarrow> unat (vlength q)
      | _ \<Rightarrow> 0)"

lemma find_session_slot:
  assumes "SessionRegistry_find_session sid r = Some i"
  shows "i < length (slots r)" "i < length (vdata (reg_sessions r))" "vdata (reg_sessions r) ! i = slots r ! i"
    "\<exists>s. slots r ! i = Some s \<and> session_id s = sid"
  using position_Some [OF assms [unfolded SessionRegistry_find_session_def]]
  by (auto simp: has_id_def HeaplessVec_as_slice_def split: option.splits)

lemma on_session_slots:
  assumes "SessionRegistry_find_session sid r = Some i" "slots r ! i = Some s" "m s = (x, s')"
  shows "\<exists>r'. on_session sid m r = (x, r') \<and> slots r' = (slots r)[i := Some s']"
  using find_session_slot [OF assms(1)] assms
  by (simp add: on_session_def HeaplessVec_as_slice_def take_update_swap)

lemma on_session_rx_view:
  assumes "\<And>s. session_id (snd (m s)) = session_id s \<and> rx_queue (snd (m s)) = rx_queue s"
  shows "rx_view (snd (on_session sid m r)) = rx_view r"
proof (cases "SessionRegistry_find_session sid r")
  case None
  then show ?thesis by (simp add: on_session_def)
next
  case (Some i)
  note f = find_session_slot [OF Some]
  then obtain s where s: "slots r ! i = Some s" by blast
  obtain x s' where m: "m s = (x, s')" by force
  from on_session_slots [where m = m, OF Some s m] obtain r' where
    r': "on_session sid m r = (x, r')" "slots r' = (slots r)[i := Some s']" by blast
  have "session_id s' = session_id s" "rx_queue s' = rx_queue s" using assms [of s] m by simp_all
  then have "(rx_view r)[i := Some (session_id s', rx_queue s')] = rx_view r"
    using f(1) s by (metis (no_types, lifting) list_update_id nth_map option.simps(9) rx_view_def)
  then show ?thesis using r' by (simp add: rx_view_def map_update)
qed

lemma keeps_rx_intros:
  "keeps_rx (ret a)" "keeps_rx (fail e)" "keeps_rx panic" "keeps_rx (on_topics mt)"
  "keeps_rx m \<Longrightarrow> (\<And>a. keeps_rx (f a)) \<Longrightarrow> keeps_rx (then_do m f)"
  "(\<And>s. session_id (snd (ms s)) = session_id s \<and> rx_queue (snd (ms s)) = rx_queue s) \<Longrightarrow>
     keeps_rx (on_sessions (on_session k ms))"
  by (auto simp: keeps_rx_def on_topics_def on_sessions_def on_field_def then_do_apply on_session_rx_view
    split: prod.split result.split) (metis on_session_rx_view snd_conv)

lemma keeps_rx_Pair [simp]: "keeps_rx (Pair x)"
  by (simp add: keeps_rx_def)

lemma keeps_rx_queue_tx: "keeps_rx (on_sessions (SessionRegistry_queue_tx_packet k p))"
  unfolding SessionRegistry_queue_tx_packet_def
  by (rule keeps_rx_intros) (simp add: map_err_m_apply Session_queue_tx_packet_def on_field_def split: prod.split)

lemma keeps_rx_simple:
  "keeps_rx (on_sessions (SessionRegistry_mark_connected k))"
  "keeps_rx (on_sessions (SessionRegistry_mark_disconnected k))"
  "keeps_rx (on_sessions (SessionRegistry_update_client_id k c))"
  "keeps_rx (on_sessions (SessionRegistry_update_keep_alive k a))"
  unfolding SessionRegistry_mark_connected_def SessionRegistry_mark_disconnected_def
    SessionRegistry_update_client_id_def SessionRegistry_update_keep_alive_def
  by (rule keeps_rx_intros; simp)+

lemma keeps_rx_deliver: "keeps_rx (deliver_loop p ks)"
  by (induction ks) (auto intro!: keeps_rx_intros(1,5) keeps_rx_queue_tx)

lemma keeps_rx_handle_publish: "keeps_rx (PicoBroker_handle_publish cfg sid p)"
proof -
  have "keeps_rx (then_do (of_result x) (\<lambda>subs. then_do
      (case HeaplessVec_collect 0 (HeaplessVec_into_iter subs) of
         Ok subscriber_ids \<Rightarrow> deliver_loop p subscriber_ids | _ \<Rightarrow> panic) (\<lambda>_.
     if pub_qos p > AtMostOnce \<and> pub_packet_id p \<noteq> None then
       (let puback = \<lparr>puback_packet_id = the (pub_packet_id p)\<rparr> in
        then_do (on_sessions (SessionRegistry_queue_tx_packet sid (PubAck puback))) (\<lambda>_. ret ()))
     else ret ())))" for x
    by (cases x) (auto simp: Let_def intro!: keeps_rx_intros(1,2,3,5) keeps_rx_queue_tx keeps_rx_deliver
      split: result.split)
  then show ?thesis by (simp add: keeps_rx_def PicoBroker_handle_publish_def)
qed

lemma keeps_rx_handle_packet: "keeps_rx (PicoBroker_handle_packet cfg sid p)"
  by (cases p)
    (auto simp: PicoBroker_handle_connect_def PicoBroker_handle_subscribe_def PicoBroker_handle_pingreq_def
      PicoBroker_handle_disconnect_def PicoBroker_mark_session_disconnected_def Let_def
      intro!: keeps_rx_intros(1,4,5) keeps_rx_queue_tx keeps_rx_simple keeps_rx_handle_publish)

lemma backlog_view: "rx_view r = rx_view r' \<Longrightarrow> backlog sid r = backlog sid r'"
  by (simp add: backlog_def)

lemma dequeue_front_shorter:
  assumes "HeaplessVec_dequeue_front q = (Ok (Some x), q')"
  shows "unat (vlength q') < unat (vlength q)"
proof -
  have "vlength q \<noteq> 0" "vlength q' = vlength q - 1"
    using assms by (auto simp: HeaplessVec_dequeue_front_def Let_def split: if_splits option.splits)
  then show ?thesis using vec_length_dec [of q] by (simp add: unat_gt_0)
qed

lemma position_update: "position P xs = Some i \<Longrightarrow> P y \<Longrightarrow> position P (xs[i := y]) = Some i"
  by (induction xs arbitrary: i) (auto split: if_splits)

lemma dequeue_rx_backlog:
  assumes "SessionRegistry_dequeue_rx_packet sid r = (Ok (Some p), r')"
  shows "backlog sid r' < backlog sid r"
proof (cases "SessionRegistry_find_session sid r")
  case None
  with assms show ?thesis by (simp add: SessionRegistry_dequeue_rx_packet_def on_session_def)
next
  case (Some i)
  let ?P = "\<lambda>x. case x of Some (k, _) \<Rightarrow> k = sid | None \<Rightarrow> False"
  note f = find_session_slot [OF Some]
  then obtain s where s: "slots r ! i = Some s" "session_id s = sid" by blast
  obtain x s' where m: "Session_dequeue_rx_packet s = (x, s')" by force
  from on_session_slots [where m = Session_dequeue_rx_packet, OF Some s(1) m] assms have
    x: "x = Ok (Some p)" and sl: "slots r' = (slots r)[i := Some s']"
    by (auto simp: SessionRegistry_dequeue_rx_packet_def)
  obtain q y where q: "HeaplessVec_dequeue_front (rx_queue s) = (Ok (Some y) :: (_, BrokerError) result, q)"
    and s': "s' = s\<lparr>rx_queue := q\<rparr>"
    using m x by (auto simp: Session_dequeue_rx_packet_def then_do_apply on_field_def Option.bind_eq_Some_conv
      split: prod.splits result.splits)
  have pos: "position ?P (rx_view r) = Some i"
  proof -
    have "has_id sid = (\<lambda>x. ?P (map_option (\<lambda>s. (session_id s, rx_queue s)) x))"
      by (auto simp: has_id_def fun_eq_iff split: option.split)
    then show ?thesis using Some by (simp add: SessionRegistry_find_session_def rx_view_def position_map)
  qed
  have "rx_view r' = (rx_view r)[i := Some (sid, q)]" using sl s(2) s' by (simp add: rx_view_def map_update)
  moreover have "position ?P ((rx_view r)[i := Some (sid, q)]) = Some i"
    using pos by (rule position_update) simp
  ultimately show ?thesis
    using dequeue_front_shorter [OF q] pos f(1) s
    by (simp add: backlog_def find_position) (simp add: rx_view_def)
qed

section \<open>Processing the received packets\<close>

function PicoBroker_process_session :: "config \<Rightarrow> u128 \<Rightarrow> (PicoBroker, unit, BrokerError) action" where
  "PicoBroker_process_session cfg sid b =
     (case on_sessions (SessionRegistry_dequeue_rx_packet sid) b of
        (Ok None, b1) \<Rightarrow> (Ok (), b1)
      | (Ok (Some packet), b1) \<Rightarrow>
          (case PicoBroker_handle_packet cfg sid packet b1 of
             (Ok _, b2) \<Rightarrow> PicoBroker_process_session cfg sid b2
           | (Err e, b2) \<Rightarrow> (Err e, b2)
           | (Panic, b2) \<Rightarrow> (Panic, b2))
      | (Err e, b1) \<Rightarrow> (Err e, b1)
      | (Panic, b1) \<Rightarrow> (Panic, b1))"
  by pat_completeness auto
termination
proof (relation "measure (\<lambda>(cfg, sid, b). backlog sid (br_sessions b))")
  fix cfg sid b x b1 y packet z b2 w and u :: unit
  assume a: "(x, b1) = on_sessions (SessionRegistry_dequeue_rx_packet sid) b" "x = Ok y" "y = Some packet"
    "(z, b2) = PicoBroker_handle_packet cfg sid packet b1"
  then have "SessionRegistry_dequeue_rx_packet sid (br_sessions b) = (Ok (Some packet), br_sessions b1)"
    by (auto simp: on_sessions_def on_field_def split: prod.splits)
  then have "backlog sid (br_sessions b1) < backlog sid (br_sessions b)" by (rule dequeue_rx_backlog)
  moreover have "rx_view (br_sessions b2) = rx_view (br_sessions b1)"
    using keeps_rx_handle_packet [of cfg sid packet] a(4) unfolding keeps_rx_def by (metis snd_conv)
  ultimately show "((cfg, sid, b2), (cfg, sid, b)) \<in> measure (\<lambda>(cfg, sid, b). backlog sid (br_sessions b))"
    using backlog_view [of "br_sessions b2" "br_sessions b1" sid] by simp
qed simp

declare PicoBroker_process_session.simps [simp del]

primrec process_sessions :: "config \<Rightarrow> u128 list \<Rightarrow> (PicoBroker, unit, BrokerError) action" where
  "process_sessions cfg [] = ret ()"
| "process_sessions cfg (sid # sids) =
     then_do (PicoBroker_process_session cfg sid) (\<lambda>_. process_sessions cfg sids)"

definition PicoBroker_process_all_session_packets :: "config \<Rightarrow> (PicoBroker, unit, BrokerError) action" where
  "PicoBroker_process_all_session_packets cfg = (\<lambda>b.
     let session_ids = PicoBroker_get_all_sessions b in
     process_sessions cfg (flatten session_ids) b)"

text \<open>As in \<^verbatim>\<open>get_subscribers\<close>, an error of \<^verbatim>\<open>push\<close> is discarded.\<close>

primrec pending_loop :: "SessionRegistry \<Rightarrow> u128 list \<Rightarrow> u128 HeaplessVec \<Rightarrow> (u128 HeaplessVec, BrokerError) result" where
  "pending_loop r [] v = Ok v"
| "pending_loop r (sid # sids) v =
     (if SessionRegistry_has_pending_tx_packets sid r then
        (case HeaplessVec_push sid v of (Panic, _) \<Rightarrow> Panic | (_, v') \<Rightarrow> pending_loop r sids v')
      else pending_loop r sids v)"

definition PicoBroker_get_sessions_with_pending_packets ::
    "config \<Rightarrow> PicoBroker \<Rightarrow> (u128 HeaplessVec, BrokerError) result" where
  "PicoBroker_get_sessions_with_pending_packets cfg b =
     (let session_ids = PicoBroker_get_all_sessions b in
      pending_loop (br_sessions b) (flatten session_ids) (HeaplessVec_new (MAX_SESSIONS cfg) 0))"

section \<open>The invariant\<close>

abbreviation session_of :: "PicoBroker \<Rightarrow> u128 \<Rightarrow> Session option" where
  "session_of b \<equiv> lookup (br_sessions b)"

abbreviation session_ids :: "PicoBroker \<Rightarrow> u128 list" where
  "session_ids b \<equiv> ids (br_sessions b)"

abbreviation subscriptions_of :: "PicoBroker \<Rightarrow> (TopicName \<times> u128) set" where
  "subscriptions_of b \<equiv> subscriptions (br_topics b)"

definition tx :: "PicoBroker \<Rightarrow> u128 \<Rightarrow> Packet list" where
  "tx b k = (case session_of b k of Some s \<Rightarrow> packets (tx_queue s) | None \<Rightarrow> [])"

definition rx :: "PicoBroker \<Rightarrow> u128 \<Rightarrow> Packet list" where
  "rx b k = (case session_of b k of Some s \<Rightarrow> packets (rx_queue s) | None \<Rightarrow> [])"

text \<open>Both registries are well-formed, and every subscriber is a registered session.\<close>

definition broker_wf :: "config \<Rightarrow> PicoBroker \<Rightarrow> bool" where
  "broker_wf cfg b \<longleftrightarrow>
     registry_wf (MAX_TOPICS cfg) (MAX_SUBSCRIBERS_PER_TOPIC cfg) (br_topics b) \<and>
     sessions_wf (MAX_SESSIONS cfg) (QUEUE_SIZE cfg) (br_sessions b) \<and>
     snd ` subscriptions_of b \<subseteq> set (session_ids b)"

definition config_ok :: "config \<Rightarrow> bool" where
  "config_ok cfg \<longleftrightarrow> MAX_TOPIC_NAME_LENGTH cfg < 2 ^ 8 \<and> MAX_PAYLOAD_SIZE cfg < 2 ^ 16 \<and> QUEUE_SIZE cfg < 2 ^ 16 \<and>
     MAX_SESSIONS cfg < 2 ^ 16 \<and> MAX_TOPICS cfg < 2 ^ 16 \<and> MAX_SUBSCRIBERS_PER_TOPIC cfg < 2 ^ 16"

text \<open>Everything of a session but its transmit queue, and steps that change nothing else.\<close>

definition core :: "Session \<Rightarrow> u128 \<times> ClientId option \<times> SessionState \<times> u16 \<times> u128 \<times> Packet list" where
  "core s = (session_id s, client_id s, sess_state s, keep_alive_secs s, last_activity s, packets (rx_queue s))"

definition only_tx :: "PicoBroker \<Rightarrow> PicoBroker \<Rightarrow> bool" where
  "only_tx b b' \<longleftrightarrow> br_topics b' = br_topics b \<and> session_ids b' = session_ids b \<and>
     (\<forall>k. map_option core (session_of b' k) = map_option core (session_of b k))"

lemma only_tx_refl [simp]: "only_tx b b"
  by (simp add: only_tx_def)

lemma only_tx_trans: "only_tx a b \<Longrightarrow> only_tx b c \<Longrightarrow> only_tx a c"
  by (simp add: only_tx_def)

lemma PicoBroker_new_wf: "config_ok cfg \<Longrightarrow> broker_wf cfg (PicoBroker_new cfg)"
  unfolding broker_wf_def PicoBroker_new_def PicoBroker_default_def config_ok_def
  by (simp add: TopicRegistry_default_wf)
    (simp add: sessions_wf_def SessionRegistry_default_def HeaplessVec_new_wf live_def ids_def)

lemma broker_wf_parts:
  assumes "broker_wf cfg b"
  shows "registry_wf (MAX_TOPICS cfg) (MAX_SUBSCRIBERS_PER_TOPIC cfg) (br_topics b)"
    "sessions_wf (MAX_SESSIONS cfg) (QUEUE_SIZE cfg) (br_sessions b)"
    "(f, k) \<in> subscriptions_of b \<Longrightarrow> k \<in> set (session_ids b)"
  using assms by (force simp: broker_wf_def)+

lemma session_of_iff: "(\<exists>s. session_of b k = Some s) \<longleftrightarrow> k \<in> set (session_ids b)"
  using lookup_None [of "br_sessions b" k] by auto

section \<open>Steps on one session\<close>

lemma on_sessions_eq: "m (br_sessions b) = (x, r) \<Longrightarrow> on_sessions m b = (x, b\<lparr>br_sessions := r\<rparr>)"
  by (simp add: on_sessions_def on_field_def)

lemma on_topics_eq: "m (br_topics b) = (x, t) \<Longrightarrow> on_topics m b = (x, b\<lparr>br_topics := t\<rparr>)"
  by (simp add: on_topics_def on_field_def)

lemma broker_wf_sessions:
  assumes "broker_wf cfg b" "sessions_wf (MAX_SESSIONS cfg) (QUEUE_SIZE cfg) r" "ids r = session_ids b"
  shows "broker_wf cfg (b\<lparr>br_sessions := r\<rparr>)"
  using assms by (simp add: broker_wf_def)

lemma update_session_eq:
  assumes wf: "broker_wf cfg b" and l: "session_of b k = Some s" and m: "m s = (x, s')"
    and s': "session_id s' = session_id s" "session_wf (QUEUE_SIZE cfg) s'"
  shows "\<exists>b'. on_sessions (on_session k m) b = (x, b') \<and> broker_wf cfg b' \<and> br_topics b' = br_topics b \<and>
    session_ids b' = session_ids b \<and> session_of b' = (session_of b)(k \<mapsto> s')"
proof -
  from sr.update_found [where m = m, OF broker_wf_parts(2) [OF wf] l m s'] obtain r' where
    r': "on_session k m (br_sessions b) = (x, r')" "sessions_wf (MAX_SESSIONS cfg) (QUEUE_SIZE cfg) r'"
      "ids r' = session_ids b" "lookup r' = (session_of b)(k \<mapsto> s')" by blast
  then show ?thesis
    using on_sessions_eq [where m = "on_session k m", OF r'(1)] broker_wf_sessions [OF wf r'(2,3)] by simp
qed

lemma update_session_missing:
  "broker_wf cfg b \<Longrightarrow> k \<notin> set (session_ids b) \<Longrightarrow> on_sessions (on_session k m) b = (Err (SessionNotFound k), b)"
  using sr.update_missing [OF broker_wf_parts(2), of cfg b k m] lookup_None [of "br_sessions b" k]
  by (simp add: on_sessions_def on_field_def)

lemma queue_tx_step:
  assumes wf: "broker_wf cfg b" and k: "k \<in> set (session_ids b)"
  obtains (queued) b' where "length (tx b k) < QUEUE_SIZE cfg"
        "on_sessions (SessionRegistry_queue_tx_packet k p) b = (Ok (), b')" "broker_wf cfg b'" "only_tx b b'"
        "tx b' = (tx b)(k := tx b k @ [p])"
    | (full) "length (tx b k) = QUEUE_SIZE cfg"
        "on_sessions (SessionRegistry_queue_tx_packet k p) b = (Err (SessionQueueFull k (QUEUE_SIZE cfg)), b)"
proof -
  note sw = broker_wf_parts(2) [OF wf]
  obtain s where l: "session_of b k = Some s" using k session_of_iff by metis
  have t: "tx b k = packets (tx_queue s)" using l by (simp add: tx_def)
  from sw l show ?thesis
  proof (cases rule: queue_tx_cases [where p = p])
    case (queued r' q)
    let ?b = "b\<lparr>br_sessions := r'\<rparr>"
    have "only_tx b ?b" using queued(4,5) l by (auto simp: only_tx_def core_def)
    moreover have "tx ?b = (tx b)(k := tx b k @ [p])"
      using queued(5,6) t by (auto simp: tx_def fun_eq_iff)
    moreover have "on_sessions (SessionRegistry_queue_tx_packet k p) b = (Ok (), ?b)"
      using queued(2) by (rule on_sessions_eq)
    ultimately show ?thesis
      using that(1) [OF _ _ broker_wf_sessions [OF wf queued(3,4)]] queued(1) t by simp
  next
    case full
    then have "on_sessions (SessionRegistry_queue_tx_packet k p) b = (Err (SessionQueueFull k (QUEUE_SIZE cfg)), b)"
      by (simp add: on_sessions_def on_field_def)
    then show ?thesis using that(2) full(1) t by simp
  qed
qed

end
