(* ===== verification/Broker_Laws.thy ===== *)
theory Broker_Laws
  imports Broker
begin

text \<open>
  What the handlers of the broker do to the queues, the sessions and the subscriptions, and that they keep the
  invariant. \<open>recipients\<close> are the sessions a PUBLISH is queued for; delivery stops at the first of them whose
  transmit queue is full. The locale \<open>broker_handler\<close> is the contract on which the processing loop relies:
  a handler keeps the invariant, the registered sessions and the receive queues, and fails only with a
  capacity error. Every packet's handler is an interpretation of it.
\<close>

section \<open>PUBLISH\<close>

definition recipients :: "config \<Rightarrow> PublishPacket \<Rightarrow> PicoBroker \<Rightarrow> u128 list" where
  "recipients cfg p b = take (MAX_SUBSCRIBERS_PER_TOPIC cfg)
     (uniq (matching_subscribers (HeaplessString_as_str (pub_topic_name p)) (entries (br_topics b))))"

definition has_room :: "config \<Rightarrow> PicoBroker \<Rightarrow> u128 \<Rightarrow> bool" where
  "has_room cfg b k \<longleftrightarrow> length (tx b k) < QUEUE_SIZE cfg"

definition acks :: "PublishPacket \<Rightarrow> Packet list" where
  "acks p = (if pub_qos p > AtMostOnce then
     (case pub_packet_id p of Some i \<Rightarrow> [PubAck \<lparr>puback_packet_id = i\<rparr>] | None \<Rightarrow> []) else [])"

lemma recipients_registered:
  assumes "broker_wf cfg b"
  shows "distinct (recipients cfg p b)" "set (recipients cfg p b) \<subseteq> set (session_ids b)"
proof -
  show "distinct (recipients cfg p b)" by (simp add: recipients_def uniq_simps)
  show "set (recipients cfg p b) \<subseteq> set (session_ids b)"
    using broker_wf_parts(3) [OF assms]
    by (auto simp: recipients_def uniq_simps set_matching_subscribers dest!: in_set_takeD)
qed

lemma recipients_all:
  assumes "card {k. \<exists>f. (f, k) \<in> subscriptions_of b \<and>
      topic_matches (HeaplessString_as_str (pub_topic_name p)) (HeaplessString_as_str f)} \<le> MAX_SUBSCRIBERS_PER_TOPIC cfg"
  shows "set (recipients cfg p b) = {k. \<exists>f. (f, k) \<in> subscriptions_of b \<and>
      topic_matches (HeaplessString_as_str (pub_topic_name p)) (HeaplessString_as_str f)}"
proof -
  let ?m = "matching_subscribers (HeaplessString_as_str (pub_topic_name p)) (entries (br_topics b))"
  have "length (uniq ?m) = card (set ?m)" using uniq_simps(3,4) by (metis distinct_card)
  then show ?thesis using assms by (simp add: recipients_def uniq_simps set_matching_subscribers)
qed

lemma deliver_loop_eq:
  "broker_wf cfg b \<Longrightarrow> distinct ks \<Longrightarrow> set ks \<subseteq> set (session_ids b) \<Longrightarrow> good = takeWhile (has_room cfg b) ks \<Longrightarrow>
     \<exists>b'. deliver_loop p ks b =
         (if good = ks then Ok () else Err (SessionQueueFull (ks ! length good) (QUEUE_SIZE cfg)), b') \<and>
       broker_wf cfg b' \<and> only_tx b b' \<and>
       tx b' = (\<lambda>k. tx b k @ (if k \<in> set good then [Publish p] else []))"
proof (induction ks arbitrary: b good)
  case Nil
  then show ?case by auto
next
  case (Cons k ks)
  have k: "k \<in> set (session_ids b)" "k \<notin> set ks" using Cons.prems by auto
  from Cons.prems(1) k(1) show ?case
  proof (cases rule: queue_tx_step [where p = "Publish p"])
    case full
    then have "good = []" using Cons.prems(4) by (simp add: has_room_def)
    then show ?thesis using full Cons.prems(1) by (auto simp: then_do_cases(2))
  next
    case (queued b1)
    let ?good = "takeWhile (has_room cfg b1) ks"
    have "has_room cfg b1 x = has_room cfg b x" if "x \<in> set ks" for x
      using that k(2) queued(5) by (auto simp: has_room_def)
    then have same: "?good = takeWhile (has_room cfg b) ks" by (intro takeWhile_cong) auto
    moreover have "has_room cfg b k" using queued(1) by (simp add: has_room_def)
    ultimately have good: "good = k # ?good" using Cons.prems(4) by simp
    have "set ks \<subseteq> set (session_ids b1)" using Cons.prems(3) queued(4) by (auto simp: only_tx_def)
    from Cons.IH [OF queued(3) _ this refl] Cons.prems(2) obtain b' where
      b': "deliver_loop p ks b1 =
         (if ?good = ks then Ok () else Err (SessionQueueFull (ks ! length ?good) (QUEUE_SIZE cfg)), b')"
       "broker_wf cfg b'" "only_tx b1 b'" "tx b' = (\<lambda>k. tx b1 k @ (if k \<in> set ?good then [Publish p] else []))"
      by auto
    have "k \<notin> set ?good" using k(2) by (meson set_takeWhileD)
    then have "tx b' = (\<lambda>k. tx b k @ (if k \<in> set good then [Publish p] else []))"
      using b'(4) queued(5) good by (auto simp: fun_eq_iff)
    then show ?thesis
      using b' queued good only_tx_trans [OF queued(4) b'(3)] by (auto simp: then_do_cases(1))
  qed
qed

lemma handle_publish_unfold:
  assumes wf: "broker_wf cfg b"
  shows "PicoBroker_handle_publish cfg sid p b =
    then_do (deliver_loop p (recipients cfg p b)) (\<lambda>_.
      if acks p = [] then ret ()
      else then_do (on_sessions (SessionRegistry_queue_tx_packet sid (hd (acks p)))) (\<lambda>_. ret ())) b"
proof -
  have "MAX_SUBSCRIBERS_PER_TOPIC cfg < 2 ^ 16" using wf by (simp add: broker_wf_def registry_wf_def)
  from get_subscribers_eq [OF this, of "pub_topic_name p" "br_topics b"] obtain v where
    v: "TopicRegistry_get_subscribers (MAX_SUBSCRIBERS_PER_TOPIC cfg) (pub_topic_name p) (br_topics b) = Ok v"
      "vec_wf v" "HeaplessVec_as_slice v = recipients cfg p b"
    unfolding recipients_def by blast
  have "HeaplessVec_collect 0 (HeaplessVec_into_iter v) = Ok (recipients cfg p b)"
    using HeaplessVec_collect_into_iter [OF v(2)] v(3) by simp
  moreover have "(pub_qos p > AtMostOnce \<and> pub_packet_id p \<noteq> None) \<longleftrightarrow> acks p \<noteq> []"
    "acks p \<noteq> [] \<Longrightarrow> PubAck \<lparr>puback_packet_id = the (pub_packet_id p)\<rparr> = hd (acks p)"
    by (auto simp: acks_def split: option.splits if_splits)
  ultimately show ?thesis
    using v(1) by (simp add: PicoBroker_handle_publish_def Let_def cong: if_cong)
qed

lemma handle_publish_delivers:
  assumes wf: "broker_wf cfg b" and sid: "sid \<in> set (session_ids b)"
    and room: "\<forall>k \<in> set (recipients cfg p b). has_room cfg b k"
    and ack: "length (tx b sid) + (if sid \<in> set (recipients cfg p b) then 1 else 0) + length (acks p) \<le> QUEUE_SIZE cfg"
  shows "\<exists>b'. PicoBroker_handle_publish cfg sid p b = (Ok (), b') \<and> broker_wf cfg b' \<and> only_tx b b' \<and>
    tx b' = (\<lambda>k. tx b k @ (if k \<in> set (recipients cfg p b) then [Publish p] else []) @ (if k = sid then acks p else []))"
proof -
  let ?ks = "recipients cfg p b"
  have "?ks = takeWhile (has_room cfg b) ?ks" using room by (metis takeWhile_eq_all_conv)
  from deliver_loop_eq [where p = p, OF wf recipients_registered [OF wf, of p] this] obtain b1 where
    b1: "deliver_loop p ?ks b = (Ok (), b1)" "broker_wf cfg b1" "only_tx b b1"
      "tx b1 = (\<lambda>k. tx b k @ (if k \<in> set ?ks then [Publish p] else []))" by auto
  show ?thesis
  proof (cases "acks p = []")
    case True
    then show ?thesis using b1 by (auto simp: handle_publish_unfold [OF wf] then_do_cases(1))
  next
    case False
    then have one: "acks p = [hd (acks p)]" by (auto simp: acks_def split: option.splits if_splits)
    then have la: "length (acks p) = 1" by (metis length_Cons list.size(3) One_nat_def)
    have "sid \<in> set (session_ids b1)" using sid b1(3) by (simp add: only_tx_def)
    with b1(2) show ?thesis
    proof (cases rule: queue_tx_step [where p = "hd (acks p)"])
      case full
      then show ?thesis using ack la by (auto simp: b1(4) split: if_splits)
    next
      case (queued b2)
      have "tx b2 = (\<lambda>k. tx b k @ (if k \<in> set ?ks then [Publish p] else []) @ (if k = sid then acks p else []))"
        unfolding queued(5) b1(4) using one by (auto simp: fun_eq_iff)
      then show ?thesis
        using queued b1(1) False only_tx_trans [OF b1(3) queued(4)]
        by (auto simp: handle_publish_unfold [OF wf] then_do_apply)
    qed
  qed
qed

lemma handle_publish_refused:
  assumes wf: "broker_wf cfg b" and full: "\<not> (\<forall>k \<in> set (recipients cfg p b). has_room cfg b k)"
  shows "\<exists>b' before k after. recipients cfg p b = before @ k # after \<and> \<not> has_room cfg b k \<and>
    PicoBroker_handle_publish cfg sid p b = (Err (SessionQueueFull k (QUEUE_SIZE cfg)), b') \<and>
    broker_wf cfg b' \<and> only_tx b b' \<and> tx b' = (\<lambda>j. tx b j @ (if j \<in> set before then [Publish p] else []))"
proof -
  let ?ks = "recipients cfg p b" and ?good = "takeWhile (has_room cfg b) (recipients cfg p b)"
  have ne: "?good \<noteq> ?ks" using full by (metis takeWhile_eq_all_conv)
  from deliver_loop_eq [where p = p, OF wf recipients_registered [OF wf, of p] refl, unfolded if_not_P [OF ne]]
  obtain b1 where
    b1: "deliver_loop p ?ks b = (Err (SessionQueueFull (?ks ! length ?good) (QUEUE_SIZE cfg)), b1)"
      "broker_wf cfg b1" "only_tx b b1" "tx b1 = (\<lambda>k. tx b k @ (if k \<in> set ?good then [Publish p] else []))"
    by blast
  have lt: "length ?good < length ?ks"
    using ne by (metis length_takeWhile_le nat_less_le takeWhile_eq_take take_all_iff order_refl)
  then have "?ks = ?good @ ?ks ! length ?good # drop (Suc (length ?good)) ?ks"
    by (metis id_take_nth_drop takeWhile_eq_take)
  moreover have "\<not> has_room cfg b (?ks ! length ?good)" using lt by (rule nth_length_takeWhile)
  ultimately show ?thesis
    using b1 by (auto simp: handle_publish_unfold [OF wf] then_do_cases(2))
qed

section \<open>The contract of a handler\<close>

definition capacity_error :: "config \<Rightarrow> BrokerError \<Rightarrow> bool" where
  "capacity_error cfg e \<longleftrightarrow> (\<exists>k. e = SessionQueueFull k (QUEUE_SIZE cfg)) \<or>
     e = MaxTopicsReached (MAX_TOPICS cfg) (MAX_TOPICS cfg) \<or>
     e = MaxSubscribersPerTopicReached (MAX_SUBSCRIBERS_PER_TOPIC cfg) (MAX_SUBSCRIBERS_PER_TOPIC cfg)"

definition fine :: "config \<Rightarrow> ('a, BrokerError) result \<Rightarrow> bool" where
  "fine cfg x \<longleftrightarrow> is_ok x \<or> (\<exists>e. x = Err e \<and> capacity_error cfg e)"

text \<open>The transmit queues grow at the end, by packets from \<open>G\<close>.\<close>

definition appends :: "Packet set \<Rightarrow> PicoBroker \<Rightarrow> PicoBroker \<Rightarrow> bool" where
  "appends G b b' \<longleftrightarrow> (\<exists>new. tx b' = (\<lambda>k. tx b k @ new k) \<and> (\<forall>k. set (new k) \<subseteq> G))"

definition handler_ok :: "config \<Rightarrow> u128 \<Rightarrow> Packet set \<Rightarrow> (PicoBroker, 'a, BrokerError) action \<Rightarrow> bool" where
  "handler_ok cfg sid G m \<longleftrightarrow> (\<forall>b. broker_wf cfg b \<longrightarrow> sid \<in> set (session_ids b) \<longrightarrow>
     (\<exists>x b'. m b = (x, b') \<and> fine cfg x \<and> broker_wf cfg b' \<and> session_ids b' = session_ids b \<and> rx b' = rx b \<and>
       appends G b b'))"

lemma appends_same: "tx b' = tx b \<Longrightarrow> appends G b b'"
  unfolding appends_def by (rule exI [of _ "\<lambda>_. []"]) simp

lemma appends_refl [simp]: "appends G b b"
  by (rule appends_same) simp

lemma appends_trans:
  assumes "appends G a b" "appends G b c"
  shows "appends G a c"
proof -
  obtain n1 n2 where "tx b = (\<lambda>k. tx a k @ n1 k)" "\<forall>k. set (n1 k) \<subseteq> G" "tx c = (\<lambda>k. tx b k @ n2 k)" "\<forall>k. set (n2 k) \<subseteq> G"
    using assms unfolding appends_def by blast
  then show ?thesis unfolding appends_def by (intro exI [of _ "\<lambda>k. n1 k @ n2 k"]) auto
qed

lemma appends_one: "tx b' = (tx b)(k := tx b k @ [p]) \<Longrightarrow> p \<in> G \<Longrightarrow> appends G b b'"
  unfolding appends_def by (intro exI [of _ "\<lambda>j. if j = k then [p] else []"]) auto

lemma fine_simps [simp]: "fine cfg (Ok a)" "fine cfg (Err e) = capacity_error cfg e" "\<not> fine cfg Panic"
  by (simp_all add: fine_def)

lemma handler_okE:
  assumes "handler_ok cfg sid G m" "broker_wf cfg b" "sid \<in> set (session_ids b)"
  obtains x b' where "m b = (x, b')" "fine cfg x" "broker_wf cfg b'" "session_ids b' = session_ids b" "rx b' = rx b"
    "appends G b b'"
  using assms unfolding handler_ok_def by metis

lemma handler_ok_then:
  assumes m: "handler_ok cfg sid G m" and f: "\<And>a. handler_ok cfg sid G (f a)"
  shows "handler_ok cfg sid G (then_do m f)"
  unfolding handler_ok_def
proof (intro allI impI)
  fix b assume b: "broker_wf cfg b" "sid \<in> set (session_ids b)"
  from m b obtain x b1 where b1: "m b = (x, b1)" "fine cfg x" "broker_wf cfg b1"
    "session_ids b1 = session_ids b" "rx b1 = rx b" "appends G b b1" by (rule handler_okE)
  show "\<exists>x b'. then_do m f b = (x, b') \<and> fine cfg x \<and> broker_wf cfg b' \<and> session_ids b' = session_ids b \<and>
      rx b' = rx b \<and> appends G b b'"
  proof (cases x)
    case (Ok a)
    have "sid \<in> set (session_ids b1)" using b b1 by simp
    from f [of a] b1(3) this obtain y b2 where "f a b1 = (y, b2)" "fine cfg y" "broker_wf cfg b2"
      "session_ids b2 = session_ids b1" "rx b2 = rx b1" "appends G b1 b2" by (rule handler_okE)
    with b1 Ok appends_trans [OF b1(6)] show ?thesis by (auto simp: then_do_cases(1))
  qed (use b1 in \<open>auto simp: then_do_cases\<close>)
qed

lemma handler_ok_ret: "handler_ok cfg sid G (ret a)"
  by (auto simp: handler_ok_def)

lemma only_tx_rx: "only_tx b b' \<Longrightarrow> rx b' = rx b"
proof
  fix k
  assume "only_tx b b'"
  then have "map_option core (session_of b' k) = map_option core (session_of b k)" by (simp add: only_tx_def)
  then show "rx b' k = rx b k" by (auto simp: rx_def core_def split: option.splits)
qed

lemma handler_ok_queue_tx:
  assumes "p \<in> G"
  shows "handler_ok cfg sid G (on_sessions (SessionRegistry_queue_tx_packet sid p))"
  unfolding handler_ok_def
proof (intro allI impI)
  fix b assume b: "broker_wf cfg b" "sid \<in> set (session_ids b)"
  then show "\<exists>x b'. on_sessions (SessionRegistry_queue_tx_packet sid p) b = (x, b') \<and> fine cfg x \<and> broker_wf cfg b' \<and>
    session_ids b' = session_ids b \<and> rx b' = rx b \<and> appends G b b'"
  proof (cases rule: queue_tx_step [where p = p])
    case (queued b')
    then show ?thesis
      using only_tx_rx [OF queued(4)] appends_one [OF queued(5) assms] by (simp add: only_tx_def)
  next
    case full
    then show ?thesis using b by (simp add: capacity_error_def)
  qed
qed

lemma handler_ok_update:
  assumes "\<And>s. session_wf (QUEUE_SIZE cfg) s \<Longrightarrow> is_ok (fst (m s)) \<and> session_id (snd (m s)) = session_id s \<and>
    session_wf (QUEUE_SIZE cfg) (snd (m s)) \<and> rx_queue (snd (m s)) = rx_queue s \<and> tx_queue (snd (m s)) = tx_queue s"
  shows "handler_ok cfg sid G (on_sessions (on_session sid m))"
  unfolding handler_ok_def
proof (intro allI impI)
  fix b assume b: "broker_wf cfg b" "sid \<in> set (session_ids b)"
  then obtain s where s: "session_of b sid = Some s" using session_of_iff by metis
  obtain x s' where m: "m s = (x, s')" by force
  have "session_wf (QUEUE_SIZE cfg) s" using sr.lookup_law [OF broker_wf_parts(2) [OF b(1)] s] by simp
  with assms [of s] m have s': "is_ok x" "session_id s' = session_id s" "session_wf (QUEUE_SIZE cfg) s'"
    "rx_queue s' = rx_queue s" "tx_queue s' = tx_queue s" by simp_all
  from update_session_eq [where m = m, OF b(1) s m s'(2,3)] obtain b' where
    b': "on_sessions (on_session sid m) b = (x, b')" "broker_wf cfg b'" "session_ids b' = session_ids b"
    "session_of b' = (session_of b)(sid \<mapsto> s')" by blast
  have "rx b' = rx b" "tx b' = tx b" using b'(4) s s'(4,5) by (auto simp: rx_def tx_def fun_eq_iff)
  then show "\<exists>x b'. on_sessions (on_session sid m) b = (x, b') \<and> fine cfg x \<and> broker_wf cfg b' \<and>
      session_ids b' = session_ids b \<and> rx b' = rx b \<and> appends G b b'"
    using b' s'(1) appends_same by (simp add: fine_def)
qed

lemma handler_ok_simple:
  "handler_ok cfg sid G (on_sessions (SessionRegistry_mark_connected sid))"
  "handler_ok cfg sid G (on_sessions (SessionRegistry_mark_disconnected sid))"
  "handler_ok cfg sid G (on_sessions (SessionRegistry_update_client_id sid c))"
  "handler_ok cfg sid G (on_sessions (SessionRegistry_update_keep_alive sid a))"
  unfolding SessionRegistry_mark_connected_def SessionRegistry_mark_disconnected_def
    SessionRegistry_update_client_id_def SessionRegistry_update_keep_alive_def
  by (rule handler_ok_update; simp add: session_state_keeps)+

definition subscribe_error :: "config \<Rightarrow> PicoBroker \<Rightarrow> TopicName \<Rightarrow> BrokerError \<Rightarrow> bool" where
  "subscribe_error cfg b f e \<longleftrightarrow>
     e = MaxTopicsReached (MAX_TOPICS cfg) (MAX_TOPICS cfg) \<and> f \<notin> fst ` subscriptions_of b \<and>
       card (fst ` subscriptions_of b) = MAX_TOPICS cfg \<or>
     e = MaxSubscribersPerTopicReached (MAX_SUBSCRIBERS_PER_TOPIC cfg) (MAX_SUBSCRIBERS_PER_TOPIC cfg) \<and>
       card {k. (f, k) \<in> subscriptions_of b} = MAX_SUBSCRIBERS_PER_TOPIC cfg"

lemma subscribe_step:
  assumes wf: "broker_wf cfg b" and sid: "sid \<in> set (session_ids b)"
  obtains (subscribed) b' where
        "on_topics (TopicRegistry_subscribe (MAX_SUBSCRIBERS_PER_TOPIC cfg) sid f) b = (Ok (), b')" "broker_wf cfg b'"
        "br_sessions b' = br_sessions b" "subscriptions_of b' = insert (f, sid) (subscriptions_of b)"
    | (refused) e where "on_topics (TopicRegistry_subscribe (MAX_SUBSCRIBERS_PER_TOPIC cfg) sid f) b = (Err e, b)"
        "(f, sid) \<notin> subscriptions_of b" "subscribe_error cfg b f e"
proof -
  let ?m = "TopicRegistry_subscribe (MAX_SUBSCRIBERS_PER_TOPIC cfg) sid f" and ?t = "br_topics b"
  note tw = broker_wf_parts(1) [OF wf]
  from tw show ?thesis
  proof (cases rule: tr.subscribe_cases [where k = sid and f = f])
    case (subscribed t')
    have "on_topics ?m b = (Ok (), b\<lparr>br_topics := t'\<rparr>)" using subscribed(1) by (rule on_topics_eq)
    moreover have "broker_wf cfg (b\<lparr>br_topics := t'\<rparr>)"
      using wf sid subscribed by (auto simp: broker_wf_def)
    ultimately show ?thesis using that(1) subscribed(3) by simp
  next
    case (refused e)
    have "on_topics ?m b = (Err e, b)" using refused(1) by (simp add: on_topics_def on_field_def)
    then show ?thesis
      using that(2) refused(2) subscribe_full(3) [OF tw refused(1)] by (simp add: subscribe_error_def)
  qed
qed

lemma handler_ok_subscribe:
  "handler_ok cfg sid G (on_topics (TopicRegistry_subscribe (MAX_SUBSCRIBERS_PER_TOPIC cfg) sid f))"
  unfolding handler_ok_def
proof (intro allI impI)
  fix b assume b: "broker_wf cfg b" "sid \<in> set (session_ids b)"
  then show "\<exists>x b'. on_topics (TopicRegistry_subscribe (MAX_SUBSCRIBERS_PER_TOPIC cfg) sid f) b = (x, b') \<and>
    fine cfg x \<and> broker_wf cfg b' \<and> session_ids b' = session_ids b \<and> rx b' = rx b \<and> appends G b b'"
  proof (cases rule: subscribe_step [where f = f])
    case (subscribed b')
    then have "rx b' = rx b" "tx b' = tx b" by (simp_all add: rx_def tx_def fun_eq_iff)
    then show ?thesis using subscribed appends_same by simp
  next
    case (refused e)
    then show ?thesis using b by (auto simp: capacity_error_def subscribe_error_def)
  qed
qed

lemma handler_ok_publish:
  "handler_ok cfg sid ({Publish p} \<union> set (acks p)) (PicoBroker_handle_publish cfg sid p)"
  unfolding handler_ok_def
proof (intro allI impI)
  fix b assume b: "broker_wf cfg b" "sid \<in> set (session_ids b)"
  let ?good = "takeWhile (has_room cfg b) (recipients cfg p b)" and ?G = "{Publish p} \<union> set (acks p)"
  let ?ack = "if acks p = [] then ret ()
      else then_do (on_sessions (SessionRegistry_queue_tx_packet sid (hd (acks p)))) (\<lambda>_. ret ())"
  obtain b1 where b1: "deliver_loop p (recipients cfg p b) b = (if ?good = recipients cfg p b then Ok ()
        else Err (SessionQueueFull (recipients cfg p b ! length ?good) (QUEUE_SIZE cfg)), b1)"
      "broker_wf cfg b1" "only_tx b b1" "tx b1 = (\<lambda>k. tx b k @ (if k \<in> set ?good then [Publish p] else []))"
    using deliver_loop_eq [where p = p, OF b(1) recipients_registered [OF b(1), of p] refl] by blast
  have ids: "session_ids b1 = session_ids b" "rx b1 = rx b"
    using b1(3) only_tx_rx [OF b1(3)] by (simp_all add: only_tx_def)
  have ap: "appends ?G b b1"
    unfolding appends_def using b1(4) by (intro exI [of _ "\<lambda>k. if k \<in> set ?good then [Publish p] else []"]) auto
  have "handler_ok cfg sid ?G ?ack"
    by (auto intro!: handler_ok_then handler_ok_queue_tx handler_ok_ret [unfolded ret_def] simp: ret_def)
  moreover have "sid \<in> set (session_ids b1)" using b ids by simp
  ultimately obtain x b2 where b2: "?ack b1 = (x, b2)" "fine cfg x" "broker_wf cfg b2"
    "session_ids b2 = session_ids b1" "rx b2 = rx b1" "appends ?G b1 b2" using b1(2) by (auto elim: handler_okE)
  show "\<exists>x b'. PicoBroker_handle_publish cfg sid p b = (x, b') \<and> fine cfg x \<and> broker_wf cfg b' \<and>
      session_ids b' = session_ids b \<and> rx b' = rx b \<and> appends ?G b b'"
  proof (cases "?good = recipients cfg p b")
    case True
    then show ?thesis
      using b1 b2 ids appends_trans [OF ap b2(6)] by (simp only: handle_publish_unfold [OF b(1)] then_do_cases(1) if_True simp_thms) auto
  next
    case False
    then show ?thesis
      using b1 ids ap by (simp only: handle_publish_unfold [OF b(1)] then_do_cases(2) if_False simp_thms)
        (auto simp: capacity_error_def)
  qed
qed

locale broker_handler =
  fixes cfg :: config and handle :: "u128 \<Rightarrow> (PicoBroker, unit, BrokerError) action" and responses :: "Packet set"
  assumes handler_law: "handler_ok cfg sid responses (handle sid)"
begin

lemma handled:
  assumes "broker_wf cfg b" "sid \<in> set (session_ids b)"
  obtains (processed) b' where "handle sid b = (Ok (), b')" "broker_wf cfg b'" "session_ids b' = session_ids b" "rx b' = rx b"
        "appends responses b b'"
    | (refused) e b' where "handle sid b = (Err e, b')" "capacity_error cfg e" "broker_wf cfg b'"
        "session_ids b' = session_ids b" "rx b' = rx b" "appends responses b b'"
proof -
  from handler_law assms obtain x b' where b': "handle sid b = (x, b')" "fine cfg x" "broker_wf cfg b'"
    "session_ids b' = session_ids b" "rx b' = rx b" "appends responses b b'" by (rule handler_okE)
  then show ?thesis by (cases x) (auto intro: that)
qed

lemma never_panics: "broker_wf cfg b \<Longrightarrow> sid \<in> set (session_ids b) \<Longrightarrow> fst (handle sid b) \<noteq> Panic"
  by (erule handled) auto

lemma keeps_wf: "broker_wf cfg b \<Longrightarrow> sid \<in> set (session_ids b) \<Longrightarrow> broker_wf cfg (snd (handle sid b))"
  by (erule handled) auto

end

text \<open>What the broker may queue in response to a packet.\<close>

fun responses_to :: "Packet \<Rightarrow> Packet set" where
  "responses_to (Connect _) = {ConnAck ConnAckPacket_default}"
| "responses_to (Publish p) = {Publish p} \<union> set (acks p)"
| "responses_to (Subscribe p) = {SubAck \<lparr>suback_packet_id = sub_packet_id p, granted_qos = sub_requested_qos p\<rparr>}"
| "responses_to (PingReq _) = {PingResp PingRespPacket}"
| "responses_to _ = {}"

interpretation h_connect: broker_handler cfg "\<lambda>sid. PicoBroker_handle_connect sid c" "responses_to (Connect c)" for cfg c
proof
  fix sid
  note intros = handler_ok_then handler_ok_ret handler_ok_simple handler_ok_queue_tx
  show "handler_ok cfg sid (responses_to (Connect c)) (PicoBroker_handle_connect sid c)"
    unfolding PicoBroker_handle_connect_def Let_def
    by (cases "HeaplessString_is_empty (con_client_id c)"; simp only: simp_thms if_True if_False)
      (intro intros; simp)+
qed

interpretation h_publish: broker_handler cfg "\<lambda>sid. PicoBroker_handle_publish cfg sid p" "responses_to (Publish p)" for cfg p
  by unfold_locales (unfold responses_to.simps, rule handler_ok_publish)

interpretation h_subscribe: broker_handler cfg "\<lambda>sid. PicoBroker_handle_subscribe cfg sid p" "responses_to (Subscribe p)"
  for cfg p
  by unfold_locales
    (unfold PicoBroker_handle_subscribe_def Let_def, intro handler_ok_then handler_ok_subscribe handler_ok_queue_tx, simp)

interpretation h_pingreq: broker_handler cfg PicoBroker_handle_pingreq "responses_to (PingReq q)" for cfg q
  by unfold_locales (unfold PicoBroker_handle_pingreq_def, rule handler_ok_queue_tx, simp)

interpretation h_disconnect: broker_handler cfg PicoBroker_handle_disconnect "responses_to (Disconnect q)" for cfg q
  by unfold_locales
    (unfold PicoBroker_handle_disconnect_def PicoBroker_mark_session_disconnected_def, rule handler_ok_simple)

interpretation h_packet: broker_handler cfg "\<lambda>sid. PicoBroker_handle_packet cfg sid p" "responses_to p" for cfg p
proof
  show "handler_ok cfg sid (responses_to p) (PicoBroker_handle_packet cfg sid p)" for sid
    using handler_ok_ret [of cfg sid "{}" "()"] h_connect.handler_law h_publish.handler_law h_subscribe.handler_law
      h_pingreq.handler_law h_disconnect.handler_law
    by (cases p) (simp_all only: PicoBroker_handle_packet.simps responses_to.simps(5-))
qed

section \<open>The processing loop\<close>

lemma dequeue_rx_step:
  assumes wf: "broker_wf cfg b" and sid: "sid \<in> set (session_ids b)"
  shows "\<exists>b'. on_sessions (SessionRegistry_dequeue_rx_packet sid) b = (Ok (front_of (rx b sid)), b') \<and>
    broker_wf cfg b' \<and> br_topics b' = br_topics b \<and> session_ids b' = session_ids b \<and>
    rx b' = (rx b)(sid := tl (rx b sid)) \<and> tx b' = tx b"
proof -
  obtain s where s: "session_of b sid = Some s" using sid session_of_iff by metis
  from dequeue_rx_eq [OF broker_wf_parts(2) [OF wf] s] obtain r' q where
    r': "SessionRegistry_dequeue_rx_packet sid (br_sessions b) = (Ok (front_of (packets (rx_queue s))), r')"
    "sessions_wf (MAX_SESSIONS cfg) (QUEUE_SIZE cfg) r'" "ids r' = session_ids b"
    "lookup r' = (session_of b)(sid \<mapsto> s\<lparr>rx_queue := q\<rparr>)" "packets q = tl (packets (rx_queue s))" by blast
  let ?b = "b\<lparr>br_sessions := r'\<rparr>"
  have "on_sessions (SessionRegistry_dequeue_rx_packet sid) b = (Ok (front_of (rx b sid)), ?b)"
    using r'(1) s by (simp add: rx_def on_sessions_def on_field_def)
  moreover have "rx ?b = (rx b)(sid := tl (rx b sid))" "tx ?b = tx b"
    using r'(4,5) s by (auto simp: rx_def tx_def fun_eq_iff)
  ultimately show ?thesis using broker_wf_sessions [OF wf r'(2,3)] r'(3) by auto
qed

lemma appends_mono: "appends G b b' \<Longrightarrow> G \<subseteq> H \<Longrightarrow> appends H b b'"
  unfolding appends_def by blast

lemma appends_first:
  assumes "tx b1 = tx b" "appends G b1 b2" "appends H b2 b3" "G \<union> H \<subseteq> F"
  shows "appends F b b3"
proof -
  have "appends F b1 b2" "appends F b2 b3" using assms by (auto intro: appends_mono)
  then show ?thesis using appends_trans [OF appends_same [OF assms(1)], of F] appends_trans by blast
qed

text \<open>
  Processing one session: if it succeeds, its receive queue is empty; the other receive queues are as they
  were, the invariant holds, a failure is a capacity error, and what was queued for sending responds to
  the packets that the session had received.
\<close>

definition responses_from :: "PicoBroker \<Rightarrow> u128 set \<Rightarrow> Packet set" where
  "responses_from b ks = (\<Union>k \<in> ks. \<Union> (responses_to ` set (rx b k)))"

lemma responses_from_cong:
  "(\<And>k. k \<in> ks \<Longrightarrow> rx b' k = rx b k) \<Longrightarrow> responses_from b' ks = responses_from b ks"
  by (auto simp: responses_from_def)

lemma process_session_eq:
  "broker_wf cfg b \<Longrightarrow> sid \<in> set (session_ids b) \<Longrightarrow>
     \<exists>x b'. PicoBroker_process_session cfg sid b = (x, b') \<and> fine cfg x \<and> broker_wf cfg b' \<and>
       session_ids b' = session_ids b \<and> (\<forall>k. k \<noteq> sid \<longrightarrow> rx b' k = rx b k) \<and> (is_ok x \<longrightarrow> rx b' sid = []) \<and>
       set (rx b' sid) \<subseteq> set (rx b sid) \<and> appends (responses_from b {sid}) b b'"
proof (induction cfg sid b rule: PicoBroker_process_session.induct)
  case (1 cfg sid b)
  from dequeue_rx_step [OF "1.prems"] obtain b1 where
    b1: "on_sessions (SessionRegistry_dequeue_rx_packet sid) b = (Ok (front_of (rx b sid)), b1)"
    "broker_wf cfg b1" "session_ids b1 = session_ids b" "rx b1 = (rx b)(sid := tl (rx b sid))" "tx b1 = tx b" by blast
  show ?case
  proof (cases "rx b sid")
    case Nil
    then show ?thesis
      using b1 appends_same [OF b1(5)] by (subst PicoBroker_process_session.simps) (auto simp: front_of_def)
  next
    case (Cons packet rest)
    then have deq: "on_sessions (SessionRegistry_dequeue_rx_packet sid) b = (Ok (Some packet), b1)"
      using b1(1) by (simp add: front_of_def)
    have sid1: "sid \<in> set (session_ids b1)" using "1.prems" b1 by simp
    have resp: "responses_to packet \<union> responses_from b1 {sid} \<subseteq> responses_from b {sid}"
      using Cons b1(4) by (auto simp: responses_from_def)
    from b1(2) sid1 show ?thesis
    proof (cases rule: h_packet.handled [where p = packet])
      case (refused e b2)
      have "appends (responses_from b {sid}) b b2"
        using appends_first [OF b1(5) refused(6) appends_refl resp] .
      then show ?thesis
        using deq b1 refused Cons by (subst PicoBroker_process_session.simps) auto
    next
      case (processed b2)
      have "sid \<in> set (session_ids b2)" using sid1 processed by simp
      from "1.IH" [OF deq [symmetric] refl refl processed(1) [symmetric] refl processed(2) this] obtain x b' where
        b': "PicoBroker_process_session cfg sid b2 = (x, b')" "fine cfg x" "broker_wf cfg b'"
        "session_ids b' = session_ids b2" "\<forall>k. k \<noteq> sid \<longrightarrow> rx b' k = rx b2 k" "is_ok x \<longrightarrow> rx b' sid = []"
        "set (rx b' sid) \<subseteq> set (rx b2 sid)" "appends (responses_from b2 {sid}) b2 b'" by blast
      have "responses_from b2 {sid} = responses_from b1 {sid}" using processed(4) by (simp add: responses_from_def)
      then have "appends (responses_from b {sid}) b b'"
        using appends_first [OF b1(5) processed(5) b'(8)] resp by simp
      then show ?thesis
        using deq processed b1 b' Cons by (subst PicoBroker_process_session.simps) auto
    qed
  qed
qed

lemma process_sessions_eq:
  "broker_wf cfg b \<Longrightarrow> distinct sids \<Longrightarrow> set sids \<subseteq> set (session_ids b) \<Longrightarrow>
     \<exists>x b'. process_sessions cfg sids b = (x, b') \<and> fine cfg x \<and> broker_wf cfg b' \<and> session_ids b' = session_ids b \<and>
       (\<forall>k. k \<notin> set sids \<longrightarrow> rx b' k = rx b k) \<and> (is_ok x \<longrightarrow> (\<forall>k \<in> set sids. rx b' k = [])) \<and>
       (\<forall>k. set (rx b' k) \<subseteq> set (rx b k)) \<and> appends (responses_from b (set sids)) b b'"
proof (induction sids arbitrary: b)
  case Nil
  then show ?case by simp
next
  case (Cons sid sids)
  then have "sid \<in> set (session_ids b)" by simp
  from process_session_eq [OF Cons.prems(1) this] obtain x b1 where
    b1: "PicoBroker_process_session cfg sid b = (x, b1)" "fine cfg x" "broker_wf cfg b1"
    "session_ids b1 = session_ids b" "\<forall>k. k \<noteq> sid \<longrightarrow> rx b1 k = rx b k" "is_ok x \<longrightarrow> rx b1 sid = []"
    "set (rx b1 sid) \<subseteq> set (rx b sid)" "appends (responses_from b {sid}) b b1" by blast
  have "set (rx b1 k) \<subseteq> set (rx b k)" for k using b1(5,7) by (cases "k = sid") auto
  then have sub1: "\<forall>k. set (rx b1 k) \<subseteq> set (rx b k)" by blast
  have resp: "responses_from b {sid} \<subseteq> responses_from b (set (sid # sids))" by (auto simp: responses_from_def)
  show ?case
  proof (cases x)
    case (Ok u)
    have "set sids \<subseteq> set (session_ids b1)" using Cons.prems b1 by simp
    from Cons.IH [OF b1(3) _ this] Cons.prems(2) obtain y b2 where
      b2: "process_sessions cfg sids b1 = (y, b2)" "fine cfg y" "broker_wf cfg b2" "session_ids b2 = session_ids b1"
      "\<forall>k. k \<notin> set sids \<longrightarrow> rx b2 k = rx b1 k" "is_ok y \<longrightarrow> (\<forall>k \<in> set sids. rx b2 k = [])"
      "\<forall>k. set (rx b2 k) \<subseteq> set (rx b1 k)" "appends (responses_from b1 (set sids)) b1 b2" by auto
    have "responses_from b1 (set sids) = responses_from b (set sids)"
      using b1(5) Cons.prems(2) by (intro responses_from_cong) auto
    then have "appends (responses_from b (set (sid # sids))) b b2"
      using appends_first [OF refl b1(8) b2(8)] resp by (auto simp: responses_from_def)
    moreover have "\<forall>k. set (rx b2 k) \<subseteq> set (rx b k)" using sub1 b2(7) by (meson order_trans)
    ultimately show ?thesis
      using b1 b2 Ok Cons.prems(2) by (auto simp: then_do_cases(1))
  qed (use b1 sub1 appends_mono [OF b1(8) resp] in \<open>auto simp: then_do_cases\<close>)
qed

lemma process_all_eq:
  assumes wf: "broker_wf cfg b"
  shows "\<exists>x b'. PicoBroker_process_all_session_packets cfg b = (x, b') \<and> fine cfg x \<and> broker_wf cfg b' \<and>
    session_ids b' = session_ids b \<and> (is_ok x \<longrightarrow> (\<forall>k. rx b' k = [])) \<and>
    (\<forall>k. set (rx b' k) \<subseteq> set (rx b k)) \<and> appends (responses_from b (set (session_ids b))) b b'"
proof -
  note sw = broker_wf_parts(2) [OF wf]
  have "distinct (session_ids b)" using sr.ids_law [OF sw] by simp
  from process_sessions_eq [OF wf this subset_refl] obtain x b' where
    b': "process_sessions cfg (session_ids b) b = (x, b')" "fine cfg x" "broker_wf cfg b'" "session_ids b' = session_ids b"
      "is_ok x \<longrightarrow> (\<forall>k \<in> set (session_ids b). rx b' k = [])" "\<forall>k. set (rx b' k) \<subseteq> set (rx b k)"
      "appends (responses_from b (set (session_ids b))) b b'"
    by blast
  have "rx b' k = []" if "is_ok x" for k
  proof (cases "k \<in> set (session_ids b)")
    case True
    then show ?thesis using b'(5) that by simp
  next
    case False
    then have "session_of b' k = None" using b'(4) by (simp add: lookup_None)
    then show ?thesis by (simp add: rx_def)
  qed
  then show ?thesis
    using b' get_all_sessions_eq [OF sw]
    by (simp add: PicoBroker_process_all_session_packets_def PicoBroker_get_all_sessions_def)
qed

section \<open>CONNECT, SUBSCRIBE and the pending sessions\<close>

definition connected :: "ConnectPacket \<Rightarrow> Session \<Rightarrow> Session" where
  "connected c s = s\<lparr>client_id := (if HeaplessString_bytes (con_client_id c) = [] then client_id s else Some (con_client_id c)),
     sess_state := Connected, keep_alive_secs := con_keep_alive c\<rparr>"

lemma handle_connect_updates:
  assumes wf: "broker_wf cfg b" and s: "session_of b sid = Some s" and c: "str_ok (con_client_id c)"
  shows "\<exists>b'. PicoBroker_handle_connect sid c b =
      on_sessions (SessionRegistry_queue_tx_packet sid (ConnAck ConnAckPacket_default)) b' \<and> broker_wf cfg b' \<and>
    br_topics b' = br_topics b \<and> session_ids b' = session_ids b \<and>
    session_of b' = (session_of b)(sid \<mapsto> connected c s)"
proof -
  let ?e = "HeaplessString_is_empty (con_client_id c)"
  let ?s1 = "if ?e then s else s\<lparr>client_id := Some (con_client_id c)\<rparr>"
  let ?s2 = "?s1\<lparr>keep_alive_secs := con_keep_alive c\<rparr>"
  have sw: "session_wf (QUEUE_SIZE cfg) s" using sr.lookup_law [OF broker_wf_parts(2) [OF wf] s] by simp
  have e: "?e \<longleftrightarrow> HeaplessString_bytes (con_client_id c) = []"
    using c by (simp add: HeaplessString_is_empty_eq str_ok_def)
  have "\<exists>b1. (if \<not> ?e then on_sessions (SessionRegistry_update_client_id sid (con_client_id c)) else ret ()) b = (Ok (), b1) \<and>
      broker_wf cfg b1 \<and> br_topics b1 = br_topics b \<and> session_ids b1 = session_ids b \<and>
      session_of b1 = (session_of b)(sid \<mapsto> ?s1)"
    using wf s update_session_eq [OF wf s, of "\<lambda>s. (Ok (), s\<lparr>client_id := Some (con_client_id c)\<rparr>)" "Ok ()"] sw
    by (cases ?e) (auto simp: SessionRegistry_update_client_id_def session_state_keeps fun_upd_idem)
  then obtain b1 where b1: "(if \<not> ?e then on_sessions (SessionRegistry_update_client_id sid (con_client_id c)) else ret ()) b = (Ok (), b1)"
    "broker_wf cfg b1" "br_topics b1 = br_topics b" "session_ids b1 = session_ids b"
    "session_of b1 = (session_of b)(sid \<mapsto> ?s1)" by blast
  have s1: "session_of b1 sid = Some ?s1" "session_wf (QUEUE_SIZE cfg) ?s1"
    using b1(5) sw by (simp_all add: session_state_keeps)
  from update_session_eq [OF b1(2) s1(1), of "\<lambda>s. (Ok (), s\<lparr>keep_alive_secs := con_keep_alive c\<rparr>)" "Ok ()" ?s2] s1(2)
  obtain b2 where b2: "on_sessions (SessionRegistry_update_keep_alive sid (con_keep_alive c)) b1 = (Ok (), b2)"
    "broker_wf cfg b2" "br_topics b2 = br_topics b1" "session_ids b2 = session_ids b1"
    "session_of b2 = (session_of b1)(sid \<mapsto> ?s2)"
    by (auto simp: SessionRegistry_update_keep_alive_def session_state_keeps)
  have s2: "session_of b2 sid = Some ?s2" "session_wf (QUEUE_SIZE cfg) ?s2"
    using b2(5) s1(2) by (simp_all add: session_state_keeps)
  from update_session_eq [OF b2(2) s2(1), of "\<lambda>s. (Ok (), s\<lparr>sess_state := Connected\<rparr>)" "Ok ()" "?s2\<lparr>sess_state := Connected\<rparr>"] s2(2)
  obtain b3 where b3: "on_sessions (SessionRegistry_mark_connected sid) b2 = (Ok (), b3)"
    "broker_wf cfg b3" "br_topics b3 = br_topics b2" "session_ids b3 = session_ids b2"
    "session_of b3 = (session_of b2)(sid \<mapsto> ?s2\<lparr>sess_state := Connected\<rparr>)"
    by (auto simp: SessionRegistry_mark_connected_def session_state_keeps)
  have "?s2\<lparr>sess_state := Connected\<rparr> = connected c s" using e by (simp add: connected_def)
  then have "session_of b3 = (session_of b)(sid \<mapsto> connected c s)" using b3(5) b2(5) b1(5) by simp
  moreover have "then_do m ret = m" for m :: "(PicoBroker, unit, BrokerError) action"
  proof
    show "then_do m ret b = m b" for b by (cases "m b") (auto simp: then_do_apply split: result.split)
  qed
  ultimately show ?thesis
    using b1 b2 b3 by (intro exI [of _ b3]) (simp add: PicoBroker_handle_connect_def then_do_cases(1) Let_def)
qed

lemma handle_subscribe_eq:
  assumes wf: "broker_wf cfg b" and sid: "sid \<in> set (session_ids b)"
  shows "\<exists>x b'. PicoBroker_handle_subscribe cfg sid p b = (x, b') \<and> broker_wf cfg b' \<and>
    (x = Ok () \<and> subscriptions_of b' = insert (sub_topic_filter p, sid) (subscriptions_of b) \<and>
       tx b' = (tx b)(sid := tx b sid @ [SubAck \<lparr>suback_packet_id = sub_packet_id p, granted_qos = sub_requested_qos p\<rparr>]) \<or>
     x = Err (SessionQueueFull sid (QUEUE_SIZE cfg)) \<and> length (tx b sid) = QUEUE_SIZE cfg \<and> tx b' = tx b \<and>
       subscriptions_of b' = insert (sub_topic_filter p, sid) (subscriptions_of b) \<or>
     (\<exists>e. x = Err e \<and> subscribe_error cfg b (sub_topic_filter p) e) \<and> b' = b \<and>
       (sub_topic_filter p, sid) \<notin> subscriptions_of b)"
  using wf sid
proof (cases rule: subscribe_step [where f = "sub_topic_filter p"])
  case (refused e)
  then show ?thesis using wf by (auto simp: PicoBroker_handle_subscribe_def then_do_cases(2))
next
  case (subscribed b1)
  have t1: "tx b1 = tx b" "sid \<in> set (session_ids b1)" using subscribed(3) sid by (simp_all add: tx_def fun_eq_iff)
  let ?ack = "SubAck \<lparr>suback_packet_id = sub_packet_id p, granted_qos = sub_requested_qos p\<rparr>"
  have h: "PicoBroker_handle_subscribe cfg sid p b = on_sessions (SessionRegistry_queue_tx_packet sid ?ack) b1"
    using subscribed(1) by (simp add: PicoBroker_handle_subscribe_def then_do_cases(1) Let_def)
  from subscribed(2) t1(2) show ?thesis
  proof (cases rule: queue_tx_step [where p = ?ack])
    case (queued b2)
    then show ?thesis using h subscribed(4) t1(1) by (auto simp: only_tx_def)
  next
    case full
    then show ?thesis using h subscribed(2,4) t1(1) by auto
  qed
qed

lemma pending_loop_eq:
  "vec_wf v \<Longrightarrow> length (HeaplessVec_as_slice v) + length ks \<le> HeaplessVec_capacity v \<Longrightarrow>
     \<exists>v'. pending_loop r ks v = Ok v' \<and> vec_wf v' \<and> HeaplessVec_as_slice v' =
       HeaplessVec_as_slice v @ filter (\<lambda>k. SessionRegistry_has_pending_tx_packets k r) ks"
proof (induction ks arbitrary: v)
  case (Cons k ks)
  show ?case
  proof (cases "SessionRegistry_has_pending_tx_packets k r")
    case False
    then show ?thesis using Cons.IH [OF Cons.prems(1)] Cons.prems(2) by simp
  next
    case True
    from Cons.prems(1) show ?thesis
    proof (cases rule: hv.push_cases [where x = k])
      case (room v1)
      then show ?thesis using Cons.IH [OF room(3)] Cons.prems(2) True by auto
    next
      case full
      then show ?thesis using Cons.prems(2) by simp
    qed
  qed
qed simp

lemma pending_eq:
  assumes wf: "broker_wf cfg b" and cfg: "config_ok cfg"
  shows "\<exists>v. PicoBroker_get_sessions_with_pending_packets cfg b = Ok v \<and>
    HeaplessVec_as_slice v = filter (\<lambda>k. tx b k \<noteq> []) (session_ids b) \<and> vec_wf v"
proof -
  note sw = broker_wf_parts(2) [OF wf]
  let ?v = "HeaplessVec_new (MAX_SESSIONS cfg) (0 :: u128)"
  have v: "vec_wf ?v" "HeaplessVec_as_slice ?v = []" "HeaplessVec_capacity ?v = MAX_SESSIONS cfg"
    using cfg HeaplessVec_new_wf [of "MAX_SESSIONS cfg" "0 :: u128"] by (simp_all add: config_ok_def)
  have len: "length (session_ids b) \<le> MAX_SESSIONS cfg" using live_within [OF sw] by (simp add: ids_def)
  have "SessionRegistry_has_pending_tx_packets k (br_sessions b) \<longleftrightarrow> tx b k \<noteq> []" for k
    using has_pending_eq [OF sw, of k] by (auto simp: tx_def split: option.split)
  then show ?thesis
    using pending_loop_eq [OF v(1), of "session_ids b" "br_sessions b"] v(2,3) len get_all_sessions_eq [OF sw]
    by (auto simp: PicoBroker_get_sessions_with_pending_packets_def PicoBroker_get_all_sessions_def)
qed

end
