(* ===== verification/Broker_Steps.thy ===== *)
theory Broker_Steps
  imports Broker_Laws
begin

text \<open>
  The broker as a state machine. \<open>broker_step\<close> is one call of a public method that changes the broker, with the
  packets that are received coming out of \<^verbatim>\<open>Packet::decode\<close>; \<open>reachable\<close> are the states after any sequence
  of calls. The lemmas give the effect of each method, and the invariants hold in every reachable state by
  rule induction.
\<close>

section \<open>The public methods\<close>

lemma register_step:
  assumes wf: "broker_wf cfg b"
  obtains (registered) b' where "length (session_ids b) < MAX_SESSIONS cfg" "sid \<notin> set (session_ids b)"
        "PicoBroker_register_new_session cfg sid ka t b = (Ok (), b')" "broker_wf cfg b'"
        "br_topics b' = br_topics b" "session_ids b' = session_ids b @ [sid]"
        "session_of b' = (session_of b)(sid \<mapsto> Session_new (QUEUE_SIZE cfg) sid ka t)"
    | (no_room) "length (session_ids b) = MAX_SESSIONS cfg"
        "PicoBroker_register_new_session cfg sid ka t b = (Err (MaxSessionsReached (MAX_SESSIONS cfg) (MAX_SESSIONS cfg)), b)"
    | (exists) "sid \<in> set (session_ids b)"
        "PicoBroker_register_new_session cfg sid ka t b = (Err (SessionAlreadyExists sid), b)"
  using broker_wf_parts(2) [OF wf]
proof (cases rule: register_cases [where sid = sid and ka = ka and t = t])
  case (registered r')
  let ?b = "b\<lparr>br_sessions := r'\<rparr>"
  have "broker_wf cfg ?b" using wf registered by (auto simp: broker_wf_def)
  moreover have "PicoBroker_register_new_session cfg sid ka t b = (Ok (), ?b)"
    using registered(3) by (simp add: PicoBroker_register_new_session_def on_sessions_def on_field_def)
  ultimately show ?thesis using registered that(1) by simp
next
  case no_room
  then show ?thesis
    using that(2) by (simp add: PicoBroker_register_new_session_def on_sessions_def on_field_def)
next
  case exists
  then show ?thesis
    using that(3) by (simp add: PicoBroker_register_new_session_def on_sessions_def on_field_def)
qed

lemma remove_session_step:
  assumes wf: "broker_wf cfg b"
  shows "\<exists>b'. PicoBroker_remove_session sid b = (Ok (sid \<in> set (session_ids b)), b') \<and> broker_wf cfg b' \<and>
    session_ids b' = filter (\<lambda>k. k \<noteq> sid) (session_ids b) \<and> session_of b' = (session_of b)(sid := None) \<and>
    subscriptions_of b' = {p \<in> subscriptions_of b. snd p \<noteq> sid}"
proof -
  from tr.unregister_law [OF broker_wf_parts(1) [OF wf], of sid] obtain t' n where
    t': "TopicRegistry_unregister_all sid (br_topics b) = (Ok n, t')"
    "registry_wf (MAX_TOPICS cfg) (MAX_SUBSCRIBERS_PER_TOPIC cfg) t'"
    "subscriptions t' = {p \<in> subscriptions_of b. snd p \<noteq> sid}" by blast
  from sr.remove_law [OF broker_wf_parts(2) [OF wf], of sid] obtain r' where
    r': "SessionRegistry_remove_session sid (br_sessions b) = (Ok (sid \<in> set (session_ids b)), r')"
    "sessions_wf (MAX_SESSIONS cfg) (QUEUE_SIZE cfg) r'" "ids r' = filter (\<lambda>k. k \<noteq> sid) (session_ids b)"
    "lookup r' = (session_of b)(sid := None)" by blast
  let ?b = "b\<lparr>br_topics := t', br_sessions := r'\<rparr>"
  have "PicoBroker_remove_session sid b = (Ok (sid \<in> set (session_ids b)), ?b)"
    using t'(1) r'(1)
    by (simp add: PicoBroker_remove_session_def on_topics_def on_sessions_def on_field_def then_do_apply)
  moreover have "broker_wf cfg ?b"
    using wf t'(2,3) r'(2,3) by (auto simp: broker_wf_def)
  ultimately show ?thesis using t'(3) r'(3,4) by auto
qed

lemma mark_disconnected_step:
  assumes wf: "broker_wf cfg b"
  shows "session_of b sid = Some s \<Longrightarrow>
      \<exists>b'. PicoBroker_mark_session_disconnected sid b = (Ok (), b') \<and> broker_wf cfg b' \<and> br_topics b' = br_topics b \<and>
        session_ids b' = session_ids b \<and> session_of b' = (session_of b)(sid \<mapsto> s\<lparr>sess_state := Disconnected\<rparr>)"
    and "session_of b sid = None \<Longrightarrow> PicoBroker_mark_session_disconnected sid b = (Err (SessionNotFound sid), b)"
proof -
  assume s: "session_of b sid = Some s"
  have "session_wf (QUEUE_SIZE cfg) (s\<lparr>sess_state := Disconnected\<rparr>)"
    using sr.lookup_law [OF broker_wf_parts(2) [OF wf] s] by (simp add: session_state_keeps)
  then show "\<exists>b'. PicoBroker_mark_session_disconnected sid b = (Ok (), b') \<and> broker_wf cfg b' \<and> br_topics b' = br_topics b \<and>
        session_ids b' = session_ids b \<and> session_of b' = (session_of b)(sid \<mapsto> s\<lparr>sess_state := Disconnected\<rparr>)"
    unfolding PicoBroker_mark_session_disconnected_def SessionRegistry_mark_disconnected_def
    by (intro update_session_eq [OF wf s]) simp_all
next
  assume "session_of b sid = None"
  then show "PicoBroker_mark_session_disconnected sid b = (Err (SessionNotFound sid), b)"
    unfolding PicoBroker_mark_session_disconnected_def SessionRegistry_mark_disconnected_def
    by (intro update_session_missing [OF wf]) (simp add: lookup_None)
qed

text \<open>A received packet is queued at the end; the activity is updated even if the queue is full.\<close>

lemma receive_step:
  assumes wf: "broker_wf cfg b" and sid: "sid \<in> set (session_ids b)"
  shows "\<exists>x b'. PicoBroker_queue_packet_received_from_client sid p t b = (x, b') \<and> broker_wf cfg b' \<and>
    br_topics b' = br_topics b \<and> session_ids b' = session_ids b \<and> tx b' = tx b \<and>
    (\<forall>s. session_of b' sid = Some s \<longrightarrow> last_activity s = t) \<and>
    (if length (rx b sid) < QUEUE_SIZE cfg then x = Ok () \<and> rx b' = (rx b)(sid := rx b sid @ [p])
     else x = Err (SessionQueueFull sid (QUEUE_SIZE cfg)) \<and> rx b' = rx b)"
proof -
  obtain s where s: "session_of b sid = Some s" using sid session_of_iff by metis
  let ?s = "s\<lparr>last_activity := t\<rparr>"
  have "session_wf (QUEUE_SIZE cfg) ?s"
    using sr.lookup_law [OF broker_wf_parts(2) [OF wf] s] by (simp add: session_state_keeps)
  then obtain b1 where b1: "on_sessions (SessionRegistry_update_session_activity sid t) b = (Ok (), b1)"
    "broker_wf cfg b1" "br_topics b1 = br_topics b" "session_ids b1 = session_ids b"
    "session_of b1 = (session_of b)(sid \<mapsto> ?s)"
    using update_session_eq [OF wf s, of "\<lambda>s. (Ok (), Session_update_activity t s)" "Ok ()" ?s]
    by (auto simp: SessionRegistry_update_session_activity_def Session_update_activity_def)
  have s1: "session_of b1 sid = Some ?s" using b1(5) by simp
  have q: "rx b1 = rx b" "tx b1 = tx b" "rx b sid = packets (rx_queue ?s)"
    using b1(5) s by (auto simp: rx_def tx_def fun_eq_iff)
  from broker_wf_parts(2) [OF b1(2)] s1 show ?thesis
  proof (cases rule: queue_rx_cases [where p = p])
    case (queued r' qq)
    let ?b = "b1\<lparr>br_sessions := r'\<rparr>"
    have "rx ?b = (rx b)(sid := rx b sid @ [p])" "tx ?b = tx b"
      using queued(5,6) s s1 q by (auto simp: rx_def tx_def fun_eq_iff)
    moreover have "PicoBroker_queue_packet_received_from_client sid p t b = (Ok (), ?b)"
      using b1(1) queued(2)
      by (simp add: PicoBroker_queue_packet_received_from_client_def then_do_apply)
        (simp add: on_sessions_def on_field_def)
    moreover have "length (rx b sid) < QUEUE_SIZE cfg" using queued(1) q(3) by simp
    ultimately show ?thesis
      using b1 broker_wf_sessions [OF b1(2) queued(3,4)] queued(4,5) by auto
  next
    case full
    have "PicoBroker_queue_packet_received_from_client sid p t b = (Err (SessionQueueFull sid (QUEUE_SIZE cfg)), b1)"
      using b1(1) full(2)
      by (simp add: PicoBroker_queue_packet_received_from_client_def then_do_apply)
        (simp add: on_sessions_def on_field_def)
    moreover have "\<not> length (rx b sid) < QUEUE_SIZE cfg" using full(1) q(3) by simp
    ultimately show ?thesis using b1 q s1 by auto
  qed
qed

lemma receive_missing:
  "broker_wf cfg b \<Longrightarrow> sid \<notin> set (session_ids b) \<Longrightarrow>
     PicoBroker_queue_packet_received_from_client sid p t b = (Err (SessionNotFound sid), b)"
  using update_session_missing [of cfg b sid "\<lambda>s. (Ok (), Session_update_activity t s)"]
  by (simp add: PicoBroker_queue_packet_received_from_client_def SessionRegistry_update_session_activity_def
    then_do_cases(2))

lemma send_step:
  assumes wf: "broker_wf cfg b" and sid: "sid \<in> set (session_ids b)"
  shows "\<exists>b'. PicoBroker_dequeue_packet_to_send_to_client sid b = (Ok (front_of (tx b sid)), b') \<and>
    broker_wf cfg b' \<and> br_topics b' = br_topics b \<and> session_ids b' = session_ids b \<and>
    tx b' = (tx b)(sid := tl (tx b sid)) \<and> rx b' = rx b"
proof -
  obtain s where s: "session_of b sid = Some s" using sid session_of_iff by metis
  from dequeue_tx_eq [OF broker_wf_parts(2) [OF wf] s] obtain r' q where
    r': "SessionRegistry_dequeue_tx_packet sid (br_sessions b) = (Ok (front_of (packets (tx_queue s))), r')"
    "sessions_wf (MAX_SESSIONS cfg) (QUEUE_SIZE cfg) r'" "ids r' = session_ids b"
    "lookup r' = (session_of b)(sid \<mapsto> s\<lparr>tx_queue := q\<rparr>)" "packets q = tl (packets (tx_queue s))" by blast
  let ?b = "b\<lparr>br_sessions := r'\<rparr>"
  have "PicoBroker_dequeue_packet_to_send_to_client sid b = (Ok (front_of (tx b sid)), ?b)"
    using r'(1) s by (simp add: PicoBroker_dequeue_packet_to_send_to_client_def tx_def on_sessions_def on_field_def)
  moreover have "tx ?b = (tx b)(sid := tl (tx b sid))" "rx ?b = rx b"
    using r'(4,5) s by (auto simp: rx_def tx_def fun_eq_iff)
  ultimately show ?thesis using broker_wf_sessions [OF wf r'(2,3)] r'(3) by auto
qed

lemma send_missing:
  "broker_wf cfg b \<Longrightarrow> sid \<notin> set (session_ids b) \<Longrightarrow>
     PicoBroker_dequeue_packet_to_send_to_client sid b = (Err (SessionNotFound sid), b)"
  by (simp add: PicoBroker_dequeue_packet_to_send_to_client_def SessionRegistry_dequeue_tx_packet_def
    update_session_missing)

lemma queues_of_unregistered: "sid \<notin> set (session_ids b) \<Longrightarrow> tx b sid = [] \<and> rx b sid = []"
  using lookup_None [of "br_sessions b" sid] by (simp add: tx_def rx_def)

section \<open>Reachable states\<close>

inductive broker_step :: "config \<Rightarrow> PicoBroker \<Rightarrow> PicoBroker \<Rightarrow> bool" for cfg where
  register: "PicoBroker_register_new_session cfg sid ka t b = (x, b') \<Longrightarrow> broker_step cfg b b'"
| receive: "Packet_decode (MAX_TOPIC_NAME_LENGTH cfg) (MAX_PAYLOAD_SIZE cfg) bs = Ok p \<Longrightarrow>
    PicoBroker_queue_packet_received_from_client sid p t b = (x, b') \<Longrightarrow> broker_step cfg b b'"
| process: "PicoBroker_process_all_session_packets cfg b = (x, b') \<Longrightarrow> broker_step cfg b b'"
| send: "PicoBroker_dequeue_packet_to_send_to_client sid b = (y, b') \<Longrightarrow> broker_step cfg b b'"
| disconnect: "PicoBroker_mark_session_disconnected sid b = (x, b') \<Longrightarrow> broker_step cfg b b'"
| remove: "PicoBroker_remove_session sid b = (z, b') \<Longrightarrow> broker_step cfg b b'"

inductive reachable :: "config \<Rightarrow> PicoBroker \<Rightarrow> bool" for cfg where
  init: "reachable cfg (PicoBroker_new cfg)"
| step: "reachable cfg b \<Longrightarrow> broker_step cfg b b' \<Longrightarrow> reachable cfg b'"

inductive_cases broker_stepE: "broker_step cfg b b'"

text \<open>Every packet in a queue is well-formed.\<close>

definition traffic_wf :: "config \<Rightarrow> PicoBroker \<Rightarrow> bool" where
  "traffic_wf cfg b \<longleftrightarrow>
     (\<forall>k. \<forall>p \<in> set (rx b k) \<union> set (tx b k). Packet_wf (MAX_TOPIC_NAME_LENGTH cfg) (MAX_PAYLOAD_SIZE cfg) p)"

lemma acks_cases: "acks p = [] \<or> (\<exists>i. acks p = [PubAck i])"
  unfolding acks_def by (cases "pub_packet_id p"; cases "AtMostOnce < pub_qos p") auto

lemma acks_wf: "q \<in> set (acks p) \<Longrightarrow> Packet_wf N M q"
  using acks_cases [of p] by auto

lemma responses_wf: "Packet_wf N M p \<Longrightarrow> q \<in> responses_to p \<Longrightarrow> Packet_wf N M q"
  using acks_wf by (cases p) auto

lemma traffic_wfI:
  assumes "traffic_wf cfg b" "\<And>k q. q \<in> set (rx b' k) \<union> set (tx b' k) \<Longrightarrow> q \<in> set (rx b k) \<union> set (tx b k) \<or>
    Packet_wf (MAX_TOPIC_NAME_LENGTH cfg) (MAX_PAYLOAD_SIZE cfg) q"
  shows "traffic_wf cfg b'"
  using assms unfolding traffic_wf_def by blast

lemma traffic_wf_appends:
  assumes "traffic_wf cfg b" "appends (responses_from b ks) b b'" "\<forall>k. set (rx b' k) \<subseteq> set (rx b k)"
  shows "traffic_wf cfg b'"
proof -
  obtain new where new: "tx b' = (\<lambda>k. tx b k @ new k)" "\<forall>k. set (new k) \<subseteq> responses_from b ks"
    using assms(2) unfolding appends_def by blast
  have resp: "Packet_wf (MAX_TOPIC_NAME_LENGTH cfg) (MAX_PAYLOAD_SIZE cfg) q" if "q \<in> responses_from b ks" for q
    using that assms(1) responses_wf unfolding responses_from_def traffic_wf_def by blast
  have "q \<in> set (new k) \<Longrightarrow> Packet_wf (MAX_TOPIC_NAME_LENGTH cfg) (MAX_PAYLOAD_SIZE cfg) q" for q k
    using resp new(2) by blast
  then show ?thesis using assms(3) new(1) by (intro traffic_wfI [OF assms(1)]) auto
qed

lemma broker_step_keeps:
  assumes "broker_step cfg b b'" "config_ok cfg" "broker_wf cfg b" "traffic_wf cfg b"
  shows "broker_wf cfg b' \<and> traffic_wf cfg b'"
  using assms(1)
proof cases
  case (register sid ka t x)
  from assms(3) show ?thesis
  proof (cases rule: register_step [where sid = sid and ka = ka and t = t])
    case (registered b1)
    have "b' = b1" using register registered(3) by simp
    moreover have "tx b1 = tx b" "rx b1 = rx b"
      using registered(7) queues_of_unregistered [OF registered(2)] queue_new_wf [of "QUEUE_SIZE cfg"] assms(2)
      by (auto simp: tx_def rx_def fun_eq_iff Session_new_def config_ok_def)
    ultimately show ?thesis using registered(4) assms(4) by (simp add: traffic_wf_def)
  qed (use register assms in auto)
next
  case (receive bs p sid t x)
  have p: "Packet_wf (MAX_TOPIC_NAME_LENGTH cfg) (MAX_PAYLOAD_SIZE cfg) p"
    using receive(1) assms(2) by (auto simp: config_ok_def intro: Packet_decode_Ok)
  show ?thesis
  proof (cases "sid \<in> set (session_ids b)")
    case True
    from receive_step [OF assms(3) True, of p t] receive(2) have
      "broker_wf cfg b'" "tx b' = tx b" "rx b' = (rx b)(sid := rx b sid @ [p]) \<or> rx b' = rx b"
      by (auto split: if_splits)
    then show ?thesis using p by (auto intro!: traffic_wfI [OF assms(4)] split: if_splits)
  next
    case False
    then show ?thesis using receive(2) receive_missing [OF assms(3) False] assms(3,4) by simp
  qed
next
  case (process x)
  from process_all_eq [OF assms(3)] process have
    "broker_wf cfg b'" "\<forall>k. set (rx b' k) \<subseteq> set (rx b k)" "appends (responses_from b (set (session_ids b))) b b'"
    by auto
  then show ?thesis using traffic_wf_appends [OF assms(4)] by blast
next
  case (send sid y)
  show ?thesis
  proof (cases "sid \<in> set (session_ids b)")
    case True
    from send_step [OF assms(3) True] send have
      "broker_wf cfg b'" "tx b' = (tx b)(sid := tl (tx b sid))" "rx b' = rx b" by auto
    then show ?thesis
      using list.set_sel(2) [of "tx b sid"]
      by (auto intro!: traffic_wfI [OF assms(4)] split: if_splits) (metis list.sel(2))
  next
    case False
    then show ?thesis using send send_missing [OF assms(3) False] assms(3,4) by simp
  qed
next
  case (disconnect sid x)
  show ?thesis
  proof (cases "session_of b sid")
    case None
    then show ?thesis using mark_disconnected_step(2) [OF assms(3) None] disconnect assms(3,4) by simp
  next
    case (Some s)
    from mark_disconnected_step(1) [OF assms(3) Some] disconnect have
      "broker_wf cfg b'" "session_of b' = (session_of b)(sid \<mapsto> s\<lparr>sess_state := Disconnected\<rparr>)" by auto
    moreover from this(2) Some have "tx b' = tx b" "rx b' = rx b" by (auto simp: tx_def rx_def fun_eq_iff)
    ultimately show ?thesis using assms(4) by (simp add: traffic_wf_def)
  qed
next
  case (remove sid z)
  from remove_session_step [OF assms(3), of sid] remove have
    "broker_wf cfg b'" "session_of b' = (session_of b)(sid := None)" by auto
  moreover from this(2) have "tx b' = (tx b)(sid := [])" "rx b' = (rx b)(sid := [])"
    by (auto simp: tx_def rx_def fun_eq_iff)
  ultimately show ?thesis by (auto intro!: traffic_wfI [OF assms(4)] split: if_splits)
qed

lemma PicoBroker_new_queues: "tx (PicoBroker_new cfg) k = []" "rx (PicoBroker_new cfg) k = []"
  by (simp_all add: tx_def rx_def PicoBroker_new_def PicoBroker_default_def SessionRegistry_default_def lookup_def
    live_def HeaplessVec_new_def HeaplessVec_as_slice_def)

lemma reachable_invariants:
  assumes "reachable cfg b" "config_ok cfg"
  shows "broker_wf cfg b \<and> traffic_wf cfg b"
  using assms(1)
proof induction
  case init
  then show ?case using PicoBroker_new_wf [OF assms(2)] PicoBroker_new_queues by (simp add: traffic_wf_def)
next
  case (step b b')
  then show ?case using broker_step_keeps assms(2) by blast
qed

section \<open>A small broker\<close>

text \<open>A configuration and two states on which the properties of the broker are instantiated.\<close>

definition small_config :: config where
  "small_config = \<lparr>MAX_TOPIC_NAME_LENGTH = 2, MAX_PAYLOAD_SIZE = 2, QUEUE_SIZE = 2, MAX_SESSIONS = 2, MAX_TOPICS = 2,
     MAX_SUBSCRIBERS_PER_TOPIC = 2\<rparr>"

definition small_topic :: TopicName where
  "small_topic = \<lparr>slength = 1, sdata = [0x61, 0]\<rparr>"

definition small_broker :: PicoBroker where
  "small_broker = snd (PicoBroker_register_new_session small_config 7 60 0 (PicoBroker_new small_config))"

definition small_subscribe :: SubscribePacket where
  "small_subscribe = \<lparr>sub_packet_id = 1, sub_topic_filter = small_topic, sub_requested_qos = AtMostOnce\<rparr>"

definition small_subscribed :: PicoBroker where
  "small_subscribed = snd (PicoBroker_handle_subscribe small_config 7 small_subscribe small_broker)"

definition small_publish :: PublishPacket where
  "small_publish = \<lparr>pub_topic_name = small_topic, pub_packet_id = None, pub_payload = HeaplessVec_new 2 0,
     pub_qos = AtMostOnce, pub_dup = False, pub_retain = False\<rparr>"

definition small_full :: PicoBroker where
  "small_full = snd (PicoBroker_handle_publish small_config 7 small_publish small_subscribed)"

definition small_pinged :: PicoBroker where
  "small_pinged = snd (PicoBroker_queue_packet_received_from_client 7 (PingReq PingReqPacket) 5 small_broker)"

definition small_answered :: PicoBroker where
  "small_answered = snd (PicoBroker_process_all_session_packets small_config small_pinged)"

lemma small_simps [simp]:
  "QUEUE_SIZE small_config = 2" "MAX_SESSIONS small_config = 2" "MAX_SUBSCRIBERS_PER_TOPIC small_config = 2"
  "MAX_TOPIC_NAME_LENGTH small_config = 2" "MAX_PAYLOAD_SIZE small_config = 2"
  "pub_topic_name small_publish = small_topic" "acks small_publish = []"
  "sub_topic_filter small_subscribe = small_topic" "sub_packet_id small_subscribe = 1"
  "sub_requested_qos small_subscribe = AtMostOnce"
  by (simp_all add: small_config_def small_publish_def small_subscribe_def acks_def)

lemma small_config_ok: "config_ok small_config"
  by (simp add: config_ok_def small_config_def)

lemma small_new_broker:
  "broker_wf small_config (PicoBroker_new small_config)" "session_ids (PicoBroker_new small_config) = []"
  "subscriptions_of (PicoBroker_new small_config) = {}"
  using PicoBroker_new_wf [OF small_config_ok]
  by (simp_all add: PicoBroker_new_def PicoBroker_default_def ids_def live_def SessionRegistry_default_def
    HeaplessVec_new_def HeaplessVec_as_slice_def TopicRegistry_default_wf small_config_def subscriptions_def TopicRegistry_default_def)

lemma small_broker_facts:
  shows "PicoBroker_register_new_session small_config 7 60 0 (PicoBroker_new small_config) = (Ok (), small_broker)"
    "broker_wf small_config small_broker" "reachable small_config small_broker" "session_ids small_broker = [7]"
    "session_of small_broker 7 = Some (Session_new 2 7 60 0)" "subscriptions_of small_broker = {}"
    "tx small_broker 7 = []" "rx small_broker 7 = []"
proof -
  obtain b where b: "PicoBroker_register_new_session small_config 7 60 0 (PicoBroker_new small_config) = (Ok (), b)"
    "broker_wf small_config b" "br_topics b = br_topics (PicoBroker_new small_config)" "session_ids b = [7]"
    "session_of b = (session_of (PicoBroker_new small_config))(7 \<mapsto> Session_new (QUEUE_SIZE small_config) 7 60 0)"
    using small_new_broker(1)
    by (cases rule: register_step [where sid = 7 and ka = 60 and t = 0]) (auto simp: small_new_broker(2))
  then have e: "small_broker = b" by (simp add: small_broker_def)
  show "PicoBroker_register_new_session small_config 7 60 0 (PicoBroker_new small_config) = (Ok (), small_broker)"
    "broker_wf small_config small_broker" "session_ids small_broker = [7]"
    "session_of small_broker 7 = Some (Session_new 2 7 60 0)" "subscriptions_of small_broker = {}"
    using b small_new_broker(3) by (simp_all add: e)
  then show "tx small_broker 7 = []" "rx small_broker 7 = []"
    using queue_new_wf [of 2] by (simp_all add: tx_def rx_def Session_new_def)
  show "reachable small_config small_broker"
    using reachable.step [OF reachable.init broker_step.register [OF b(1)]] by (simp add: e)
qed

lemma small_subscribed_facts:
  shows "PicoBroker_handle_subscribe small_config 7 small_subscribe small_broker = (Ok (), small_subscribed)"
    "broker_wf small_config small_subscribed" "session_ids small_subscribed = [7]"
    "subscriptions_of small_subscribed = {(small_topic, 7)}" "length (tx small_subscribed 7) = 1"
proof -
  have r: "7 \<in> set (session_ids small_broker)" by (simp add: small_broker_facts)
  have "\<not> subscribe_error small_config small_broker f e" for f e
    by (simp add: subscribe_error_def small_broker_facts small_config_def)
  with handle_subscribe_eq [OF small_broker_facts(2) r, of small_subscribe] obtain b where
    b: "PicoBroker_handle_subscribe small_config 7 small_subscribe small_broker = (Ok (), b)" "broker_wf small_config b"
    "subscriptions_of b = {(small_topic, 7)}" "length (tx b 7) = 1"
    by (auto simp: small_broker_facts)
  then have e: "small_subscribed = b" by (simp add: small_subscribed_def)
  from h_subscribe.handler_law [of small_config 7 small_subscribe] small_broker_facts(2) r
  have "session_ids b = session_ids small_broker" by (rule handler_okE) (use b(1) in simp)
  with b show "PicoBroker_handle_subscribe small_config 7 small_subscribe small_broker = (Ok (), small_subscribed)"
    "broker_wf small_config small_subscribed" "session_ids small_subscribed = [7]"
    "subscriptions_of small_subscribed = {(small_topic, 7)}" "length (tx small_subscribed 7) = 1"
    by (simp_all add: e small_broker_facts)
qed

lemma small_topic_matches: "topic_matches (HeaplessString_as_str small_topic) (HeaplessString_as_str small_topic)"
  by (simp add: small_topic_def HeaplessString_as_str_def HeaplessString_bytes_def from_utf8_def char_tail_def
    topic_matches_eq levels_def)

lemma small_recipients: "set (recipients small_config small_publish small_subscribed) = {7}"
proof -
  have m: "{k. \<exists>f. (f, k) \<in> subscriptions_of small_subscribed \<and>
      topic_matches (HeaplessString_as_str (pub_topic_name small_publish)) (HeaplessString_as_str f)} = {7}"
    by (auto simp: small_subscribed_facts small_topic_matches)
  show ?thesis
    using recipients_all [of small_subscribed small_publish small_config, unfolded m] by simp
qed

lemma small_full_facts:
  shows "broker_wf small_config small_full" "length (tx small_full 7) = 2"
    "set (recipients small_config small_publish small_full) = {7}"
proof -
  have "7 \<in> set (session_ids small_subscribed)"
    "\<forall>k \<in> set (recipients small_config small_publish small_subscribed). has_room small_config small_subscribed k"
    "length (tx small_subscribed 7) + (if 7 \<in> set (recipients small_config small_publish small_subscribed) then 1 else 0) +
      length (acks small_publish) \<le> QUEUE_SIZE small_config"
    by (simp_all add: small_subscribed_facts small_recipients has_room_def)
  from handle_publish_delivers [OF small_subscribed_facts(2) this] obtain b where
    b: "PicoBroker_handle_publish small_config 7 small_publish small_subscribed = (Ok (), b)" "broker_wf small_config b"
      "only_tx small_subscribed b" "tx b 7 = tx small_subscribed 7 @ [Publish small_publish]"
    by (auto simp: small_recipients)
  then have e: "small_full = b" by (simp add: small_full_def)
  show "broker_wf small_config small_full" "length (tx small_full 7) = 2"
    using b small_subscribed_facts(5) by (simp_all add: e)
  show "set (recipients small_config small_publish small_full) = {7}"
    using b(3) small_recipients by (simp add: e only_tx_def recipients_def)
qed

lemma process_ping:
  assumes wf: "broker_wf cfg b" and ids: "session_ids b = [k]" and rx: "rx b k = [PingReq PingReqPacket]"
    and room: "length (tx b k) < QUEUE_SIZE cfg"
  shows "\<exists>b'. PicoBroker_process_all_session_packets cfg b = (Ok (), b') \<and> tx b' k = tx b k @ [PingResp PingRespPacket]"
proof -
  have k: "k \<in> set (session_ids b)" using ids by simp
  from dequeue_rx_step [OF wf k] obtain b1 where
    b1: "on_sessions (SessionRegistry_dequeue_rx_packet k) b = (Ok (Some (PingReq PingReqPacket)), b1)" "broker_wf cfg b1"
      "session_ids b1 = session_ids b" "rx b1 k = []" "tx b1 = tx b" using rx by (auto simp: front_of_def)
  from b1(2) k [folded b1(3)] obtain b2 where
    b2: "PicoBroker_handle_pingreq k b1 = (Ok (), b2)" "broker_wf cfg b2" "only_tx b1 b2"
      "tx b2 = (tx b1)(k := tx b1 k @ [PingResp PingRespPacket])"
    by (cases rule: queue_tx_step [where p = "PingResp PingRespPacket"])
      (use room b1(5) in \<open>auto simp: PicoBroker_handle_pingreq_def\<close>)
  have k2: "k \<in> set (session_ids b2)" "rx b2 k = []"
    using k b1(3,4) b2(3) only_tx_rx [OF b2(3)] by (simp_all add: only_tx_def)
  from dequeue_rx_step [OF b2(2) k2(1)] k2(2) obtain b3 where
    b3: "on_sessions (SessionRegistry_dequeue_rx_packet k) b2 = (Ok None, b3)" "tx b3 = tx b2" by (auto simp: front_of_def)
  have "PicoBroker_process_session cfg k b2 = (Ok (), b3)"
    by (subst PicoBroker_process_session.simps) (simp add: b3(1))
  then have "PicoBroker_process_session cfg k b = (Ok (), b3)"
    by (subst PicoBroker_process_session.simps) (simp add: b1(1) b2(1))
  then show ?thesis
    using b3(2) b2(4) b1(5) ids get_all_sessions_eq [OF broker_wf_parts(2) [OF wf]]
    by (simp add: PicoBroker_process_all_session_packets_def PicoBroker_get_all_sessions_def then_do_cases(1))
qed

lemma small_pinged_facts:
  shows "broker_wf small_config small_pinged" "reachable small_config small_pinged" "session_ids small_pinged = [7]"
    "rx small_pinged 7 = [PingReq PingReqPacket]" "tx small_pinged 7 = []"
proof -
  have "7 \<in> set (session_ids small_broker)" by (simp add: small_broker_facts)
  from receive_step [OF small_broker_facts(2) this, of "PingReq PingReqPacket" 5] obtain b where
    b: "PicoBroker_queue_packet_received_from_client 7 (PingReq PingReqPacket) 5 small_broker = (Ok (), b)"
      "broker_wf small_config b" "session_ids b = [7]" "tx b 7 = []" "rx b 7 = [PingReq PingReqPacket]"
    by (auto simp: small_broker_facts)
  then have e: "small_pinged = b" by (simp add: small_pinged_def)
  have "Packet_decode 2 2 [0xC0, 0] = Ok (PingReq PingReqPacket)"
    by (simp add: Packet_decode_def index_def PacketType_from.simps PingReqPacket_decode_def empty_decode_def
      validate_buffer_size_def validate_packet_type_def slice_from_def)
  then show "reachable small_config small_pinged"
    using reachable.step [OF small_broker_facts(3) broker_step.receive [OF _ b(1)]] by (simp add: e)
  show "broker_wf small_config small_pinged" "session_ids small_pinged = [7]" "rx small_pinged 7 = [PingReq PingReqPacket]"
    "tx small_pinged 7 = []" using b by (simp_all add: e)
qed

lemma small_answered_facts:
  "PicoBroker_process_all_session_packets small_config small_pinged = (Ok (), small_answered)"
  "reachable small_config small_answered" "tx small_answered 7 = [PingResp PingRespPacket]"
proof -
  from process_ping [OF small_pinged_facts(1,3,4)] obtain b where
    b: "PicoBroker_process_all_session_packets small_config small_pinged = (Ok (), b)" "tx b 7 = [PingResp PingRespPacket]"
    by (auto simp: small_pinged_facts(5))
  then have e: "small_answered = b" by (simp add: small_answered_def)
  show "PicoBroker_process_all_session_packets small_config small_pinged = (Ok (), small_answered)"
    "tx small_answered 7 = [PingResp PingRespPacket]" using b by (simp_all add: e)
  show "reachable small_config small_answered"
    using reachable.step [OF small_pinged_facts(2) broker_step.process [OF b(1)]] by (simp add: e)
qed

end
