(* ===== verification/Server_Broker.thy ===== *)
theory Server_Broker
  imports Broker_Steps
begin

text \<open>
  What both server programs do while they hold the broker mutex: handing over a received packet and processing it,
  taking the packets to send out of a transmit queue, and removing sessions. The lemmas give the effect of each
  section on the queues and show that it is a sequence of steps of the broker.
\<close>

section \<open>Draining a transmit queue\<close>

text \<open>\<^verbatim>\<open>while let Ok(Some(pkt)) = broker_guard.dequeue_packet_to_send_to_client(session_id)\<close>, which ends because every round
  shortens a queue.\<close>

definition tx_backlog :: "SessionRegistry \<Rightarrow> nat" where
  "tx_backlog r = sum_list (map (\<lambda>x. case x of Some s \<Rightarrow> unat (vlength (tx_queue s)) | None \<Rightarrow> 0) (slots r))"

lemma sum_list_update_less:
  "i < length xs \<Longrightarrow> f y < (f (xs ! i) :: nat) \<Longrightarrow> sum_list (map f (xs[i := y])) < sum_list (map f xs)"
  by (induction xs arbitrary: i) (auto split: nat.split)

lemma dequeue_tx_backlog:
  assumes "SessionRegistry_dequeue_tx_packet sid r = (Ok (Some p), r')"
  shows "tx_backlog r' < tx_backlog r"
proof (cases "SessionRegistry_find_session sid r")
  case None
  with assms show ?thesis by (simp add: SessionRegistry_dequeue_tx_packet_def on_session_def)
next
  case (Some i)
  note f = find_session_slot [OF Some]
  then obtain s where s: "slots r ! i = Some s" by blast
  obtain x s' where m: "Session_dequeue_tx_packet s = (x, s')" by force
  from on_session_slots [where m = Session_dequeue_tx_packet, OF Some s m] assms have
    x: "x = Ok (Some p)" and sl: "slots r' = (slots r)[i := Some s']"
    by (auto simp: SessionRegistry_dequeue_tx_packet_def)
  obtain q y where q: "HeaplessVec_dequeue_front (tx_queue s) = (Ok (Some y) :: (_, BrokerError) result, q)"
    and s': "s' = s\<lparr>tx_queue := q\<rparr>"
    using m x by (auto simp: Session_dequeue_tx_packet_def then_do_apply on_field_def Option.bind_eq_Some_conv
      split: prod.splits result.splits)
  show ?thesis
    unfolding tx_backlog_def sl using f(1) dequeue_front_shorter [OF q] s s'
    by (intro sum_list_update_less) simp_all
qed

function drain_packets :: "u128 \<Rightarrow> (PicoBroker, Packet list, BrokerError) action" where
  "drain_packets sid b =
     (case PicoBroker_dequeue_packet_to_send_to_client sid b of
        (Ok (Some pkt), b') \<Rightarrow>
          (case drain_packets sid b' of (Ok pkts, b'') \<Rightarrow> (Ok (pkt # pkts), b'') | other \<Rightarrow> other)
      | (Panic, b') \<Rightarrow> (Panic, b')
      | (_, b') \<Rightarrow> (Ok [], b'))"
  by pat_completeness auto
termination
proof (relation "measure (\<lambda>(sid, b). tx_backlog (br_sessions b))")
  fix sid b x b' y p
  assume "(x, b') = PicoBroker_dequeue_packet_to_send_to_client sid b" "x = Ok y" "y = Some p"
  then have "SessionRegistry_dequeue_tx_packet sid (br_sessions b) = (Ok (Some p), br_sessions b')"
    by (auto simp: PicoBroker_dequeue_packet_to_send_to_client_def on_sessions_def on_field_def split: prod.splits)
  then show "((sid, b'), (sid, b)) \<in> measure (\<lambda>(sid, b). tx_backlog (br_sessions b))"
    using dequeue_tx_backlog by simp
qed simp

declare drain_packets.simps [simp del]

text \<open>Draining returns the whole queue of the session, in order, and empties it.\<close>

lemma drain_packets_eq:
  assumes "broker_wf cfg b"
  shows "\<exists>b'. drain_packets sid b = (Ok (tx b sid), b') \<and> broker_wf cfg b' \<and> br_topics b' = br_topics b \<and>
    session_ids b' = session_ids b \<and> tx b' = (tx b)(sid := []) \<and> rx b' = rx b \<and> (broker_step cfg)\<^sup>*\<^sup>* b b'"
proof (cases "sid \<in> set (session_ids b)")
  case False
  then show ?thesis
    using send_missing [OF assms False] queues_of_unregistered [OF False] assms
    by (subst drain_packets.simps) (simp add: fun_upd_idem)
next
  case True
  show ?thesis
    using assms True
  proof (induction sid b rule: drain_packets.induct)
    case (1 sid b)
    from send_step [OF "1.prems"] obtain b1 where
      b1: "PicoBroker_dequeue_packet_to_send_to_client sid b = (Ok (front_of (tx b sid)), b1)" "broker_wf cfg b1"
        "br_topics b1 = br_topics b" "session_ids b1 = session_ids b" "tx b1 = (tx b)(sid := tl (tx b sid))" "rx b1 = rx b"
      by blast
    have st: "broker_step cfg b b1" using b1(1) by (rule broker_step.send)
    show ?case
    proof (cases "tx b sid")
      case Nil
      then show ?thesis using b1 r_into_rtranclp [of "broker_step cfg", OF st] by (subst drain_packets.simps) (auto simp: front_of_def)
    next
      case (Cons p ps)
      then have d: "PicoBroker_dequeue_packet_to_send_to_client sid b = (Ok (Some p), b1)" using b1(1) by (simp add: front_of_def)
      have r1: "sid \<in> set (session_ids b1)" using "1.prems"(2) b1(4) by simp
      from "1.IH" [OF d [symmetric] refl refl b1(2) r1] obtain b2 where
        b2: "drain_packets sid b1 = (Ok (tx b1 sid), b2)" "broker_wf cfg b2" "br_topics b2 = br_topics b1"
          "session_ids b2 = session_ids b1" "tx b2 = (tx b1)(sid := [])" "rx b2 = rx b1" "(broker_step cfg)\<^sup>*\<^sup>* b1 b2" by blast
      show ?thesis
        using d b1 b2 Cons converse_rtranclp_into_rtranclp [of "broker_step cfg", OF st b2(7)] by (subst drain_packets.simps) simp
    qed
  qed
qed

section \<open>Handing over a received packet\<close>

text \<open>\<^verbatim>\<open>queue_packet_received_from_client(..).and_then(|_| process_all_session_packets())\<close>\<close>

definition receive_and_process :: "config \<Rightarrow> u128 \<Rightarrow> Packet \<Rightarrow> u128 \<Rightarrow> (PicoBroker, unit, BrokerError) action" where
  "receive_and_process cfg sid packet current_time =
     then_do (PicoBroker_queue_packet_received_from_client sid packet current_time) (\<lambda>_.
     PicoBroker_process_all_session_packets cfg)"

definition decoded :: "config \<Rightarrow> Packet \<Rightarrow> bool" where
  "decoded cfg p \<longleftrightarrow> (\<exists>bs. Packet_decode (MAX_TOPIC_NAME_LENGTH cfg) (MAX_PAYLOAD_SIZE cfg) bs = Ok p)"

lemma receive_and_process_eq:
  assumes wf: "broker_wf cfg b" and p: "decoded cfg p"
  shows "\<exists>x b'. receive_and_process cfg sid p t b = (x, b') \<and> x \<noteq> Panic \<and> broker_wf cfg b' \<and>
    session_ids b' = session_ids b \<and> (x = Ok () \<longrightarrow> sid \<in> set (session_ids b)) \<and> (broker_step cfg)\<^sup>*\<^sup>* b b'"
proof (cases "sid \<in> set (session_ids b)")
  case False
  then show ?thesis using receive_missing [OF wf False] wf by (simp add: receive_and_process_def then_do_cases(2))
next
  case True
  obtain bs where bs: "Packet_decode (MAX_TOPIC_NAME_LENGTH cfg) (MAX_PAYLOAD_SIZE cfg) bs = Ok p"
    using p by (auto simp: decoded_def)
  from receive_step [OF wf True, of p t] obtain x b1 where
    b1: "PicoBroker_queue_packet_received_from_client sid p t b = (x, b1)" "broker_wf cfg b1" "session_ids b1 = session_ids b"
      "x = Ok () \<or> (\<exists>e. x = Err e)" by (auto split: if_splits)
  have st: "broker_step cfg b b1" using bs b1(1) by (rule broker_step.receive)
  from process_all_eq [OF b1(2)] obtain y b2 where
    b2: "PicoBroker_process_all_session_packets cfg b1 = (y, b2)" "fine cfg y" "broker_wf cfg b2" "session_ids b2 = session_ids b1"
    by blast
  have "broker_step cfg b1 b2" using b2(1) by (rule broker_step.process)
  with st have "(broker_step cfg)\<^sup>*\<^sup>* b b2" by (meson converse_rtranclp_into_rtranclp r_into_rtranclp)
  moreover have "(broker_step cfg)\<^sup>*\<^sup>* b b1" using st by (rule r_into_rtranclp)
  moreover have "y \<noteq> Panic" using b2(2) by auto
  ultimately show ?thesis
    using b1 b2 True by (auto simp: receive_and_process_def then_do_cases)
qed

lemma reachable_steps: "(broker_step cfg)\<^sup>*\<^sup>* b b' \<Longrightarrow> reachable cfg b \<Longrightarrow> reachable cfg b'"
  by (induction rule: rtranclp_induct) (auto intro: reachable.step)

section \<open>Removing sessions\<close>

text \<open>\<^verbatim>\<open>for session_id in list { broker.remove_session(session_id); }\<close>, with the result ignored.\<close>

primrec remove_all :: "u128 list \<Rightarrow> (PicoBroker, unit, BrokerError) action" where
  "remove_all [] = ret ()"
| "remove_all (sid # sids) = then_do (PicoBroker_remove_session sid) (\<lambda>_. remove_all sids)"

lemma remove_all_eq:
  "broker_wf cfg b \<Longrightarrow> \<exists>b'. remove_all sids b = (Ok (), b') \<and> broker_wf cfg b' \<and>
     session_ids b' = filter (\<lambda>k. k \<notin> set sids) (session_ids b) \<and>
     session_of b' = (\<lambda>k. if k \<in> set sids then None else session_of b k) \<and>
     subscriptions_of b' = {p \<in> subscriptions_of b. snd p \<notin> set sids} \<and> (broker_step cfg)\<^sup>*\<^sup>* b b'"
proof (induction sids arbitrary: b)
  case (Cons sid sids)
  from remove_session_step [OF Cons.prems, of sid] obtain b1 where
    b1: "PicoBroker_remove_session sid b = (Ok (sid \<in> set (session_ids b)), b1)" "broker_wf cfg b1"
      "session_ids b1 = filter (\<lambda>k. k \<noteq> sid) (session_ids b)" "session_of b1 = (session_of b)(sid := None)"
      "subscriptions_of b1 = {p \<in> subscriptions_of b. snd p \<noteq> sid}" by blast
  have st: "broker_step cfg b b1" using b1(1) by (rule broker_step.remove)
  from Cons.IH [OF b1(2)] obtain b2 where
    b2: "remove_all sids b1 = (Ok (), b2)" "broker_wf cfg b2"
      "session_ids b2 = filter (\<lambda>k. k \<notin> set sids) (session_ids b1)"
      "session_of b2 = (\<lambda>k. if k \<in> set sids then None else session_of b1 k)"
      "subscriptions_of b2 = {p \<in> subscriptions_of b1. snd p \<notin> set sids}" "(broker_step cfg)\<^sup>*\<^sup>* b1 b2" by blast
  have "(broker_step cfg)\<^sup>*\<^sup>* b b2" using st b2(6) by (rule converse_rtranclp_into_rtranclp)
  with b1 b2 show ?case
    by (auto simp: then_do_cases(1) fun_eq_iff intro!: filter_cong)
qed simp

end
