(* ===== verification/Server_Io.thy ===== *)
theory Server_Io
  imports Packets
begin

text \<open>
  The framing of the two server programs, \<^verbatim>\<open>examples/tokio_mqtt_server/src/io.rs\<close> and
  \<^verbatim>\<open>examples/rp2040_mqtt_server/src/io.rs\<close>: cutting a byte stream that arrives in pieces into packets, and the
  buffers that packets are encoded into. The socket is a parameter: the list of the pieces that successive reads return,
  or of the counts that successive writes accept. The locale \<open>frame_reader\<close> is the contract of a reader; both
  programs interpret it, for packets of at most 129 bytes and any division of the stream into pieces.
\<close>

section \<open>The remaining length\<close>

function parse_remaining_length_loop :: "bytes \<Rightarrow> usize \<Rightarrow> usize \<Rightarrow> usize \<Rightarrow> (usize \<times> usize, ProtocolError) result" where
  "parse_remaining_length_loop buffer idx multiplier value =
     (if idx \<ge> length buffer then Err (IncompletePacket (length buffer))
      else
        let byte = unat (buffer ! idx);
            idx' = idx + 1;
            value' = value + (byte AND 0x7F) * multiplier
        in if byte AND 0x80 = 0 then Ok (value', idx' - 1)
           else
             let multiplier' = multiplier * 128 in
             if multiplier' > 128 * 128 * 128 then Err (InvalidPacketLength 4 5)
             else parse_remaining_length_loop buffer idx' multiplier' value')"
  by pat_completeness auto
termination by (relation "measure (\<lambda>(buffer, idx, _). length buffer - idx)") auto

declare parse_remaining_length_loop.simps [simp del]

definition parse_remaining_length :: "bytes \<Rightarrow> (usize \<times> usize, ProtocolError) result" where
  "parse_remaining_length buffer = parse_remaining_length_loop buffer 1 1 0"

lemma parse_step:
  assumes "idx < length buffer" "j \<le> 3"
  shows "parse_remaining_length_loop buffer idx (128 ^ j) value =
    (let byte = unat (buffer ! idx); value' = value + (byte mod 128) * 128 ^ j in
     if byte < 128 then Ok (value', idx)
     else if j = 3 then Err (InvalidPacketLength 4 5)
     else parse_remaining_length_loop buffer (idx + 1) (128 ^ (j + 1)) value')"
proof -
  have "128 ^ j * 128 > (128 * 128 * 128 :: nat) \<longleftrightarrow> j = 3"
  proof -
    have "j = 0 \<or> j = 1 \<or> j = 2 \<or> j = 3" using assms(2) by linarith
    then show ?thesis by auto
  qed
  then show ?thesis
    using assms(1) unat_u8_less [of "buffer ! idx"]
    by (subst parse_remaining_length_loop.simps) (simp add: Let_def nat_and_127 nat_and_128 mult.commute)
qed

lemma parse_loop_varlen:
  "length (varlen n) + j \<le> 4 \<Longrightarrow>
     parse_remaining_length_loop (pre @ varlen n @ rest) (length pre) (128 ^ j) v =
       Ok (v + n * 128 ^ j, length pre + length (varlen n) - 1)"
proof (induction n arbitrary: pre j v rule: varlen.induct)
  case (1 n)
  show ?case
  proof (cases "n < 128")
    case True
    then have "unat (of_nat n :: u8) = n" by (simp add: unat_of_nat)
    then show ?thesis
      using True 1(2) by (subst parse_step) (simp_all add: varlen.simps [of n] nth_append)
  next
    case False
    let ?b = "of_nat (n mod 128 + 128) :: u8"
    have v: "varlen n = ?b # varlen (n div 128)" using False by (subst varlen.simps) simp
    have "1 \<le> length (varlen (n div 128))" by (simp add: Suc_le_eq)
    with 1(2) v have j: "j < 3" "length (varlen (n div 128)) + (j + 1) \<le> 4" by simp_all
    from 1(1) [OF False j(2), of "pre @ [?b]" "v + n mod 128 * 128 ^ j"]
    have "parse_remaining_length_loop (pre @ varlen n @ rest) (length pre + 1) (128 ^ (j + 1)) (v + n mod 128 * 128 ^ j) =
        Ok (v + n mod 128 * 128 ^ j + n div 128 * 128 ^ (j + 1), length pre + length (varlen n) - 1)" by (simp add: v)
    moreover have "n mod 128 * 128 ^ j + n div 128 * 128 ^ (j + 1) = n * 128 ^ j"
    proof -
      have "n * 128 ^ j = (n mod 128 + n div 128 * 128) * 128 ^ j" by simp
      also have "\<dots> = n mod 128 * 128 ^ j + n div 128 * 128 ^ (j + 1)" by (simp only: add_mult_distrib power_add) simp
      finally show ?thesis ..
    qed
    moreover have "(pre @ varlen n @ rest) ! length pre = ?b" by (simp add: v)
    ultimately show ?thesis
      using j(1) unat_varlen_byte [of n]
      by (subst parse_step) (simp_all add: Let_def v mod_mod_trivial)
  qed
qed

lemma parse_remaining_length_varlen:
  assumes "n \<le> MAX_VARIABLE_LENGTH"
  shows "parse_remaining_length (h # varlen n @ rest) = Ok (n, length (varlen n))"
  using parse_loop_varlen [of n 0 "[h]" rest 0] length_varlen [OF assms] variable_length_length_bounds [of n]
  by (simp add: parse_remaining_length_def)

text \<open>The parser returns less than \<open>128 ^ 4\<close>, so that it does not overflow a 32-bit \<^verbatim>\<open>usize\<close> either.\<close>

lemma parse_loop_bounds:
  "parse_remaining_length_loop buffer idx (128 ^ j) v = Ok (n, k) \<Longrightarrow> j \<le> 3 \<Longrightarrow> idx = j + 1 \<Longrightarrow> v < 128 ^ j \<Longrightarrow>
     n < 128 ^ 4 \<and> 1 \<le> k \<and> k \<le> 4 \<and> k < length buffer"
proof (induction "3 - j" arbitrary: idx j v)
  have low: "unat (buffer ! i) mod 128 \<le> 127" for i using mod_less_divisor [of 128 "unat (buffer ! i)"] by linarith
  case 0
  then have "idx < length buffer" by (subst (asm) parse_remaining_length_loop.simps) (auto split: if_splits)
  moreover have "v + unat (buffer ! idx) mod 128 * 128 ^ 3 < 128 ^ 4" if "v < 128 ^ 3"
    using that mult_le_mono1 [OF low, of idx "128 ^ 3"] by simp
  ultimately show ?case
    using 0 parse_step [of idx buffer 3 v] by (auto simp: Let_def split: if_splits)
next
  have low: "unat (buffer ! i) mod 128 \<le> 127" for i using mod_less_divisor [of 128 "unat (buffer ! i)"] by linarith
  case (Suc d)
  have idx: "idx < length buffer" using Suc.prems(1) by (subst (asm) parse_remaining_length_loop.simps) (auto split: if_splits)
  let ?v = "v + unat (buffer ! idx) mod 128 * 128 ^ j"
  have j: "j < 3" using Suc by simp
  have v: "?v < 128 ^ (j + 1)"
    using Suc.prems(4) mult_le_mono1 [OF low, of idx "128 ^ j"] unfolding power_add power_one_right by linarith
  also have "(128 :: nat) ^ (j + 1) \<le> 128 ^ 4" using j by (intro power_increasing) auto
  finally have "?v < 128 ^ 4" .
  then show ?case
    using Suc.hyps(1) [of "j + 1" "idx + 1" ?v] Suc.prems Suc.hyps(2) v j idx parse_step [OF idx, of j v]
    by (auto simp: Let_def split: if_splits)
qed

lemma parse_remaining_length_not_Panic [simp]: "parse_remaining_length_loop buffer idx m v \<noteq> Panic"
  by (induction buffer idx m v rule: parse_remaining_length_loop.induct)
    (subst parse_remaining_length_loop.simps, auto simp: Let_def)

section \<open>The frame of a packet\<close>

text \<open>Every packet is a header byte, its remaining length and a body of this length.\<close>

fun Packet_body :: "Packet \<Rightarrow> bytes" where
  "Packet_body (Connect p) = ConnectPacket_body p"
| "Packet_body (Publish p) = PublishPacket_body p"
| "Packet_body (Subscribe p) = SubscribePacket_body p"
| "Packet_body (Unsubscribe p) = UnsubscribePacket_body p"
| "Packet_body p = drop 2 (Packet_wire p)"

lemma Packet_body_length:
  assumes "Packet_wf N M p"
  shows "length (Packet_body p) \<le> MAX_VARIABLE_LENGTH"
proof (cases p)
  case (Connect c)
  then show ?thesis using assms ConnectPacket_body_length(2) [of N M c] by simp
next
  case (Publish c)
  then have "topic_wf N (pub_topic_name c)" "payload_wf M (pub_payload c)" using assms by (auto simp: PublishPacket_wf_def)
  then show ?thesis
    using Publish topic_wf_facts(3) [of N "pub_topic_name c"] payload_wf_facts(2) [of M "pub_payload c"]
    by (auto simp: PublishPacket_body_def MAX_VARIABLE_LENGTH_def split: option.split)
next
  case (Subscribe c)
  then show ?thesis
    using assms topic_wf_facts(3) [of N "sub_topic_filter c"]
    by (auto simp: SubscribePacket_wf_def SubscribePacket_body_def MAX_VARIABLE_LENGTH_def)
next
  case (Unsubscribe c)
  then show ?thesis
    using assms topic_wf_facts(3) [of N "unsub_topic_filter c"]
    by (auto simp: UnsubscribePacket_wf_def UnsubscribePacket_body_def MAX_VARIABLE_LENGTH_def)
qed (auto simp: ConnAckPacket_wire_def SubAckPacket_wire_def packet_id_wire_def empty_wire_def MAX_VARIABLE_LENGTH_def)

lemma Packet_wire_framed: "\<exists>h. Packet_wire p = framed h (Packet_body p)"
  by (cases p) (auto simp: framed_def varlen.simps ConnectPacket_wire_def PublishPacket_wire_def
    SubscribePacket_wire_def UnsubscribePacket_wire_def ConnAckPacket_wire_def SubAckPacket_wire_def packet_id_wire_def
    empty_wire_def to_be_bytes_def)

lemma parse_frame:
  assumes "length body \<le> MAX_VARIABLE_LENGTH" "length (framed h body) - length body \<le> n"
  shows "parse_remaining_length (take n (framed h body @ rest)) = Ok (length body, length (varlen (length body)))"
proof -
  have "take n (framed h body @ rest) = h # varlen (length body) @ take (n - 1 - length (varlen (length body))) (body @ rest)"
    using assms(2) by (cases n) (auto simp: framed_def)
  then show ?thesis using parse_remaining_length_varlen [OF assms(1)] by simp
qed

section \<open>The contract of a reader\<close>

text \<open>
  A reader holds some bytes of the stream and will receive more. If the stream starts with the bytes of a packet,
  the reader returns this packet and goes on with the rest; at the end of the stream it returns \<^verbatim>\<open>None\<close>.
\<close>

primrec read_many :: "('s, 'p option, 'e) action \<Rightarrow> nat \<Rightarrow> ('s, 'p list, 'e) action" where
  "read_many read 0 = ret []"
| "read_many read (Suc n) =
     then_do read (\<lambda>x. case x of None \<Rightarrow> ret [] | Some p \<Rightarrow> then_do (read_many read n) (\<lambda>ps. ret (p # ps)))"

locale frame_reader =
  fixes read :: "('s, 'p option, 'e) action" and wire :: "'p \<Rightarrow> bytes" and ok :: "'p \<Rightarrow> bool"
    and stream :: "'s \<Rightarrow> bytes" and healthy :: "'s \<Rightarrow> bool"
  assumes read_law: "healthy s \<Longrightarrow> ok p \<Longrightarrow> stream s = wire p @ rest \<Longrightarrow>
      \<exists>s'. read s = (Ok (Some p), s') \<and> healthy s' \<and> stream s' = rest"
    and end_law: "healthy s \<Longrightarrow> stream s = [] \<Longrightarrow> \<exists>s'. read s = (Ok None, s') \<and> healthy s' \<and> stream s' = []"
begin

lemma read_packets:
  "healthy s \<Longrightarrow> \<forall>p \<in> set ps. ok p \<Longrightarrow> stream s = concat (map wire ps) @ rest \<Longrightarrow>
     \<exists>s'. read_many read (length ps) s = (Ok ps, s') \<and> healthy s' \<and> stream s' = rest"
proof (induction ps arbitrary: s)
  case (Cons p ps)
  from Cons.prems have "stream s = wire p @ (concat (map wire ps) @ rest)" "ok p" by simp_all
  from read_law [OF Cons.prems(1) this(2,1)] obtain s1 where
    s1: "read s = (Ok (Some p), s1)" "healthy s1" "stream s1 = concat (map wire ps) @ rest" by blast
  from Cons.IH [OF s1(2) _ s1(3)] Cons.prems(2) obtain s2 where
    "read_many read (length ps) s1 = (Ok ps, s2)" "healthy s2" "stream s2 = rest" by auto
  with s1(1) show ?case by (simp add: then_do_cases(1))
qed simp

lemma read_to_end:
  assumes "healthy s" "\<forall>p \<in> set ps. ok p" "stream s = concat (map wire ps)" "length ps < n"
  shows "\<exists>s'. read_many read n s = (Ok ps, s')"
  using assms
proof (induction ps arbitrary: s n)
  case Nil
  then obtain m where n: "n = Suc m" by (cases n) auto
  from end_law [OF Nil.prems(1)] Nil.prems(3) show ?case by (auto simp: n then_do_cases(1))
next
  case (Cons p ps)
  then obtain m where n: "n = Suc m" "length ps < m" by (cases n) auto
  from Cons.prems have "stream s = wire p @ concat (map wire ps)" "ok p" by simp_all
  from read_law [OF Cons.prems(1) this(2,1)] obtain s1 where
    s1: "read s = (Ok (Some p), s1)" "healthy s1" "stream s1 = concat (map wire ps)" by blast
  from Cons.IH [OF s1(2) _ s1(3) n(2)] Cons.prems(2) obtain s2 where "read_many read m s1 = (Ok ps, s2)" by auto
  with s1(1) n(1) show ?case by (simp add: then_do_cases(1))
qed

end

section \<open>The tokio reader\<close>

text \<open>
  \<^verbatim>\<open>socket.read_buf(buffer).await.unwrap_or(0)\<close> appends what has arrived and returns its size: \<open>chunks\<close> are the results of
  the reads to come, with the empty one for an error or the end of the stream, and reading a closed socket
  returns nothing.
\<close>

record tokio_reader =
  tk_buffer :: bytes
  tk_chunks :: "bytes list"

fun tokio_fill :: "usize \<Rightarrow> bytes \<Rightarrow> bytes list \<Rightarrow> bool \<times> bytes \<times> bytes list" where
  "tokio_fill need buffer [] = (need \<le> length buffer, buffer, [])"
| "tokio_fill need buffer (c # chunks) =
     (if length buffer < need then
        (if length c = 0 then (False, buffer, chunks) else tokio_fill need (buffer @ c) chunks)
      else (True, buffer, c # chunks))"

definition tokio_read_packet :: "usize \<Rightarrow> usize \<Rightarrow> (tokio_reader, Packet option, ProtocolError) action" where
  "tokio_read_packet N M = (\<lambda>s.
     case tokio_fill 2 (tk_buffer s) (tk_chunks s) of
       (False, b, cs) \<Rightarrow> (Ok None, \<lparr>tk_buffer = b, tk_chunks = cs\<rparr>)
     | (True, b, cs) \<Rightarrow>
         (case parse_remaining_length b of
            Ok (remaining_len, var_len_bytes) \<Rightarrow>
              (let total_len = 1 + var_len_bytes + remaining_len in
               case tokio_fill total_len b cs of
                 (False, b, cs) \<Rightarrow> (Err (IncompletePacket (length b)), \<lparr>tk_buffer = b, tk_chunks = cs\<rparr>)
               | (True, b, cs) \<Rightarrow>
                   (case and_then (slice b 0 total_len) (Packet_decode N M) of
                      Ok packet \<Rightarrow> (Ok (Some packet), \<lparr>tk_buffer = drop total_len b, tk_chunks = cs\<rparr>)
                    | Err e \<Rightarrow> (Err e, \<lparr>tk_buffer = b, tk_chunks = cs\<rparr>)
                    | Panic \<Rightarrow> (Panic, \<lparr>tk_buffer = b, tk_chunks = cs\<rparr>)))
          | Err e \<Rightarrow> (Err e, \<lparr>tk_buffer = b, tk_chunks = cs\<rparr>)
          | Panic \<Rightarrow> (Panic, \<lparr>tk_buffer = b, tk_chunks = cs\<rparr>)))"

definition tokio_stream :: "tokio_reader \<Rightarrow> bytes" where
  "tokio_stream s = tk_buffer s @ concat (tk_chunks s)"

definition tokio_healthy :: "tokio_reader \<Rightarrow> bool" where
  "tokio_healthy s \<longleftrightarrow> [] \<notin> set (tk_chunks s)"

lemma tokio_fill_enough:
  "[] \<notin> set cs \<Longrightarrow> need \<le> length (b @ concat cs) \<Longrightarrow>
     \<exists>b' cs'. tokio_fill need b cs = (True, b', cs') \<and> b' @ concat cs' = b @ concat cs \<and> need \<le> length b' \<and>
       [] \<notin> set cs' \<and> (need \<le> length b \<longrightarrow> b' = b)"
proof (induction cs arbitrary: b)
  case (Cons c cs)
  then show ?case using Cons.IH [of "b @ c"] by (cases "length b < need") auto
qed simp

lemma tokio_fill_short:
  "[] \<notin> set cs \<Longrightarrow> length (b @ concat cs) < need \<Longrightarrow> tokio_fill need b cs = (False, b @ concat cs, [])"
  by (induction cs arbitrary: b) auto

text \<open>
  The packets that are read whatever the division of the stream: those whose length field is one byte, or
  which arrive after at least five bytes have been buffered.
\<close>

lemma tokio_read_law:
  assumes h: "tokio_healthy s" and p: "Packet_wf N M p" and s: "tokio_stream s = Packet_wire p @ rest"
    and small: "length (Packet_wire p) < 130 \<or> 5 \<le> length (tk_buffer s)"
  shows "\<exists>s'. tokio_read_packet N M s = (Ok (Some p), s') \<and> tokio_healthy s' \<and> tokio_stream s' = rest"
proof -
  obtain hd where w: "Packet_wire p = framed hd (Packet_body p)" using Packet_wire_framed by blast
  note max = Packet_body_length [OF p]
  let ?n = "length (Packet_body p)" and ?k = "length (varlen (length (Packet_body p)))"
  have k: "1 \<le> ?k" "?k \<le> 4" using length_varlen [OF max] variable_length_length_bounds [of ?n] by simp_all
  have len: "length (Packet_wire p) = 1 + ?k + ?n" by (simp add: w framed_def)
  have one: "?k = 1" if "length (Packet_wire p) < 130"
  proof -
    have "?n < 128" using that len k(1) by simp
    then show ?thesis by (simp add: varlen.simps)
  qed
  have two: "2 \<le> length (tk_buffer s @ concat (tk_chunks s))" using s len k(1) by (simp add: tokio_stream_def)
  obtain b cs where b: "tokio_fill 2 (tk_buffer s) (tk_chunks s) = (True, b, cs)" "b @ concat cs = Packet_wire p @ rest"
    "2 \<le> length b" "[] \<notin> set cs" "2 \<le> length (tk_buffer s) \<longrightarrow> b = tk_buffer s"
    using tokio_fill_enough [OF _ two] h s unfolding tokio_healthy_def tokio_stream_def by metis
  have hdr: "1 + ?k \<le> length b" using small one b(3,5) k(2) by auto
  have bt: "b = take (length b) (Packet_wire p @ rest)" by (metis append_eq_conv_conj b(2))
  have parse: "parse_remaining_length b = Ok (?n, ?k)"
    using parse_frame [OF max, of hd "length b" rest] hdr bt by (simp add: w framed_def)
  obtain b' cs' where b': "tokio_fill (1 + ?k + ?n) b cs = (True, b', cs')" "b' @ concat cs' = Packet_wire p @ rest"
    "1 + ?k + ?n \<le> length b'" "[] \<notin> set cs'"
    using tokio_fill_enough [OF b(4), of "1 + ?k + ?n" b] b(2) len by auto
  have t: "take (1 + ?k + ?n) b' = Packet_wire p" "drop (1 + ?k + ?n) b' @ concat cs' = rest"
    using b'(3) len arg_cong [OF b'(2), of "take (1 + ?k + ?n)"] arg_cong [OF b'(2), of "drop (1 + ?k + ?n)"] by simp_all
  have "and_then (slice b' 0 (1 + ?k + ?n)) (Packet_decode N M) = Ok p"
    using b'(3) t(1) packet.decode_append [OF p, of "[]"] by (simp add: slice_def)
  then show ?thesis
    using b(1) parse b'(1,4) t(2)
    by (simp add: tokio_read_packet_def Let_def tokio_healthy_def tokio_stream_def)
qed

interpretation tokio: frame_reader "tokio_read_packet N M" Packet_wire
    "\<lambda>p. Packet_wf N M p \<and> length (Packet_wire p) < 130" tokio_stream tokio_healthy for N M
proof
  fix s p rest
  assume "tokio_healthy s" "Packet_wf N M p \<and> length (Packet_wire p) < 130" "tokio_stream s = Packet_wire p @ rest"
  then show "\<exists>s'. tokio_read_packet N M s = (Ok (Some p), s') \<and> tokio_healthy s' \<and> tokio_stream s' = rest"
    using tokio_read_law by blast
next
  fix s
  assume "tokio_healthy s" "tokio_stream s = []"
  then have "tk_chunks s = []" "tk_buffer s = []"
    by (auto simp: tokio_healthy_def tokio_stream_def intro: ccontr) (metis list.set_intros(1) neq_Nil_conv)
  then show "\<exists>s'. tokio_read_packet N M s = (Ok None, s') \<and> tokio_healthy s' \<and> tokio_stream s' = []"
    by (simp add: tokio_read_packet_def tokio_healthy_def tokio_stream_def)
qed

text \<open>A length field of two or more bytes that is split by the reads is an error: the parser runs only once.\<close>

lemma tokio_split_length:
  assumes p: "Packet_wf N M p" and long: "130 \<le> length (Packet_wire p)"
  shows "\<exists>s'. tokio_read_packet N M \<lparr>tk_buffer = [], tk_chunks = [take 2 (Packet_wire p), drop 2 (Packet_wire p)]\<rparr> =
    (Err (IncompletePacket 2), s')"
proof -
  obtain h where w: "Packet_wire p = framed h (Packet_body p)" using Packet_wire_framed by blast
  let ?n = "length (Packet_body p)"
  have n: "\<not> ?n < 128"
  proof
    assume "?n < 128"
    then have "varlen ?n = [of_nat ?n]" by (simp add: varlen.simps)
    with long w \<open>?n < 128\<close> show False by (simp add: framed_def)
  qed
  let ?b = "of_nat (?n mod 128 + 128) :: u8"
  have v: "varlen ?n = ?b # varlen (?n div 128)" by (subst varlen.simps) (simp add: n)
  have t: "take 2 (Packet_wire p) = [h, ?b]" by (simp add: w framed_def v)
  have "parse_remaining_length_loop [h, ?b] 1 (128 ^ 0) 0 =
      parse_remaining_length_loop [h, ?b] 2 (128 ^ 1) (?n mod 128)"
    using parse_step [of 1 "[h, ?b]" 0 0] unat_varlen_byte [of ?n] by (simp add: Let_def numeral_2_eq_2)
  then have parse: "parse_remaining_length [h, ?b] = Err (IncompletePacket 2)"
    by (simp add: parse_remaining_length_def) (subst parse_remaining_length_loop.simps, simp)
  have "tokio_fill 2 [] [take 2 (Packet_wire p), drop 2 (Packet_wire p)] = (True, [h, ?b], [drop 2 (Packet_wire p)])"
    by (simp add: t)
  then show ?thesis using parse by (simp add: tokio_read_packet_def)
qed

section \<open>The transmit buffer of the tokio server\<close>

datatype io_error = InvalidData

definition encode_frame :: "usize \<Rightarrow> usize \<Rightarrow> Packet \<Rightarrow> (bytes, io_error) result" where
  "encode_frame N M packet =
     (let buffer_size = 5 + M + N;
          buffer = replicate buffer_size 0
      in case Packet_encode packet buffer of
           (Ok sz, buffer) \<Rightarrow> slice buffer 0 sz
         | (Err _, _) \<Rightarrow> Err InvalidData
         | (Panic, _) \<Rightarrow> Panic)"

lemma encode_frame_fits:
  assumes "Packet_wf N M p" "length (Packet_wire p) \<le> 5 + M + N"
  shows "encode_frame N M p = Ok (Packet_wire p)"
proof -
  have "length (Packet_wire p) \<le> length (replicate (5 + M + N) (0 :: u8))" using assms(2) by simp
  from packet.encode_fits [OF assms(1) this] show ?thesis
    using assms(2) by (simp add: encode_frame_def slice_def take_put_at_0)
qed

lemma encode_frame_too_small:
  assumes "Packet_wf N M p" "Packet_packet_type p \<noteq> PT_Connect" "5 + M + N < length (Packet_wire p)"
  shows "encode_frame N M p = Err InvalidData"
proof -
  have "length (replicate (5 + M + N) (0 :: u8)) < length (Packet_wire p)" using assms(3) by simp
  from Packet_too_small [OF assms(1,2) this] show ?thesis by (auto simp: encode_frame_def)
qed

lemma publish_wire_length:
  assumes "PublishPacket_wf N M p"
  shows "length (Packet_wire (Publish p)) =
    (let body = 2 + HeaplessString_len (pub_topic_name p) + (if pub_qos p = AtMostOnce then 0 else 2) +
       HeaplessVec_len (pub_payload p) in 1 + variable_length_length body + body)"
proof -
  have t: "topic_wf N (pub_topic_name p)" "payload_wf M (pub_payload p)" using assms by (auto simp: PublishPacket_wf_def)
  have body: "length (PublishPacket_body p) = 2 + HeaplessString_len (pub_topic_name p) +
      (if pub_qos p = AtMostOnce then 0 else 2) + HeaplessVec_len (pub_payload p)"
    using assms topic_wf_facts(2) [OF t(1)] payload_wf_facts(1) [OF t(2)]
    by (auto simp: PublishPacket_body_def PublishPacket_wf_def)
  have "length (PublishPacket_body p) \<le> MAX_VARIABLE_LENGTH" using Packet_body_length [of N M "Publish p"] assms by simp
  then show ?thesis using body by (simp add: PublishPacket_wire_def framed_def length_varlen Let_def)
qed

section \<open>The rp2040 reader\<close>

text \<open>
  A read fills at most the free part of the buffer; what does not fit stays in the socket. \<open>None\<close> is an error of the
  socket, and an empty piece its end.
\<close>

record rp_reader =
  rp_buffer :: bytes
  rp_len :: usize
  rp_socket :: "bytes option list"

fun socket_read :: "usize \<Rightarrow> bytes option list \<Rightarrow> bytes option \<times> bytes option list" where
  "socket_read space [] = (Some [], [])"
| "socket_read space (None # cs) = (None, cs)"
| "socket_read space (Some c # cs) =
     (if length c \<le> space then (Some c, cs) else (Some (take space c), Some (drop space c) # cs))"

text \<open>The loop \<^verbatim>\<open>while *buffer_len < need\<close>: filled, the end of the stream, an error, or a slice out of range.\<close>

datatype fill_result = Filled | End_Of_Stream | Read_Error | Out_Of_Range

function rp_fill :: "usize \<Rightarrow> rp_reader \<Rightarrow> fill_result \<times> rp_reader" where
  "rp_fill need s =
     (if rp_len s < need then
        if length (rp_buffer s) < rp_len s then (Out_Of_Range, s)
        else
          (case socket_read (length (rp_buffer s) - rp_len s) (rp_socket s) of
             (None, cs) \<Rightarrow> (Read_Error, s\<lparr>rp_socket := cs\<rparr>)
           | (Some c, cs) \<Rightarrow>
               if length c = 0 then (End_Of_Stream, s\<lparr>rp_socket := cs\<rparr>)
               else rp_fill need \<lparr>rp_buffer = put_at (rp_buffer s) (rp_len s) c, rp_len = rp_len s + length c, rp_socket = cs\<rparr>)
      else (Filled, s))"
  by pat_completeness auto
termination by (relation "measure (\<lambda>(need, s). need - rp_len s)") (auto intro: diff_less_mono2)

declare rp_fill.simps [simp del]

definition rp_read_packet :: "usize \<Rightarrow> usize \<Rightarrow> (rp_reader, Packet option, ProtocolError) action" where
  "rp_read_packet N M = (\<lambda>s.
     case rp_fill 2 s of
       (Out_Of_Range, s) \<Rightarrow> (Panic, s)
     | (End_Of_Stream, s) \<Rightarrow> (Ok None, s)
     | (Read_Error, s) \<Rightarrow> (Err (IncompletePacket (rp_len s)), s)
     | (Filled, s) \<Rightarrow>
         (case and_then (slice (rp_buffer s) 0 (rp_len s)) parse_remaining_length of
            Ok (remaining_len, var_len_bytes) \<Rightarrow>
              (let total_len = 1 + var_len_bytes + remaining_len in
               case rp_fill total_len s of
                 (Out_Of_Range, s) \<Rightarrow> (Panic, s)
               | (End_Of_Stream, s) \<Rightarrow> (Err (IncompletePacket (rp_len s)), s)
               | (Read_Error, s) \<Rightarrow> (Err (IncompletePacket (rp_len s)), s)
               | (Filled, s) \<Rightarrow>
                   (case and_then (slice (rp_buffer s) 0 total_len) (Packet_decode N M) of
                      Ok packet \<Rightarrow>
                        (if length (rp_buffer s) < total_len then (Panic, s)
                         else (Ok (Some packet), s\<lparr>rp_buffer := put_at (rp_buffer s) 0 (drop total_len (rp_buffer s)),
                           rp_len := rp_len s - total_len\<rparr>))
                    | Err e \<Rightarrow> (Err e, s)
                    | Panic \<Rightarrow> (Panic, s)))
          | Err e \<Rightarrow> (Err e, s)
          | Panic \<Rightarrow> (Panic, s)))"

definition rp_stream :: "rp_reader \<Rightarrow> bytes" where
  "rp_stream s = take (rp_len s) (rp_buffer s) @ concat (map the (rp_socket s))"

definition rp_healthy :: "usize \<Rightarrow> rp_reader \<Rightarrow> bool" where
  "rp_healthy R s \<longleftrightarrow> length (rp_buffer s) = R \<and> rp_len s \<le> R \<and> None \<notin> set (rp_socket s) \<and> Some [] \<notin> set (rp_socket s)"

lemma socket_read_healthy:
  assumes "None \<notin> set cs" "Some [] \<notin> set cs" "0 < space" "cs \<noteq> []"
  shows "\<exists>c cs'. socket_read space cs = (Some c, cs') \<and> c \<noteq> [] \<and> length c \<le> space \<and>
    c @ concat (map the cs') = concat (map the cs) \<and> None \<notin> set cs' \<and> Some [] \<notin> set cs'"
proof -
  obtain c cs' where cs: "cs = Some c # cs'" using assms(1,4) by (cases cs; cases "hd cs") auto
  then show ?thesis using assms by (cases "length c \<le> space") (auto simp: append_assoc [symmetric] simp del: append_assoc)
qed

lemma rp_fill_enough:
  "rp_healthy R s \<Longrightarrow> need \<le> R \<Longrightarrow> need \<le> length (rp_stream s) \<Longrightarrow>
     \<exists>s'. rp_fill need s = (Filled, s') \<and> rp_healthy R s' \<and> rp_stream s' = rp_stream s \<and> need \<le> rp_len s' \<and>
       (need \<le> rp_len s \<longrightarrow> s' = s)"
proof (induction need s rule: rp_fill.induct)
  case (1 need s)
  show ?case
  proof (cases "rp_len s < need")
    case False
    then show ?thesis using 1(2) by (subst rp_fill.simps) simp
  next
    case True
    let ?space = "length (rp_buffer s) - rp_len s"
    have h: "length (rp_buffer s) = R" "rp_len s \<le> R" "None \<notin> set (rp_socket s)" "Some [] \<notin> set (rp_socket s)"
      using 1(2) by (simp_all add: rp_healthy_def)
    have "rp_socket s \<noteq> []" using 1(4) True h(1,2) by (auto simp: rp_stream_def)
    with socket_read_healthy [OF h(3,4), of ?space] True 1(3) h(1) obtain c cs where
      c: "socket_read ?space (rp_socket s) = (Some c, cs)" "c \<noteq> []" "length c \<le> ?space"
        "c @ concat (map the cs) = concat (map the (rp_socket s))" "None \<notin> set cs" "Some [] \<notin> set cs" by auto
    let ?s = "\<lparr>rp_buffer = put_at (rp_buffer s) (rp_len s) c, rp_len = rp_len s + length c, rp_socket = cs\<rparr>"
    have hs: "rp_healthy R ?s" using h c(3,5,6) by (simp add: rp_healthy_def put_at_def)
    have st: "rp_stream ?s = rp_stream s" using h c(3,4) by (simp add: rp_stream_def put_at_def)
    have "\<not> length (rp_buffer s) < rp_len s" "length c \<noteq> 0" using h c(2) by auto
    from 1(1) [OF True this(1) c(1) [symmetric] refl this(2) hs 1(3)] st 1(4) obtain s' where
      "rp_fill need ?s = (Filled, s')" "rp_healthy R s'" "rp_stream s' = rp_stream ?s" "need \<le> rp_len s'" by auto
    moreover have "rp_fill need s = rp_fill need ?s" using True h(1,2) c(1,2) by (subst rp_fill.simps) simp
    ultimately show ?thesis using st True by auto
  qed
qed

lemma rp_read_law:
  assumes h: "rp_healthy R s" and p: "Packet_wf N M p" and s: "rp_stream s = Packet_wire p @ rest"
    and small: "length (Packet_wire p) < 130 \<or> 5 \<le> rp_len s" and fits: "length (Packet_wire p) \<le> R"
  shows "\<exists>s'. rp_read_packet N M s = (Ok (Some p), s') \<and> rp_healthy R s' \<and> rp_stream s' = rest"
proof -
  obtain hd where w: "Packet_wire p = framed hd (Packet_body p)" using Packet_wire_framed by blast
  note max = Packet_body_length [OF p]
  let ?n = "length (Packet_body p)" and ?k = "length (varlen (length (Packet_body p)))"
  let ?t = "1 + ?k + ?n"
  have k: "1 \<le> ?k" "?k \<le> 4" using length_varlen [OF max] variable_length_length_bounds [of ?n] by simp_all
  have len: "length (Packet_wire p) = ?t" by (simp add: w framed_def)
  have one: "?k = 1" if "length (Packet_wire p) < 130"
  proof -
    have "?n < 128" using that len k(1) by simp
    then show ?thesis by (simp add: varlen.simps)
  qed
  have "2 \<le> R" "2 \<le> length (rp_stream s)" using s len k(1) fits by simp_all
  from rp_fill_enough [OF h this] obtain s1 where s1: "rp_fill 2 s = (Filled, s1)" "rp_healthy R s1"
    "rp_stream s1 = Packet_wire p @ rest" "2 \<le> rp_len s1" "2 \<le> rp_len s \<longrightarrow> s1 = s" using s by auto
  have hdr: "1 + ?k \<le> rp_len s1" using small one s1(4,5) k(2) by auto
  have b: "length (rp_buffer s1) = R" "rp_len s1 \<le> R" using s1(2) by (simp_all add: rp_healthy_def)
  have "take (rp_len s1) (rp_stream s1) = take (rp_len s1) (rp_buffer s1)" using b by (simp add: rp_stream_def)
  then have "parse_remaining_length (take (rp_len s1) (rp_buffer s1)) = Ok (?n, ?k)"
    using parse_frame [OF max, of hd "rp_len s1" rest] hdr s1(3) w by (simp add: framed_def)
  then have parse: "and_then (slice (rp_buffer s1) 0 (rp_len s1)) parse_remaining_length = Ok (?n, ?k)"
    using b by (simp add: slice_def)
  have "?t \<le> R" "?t \<le> length (rp_stream s1)" using len fits s1(3) by simp_all
  from rp_fill_enough [OF s1(2) this] obtain s2 where s2: "rp_fill ?t s1 = (Filled, s2)" "rp_healthy R s2"
    "rp_stream s2 = Packet_wire p @ rest" "?t \<le> rp_len s2" using s1(3) by auto
  have b2: "length (rp_buffer s2) = R" "rp_len s2 \<le> R" using s2(2) by (simp_all add: rp_healthy_def)
  have t: "take ?t (rp_buffer s2) = Packet_wire p"
    "drop ?t (take (rp_len s2) (rp_buffer s2)) @ concat (map the (rp_socket s2)) = rest"
    using s2(4) b2 len arg_cong [OF s2(3), of "take ?t"] arg_cong [OF s2(3), of "drop ?t"]
    by (simp_all add: rp_stream_def min_def)
  let ?s = "s2\<lparr>rp_buffer := put_at (rp_buffer s2) 0 (drop ?t (rp_buffer s2)), rp_len := rp_len s2 - ?t\<rparr>"
  have "and_then (slice (rp_buffer s2) 0 ?t) (Packet_decode N M) = Ok p"
    using s2(4) b2 t(1) packet.decode_append [OF p, of "[]"] by (simp add: slice_def)
  then have "rp_read_packet N M s = (Ok (Some p), ?s)"
    using s1(1) parse s2(1,4) b2 by (simp add: rp_read_packet_def Let_def)
  moreover have "rp_healthy R ?s" using s2(2) b2 by (auto simp: rp_healthy_def put_at_def)
  moreover have "rp_stream ?s = rest"
    using t(2) s2(4) b2 by (simp add: rp_stream_def put_at_def drop_take)
  ultimately show ?thesis by blast
qed

interpretation rp: frame_reader "rp_read_packet N M" Packet_wire
    "\<lambda>p. Packet_wf N M p \<and> length (Packet_wire p) < 130 \<and> length (Packet_wire p) \<le> R" rp_stream "rp_healthy R" for N M R
proof
  fix s p rest
  assume "rp_healthy R s" "Packet_wf N M p \<and> length (Packet_wire p) < 130 \<and> length (Packet_wire p) \<le> R"
    "rp_stream s = Packet_wire p @ rest"
  then show "\<exists>s'. rp_read_packet N M s = (Ok (Some p), s') \<and> rp_healthy R s' \<and> rp_stream s' = rest"
    using rp_read_law by blast
next
  fix s
  assume h: "rp_healthy R s" and e: "rp_stream s = []"
  have "rp_socket s = []"
  proof (rule ccontr)
    assume "rp_socket s \<noteq> []"
    then obtain x where x: "x \<in> set (rp_socket s)" by (cases "rp_socket s") auto
    have "the x = []" using e x by (simp add: rp_stream_def)
    then show False using h x by (cases x) (auto simp: rp_healthy_def)
  qed
  moreover have "rp_len s = 0" using h e by (auto simp: rp_healthy_def rp_stream_def)
  ultimately have "rp_fill 2 s = (End_Of_Stream, s)" by (subst rp_fill.simps) simp
  then show "\<exists>s'. rp_read_packet N M s = (Ok None, s') \<and> rp_healthy R s' \<and> rp_stream s' = []"
    using h e by (simp add: rp_read_packet_def)
qed

section \<open>The rp2040 writer\<close>

text \<open>
  \<^verbatim>\<open>socket.write\<close> accepts some of the bytes it is given: \<open>wr_accepts\<close> are the counts of the writes to come, \<open>None\<close> for an
  error; a closed socket accepts nothing. \<open>wr_sent\<close> is what the peer receives.
\<close>

record rp_writer =
  wr_buffer :: bytes
  wr_accepts :: "usize option list"
  wr_sent :: bytes

fun rp_write_loop :: "usize \<Rightarrow> usize \<Rightarrow> bytes \<Rightarrow> usize option list \<Rightarrow> bytes \<Rightarrow>
    (unit, ProtocolError) result \<times> usize option list \<times> bytes" where
  "rp_write_loop sz written buffer [] sent =
     (if written < sz then (Err (IncompletePacket written), [], sent) else (Ok (), [], sent))"
| "rp_write_loop sz written buffer (a # accepts) sent =
     (if written < sz then
        (case a of
           None \<Rightarrow> (Err (BufferTooSmall 0), accepts, sent)
         | Some n \<Rightarrow>
             (let n = min n (sz - written) in
              if n = 0 then (Err (IncompletePacket written), accepts, sent)
              else rp_write_loop sz (written + n) buffer accepts (sent @ take n (drop written buffer))))
      else (Ok (), a # accepts, sent))"

definition rp_write_packet :: "Packet \<Rightarrow> (rp_writer, unit, ProtocolError) action" where
  "rp_write_packet packet = (\<lambda>w.
     case Packet_encode packet (wr_buffer w) of
       (Ok sz, buffer) \<Rightarrow>
         (if length buffer < sz then (Panic, w\<lparr>wr_buffer := buffer\<rparr>)
          else case rp_write_loop sz 0 buffer (wr_accepts w) (wr_sent w) of (x, accepts, sent) \<Rightarrow>
            (x, \<lparr>wr_buffer = buffer, wr_accepts = accepts, wr_sent = sent\<rparr>))
     | (Err _, buffer) \<Rightarrow> (Err (BufferTooSmall 0), w\<lparr>wr_buffer := buffer\<rparr>)
     | (Panic, buffer) \<Rightarrow> (Panic, w\<lparr>wr_buffer := buffer\<rparr>))"

lemma rp_write_loop_prefix:
  "sz \<le> length buffer \<Longrightarrow> written \<le> sz \<Longrightarrow> rp_write_loop sz written buffer accepts sent = (x, accepts', sent') \<Longrightarrow>
     \<exists>n. n \<le> sz \<and> sent' = sent @ drop written (take n buffer) \<and> (x = Ok () \<longrightarrow> n = sz)"
proof (induction sz written buffer accepts sent rule: rp_write_loop.induct)
  case (1 sz written buffer sent)
  then show ?case by (auto split: if_splits)
next
  case (2 sz written buffer a accepts sent)
  show ?case
  proof (cases "written < sz \<and> (\<exists>n. a = Some n \<and> n \<noteq> 0)")
    case False
    then show ?thesis using "2.prems" by (auto simp: Let_def split: if_splits option.splits intro!: exI [of _ written])
  next
    case True
    then obtain n where n: "a = Some n" "n \<noteq> 0" "written < sz" by blast
    let ?n = "min n (sz - written)"
    have nz: "?n \<noteq> 0" "written + ?n \<le> sz" using n by auto
    have "rp_write_loop sz (written + ?n) buffer accepts (sent @ take ?n (drop written buffer)) = (x, accepts', sent')"
      using "2.prems"(3) n nz(1) by (simp add: Let_def)
    from "2.IH" [OF n(3,1) refl nz(1) "2.prems"(1) nz(2) this] obtain m where
      m: "m \<le> sz" "sent' = (sent @ take ?n (drop written buffer)) @ drop (written + ?n) (take m buffer)" "x = Ok () \<longrightarrow> m = sz"
      by blast
    show ?thesis
    proof (cases "written + ?n \<le> m")
      case True
      have "take ?n (drop written buffer) @ drop (written + ?n) (take m buffer) = drop written (take m buffer)"
      proof -
        have "m - written = ?n + (m - (written + ?n))" using True by linarith
        then have "take (m - written) (drop written buffer) =
            take ?n (drop written buffer) @ take (m - (written + ?n)) (drop (?n + written) buffer)"
          by (metis take_add drop_drop)
        then show ?thesis by (simp only: drop_take add.commute)
      qed
      then show ?thesis using m by auto
    next
      case False
      then have "drop (written + ?n) (take m buffer) = []" by simp
      then show ?thesis
        using m False nz(2) by (intro exI [of _ "written + ?n"]) (auto simp: drop_take)
    qed
  qed
qed

lemma rp_write_loop_all:
  "None \<notin> set accepts \<Longrightarrow> Some 0 \<notin> set accepts \<Longrightarrow> sz - written \<le> length accepts \<Longrightarrow>
     fst (rp_write_loop sz written buffer accepts sent) = Ok ()"
proof (induction accepts arbitrary: written sent)
  case (Cons a accepts)
  show ?case
  proof (cases "written < sz")
    case True
    obtain n where n: "a = Some n" "0 < n" using Cons.prems(1,2) by (cases a) auto
    have "sz - (written + min n (sz - written)) \<le> length accepts" using Cons.prems(3) n True by auto
    from Cons.IH [OF _ _ this] Cons.prems(1,2) n True show ?thesis by (simp add: Let_def)
  qed simp
qed simp

lemma rp_write_packet_eq:
  assumes p: "Packet_wf N M p" and fits: "length (Packet_wire p) \<le> length (wr_buffer w)"
    and w: "None \<notin> set (wr_accepts w)" "Some 0 \<notin> set (wr_accepts w)" "length (Packet_wire p) \<le> length (wr_accepts w)"
  shows "\<exists>w'. rp_write_packet p w = (Ok (), w') \<and> wr_sent w' = wr_sent w @ Packet_wire p \<and> length (wr_buffer w') = length (wr_buffer w)"
proof -
  let ?n = "length (Packet_wire p)" and ?b = "put_at (wr_buffer w) 0 (Packet_wire p)"
  have e: "Packet_encode p (wr_buffer w) = (Ok ?n, ?b)" using packet.encode_fits [OF p fits] .
  have l: "length ?b = length (wr_buffer w)" "take ?n ?b = Packet_wire p" using fits by (simp_all add: put_at_def)
  obtain x accepts sent where loop: "rp_write_loop ?n 0 ?b (wr_accepts w) (wr_sent w) = (x, accepts, sent)"
    by (metis prod_cases3)
  have ok: "x = Ok ()" using rp_write_loop_all [OF w(1,2), of ?n 0 ?b "wr_sent w"] w(3) loop by simp
  have "sent = wr_sent w @ Packet_wire p"
    using rp_write_loop_prefix [OF _ _ loop] fits l ok by auto
  then show ?thesis using e l(1) loop ok fits by (simp add: rp_write_packet_def)
qed

section \<open>Properties\<close>

lemma ping_wire: "empty_wire PT_PingReq 0 = [0xC0, 0]"
  by (simp add: empty_wire_def header_first_byte_def)

text \<open>
  C14: The tokio server's \<^verbatim>\<open>read_packet\<close> reads a stream back exactly, however TCP divides it: if the stream is the encodings of
  well-formed packets of at most 129 bytes each, repeated calls return these packets in order and then the end of the stream.
\<close>

theorem tokio_stream_read_back:
  assumes "\<forall>p \<in> set ps. Packet_wf N M p \<and> length (Packet_wire p) \<le> 129" "[] \<notin> set chunks"
    and "concat chunks = concat (map Packet_wire ps)" "length ps < n"
  shows "\<exists>s'. read_many (tokio_read_packet N M) n \<lparr>tk_buffer = [], tk_chunks = chunks\<rparr> = (Ok ps, s')"
proof (rule tokio.read_to_end)
  show "tokio_healthy \<lparr>tk_buffer = [], tk_chunks = chunks\<rparr>" using assms(2) by (simp add: tokio_healthy_def)
  show "\<forall>p \<in> set ps. Packet_wf N M p \<and> length (Packet_wire p) < 130" using assms(1) by fastforce
qed (use assms(3,4) in \<open>simp_all add: tokio_stream_def\<close>)

theorem tokio_stream_read_back_witness:
  "\<exists>s'. read_many (tokio_read_packet 2 2) 3 \<lparr>tk_buffer = [], tk_chunks = [[0xC0], [0, 0xC0, 0]]\<rparr> =
     (Ok [PingReq PingReqPacket, PingReq PingReqPacket], s')"
proof (rule tokio_stream_read_back)
  show "concat [[0xC0], [0, 0xC0, 0]] = concat (map Packet_wire [PingReq PingReqPacket, PingReq PingReqPacket])"
    by (simp add: ping_wire)
qed (simp_all add: empty_wire_def)

text \<open>
  C15: The rp2040 server's \<^verbatim>\<open>read_packet\<close>, with its fixed buffer of \<open>R\<close> bytes, reads a stream of well-formed packets of at most
  129 bytes that fit the buffer back exactly, whatever pieces the socket delivers and whatever the buffer cuts off.
\<close>

theorem rp_stream_read_back:
  assumes "\<forall>p \<in> set ps. Packet_wf N M p \<and> length (Packet_wire p) \<le> 129 \<and> length (Packet_wire p) \<le> R"
    and "[] \<notin> set chunks" "concat chunks = concat (map Packet_wire ps)" "length ps < n"
  shows "\<exists>s'. read_many (rp_read_packet N M) n \<lparr>rp_buffer = replicate R 0, rp_len = 0, rp_socket = map Some chunks\<rparr> = (Ok ps, s')"
proof (rule rp.read_to_end [where R = R])
  show "rp_healthy R \<lparr>rp_buffer = replicate R 0, rp_len = 0, rp_socket = map Some chunks\<rparr>"
    using assms(2) by (auto simp: rp_healthy_def)
  show "\<forall>p \<in> set ps. Packet_wf N M p \<and> length (Packet_wire p) < 130 \<and> length (Packet_wire p) \<le> R" using assms(1) by fastforce
qed (use assms(3,4) in \<open>simp_all add: rp_stream_def comp_def\<close>)

theorem rp_stream_read_back_witness:
  "\<exists>s'. read_many (rp_read_packet 2 2) 3
       \<lparr>rp_buffer = replicate 3 0, rp_len = 0, rp_socket = map Some [[0xC0], [0, 0xC0, 0]]\<rparr> =
     (Ok [PingReq PingReqPacket, PingReq PingReqPacket], s')"
proof (rule rp_stream_read_back)
  show "concat [[0xC0], [0, 0xC0, 0]] = concat (map Packet_wire [PingReq PingReqPacket, PingReq PingReqPacket])"
    by (simp add: ping_wire)
qed (simp_all add: empty_wire_def)

text \<open>
  A packet of 130 bytes or more, whose length field needs two bytes, is refused by the tokio server with \<^verbatim>\<open>IncompletePacket\<close>
  if the first read returns two bytes of it: the reader parses the length field as soon as it has two bytes and does not
  read on when the field is not complete.
\<close>

theorem tokio_split_length_rejected:
  assumes "Packet_wf N M p" "130 \<le> length (Packet_wire p)"
  shows "fst (tokio_read_packet N M \<lparr>tk_buffer = [], tk_chunks = [take 2 (Packet_wire p), drop 2 (Packet_wire p)]\<rparr>) =
    Err (IncompletePacket 2)"
  using tokio_split_length [OF assms] by auto

definition long_publish :: PublishPacket where
  "long_publish = \<lparr>pub_topic_name = \<lparr>slength = 1, sdata = [0x61]\<rparr>, pub_packet_id = None,
     pub_payload = \<lparr>vlength = 125, vdata = replicate 125 0\<rparr>, pub_qos = AtMostOnce, pub_dup = False, pub_retain = False\<rparr>"

definition full_publish :: PublishPacket where
  "full_publish = \<lparr>pub_topic_name = \<lparr>slength = 1, sdata = [0x61]\<rparr>, pub_packet_id = Some 1,
     pub_payload = \<lparr>vlength = 1, vdata = [0]\<rparr>, pub_qos = AtLeastOnce, pub_dup = False, pub_retain = False\<rparr>"

lemma long_publish_facts: "Packet_wf 1 125 (Publish long_publish)" "length (Packet_wire (Publish long_publish)) = 131"
proof -
  have w: "PublishPacket_wf 1 125 long_publish"
    by (simp add: long_publish_def PublishPacket_wf_def topic_wf_def payload_wf_def str_ok_def str_wf_def vec_padded_def vec_wf_def vec_defs
      HeaplessString_capacity_def HeaplessString_bytes_def from_utf8_def char_tail_def)
  then show "Packet_wf 1 125 (Publish long_publish)" by simp
  show "length (Packet_wire (Publish long_publish)) = 131"
    using publish_wire_length [OF w]
    by (simp add: long_publish_def HeaplessString_len_def HeaplessVec_len_def variable_length_length_def Let_def)
qed

theorem tokio_split_length_rejected_witness:
  "fst (tokio_read_packet 1 125 \<lparr>tk_buffer = [], tk_chunks =
     [take 2 (Packet_wire (Publish long_publish)), drop 2 (Packet_wire (Publish long_publish))]\<rparr>) = Err (IncompletePacket 2)"
proof (rule tokio_split_length_rejected)
  show "130 \<le> length (Packet_wire (Publish long_publish))" unfolding long_publish_facts(2) by simp
qed (rule long_publish_facts(1))

text \<open>
  The tokio server encodes an outgoing PUBLISH exactly when its encoding fits the buffer of \<^verbatim>\<open>5 + MAX_PAYLOAD_SIZE + MAX_TOPIC_NAME_LENGTH\<close>
  bytes, and drops it with an error otherwise; the buffer is too small for a PUBLISH of QoS 1 or 2 whose
  topic and payload have the maximal length that the broker accepts.
\<close>

theorem tokio_encode_frame_publish:
  assumes "PublishPacket_wf N M p"
  shows "encode_frame N M (Publish p) =
      (let body = 2 + HeaplessString_len (pub_topic_name p) + (if pub_qos p = AtMostOnce then 0 else 2) +
         HeaplessVec_len (pub_payload p)
       in if 1 + variable_length_length body + body \<le> 5 + M + N then Ok (Packet_wire (Publish p)) else Err InvalidData) \<and>
    (HeaplessString_len (pub_topic_name p) = N \<and> HeaplessVec_len (pub_payload p) = M \<and> pub_qos p \<noteq> AtMostOnce \<longrightarrow>
       encode_frame N M (Publish p) = Err InvalidData)"
proof -
  let ?body = "2 + HeaplessString_len (pub_topic_name p) + (if pub_qos p = AtMostOnce then 0 else 2) + HeaplessVec_len (pub_payload p)"
  have len: "length (Packet_wire (Publish p)) = 1 + variable_length_length ?body + ?body"
    using publish_wire_length [OF assms] by (simp add: Let_def)
  have e: "encode_frame N M (Publish p) = (if length (Packet_wire (Publish p)) \<le> 5 + M + N
      then Ok (Packet_wire (Publish p)) else Err InvalidData)"
    using encode_frame_fits [of N M "Publish p"] encode_frame_too_small [of N M "Publish p"] assms by auto
  have "encode_frame N M (Publish p) = Err InvalidData"
    if "HeaplessString_len (pub_topic_name p) = N" "HeaplessVec_len (pub_payload p) = M" "pub_qos p \<noteq> AtMostOnce"
  proof -
    have "5 + M + N < length (Packet_wire (Publish p))"
      unfolding len using that variable_length_length_bounds [of ?body] by simp
    then show ?thesis using e by (simp del: Packet_wire.simps)
  qed
  then show ?thesis using e unfolding len by (auto simp: Let_def simp del: Packet_wire.simps)
qed

lemma full_publish_wf: "PublishPacket_wf 1 1 full_publish"
  by (simp add: full_publish_def PublishPacket_wf_def topic_wf_def payload_wf_def str_ok_def str_wf_def vec_padded_def vec_wf_def vec_defs
    HeaplessString_capacity_def HeaplessString_bytes_def from_utf8_def char_tail_def)

theorem tokio_encode_frame_publish_witness: "encode_frame 1 1 (Publish full_publish) = Err InvalidData"
  using tokio_encode_frame_publish [OF full_publish_wf]
  by (simp add: full_publish_def HeaplessString_len_def HeaplessVec_len_def variable_length_length_def)

end
