(* ===== verification/Server_State.thy ===== *)
theory Server_State
  imports Prelude
begin

text \<open>
  The bookkeeping of the server programs: the generators of session identifiers and the tables of connections and
  notification channels of \<^verbatim>\<open>examples/tokio_mqtt_server/src/state.rs\<close> and
  \<^verbatim>\<open>examples/rp2040_mqtt_server/src/state.rs\<close>. The clock is a parameter. The lemmas show when identifiers are unique.
\<close>

section \<open>Session identifiers\<close>

text \<open>\<^verbatim>\<open>(base << 32) | counter\<close> on \<^verbatim>\<open>u128\<close>; both counters wrap at \<^verbatim>\<open>u64\<close>.\<close>

definition session_id_of :: "u64 \<Rightarrow> u64 \<Rightarrow> u128" where
  "session_id_of base counter = push_bit 32 (ucast base) OR ucast counter"

definition SessionIdGenerator_generate :: "u64 \<Rightarrow> u64 \<Rightarrow> u128 \<times> u64" where
  "SessionIdGenerator_generate now_secs counter = (session_id_of now_secs counter, counter + 1)"

definition SessionIdGen_generate :: "u64 \<Rightarrow> u64 \<Rightarrow> u128 \<times> u64" where
  "SessionIdGen_generate now_ticks counter = (session_id_of now_ticks counter, counter + 1)"

definition rp_current_time_nanos :: "u64 \<Rightarrow> u128" where
  "rp_current_time_nanos now_ticks = ucast now_ticks * 1000"

text \<open>As long as fewer than \<open>2 ^ 32\<close> identifiers have been generated, the low 32 bits are the counter.\<close>

lemma take_bit_session_id: "take_bit 32 (session_id_of base counter) = ucast (take_bit 32 counter)"
  by (rule bit_eqI) (auto simp: session_id_of_def bit_simps)

lemma session_id_counter:
  assumes "unat counter < 2 ^ 32"
  shows "unat (session_id_of base counter) mod 2 ^ 32 = unat counter"
proof -
  have "take_bit 32 counter = counter"
    using assms by (simp add: take_bit_eq_mod word_unat_eq_iff unat_word_ariths)
  then have "take_bit 32 (session_id_of base counter) = ucast counter" by (simp add: take_bit_session_id)
  then have "unat (take_bit 32 (session_id_of base counter)) = unat (ucast counter :: u128)" by simp
  then show ?thesis
    using assms by (simp add: unsigned_ucast_eq take_bit_eq_mod unat_mod)
qed

lemma session_id_inj:
  assumes "unat c < 2 ^ 32" "unat d < 2 ^ 32" "c \<noteq> d"
  shows "session_id_of a c \<noteq> session_id_of b d"
  using session_id_counter [OF assms(1), of a] session_id_counter [OF assms(2), of b] assms(3) by (metis word_unat_eq_iff)

lemma bit_session_id_of:
  "bit (session_id_of a c) n \<longleftrightarrow> n < 128 \<and> (32 \<le> n \<and> bit a (n - 32) \<or> bit c n)"
  by (auto simp: session_id_of_def bit_simps)

lemma session_id_collision: "session_id_of (2 * b) (2 ^ 32) = session_id_of (2 * b + 1) 0"
proof (rule bit_eqI)
  fix n
  have odd: "bit (2 * b + 1) m = (m = 0 \<or> bit (2 * b) m)" for m
    using even_bit_succ_iff [of "2 * b" m] by (auto simp: add.commute)
  have power: "bit (2 ^ 32 :: u64) m \<longleftrightarrow> m = 32" for m unfolding bit_exp_iff by (auto simp: possible_bit_def)
  show "bit (session_id_of (2 * b) (2 ^ 32)) n = bit (session_id_of (2 * b + 1) 0) n"
    unfolding bit_session_id_of odd power by auto
qed

section \<open>The tables of the tokio server\<close>

text \<open>
  \<^verbatim>\<open>DashMap\<close>s as a set and a map. A sender is identified by the number of the task that holds the receiver.
\<close>

record ServerState =
  connections :: "u128 set"
  session_id_gen :: u64
  notification_senders :: "u128 \<rightharpoonup> nat"

definition ServerState_new :: ServerState where
  "ServerState_new = \<lparr>connections = {}, session_id_gen = 0, notification_senders = Map.empty\<rparr>"

definition ServerState_register_notification :: "u128 \<Rightarrow> nat \<Rightarrow> ServerState \<Rightarrow> ServerState" where
  "ServerState_register_notification sid sender st =
     st\<lparr>notification_senders := (notification_senders st)(sid \<mapsto> sender)\<rparr>"

definition ServerState_remove_notification :: "u128 \<Rightarrow> ServerState \<Rightarrow> ServerState" where
  "ServerState_remove_notification sid st = st\<lparr>notification_senders := (notification_senders st)(sid := None)\<rparr>"

definition ServerState_generate_session_id :: "u64 \<Rightarrow> ServerState \<Rightarrow> u128 \<times> ServerState" where
  "ServerState_generate_session_id now_secs st =
     (case SessionIdGenerator_generate now_secs (session_id_gen st) of (sid, counter) \<Rightarrow>
        (sid, st\<lparr>session_id_gen := counter\<rparr>))"

definition ServerState_connection_count :: "ServerState \<Rightarrow> usize" where
  "ServerState_connection_count st = card (connections st)"

definition connections_insert :: "u128 \<Rightarrow> ServerState \<Rightarrow> ServerState" where
  "connections_insert sid st = st\<lparr>connections := insert sid (connections st)\<rparr>"

definition connections_remove :: "u128 \<Rightarrow> ServerState \<Rightarrow> ServerState" where
  "connections_remove sid st = st\<lparr>connections := connections st - {sid}\<rparr>"

section \<open>The notification registry of the rp2040 server\<close>

text \<open>Channels of capacity one are flags; \<^verbatim>\<open>try_send\<close> on a full channel changes nothing.\<close>

record NotificationRegistry =
  nr_channels :: "bool list"
  nr_session_ids :: "u128 list"

definition NotificationRegistry_new :: "usize \<Rightarrow> NotificationRegistry" where
  "NotificationRegistry_new MAX_SESSIONS =
     \<lparr>nr_channels = replicate MAX_SESSIONS False, nr_session_ids = replicate MAX_SESSIONS 0\<rparr>"

definition NotificationRegistry_register_session :: "usize \<Rightarrow> u128 \<Rightarrow> NotificationRegistry \<Rightarrow> NotificationRegistry" where
  "NotificationRegistry_register_session channel_idx sid r =
     (if channel_idx < length (nr_session_ids r) then r\<lparr>nr_session_ids := (nr_session_ids r)[channel_idx := sid]\<rparr> else r)"

definition NotificationRegistry_unregister_session :: "usize \<Rightarrow> NotificationRegistry \<Rightarrow> NotificationRegistry" where
  "NotificationRegistry_unregister_session channel_idx r =
     (if channel_idx < length (nr_session_ids r) then r\<lparr>nr_session_ids := (nr_session_ids r)[channel_idx := 0]\<rparr> else r)"

definition NotificationRegistry_notify_session :: "u128 \<Rightarrow> NotificationRegistry \<Rightarrow> NotificationRegistry" where
  "NotificationRegistry_notify_session sid r =
     (case position (\<lambda>x. x = sid) (nr_session_ids r) of
        Some idx \<Rightarrow> r\<lparr>nr_channels := (nr_channels r)[idx := True]\<rparr>
      | None \<Rightarrow> r)"

lemma notify_session_wakes:
  assumes "i < length (nr_session_ids r)" "nr_session_ids r ! i = sid"
    and "\<And>j. j < length (nr_session_ids r) \<Longrightarrow> nr_session_ids r ! j = sid \<Longrightarrow> j = i"
  shows "nr_channels (NotificationRegistry_notify_session sid r) = (nr_channels r)[i := True]"
proof (cases "position (\<lambda>x. x = sid) (nr_session_ids r)")
  case None
  then show ?thesis using assms(1,2) by (auto simp: position_None_iff)
next
  case (Some j)
  then have "j = i" using position_Some [OF Some] assms(3) by simp
  with Some show ?thesis by (simp add: NotificationRegistry_notify_session_def)
qed

lemma notify_session_keeps:
  "nr_session_ids (NotificationRegistry_notify_session sid r) = nr_session_ids r"
  "length (nr_channels (NotificationRegistry_notify_session sid r)) = length (nr_channels r)"
  "nr_channels r ! j \<Longrightarrow> nr_channels (NotificationRegistry_notify_session sid r) ! j"
  by (auto simp: NotificationRegistry_notify_session_def nth_list_update split: option.split)
    (metis list_update_beyond nth_list_update_eq nth_list_update_neq linorder_not_less)

section \<open>Properties\<close>

text \<open>
  The session identifiers of both servers repeat: the counter is put in the low bits without a mask, so from the
  identifier number \<open>2 ^ 32\<close> on it spills into the seconds, and an identifier made then equals the first one made a
  second later by a fresh generator.
\<close>

lemma session_id_repeats:
  "fst (SessionIdGenerator_generate (2 * secs) (2 ^ 32)) = fst (SessionIdGenerator_generate (2 * secs + 1) 0)"
  by (simp only: SessionIdGenerator_generate_def fst_conv session_id_collision)

end
