(* ===== verification/Server_Tokio.thy ===== *)
theory Server_Tokio
  imports Server_Broker Server_Io Server_State
begin

text \<open>
  The tokio server, \<^verbatim>\<open>examples/tokio_mqtt_server/src/handler.rs\<close> and \<^verbatim>\<open>server.rs\<close>, as a state machine: one handler task per
  connection, the cleanup task, and the shared broker and tables. A step is what a task does between two points
  where it can be suspended; a section that holds the broker mutex contains no such point. The socket of a
  connection is the list of the pieces that its reads will return, the times are arguments of the steps, and the predicate
  \<open>ready capacity held\<close> stands for the bounded channels of the runtime: \<^verbatim>\<open>send\<close> completes on a channel of this capacity that
  holds this many values.
\<close>

section \<open>The state\<close>

record HandlerConfig =
  hc_default_keep_alive_secs :: u16
  hc_frame_channel_capacity :: usize

definition HandlerConfig_default :: HandlerConfig where
  "HandlerConfig_default = \<lparr>hc_default_keep_alive_secs = 60, hc_frame_channel_capacity = 32\<rparr>"

record MqttServerConfig =
  sc_default_keep_alive_secs :: u16
  sc_frame_channel_capacity :: usize
  sc_cleanup_interval_secs :: u64

definition MqttServerConfig_default :: MqttServerConfig where
  "MqttServerConfig_default =
     \<lparr>sc_default_keep_alive_secs = 60, sc_frame_channel_capacity = 32, sc_cleanup_interval_secs = 5\<rparr>"

definition handler_config :: "MqttServerConfig \<Rightarrow> HandlerConfig" where
  "handler_config config =
     \<lparr>hc_default_keep_alive_secs = sc_default_keep_alive_secs config,
      hc_frame_channel_capacity = sc_frame_channel_capacity config\<rparr>"

text \<open>\<^verbatim>\<open>Duration::from_secs(config.default_keep_alive_secs as u64 * 3 / 2)\<close>, in nanoseconds.\<close>

definition keep_alive_timeout :: "HandlerConfig \<Rightarrow> nat" where
  "keep_alive_timeout hc = unat (hc_default_keep_alive_secs hc) * 3 div 2 * 10 ^ 9"

text \<open>
  Where a handler is: before the loop, in \<^verbatim>\<open>tokio::select!\<close>, in one of its branches, or in the cleanup code. \<open>Failed\<close> is the return
  with \<^verbatim>\<open>Session registration failed\<close>, \<open>Panicked\<close> a task that has died.
\<close>

datatype phase =
    Registering_Notification
  | Registering_Session
  | Storing_Connection
  | Selecting
  | Processing Packet
  | Notifying "u128 list" "Packet list"
  | Draining
  | Sending "Packet list"
  | Leaving_Connections
  | Leaving_Notifications
  | Leaving_Broker
  | Finished
  | Failed
  | Panicked

record conn =
  c_sid :: u128
  c_phase :: phase
  c_reader :: tokio_reader
  c_notes :: nat
  c_frames :: "bytes list"
  c_written :: "bytes list"
  c_last :: nat

definition conn_new :: "u128 \<Rightarrow> bytes list \<Rightarrow> conn" where
  "conn_new sid chunks = \<lparr>c_sid = sid, c_phase = Registering_Notification, c_reader = \<lparr>tk_buffer = [], tk_chunks = chunks\<rparr>,
     c_notes = 0, c_frames = [], c_written = [], c_last = 0\<rparr>"

text \<open>The receivers of a task are dropped when its function returns or unwinds.\<close>

definition is_gone :: "phase \<Rightarrow> bool" where
  "is_gone ph \<longleftrightarrow> ph \<in> {Finished, Failed, Panicked}"

record tokio_server =
  ts_broker :: PicoBroker
  ts_state :: ServerState
  ts_tasks :: "conn list"

definition MqttServer_new :: "config \<Rightarrow> tokio_server" where
  "MqttServer_new cfg = \<lparr>ts_broker = PicoBroker_new cfg, ts_state = ServerState_new, ts_tasks = []\<rparr>"

section \<open>The handler\<close>

text \<open>
  The sections of \<^verbatim>\<open>handle_connection\<close>, in the order of the code, each on the broker, the tables and the task's own state. The
  task is named by the number that its notification sender carries.
\<close>

definition do_register_notification :: "nat \<Rightarrow> ServerState \<times> conn \<Rightarrow> ServerState \<times> conn" where
  "do_register_notification i = (\<lambda>(st, c).
     (ServerState_register_notification (c_sid c) i st, c\<lparr>c_phase := Registering_Session\<rparr>))"

definition do_register_session :: "config \<Rightarrow> HandlerConfig \<Rightarrow> u128 \<Rightarrow> PicoBroker \<times> conn \<Rightarrow> PicoBroker \<times> conn" where
  "do_register_session cfg hc now = (\<lambda>(b, c).
     case PicoBroker_register_new_session cfg (c_sid c) (hc_default_keep_alive_secs hc) now b of
       (Ok _, b') \<Rightarrow> (b', c\<lparr>c_phase := Storing_Connection\<rparr>)
     | (Err _, b') \<Rightarrow> (b', c\<lparr>c_phase := Failed\<rparr>)
     | (Panic, b') \<Rightarrow> (b', c\<lparr>c_phase := Panicked\<rparr>))"

text \<open>\<^verbatim>\<open>mpsc::channel\<close> panics on the capacity zero.\<close>

definition do_store_connection :: "HandlerConfig \<Rightarrow> nat \<Rightarrow> ServerState \<times> conn \<Rightarrow> ServerState \<times> conn" where
  "do_store_connection hc instant = (\<lambda>(st, c).
     (connections_insert (c_sid c) st,
      c\<lparr>c_phase := if hc_frame_channel_capacity hc = 0 then Panicked else Selecting, c_last := instant\<rparr>))"

definition do_read :: "config \<Rightarrow> nat \<Rightarrow> conn \<Rightarrow> conn" where
  "do_read cfg instant c =
     (case tokio_read_packet (MAX_TOPIC_NAME_LENGTH cfg) (MAX_PAYLOAD_SIZE cfg) (c_reader c) of
        (Ok (Some packet), r) \<Rightarrow> c\<lparr>c_phase := Processing packet, c_reader := r, c_last := instant\<rparr>
      | (Ok None, r) \<Rightarrow> c\<lparr>c_phase := Leaving_Connections, c_reader := r\<rparr>
      | (Err _, r) \<Rightarrow> c\<lparr>c_phase := Leaving_Connections, c_reader := r\<rparr>
      | (Panic, r) \<Rightarrow> c\<lparr>c_phase := Panicked, c_reader := r\<rparr>)"

text \<open>
  When another branch of \<^verbatim>\<open>select!\<close> completes first, the future of \<^verbatim>\<open>read_packet\<close> is dropped: what it has read by then
  stays in \<^verbatim>\<open>read_buffer\<close>. One read of it:
\<close>

definition wants_more :: "bytes \<Rightarrow> bool" where
  "wants_more buffer \<longleftrightarrow> length buffer < 2 \<or>
     (case parse_remaining_length buffer of
        Ok (remaining_len, var_len_bytes) \<Rightarrow> length buffer < 1 + var_len_bytes + remaining_len
      | _ \<Rightarrow> False)"

definition read_cancelled :: "tokio_reader \<Rightarrow> tokio_reader" where
  "read_cancelled r =
     (case tk_chunks r of
        chunk # chunks \<Rightarrow>
          if wants_more (tk_buffer r) \<and> chunk \<noteq> [] then \<lparr>tk_buffer = tk_buffer r @ chunk, tk_chunks = chunks\<rparr> else r
      | [] \<Rightarrow> r)"

definition do_process :: "config \<Rightarrow> u128 \<Rightarrow> Packet \<Rightarrow> PicoBroker \<times> conn \<Rightarrow> PicoBroker \<times> conn" where
  "do_process cfg current_time packet = (\<lambda>(b, c).
     case receive_and_process cfg (c_sid c) packet current_time b of
       (Ok _, b1) \<Rightarrow>
         (case PicoBroker_get_sessions_with_pending_packets cfg b1 of
            Ok sessions_to_notify \<Rightarrow>
              (case drain_packets (c_sid c) b1 of
                 (Ok tx_packets, b2) \<Rightarrow> (b2, c\<lparr>c_phase := Notifying (HeaplessVec_as_slice sessions_to_notify) tx_packets\<rparr>)
               | (_, b2) \<Rightarrow> (b2, c\<lparr>c_phase := Panicked\<rparr>))
          | _ \<Rightarrow> (b1, c\<lparr>c_phase := Panicked\<rparr>))
     | (Err _, b1) \<Rightarrow> (snd (PicoBroker_mark_session_disconnected (c_sid c) b1), c\<lparr>c_phase := Notifying [] []\<rparr>)
     | (Panic, b1) \<Rightarrow> (b1, c\<lparr>c_phase := Panicked\<rparr>))"

definition do_drain :: "PicoBroker \<times> conn \<Rightarrow> PicoBroker \<times> conn" where
  "do_drain = (\<lambda>(b, c).
     case drain_packets (c_sid c) b of
       (Ok pkts, b') \<Rightarrow> (b', c\<lparr>c_phase := Sending pkts\<rparr>)
     | (_, b') \<Rightarrow> (b', c\<lparr>c_phase := Panicked\<rparr>))"

text \<open>\<^verbatim>\<open>frame_tx.send(frame).await\<close> of the first packet; \<open>None\<close> while the channel has no room.\<close>

definition do_send :: "config \<Rightarrow> (usize \<Rightarrow> usize \<Rightarrow> bool) \<Rightarrow> HandlerConfig \<Rightarrow> Packet \<Rightarrow> Packet list \<Rightarrow> conn \<Rightarrow> conn option" where
  "do_send cfg ready hc pkt pkts c =
     (case encode_frame (MAX_TOPIC_NAME_LENGTH cfg) (MAX_PAYLOAD_SIZE cfg) pkt of
        Ok frame \<Rightarrow>
          if ready (hc_frame_channel_capacity hc) (length (c_frames c))
          then Some (c\<lparr>c_phase := Sending pkts, c_frames := c_frames c @ [frame]\<rparr>) else None
      | Err _ \<Rightarrow> Some (c\<lparr>c_phase := Sending pkts\<rparr>)
      | Panic \<Rightarrow> Some (c\<lparr>c_phase := Panicked\<rparr>))"

definition do_write :: "bool \<Rightarrow> bytes \<Rightarrow> bytes list \<Rightarrow> conn \<Rightarrow> conn" where
  "do_write write_ok frame frames c =
     (if write_ok then c\<lparr>c_frames := frames, c_written := c_written c @ [frame]\<rparr>
      else c\<lparr>c_phase := Leaving_Connections, c_frames := frames\<rparr>)"

definition do_timeout :: "HandlerConfig \<Rightarrow> nat \<Rightarrow> conn \<Rightarrow> conn" where
  "do_timeout hc instant c =
     (if keep_alive_timeout hc \<le> instant - c_last c then c\<lparr>c_phase := Leaving_Connections\<rparr> else c)"

definition do_leave_broker :: "PicoBroker \<times> conn \<Rightarrow> PicoBroker \<times> conn" where
  "do_leave_broker = (\<lambda>(b, c).
     case PicoBroker_remove_session (c_sid c) b of
       (Panic, b') \<Rightarrow> (b', c\<lparr>c_phase := Panicked\<rparr>)
     | (_, b') \<Rightarrow> (b', c\<lparr>c_phase := Finished\<rparr>))"

text \<open>
  The steps of one handler task. The flag \<open>faults\<close> says whether processing a packet may fail; \<^verbatim>\<open>notify_session\<close>, which
  touches another task, is a step of the server.
\<close>

inductive conn_step :: "config \<Rightarrow> HandlerConfig \<Rightarrow> (usize \<Rightarrow> usize \<Rightarrow> bool) \<Rightarrow> bool \<Rightarrow> nat \<Rightarrow>
    PicoBroker \<times> ServerState \<times> conn \<Rightarrow> PicoBroker \<times> ServerState \<times> conn \<Rightarrow> bool"
  for cfg hc ready faults i where
  register_notification: "c_phase c = Registering_Notification \<Longrightarrow> do_register_notification i (st, c) = (st', c') \<Longrightarrow>
    conn_step cfg hc ready faults i (b, st, c) (b, st', c')"
| register_session: "c_phase c = Registering_Session \<Longrightarrow> do_register_session cfg hc now (b, c) = (b', c') \<Longrightarrow>
    conn_step cfg hc ready faults i (b, st, c) (b', st, c')"
| store_connection: "c_phase c = Storing_Connection \<Longrightarrow> do_store_connection hc instant (st, c) = (st', c') \<Longrightarrow>
    conn_step cfg hc ready faults i (b, st, c) (b, st', c')"
| read: "c_phase c = Selecting \<Longrightarrow> conn_step cfg hc ready faults i (b, st, c) (b, st, do_read cfg instant c)"
| cancelled: "c_phase c = Selecting \<Longrightarrow>
    conn_step cfg hc ready faults i (b, st, c) (b, st, c\<lparr>c_reader := read_cancelled (c_reader c)\<rparr>)"
| notified: "c_phase c = Selecting \<Longrightarrow> 0 < c_notes c \<Longrightarrow>
    conn_step cfg hc ready faults i (b, st, c) (b, st, c\<lparr>c_phase := Draining, c_notes := c_notes c - 1\<rparr>)"
| frame_written: "c_phase c = Selecting \<Longrightarrow> c_frames c = frame # frames \<Longrightarrow>
    conn_step cfg hc ready faults i (b, st, c) (b, st, do_write write_ok frame frames c)"
| timeout: "c_phase c = Selecting \<Longrightarrow> conn_step cfg hc ready faults i (b, st, c) (b, st, do_timeout hc instant c)"
| process: "c_phase c = Processing packet \<Longrightarrow> do_process cfg now packet (b, c) = (b', c') \<Longrightarrow>
    faults \<or> is_ok (fst (receive_and_process cfg (c_sid c) packet now b)) \<Longrightarrow>
    conn_step cfg hc ready faults i (b, st, c) (b', st, c')"
| drain: "c_phase c = Draining \<Longrightarrow> do_drain (b, c) = (b', c') \<Longrightarrow> conn_step cfg hc ready faults i (b, st, c) (b', st, c')"
| notified_all: "c_phase c = Notifying [] pkts \<Longrightarrow>
    conn_step cfg hc ready faults i (b, st, c) (b, st, c\<lparr>c_phase := Sending pkts\<rparr>)"
| send: "c_phase c = Sending (pkt # pkts) \<Longrightarrow> do_send cfg ready hc pkt pkts c = Some c' \<Longrightarrow>
    conn_step cfg hc ready faults i (b, st, c) (b, st, c')"
| sent_all: "c_phase c = Sending [] \<Longrightarrow> conn_step cfg hc ready faults i (b, st, c) (b, st, c\<lparr>c_phase := Selecting\<rparr>)"
| leave_connections: "c_phase c = Leaving_Connections \<Longrightarrow>
    conn_step cfg hc ready faults i (b, st, c) (b, connections_remove (c_sid c) st, c\<lparr>c_phase := Leaving_Notifications\<rparr>)"
| leave_notifications: "c_phase c = Leaving_Notifications \<Longrightarrow>
    conn_step cfg hc ready faults i (b, st, c)
      (b, ServerState_remove_notification (c_sid c) st, c\<lparr>c_phase := Leaving_Broker\<rparr>)"
| leave_broker: "c_phase c = Leaving_Broker \<Longrightarrow> do_leave_broker (b, c) = (b', c') \<Longrightarrow>
    conn_step cfg hc ready faults i (b, st, c) (b', st, c')"

inductive_cases conn_stepE: "conn_step cfg hc ready faults i (b, st, c) (b', st', c')"

section \<open>The server\<close>

text \<open>Accepting a connection spawns a handler, which first draws its session identifier.\<close>

definition tokio_accept :: "u64 \<Rightarrow> bytes list \<Rightarrow> tokio_server \<Rightarrow> tokio_server" where
  "tokio_accept now_secs chunks s =
     (case ServerState_generate_session_id now_secs (ts_state s) of (sid, st) \<Rightarrow>
        s\<lparr>ts_state := st, ts_tasks := ts_tasks s @ [conn_new sid chunks]\<rparr>)"

text \<open>\<^verbatim>\<open>notify_session\<close>: no sender or a dropped receiver return at once; \<open>None\<close> while the channel of eight has no room.\<close>

definition ServerState_notify_session :: "(usize \<Rightarrow> usize \<Rightarrow> bool) \<Rightarrow> u128 \<Rightarrow> ServerState \<Rightarrow> conn list \<Rightarrow> conn list option" where
  "ServerState_notify_session ready sid st tasks =
     (case notification_senders st sid of
        None \<Rightarrow> Some tasks
      | Some j \<Rightarrow>
          if is_gone (c_phase (tasks ! j)) then Some tasks
          else if ready 8 (c_notes (tasks ! j)) then Some (tasks[j := (tasks ! j)\<lparr>c_notes := c_notes (tasks ! j) + 1\<rparr>])
          else None)"

text \<open>One scan of \<^verbatim>\<open>cleanup_task\<close>, which holds the broker mutex.\<close>

primrec cleanup_loop :: "u128 list \<Rightarrow> (ServerState \<times> PicoBroker, unit, BrokerError) action" where
  "cleanup_loop [] = ret ()"
| "cleanup_loop (sid # sids) =
     then_do (\<lambda>(st, b). case PicoBroker_remove_session sid b of (x, b') \<Rightarrow> (x, (connections_remove sid st, b'))) (\<lambda>_.
     cleanup_loop sids)"

definition cleanup_scan :: "u128 \<Rightarrow> (ServerState \<times> PicoBroker, unit, BrokerError) action" where
  "cleanup_scan current_time = (\<lambda>(st, b).
     let expired = map ei_session_id (flatten (PicoBroker_get_expired_sessions current_time b)) in
     then_do (cleanup_loop expired) (\<lambda>_ (st, b).
       let disconnected = flatten (PicoBroker_get_disconnected_sessions b) in
       cleanup_loop disconnected (st, b)) (st, b))"

definition tokio_cleanup :: "u128 \<Rightarrow> tokio_server \<Rightarrow> tokio_server" where
  "tokio_cleanup current_time s =
     (case cleanup_scan current_time (ts_state s, ts_broker s) of (_, (st, b)) \<Rightarrow> s\<lparr>ts_broker := b, ts_state := st\<rparr>)"

inductive tokio_step :: "config \<Rightarrow> HandlerConfig \<Rightarrow> (usize \<Rightarrow> usize \<Rightarrow> bool) \<Rightarrow> bool \<Rightarrow> tokio_server \<Rightarrow> tokio_server \<Rightarrow> bool"
  for cfg hc ready faults where
  accept: "tokio_step cfg hc ready faults s (tokio_accept now_secs chunks s)"
| handler: "i < length (ts_tasks s) \<Longrightarrow>
    conn_step cfg hc ready faults i (ts_broker s, ts_state s, ts_tasks s ! i) (b', st', c') \<Longrightarrow>
    tokio_step cfg hc ready faults s \<lparr>ts_broker = b', ts_state = st', ts_tasks = (ts_tasks s)[i := c']\<rparr>"
| notify: "i < length (ts_tasks s) \<Longrightarrow> c_phase (ts_tasks s ! i) = Notifying (sid # sids) pkts \<Longrightarrow>
    ServerState_notify_session ready sid (ts_state s) (ts_tasks s) = Some tasks \<Longrightarrow>
    tokio_step cfg hc ready faults s (s\<lparr>ts_tasks := tasks[i := (tasks ! i)\<lparr>c_phase := Notifying sids pkts\<rparr>]\<rparr>)"
| cleanup: "tokio_step cfg hc ready faults s (tokio_cleanup current_time s)"

inductive_cases tokio_stepE: "tokio_step cfg hc ready faults s s'"

inductive tokio_reachable :: "config \<Rightarrow> HandlerConfig \<Rightarrow> (usize \<Rightarrow> usize \<Rightarrow> bool) \<Rightarrow> bool \<Rightarrow> tokio_server \<Rightarrow> bool"
  for cfg hc ready faults where
  start: "tokio_reachable cfg hc ready faults (MqttServer_new cfg)"
| step: "tokio_reachable cfg hc ready faults s \<Longrightarrow> tokio_step cfg hc ready faults s s' \<Longrightarrow>
    tokio_reachable cfg hc ready faults s'"

end
