(* ===== verification/Server_Tokio_Laws.thy ===== *)
theory Server_Tokio_Laws
  imports Server_Tokio
begin

text \<open>
  What holds in every reachable state of the tokio server, for any interleaving of the handlers and the cleanup task: the
  broker is a reachable broker, a session, a connection entry and a notification sender belong to the handler that
  made them, and, as long as no packet fails to be processed, a handler whose queue is not empty is going to be woken.
  The lemmas give the effect of each section of the handler; the invariants are proved by rule induction.
\<close>

section \<open>The sections under the broker mutex\<close>

lemma do_register_session_eq:
  assumes wf: "broker_wf cfg b" and cfg: "config_ok cfg"
  shows "(\<exists>b'. do_register_session cfg hc now (b, c) = (b', c\<lparr>c_phase := Storing_Connection\<rparr>) \<and>
      set (session_ids b') = insert (c_sid c) (set (session_ids b)) \<and> c_sid c \<notin> set (session_ids b) \<and> tx b' = tx b \<and>
      (broker_step cfg)\<^sup>*\<^sup>* b b') \<or>
    do_register_session cfg hc now (b, c) = (b, c\<lparr>c_phase := Failed\<rparr>)"
  using wf
proof (cases rule: register_step [where sid = "c_sid c" and ka = "hc_default_keep_alive_secs hc" and t = now])
  case (registered b1)
  have "tx b1 = tx b"
    using registered(7) queues_of_unregistered [OF registered(2)] queue_new_wf [of "QUEUE_SIZE cfg"] cfg
    by (auto simp: tx_def fun_eq_iff Session_new_def config_ok_def)
  moreover have "(broker_step cfg)\<^sup>*\<^sup>* b b1"
    using broker_step.register [OF registered(3)] by (rule r_into_rtranclp)
  ultimately show ?thesis using registered by (simp add: do_register_session_def)
qed (simp_all add: do_register_session_def)

lemma mark_disconnected_keeps:
  assumes wf: "broker_wf cfg b"
  shows "\<exists>x b'. PicoBroker_mark_session_disconnected sid b = (x, b') \<and> broker_wf cfg b' \<and> session_ids b' = session_ids b \<and>
    (broker_step cfg)\<^sup>*\<^sup>* b b'"
proof (cases "session_of b sid")
  case None
  then show ?thesis using mark_disconnected_step(2) [OF wf None] wf by simp
next
  case (Some s)
  from mark_disconnected_step(1) [OF wf Some] obtain b' where
    b': "PicoBroker_mark_session_disconnected sid b = (Ok (), b')" "broker_wf cfg b'" "session_ids b' = session_ids b" by blast
  moreover have "(broker_step cfg)\<^sup>*\<^sup>* b b'" using broker_step.disconnect [OF b'(1)] by (rule r_into_rtranclp)
  ultimately show ?thesis by blast
qed

lemma do_process_eq:
  assumes wf: "broker_wf cfg b" and cfg: "config_ok cfg" and p: "decoded cfg p"
  shows "\<exists>b' ks ps. do_process cfg now p (b, c) = (b', c\<lparr>c_phase := Notifying ks ps\<rparr>) \<and> session_ids b' = session_ids b \<and>
    (broker_step cfg)\<^sup>*\<^sup>* b b' \<and>
    (is_ok (fst (receive_and_process cfg (c_sid c) p now b)) \<longrightarrow> (\<forall>k. tx b' k \<noteq> [] \<longrightarrow> k \<in> set ks))"
proof -
  from receive_and_process_eq [OF wf p] obtain x b1 where
    b1: "receive_and_process cfg (c_sid c) p now b = (x, b1)" "x \<noteq> Panic" "broker_wf cfg b1" "session_ids b1 = session_ids b"
      "(broker_step cfg)\<^sup>*\<^sup>* b b1" by blast
  show ?thesis
  proof (cases x)
    case (Ok u)
    from pending_eq [OF b1(3) cfg] obtain v where v: "PicoBroker_get_sessions_with_pending_packets cfg b1 = Ok v"
      "HeaplessVec_as_slice v = filter (\<lambda>k. tx b1 k \<noteq> []) (session_ids b1)" by blast
    from drain_packets_eq [OF b1(3), of "c_sid c"] obtain b2 where
      b2: "drain_packets (c_sid c) b1 = (Ok (tx b1 (c_sid c)), b2)" "session_ids b2 = session_ids b1"
        "tx b2 = (tx b1)(c_sid c := [])" "(broker_step cfg)\<^sup>*\<^sup>* b1 b2" by blast
    have "tx b2 k \<noteq> [] \<Longrightarrow> k \<in> set (HeaplessVec_as_slice v)" for k
      using queues_of_unregistered [of k b1] by (cases "k \<in> set (session_ids b1)") (auto simp: v(2) b2(3) split: if_splits)
    moreover have "do_process cfg now p (b, c) = (b2, c\<lparr>c_phase := Notifying (HeaplessVec_as_slice v) (tx b1 (c_sid c))\<rparr>)"
      using b1(1) Ok v(1) b2(1) by (simp add: do_process_def)
    ultimately show ?thesis
      using b1(4) b2(2) rtranclp_trans [of "broker_step cfg", OF b1(5) b2(4)] by metis
  next
    case (Err e)
    from mark_disconnected_keeps [OF b1(3), of "c_sid c"] obtain y b2 where
      b2: "PicoBroker_mark_session_disconnected (c_sid c) b1 = (y, b2)" "session_ids b2 = session_ids b1"
        "(broker_step cfg)\<^sup>*\<^sup>* b1 b2" by blast
    moreover have "do_process cfg now p (b, c) = (b2, c\<lparr>c_phase := Notifying [] []\<rparr>)"
      using b1(1) Err b2(1) by (simp add: do_process_def)
    moreover have "\<not> is_ok (fst (receive_and_process cfg (c_sid c) p now b))" using b1(1) Err by simp
    ultimately show ?thesis
      using b1(4) rtranclp_trans [of "broker_step cfg", OF b1(5) b2(3)] by metis
  qed (use b1(2) in simp)
qed

lemma do_drain_eq:
  assumes wf: "broker_wf cfg b"
  shows "\<exists>b'. do_drain (b, c) = (b', c\<lparr>c_phase := Sending (tx b (c_sid c))\<rparr>) \<and> session_ids b' = session_ids b \<and>
    tx b' = (tx b)(c_sid c := []) \<and> (broker_step cfg)\<^sup>*\<^sup>* b b'"
  using drain_packets_eq [OF wf, of "c_sid c"] by (auto simp: do_drain_def)

lemma removed_queues:
  "session_of b' = (\<lambda>k. if k \<in> X then None else session_of b k) \<Longrightarrow> tx b' = (\<lambda>k. if k \<in> X then [] else tx b k)"
  by (auto simp: tx_def fun_eq_iff)

lemma do_leave_broker_eq:
  assumes wf: "broker_wf cfg b"
  shows "\<exists>b'. do_leave_broker (b, c) = (b', c\<lparr>c_phase := Finished\<rparr>) \<and>
    set (session_ids b') = set (session_ids b) - {c_sid c} \<and> tx b' = (tx b)(c_sid c := []) \<and> (broker_step cfg)\<^sup>*\<^sup>* b b'"
proof -
  from remove_session_step [OF wf, of "c_sid c"] obtain b' where
    b': "PicoBroker_remove_session (c_sid c) b = (Ok (c_sid c \<in> set (session_ids b)), b')"
      "session_ids b' = filter (\<lambda>k. k \<noteq> c_sid c) (session_ids b)" "session_of b' = (session_of b)(c_sid c := None)" by blast
  moreover have "(broker_step cfg)\<^sup>*\<^sup>* b b'" using broker_step.remove [OF b'(1)] by (rule r_into_rtranclp)
  moreover have "tx b' = (tx b)(c_sid c := [])" using b'(3) by (auto simp: tx_def fun_eq_iff)
  ultimately show ?thesis by (auto simp: do_leave_broker_def)
qed

lemma cleanup_loop_eq:
  assumes "broker_wf cfg b"
  shows "\<exists>b'. cleanup_loop sids (st, b) = (Ok (), (fold connections_remove sids st, b')) \<and> remove_all sids b = (Ok (), b')"
  using assms
proof (induction sids arbitrary: st b)
  case (Cons sid sids)
  from remove_session_step [OF Cons.prems, of sid] obtain b1 where
    b1: "PicoBroker_remove_session sid b = (Ok (sid \<in> set (session_ids b)), b1)" "broker_wf cfg b1" by blast
  from Cons.IH [OF b1(2), of "connections_remove sid st"] b1(1) show ?case by (auto simp: then_do_apply)
qed simp

lemma fold_connections_remove:
  "connections (fold connections_remove sids st) = connections st - set sids"
  "notification_senders (fold connections_remove sids st) = notification_senders st"
  "session_id_gen (fold connections_remove sids st) = session_id_gen st"
  by (induction sids arbitrary: st) (auto simp: connections_remove_def)

text \<open>The sessions that a scan removes: the expired and the disconnected ones.\<close>

definition stale :: "u128 \<Rightarrow> Session \<Rightarrow> bool" where
  "stale now s \<longleftrightarrow> ExpirationInfo_is_expired (Session_expiration_info now s) \<or> sess_state s = Disconnected"

lemma listed_iff:
  assumes wf: "sessions_wf K Q r" and l: "lookup r k = Some s"
  shows "k \<in> session_id ` {x \<in> set (live r). P x} \<longleftrightarrow> P s"
proof
  assume "k \<in> session_id ` {x \<in> set (live r). P x}"
  then obtain x where x: "x \<in> set (live r)" "P x" "session_id x = k" by blast
  then show "P s" using lookup_live [OF wf x(1)] l by simp
next
  assume "P s"
  moreover have "s \<in> set (live r)" "session_id s = k" using lookup_Some [OF wf l] by (metis nth_mem)+
  ultimately show "k \<in> session_id ` {x \<in> set (live r). P x}" by blast
qed

lemma cleanup_scan_eq:
  assumes wf: "broker_wf cfg b"
  shows "\<exists>b' X. cleanup_scan now (st, b) = (Ok (), (fold connections_remove X st, b')) \<and> (broker_step cfg)\<^sup>*\<^sup>* b b' \<and>
    session_ids b' = filter (\<lambda>k. k \<notin> set X) (session_ids b) \<and> tx b' = (\<lambda>k. if k \<in> set X then [] else tx b k) \<and>
    (\<forall>k s. session_of b k = Some s \<longrightarrow> (k \<in> set X \<longleftrightarrow> stale now s)) \<and>
    (\<forall>k. session_of b' k = (if k \<in> set X then None else session_of b k))"
proof -
  let ?E = "map ei_session_id (flatten (PicoBroker_get_expired_sessions now b))"
  from cleanup_loop_eq [OF wf, of ?E st] remove_all_eq [OF wf, of ?E] obtain b1 where
    b1: "cleanup_loop ?E (st, b) = (Ok (), (fold connections_remove ?E st, b1))" "broker_wf cfg b1"
      "session_ids b1 = filter (\<lambda>k. k \<notin> set ?E) (session_ids b)"
      "session_of b1 = (\<lambda>k. if k \<in> set ?E then None else session_of b k)" "(broker_step cfg)\<^sup>*\<^sup>* b b1"
    by auto
  let ?D = "flatten (PicoBroker_get_disconnected_sessions b1)"
  from cleanup_loop_eq [OF b1(2), of ?D "fold connections_remove ?E st"] remove_all_eq [OF b1(2), of ?D] obtain b2 where
    b2: "cleanup_loop ?D (fold connections_remove ?E st, b1) = (Ok (), (fold connections_remove (?E @ ?D) st, b2))"
      "session_ids b2 = filter (\<lambda>k. k \<notin> set ?D) (session_ids b1)"
      "session_of b2 = (\<lambda>k. if k \<in> set ?D then None else session_of b1 k)" "(broker_step cfg)\<^sup>*\<^sup>* b1 b2"
    by auto
  have s2: "session_of b2 = (\<lambda>k. if k \<in> set (?E @ ?D) then None else session_of b k)"
    by (simp only: b2(3) b1(4)) auto
  have "k \<in> set (?E @ ?D) \<longleftrightarrow> stale now s" if l: "session_of b k = Some s" for k s
  proof -
    have E: "k \<in> set ?E \<longleftrightarrow> ExpirationInfo_is_expired (Session_expiration_info now s)"
      using listed_iff [OF broker_wf_parts(2) [OF wf] l, of "\<lambda>s. ExpirationInfo_is_expired (Session_expiration_info now s)"]
        get_expired_sessions_eq [OF broker_wf_parts(2) [OF wf], of now]
      by (auto simp: PicoBroker_get_expired_sessions_def Session_expiration_info_def image_iff)
    show ?thesis
    proof (cases "k \<in> set ?E")
      case False
      then have "session_of b1 k = Some s" using b1(4) l by simp
      from listed_iff [OF broker_wf_parts(2) [OF b1(2)] this, of "\<lambda>s. sess_state s = Disconnected"]
      have "k \<in> set ?D \<longleftrightarrow> sess_state s = Disconnected"
        using get_disconnected_sessions_eq [OF broker_wf_parts(2) [OF b1(2)]]
        by (auto simp: PicoBroker_get_disconnected_sessions_def image_iff)
      then show ?thesis using False E by (auto simp: stale_def)
    qed (use E in \<open>auto simp: stale_def\<close>)
  qed
  moreover have "cleanup_scan now (st, b) = (Ok (), (fold connections_remove (?E @ ?D) st, b2))"
    using b1(1) b2(1) by (simp add: cleanup_scan_def Let_def then_do_cases(1))
  moreover have "session_ids b2 = filter (\<lambda>k. k \<notin> set (?E @ ?D)) (session_ids b)"
    by (simp only: b2(2) b1(3)) (auto intro: filter_cong)
  moreover note rtranclp_trans [of "broker_step cfg", OF b1(5) b2(4)] s2 removed_queues [OF s2]
  ultimately show ?thesis by (intro exI [of _ b2] exI [of _ "?E @ ?D"]) simp
qed

section \<open>Ownership\<close>

text \<open>What a handler holds in each phase.\<close>

definition has_sender :: "phase \<Rightarrow> bool" where
  "has_sender ph \<longleftrightarrow> ph \<notin> {Registering_Notification, Leaving_Broker, Finished}"

definition has_connection :: "phase \<Rightarrow> bool" where
  "has_connection ph \<longleftrightarrow> ph \<notin> {Registering_Notification, Registering_Session, Storing_Connection, Leaving_Notifications,
     Leaving_Broker, Finished, Failed}"

definition has_session :: "phase \<Rightarrow> bool" where
  "has_session ph \<longleftrightarrow> ph \<notin> {Registering_Notification, Registering_Session, Finished, Failed}"

lemmas phase_defs = has_sender_def has_connection_def has_session_def

definition owned :: "PicoBroker \<Rightarrow> ServerState \<Rightarrow> nat \<Rightarrow> conn \<Rightarrow> bool" where
  "owned b st i c \<longleftrightarrow> notification_senders st (c_sid c) = (if has_sender (c_phase c) then Some i else None) \<and>
     (c_sid c \<in> connections st \<longrightarrow> has_connection (c_phase c)) \<and>
     (c_sid c \<in> set (session_ids b) \<longrightarrow> has_session (c_phase c))"

text \<open>A step of a handler concerns only its own identifier.\<close>

definition kept :: "u128 \<Rightarrow> PicoBroker \<times> ServerState \<Rightarrow> PicoBroker \<times> ServerState \<Rightarrow> bool" where
  "kept k = (\<lambda>(b, st) (b', st'). \<forall>k'. k' \<noteq> k \<longrightarrow> notification_senders st' k' = notification_senders st k' \<and>
     (k' \<in> connections st' \<longleftrightarrow> k' \<in> connections st) \<and> (k' \<in> set (session_ids b') \<longleftrightarrow> k' \<in> set (session_ids b)))"

definition phase_ok :: "config \<Rightarrow> phase \<Rightarrow> bool" where
  "phase_ok cfg ph \<longleftrightarrow> (\<forall>p. ph = Processing p \<longrightarrow> decoded cfg p)"

lemma phase_ok_simps [simp]:
  "phase_ok cfg (Processing p) = decoded cfg p" "(\<And>p. ph \<noteq> Processing p) \<Longrightarrow> phase_ok cfg ph"
  by (auto simp: phase_ok_def)

lemma tokio_read_decoded:
  assumes "tokio_read_packet (MAX_TOPIC_NAME_LENGTH cfg) (MAX_PAYLOAD_SIZE cfg) r = (Ok (Some p), r')"
  shows "decoded cfg p"
proof -
  have "\<exists>b n. and_then (slice b 0 n) (Packet_decode (MAX_TOPIC_NAME_LENGTH cfg) (MAX_PAYLOAD_SIZE cfg)) = Ok p"
    using assms by (auto simp: tokio_read_packet_def Let_def split: prod.splits bool.splits result.splits)
  then obtain b n where "and_then (slice b 0 n) (Packet_decode (MAX_TOPIC_NAME_LENGTH cfg) (MAX_PAYLOAD_SIZE cfg)) = Ok p" by blast
  then show ?thesis by (cases "slice b 0 n :: (bytes, ProtocolError) result") (auto simp: decoded_def)
qed

lemma do_read_cases:
  obtains (packet) p r where "do_read cfg instant c = c\<lparr>c_phase := Processing p, c_reader := r, c_last := instant\<rparr>" "decoded cfg p"
    | (left) ph r where "do_read cfg instant c = c\<lparr>c_phase := ph, c_reader := r\<rparr>" "ph = Leaving_Connections \<or> ph = Panicked"
proof -
  obtain x r where x: "tokio_read_packet (MAX_TOPIC_NAME_LENGTH cfg) (MAX_PAYLOAD_SIZE cfg) (c_reader c) = (x, r)" by force
  show ?thesis
  proof (cases "\<exists>p. x = Ok (Some p)")
    case True
    then obtain p where "x = Ok (Some p)" by blast
    then show ?thesis using packet [where p = p and r = r] x tokio_read_decoded by (simp add: do_read_def)
  next
    case False
    then show ?thesis
      using left [where ph = Leaving_Connections and r = r] left [where ph = Panicked and r = r] x
      by (cases x) (auto simp: do_read_def split: option.splits)
  qed
qed

lemma do_send_cases:
  assumes "do_send cfg ready hc pkt pkts c = Some c'"
  obtains ph fs where "c' = c\<lparr>c_phase := ph, c_frames := fs\<rparr>" "ph = Sending pkts \<or> ph = Panicked"
    "fs = c_frames c \<or> ready (hc_frame_channel_capacity hc) (length (c_frames c)) \<and> length fs = Suc (length (c_frames c))"
proof -
  have "\<exists>ph fs. c' = c\<lparr>c_phase := ph, c_frames := fs\<rparr> \<and> (ph = Sending pkts \<or> ph = Panicked) \<and>
    (fs = c_frames c \<or> ready (hc_frame_channel_capacity hc) (length (c_frames c)) \<and> length fs = Suc (length (c_frames c)))"
  proof (cases "encode_frame (MAX_TOPIC_NAME_LENGTH cfg) (MAX_PAYLOAD_SIZE cfg) pkt")
    case (Ok f)
    then have "c' = c\<lparr>c_phase := Sending pkts, c_frames := c_frames c @ [f]\<rparr>"
      "ready (hc_frame_channel_capacity hc) (length (c_frames c))" using assms by (auto simp: do_send_def split: if_splits)
    then show ?thesis by (intro exI [of _ "Sending pkts"] exI [of _ "c_frames c @ [f]"]) simp
  next
    case (Err e)
    then have "c' = c\<lparr>c_phase := Sending pkts, c_frames := c_frames c\<rparr>"
      using assms by (cases c) (auto simp: do_send_def)
    then show ?thesis by blast
  next
    case Panic
    then have "c' = c\<lparr>c_phase := Panicked, c_frames := c_frames c\<rparr>"
      using assms by (cases c) (auto simp: do_send_def)
    then show ?thesis by blast
  qed
  then show ?thesis using that by blast
qed

lemmas table_defs = ServerState_register_notification_def ServerState_remove_notification_def connections_insert_def
  connections_remove_def

lemma conn_step_owned:
  assumes st: "conn_step cfg hc ready faults i (b, st, c) (b', st', c')"
    and wf: "broker_wf cfg b" and cfg: "config_ok cfg" and ok: "phase_ok cfg (c_phase c)"
  shows "c_sid c' = c_sid c \<and> phase_ok cfg (c_phase c') \<and> (broker_step cfg)\<^sup>*\<^sup>* b b' \<and> session_id_gen st' = session_id_gen st \<and>
    kept (c_sid c) (b, st) (b', st') \<and> (owned b st i c \<longrightarrow> owned b' st' i c')"
  using st
proof cases
  case register_notification
  then show ?thesis by (auto simp: do_register_notification_def table_defs kept_def owned_def phase_defs)
next
  case (register_session now)
  then show ?thesis using do_register_session_eq [OF wf cfg, of hc now c] by (auto simp: kept_def owned_def phase_defs)
next
  case (store_connection instant)
  then show ?thesis
    by (cases "hc_frame_channel_capacity hc = 0")
      (auto simp: do_store_connection_def table_defs kept_def owned_def phase_defs)
next
  case (read instant)
  then show ?thesis
    by (cases rule: do_read_cases [of cfg instant c]) (auto simp: kept_def owned_def phase_defs)
next
  case (process packet now)
  then show ?thesis using do_process_eq [OF wf cfg, of packet now c] ok by (auto simp: kept_def owned_def phase_defs)
next
  case drain
  then show ?thesis using do_drain_eq [OF wf, of c] by (auto simp: kept_def owned_def phase_defs)
next
  case (send pkt pkts)
  from send(4) show ?thesis
    by (cases rule: do_send_cases) (use send in \<open>auto simp: kept_def owned_def phase_defs\<close>)
next
  case leave_broker
  then show ?thesis using do_leave_broker_eq [OF wf, of c] by (auto simp: kept_def owned_def phase_defs)
qed (auto simp: kept_def owned_def phase_defs table_defs do_write_def do_timeout_def)

section \<open>The invariant\<close>

text \<open>
  The identifier of the task with number \<open>i\<close> has \<open>i\<close> in its low 32 bits, so that the first \<open>2 ^ 32\<close> tasks have different
  identifiers.
\<close>

definition numbered :: "tokio_server \<Rightarrow> bool" where
  "numbered s \<longleftrightarrow> session_id_gen (ts_state s) = of_nat (length (ts_tasks s)) \<and>
     (\<forall>i < length (ts_tasks s). unat (c_sid (ts_tasks s ! i)) mod 2 ^ 32 = i mod 2 ^ 32)"

definition all_owned :: "tokio_server \<Rightarrow> bool" where
  "all_owned s \<longleftrightarrow> (\<forall>i < length (ts_tasks s). owned (ts_broker s) (ts_state s) i (ts_tasks s ! i)) \<and>
     dom (notification_senders (ts_state s)) \<union> connections (ts_state s) \<union> set (session_ids (ts_broker s)) \<subseteq>
       c_sid ` set (ts_tasks s)"

definition server_inv :: "config \<Rightarrow> tokio_server \<Rightarrow> bool" where
  "server_inv cfg s \<longleftrightarrow> reachable cfg (ts_broker s) \<and> numbered s \<and> (\<forall>c \<in> set (ts_tasks s). phase_ok cfg (c_phase c)) \<and>
     (length (ts_tasks s) \<le> 2 ^ 32 \<longrightarrow> all_owned s)"

lemma numbered_inj:
  assumes "numbered s" "length (ts_tasks s) \<le> 2 ^ 32" "i < length (ts_tasks s)" "j < length (ts_tasks s)"
    "c_sid (ts_tasks s ! i) = c_sid (ts_tasks s ! j)"
  shows "i = j"
proof -
  have "i mod 2 ^ 32 = j mod 2 ^ 32" using assms unfolding numbered_def by metis
  then show ?thesis using assms(2-4) by simp
qed

lemma server_invD:
  assumes "server_inv cfg s" "config_ok cfg"
  shows "broker_wf cfg (ts_broker s)" "numbered s" "i < length (ts_tasks s) \<Longrightarrow> phase_ok cfg (c_phase (ts_tasks s ! i))"
    "length (ts_tasks s) \<le> 2 ^ 32 \<Longrightarrow> i < length (ts_tasks s) \<Longrightarrow> owned (ts_broker s) (ts_state s) i (ts_tasks s ! i)"
  using assms reachable_invariants [of cfg "ts_broker s"] by (auto simp: server_inv_def all_owned_def)

lemma take_bit_mod: "unat (take_bit 32 (of_nat n :: u64)) = n mod 2 ^ 32"
proof -
  have "n mod 2 ^ 64 mod 2 ^ 32 = n mod 2 ^ 32" by (rule mod_mod_cancel) (simp add: le_imp_power_dvd)
  then show ?thesis by (simp add: take_bit_eq_mod unat_mod unat_of_nat)
qed

lemma session_id_low: "unat (session_id_of base (of_nat n)) mod 2 ^ 32 = n mod 2 ^ 32"
proof -
  let ?n = "take_bit 32 (of_nat n :: u64)"
  have "unat (session_id_of base (of_nat n)) mod 2 ^ 32 = unat (take_bit 32 (session_id_of base (of_nat n)))"
    by (simp add: take_bit_eq_mod unat_mod)
  also have "\<dots> = unat (ucast ?n :: u128)" by (simp only: take_bit_session_id)
  also have "\<dots> = unat ?n" unfolding unsigned_ucast_eq take_bit_mod by (simp add: take_bit_eq_mod)
  finally show ?thesis by (simp only: take_bit_mod)
qed

lemma fresh_id:
  assumes "numbered s" "length (ts_tasks s) < 2 ^ 32"
  shows "session_id_of base (of_nat (length (ts_tasks s))) \<notin> c_sid ` set (ts_tasks s)"
proof
  assume "session_id_of base (of_nat (length (ts_tasks s))) \<in> c_sid ` set (ts_tasks s)"
  then obtain i where i: "i < length (ts_tasks s)" "c_sid (ts_tasks s ! i) = session_id_of base (of_nat (length (ts_tasks s)))"
    by (auto simp: in_set_conv_nth)
  then have "i mod 2 ^ 32 = length (ts_tasks s) mod 2 ^ 32"
    using assms(1) session_id_low [of base "length (ts_tasks s)"] unfolding numbered_def by metis
  then show False using i(1) assms(2) by simp
qed

lemma tokio_accept_simps:
  assumes "numbered s"
  shows "ts_broker (tokio_accept now chunks s) = ts_broker s"
    "ts_tasks (tokio_accept now chunks s) =
       ts_tasks s @ [conn_new (session_id_of now (of_nat (length (ts_tasks s)))) chunks]"
    "connections (ts_state (tokio_accept now chunks s)) = connections (ts_state s)"
    "notification_senders (ts_state (tokio_accept now chunks s)) = notification_senders (ts_state s)"
    "session_id_gen (ts_state (tokio_accept now chunks s)) = of_nat (length (ts_tasks s)) + 1"
  using assms
  by (simp_all add: tokio_accept_def ServerState_generate_session_id_def SessionIdGenerator_generate_def numbered_def)

lemma accept_keeps:
  assumes inv: "server_inv cfg s"
  shows "server_inv cfg (tokio_accept now chunks s)"
proof -
  let ?k = "session_id_of now (of_nat (length (ts_tasks s)))"
  have n: "numbered s" using inv by (simp add: server_inv_def)
  have "all_owned (tokio_accept now chunks s)" if l: "length (ts_tasks s) < 2 ^ 32"
  proof -
    have o: "all_owned s" using inv l by (simp add: server_inv_def)
    note new = fresh_id [OF n l, of now]
    have "notification_senders (ts_state s) ?k = None" "?k \<notin> connections (ts_state s)" "?k \<notin> set (session_ids (ts_broker s))"
      using o new by (auto simp: all_owned_def)
    then show ?thesis
      using o by (auto simp: all_owned_def owned_def tokio_accept_simps [OF n] nth_append conn_new_def phase_defs less_Suc_eq)
  qed
  moreover have "numbered (tokio_accept now chunks s)"
    using n session_id_low [of now "length (ts_tasks s)"]
    by (auto simp: numbered_def tokio_accept_simps [OF n] nth_append conn_new_def less_Suc_eq)
  ultimately show ?thesis
    using inv by (auto simp: server_inv_def tokio_accept_simps [OF n] conn_new_def)
qed

lemma handler_keeps:
  assumes inv: "server_inv cfg s" and cfg: "config_ok cfg" and i: "i < length (ts_tasks s)"
    and st: "conn_step cfg hc ready faults i (ts_broker s, ts_state s, ts_tasks s ! i) (b', st', c')"
  shows "server_inv cfg \<lparr>ts_broker = b', ts_state = st', ts_tasks = (ts_tasks s)[i := c']\<rparr>"
proof -
  let ?c = "ts_tasks s ! i"
  note D = server_invD [OF inv cfg]
  from conn_step_owned [OF st D(1) cfg D(3) [OF i]] have
    e: "c_sid c' = c_sid ?c" "phase_ok cfg (c_phase c')" "(broker_step cfg)\<^sup>*\<^sup>* (ts_broker s) b'"
      "session_id_gen st' = session_id_gen (ts_state s)" and
    k: "kept (c_sid ?c) (ts_broker s, ts_state s) (b', st')" and
    o: "owned (ts_broker s) (ts_state s) i ?c \<longrightarrow> owned b' st' i c'" by auto
  have ids: "map c_sid ((ts_tasks s)[i := c']) = map c_sid (ts_tasks s)"
    using e(1) i by (metis list_update_id map_update)
  have sid: "c_sid ((ts_tasks s)[i := c'] ! j) = c_sid (ts_tasks s ! j)" if "j < length (ts_tasks s)" for j
    using that ids by (metis length_list_update nth_map)
  have img: "c_sid ` set ((ts_tasks s)[i := c']) = c_sid ` set (ts_tasks s)"
    using arg_cong [OF ids, of set] by simp
  have "all_owned \<lparr>ts_broker = b', ts_state = st', ts_tasks = (ts_tasks s)[i := c']\<rparr>" if l: "length (ts_tasks s) \<le> 2 ^ 32"
  proof -
    have "owned b' st' j ((ts_tasks s)[i := c'] ! j)" if j: "j < length (ts_tasks s)" for j
    proof (cases "j = i")
      case True
      then show ?thesis using o D(4) [OF l i] i by simp
    next
      case False
      then have "c_sid (ts_tasks s ! j) \<noteq> c_sid ?c" using numbered_inj [OF D(2) l j i] by blast
      then show ?thesis using D(4) [OF l j] False k by (simp add: owned_def kept_def)
    qed
    moreover have "dom (notification_senders st') \<union> connections st' \<union> set (session_ids b') \<subseteq> c_sid ` set (ts_tasks s)"
    proof -
      have "c_sid ?c \<in> c_sid ` set (ts_tasks s)" using i by simp
      moreover have "dom (notification_senders (ts_state s)) \<union> connections (ts_state s) \<union> set (session_ids (ts_broker s)) \<subseteq>
          c_sid ` set (ts_tasks s)" using inv l by (simp add: server_inv_def all_owned_def)
      ultimately show ?thesis
        using k unfolding kept_def by (simp add: subset_iff) (metis domI domIff)
    qed
    ultimately show ?thesis by (simp add: all_owned_def img)
  qed
  moreover have "reachable cfg b'" using reachable_steps [OF e(3)] inv by (simp add: server_inv_def)
  moreover have "\<forall>c \<in> set ((ts_tasks s)[i := c']). phase_ok cfg (c_phase c)"
    using inv e(2) set_update_subset_insert [of "ts_tasks s" i c'] by (auto simp: server_inv_def)
  ultimately show ?thesis
    using D(2) e(4) sid by (auto simp: server_inv_def numbered_def)
qed

text \<open>A notification changes at most the count of one task.\<close>

lemma notify_session_cases:
  assumes "ServerState_notify_session ready sid st tasks = Some tasks'"
  obtains (nobody) "tasks' = tasks" "\<forall>j. notification_senders st sid = Some j \<longrightarrow> is_gone (c_phase (tasks ! j))"
    | (noted) j where "notification_senders st sid = Some j" "\<not> is_gone (c_phase (tasks ! j))" "ready 8 (c_notes (tasks ! j))"
        "tasks' = tasks[j := (tasks ! j)\<lparr>c_notes := c_notes (tasks ! j) + 1\<rparr>]"
  using assms by (auto simp: ServerState_notify_session_def split: option.splits if_splits)

lemma notify_session_same:
  assumes "ServerState_notify_session ready sid st tasks = Some tasks'"
  shows "length tasks' = length tasks" "map c_sid tasks' = map c_sid tasks" "map c_phase tasks' = map c_phase tasks"
  using assms
  by (cases rule: notify_session_cases; simp add: map_update; metis list_update_beyond list_update_id map_update nth_map linorder_not_less)+

lemma nth_eqI: "map f xs = map f ys \<Longrightarrow> i < length xs \<Longrightarrow> f (xs ! i) = f (ys ! i)"
  by (metis length_map nth_map)

lemma notify_keeps:
  assumes inv: "server_inv cfg s" and i: "i < length (ts_tasks s)"
    and ph: "c_phase (ts_tasks s ! i) = Notifying (sid # sids) pkts"
    and no: "ServerState_notify_session ready sid (ts_state s) (ts_tasks s) = Some tasks"
  shows "server_inv cfg (s\<lparr>ts_tasks := tasks[i := (tasks ! i)\<lparr>c_phase := Notifying sids pkts\<rparr>]\<rparr>)"
proof -
  let ?ts = "tasks[i := (tasks ! i)\<lparr>c_phase := Notifying sids pkts\<rparr>]"
  note same = notify_session_same [OF no]
  have sid: "c_sid (?ts ! j) = c_sid (ts_tasks s ! j)" if "j < length (ts_tasks s)" for j
    using that i same(1) nth_eqI [OF same(2), of j] by (cases "j = i") simp_all
  have phs: "c_phase (?ts ! j) = (if j = i then Notifying sids pkts else c_phase (ts_tasks s ! j))"
    if "j < length (ts_tasks s)" for j
    using that i same(1) nth_eqI [OF same(3), of j] by simp
  have "map c_sid ?ts = map c_sid (ts_tasks s)"
    using sid same(1) by (auto intro: nth_equalityI)
  then have img: "c_sid ` set ?ts = c_sid ` set (ts_tasks s)" by (metis list.set_map)
  have "owned (ts_broker s) (ts_state s) j (?ts ! j) = owned (ts_broker s) (ts_state s) j (ts_tasks s ! j)"
    if "j < length (ts_tasks s)" for j
    using phs [OF that] sid [OF that] ph by (auto simp: owned_def phase_defs)
  moreover have "phase_ok cfg (c_phase (?ts ! j))" if "j < length (ts_tasks s)" for j
    using phs [OF that] inv that by (auto simp: server_inv_def)
  ultimately show ?thesis
    using inv sid same(1) img by (auto simp: server_inv_def numbered_def all_owned_def all_set_conv_all_nth)
qed

lemma cleanup_facts:
  assumes wf: "broker_wf cfg (ts_broker s)"
  obtains X where "ts_tasks (tokio_cleanup now s) = ts_tasks s" "(broker_step cfg)\<^sup>*\<^sup>* (ts_broker s) (ts_broker (tokio_cleanup now s))"
    "session_ids (ts_broker (tokio_cleanup now s)) = filter (\<lambda>k. k \<notin> X) (session_ids (ts_broker s))"
    "connections (ts_state (tokio_cleanup now s)) = connections (ts_state s) - X"
    "notification_senders (ts_state (tokio_cleanup now s)) = notification_senders (ts_state s)"
    "session_id_gen (ts_state (tokio_cleanup now s)) = session_id_gen (ts_state s)"
    "tx (ts_broker (tokio_cleanup now s)) = (\<lambda>k. if k \<in> X then [] else tx (ts_broker s) k)"
proof -
  from cleanup_scan_eq [OF wf, of now "ts_state s"] obtain b' X where
    "cleanup_scan now (ts_state s, ts_broker s) = (Ok (), (fold connections_remove X (ts_state s), b'))"
    "(broker_step cfg)\<^sup>*\<^sup>* (ts_broker s) b'" "session_ids b' = filter (\<lambda>k. k \<notin> set X) (session_ids (ts_broker s))"
    "tx b' = (\<lambda>k. if k \<in> set X then [] else tx (ts_broker s) k)" by blast
  then show ?thesis using that [of "set X"] by (simp add: tokio_cleanup_def fold_connections_remove)
qed

lemma cleanup_keeps:
  assumes inv: "server_inv cfg s" and cfg: "config_ok cfg"
  shows "server_inv cfg (tokio_cleanup now s)"
  using server_invD(1) [OF inv cfg]
proof (cases rule: cleanup_facts [where now = now])
  case (1 X)
  have "reachable cfg (ts_broker (tokio_cleanup now s))"
    using reachable_steps [OF 1(2)] inv by (simp add: server_inv_def)
  then show ?thesis
    using inv 1 by (auto simp: server_inv_def numbered_def all_owned_def owned_def)
qed

lemma MqttServer_new_inv: "server_inv cfg (MqttServer_new cfg)"
proof -
  have "session_ids (PicoBroker_new cfg) = []"
    by (simp add: PicoBroker_new_def PicoBroker_default_def ids_def live_def SessionRegistry_default_def
      HeaplessVec_new_def HeaplessVec_as_slice_def)
  then show ?thesis
    by (simp add: server_inv_def MqttServer_new_def numbered_def all_owned_def ServerState_new_def reachable.init)
qed

lemma tokio_step_keeps:
  assumes "tokio_step cfg hc ready faults s s'" "server_inv cfg s" "config_ok cfg"
  shows "server_inv cfg s'"
  using assms(1)
proof cases
  case accept
  then show ?thesis using accept_keeps [OF assms(2)] by simp
next
  case handler
  then show ?thesis using handler_keeps [OF assms(2,3)] by simp
next
  case notify
  then show ?thesis using notify_keeps [OF assms(2)] by simp
next
  case cleanup
  then show ?thesis using cleanup_keeps [OF assms(2,3)] by simp
qed

lemma tokio_reachable_inv: "tokio_reachable cfg hc ready faults s \<Longrightarrow> config_ok cfg \<Longrightarrow> server_inv cfg s"
  by (induction rule: tokio_reachable.induct) (auto intro: MqttServer_new_inv tokio_step_keeps)

section \<open>Wake-ups\<close>

definition served :: "phase \<Rightarrow> bool" where
  "served ph \<longleftrightarrow> has_sender ph \<and> \<not> is_gone ph"

text \<open>A notification for the task is in its channel, has just been taken out, or is about to be sent by some handler.\<close>

definition awake :: "tokio_server \<Rightarrow> nat \<Rightarrow> bool" where
  "awake s i \<longleftrightarrow> 0 < c_notes (ts_tasks s ! i) \<or> c_phase (ts_tasks s ! i) = Draining \<or>
     (\<exists>j < length (ts_tasks s). \<exists>sids pkts. c_phase (ts_tasks s ! j) = Notifying sids pkts \<and> c_sid (ts_tasks s ! i) \<in> set sids)"

definition none_forgotten :: "tokio_server \<Rightarrow> bool" where
  "none_forgotten s \<longleftrightarrow> (\<forall>i < length (ts_tasks s). served (c_phase (ts_tasks s ! i)) \<longrightarrow>
     tx (ts_broker s) (c_sid (ts_tasks s ! i)) \<noteq> [] \<longrightarrow> awake s i)"

lemmas served_defs = served_def has_sender_def is_gone_def

lemma conn_step_wake:
  assumes st: "conn_step cfg hc ready False i (b, st, c) (b', st', c')"
    and wf: "broker_wf cfg b" and cfg: "config_ok cfg" and ok: "phase_ok cfg (c_phase c)"
  shows "(\<forall>k. tx b' k \<noteq> [] \<longrightarrow> tx b k \<noteq> [] \<and> (k = c_sid c \<longrightarrow> c_phase c \<noteq> Draining) \<or>
      (\<exists>ks ps. c_phase c' = Notifying ks ps \<and> k \<in> set ks)) \<and>
    (0 < c_notes c \<longrightarrow> 0 < c_notes c' \<or> c_phase c' = Draining) \<and>
    (\<forall>k ks ps. c_phase c \<noteq> Notifying (k # ks) ps) \<and>
    (served (c_phase c') \<longrightarrow> served (c_phase c) \<or> c_phase c = Registering_Notification)"
  using st
proof cases
  case register_notification
  then show ?thesis by (auto simp: do_register_notification_def served_defs)
next
  case (register_session now)
  then show ?thesis using do_register_session_eq [OF wf cfg, of hc now c] by (auto simp: served_defs)
next
  case (store_connection instant)
  then show ?thesis by (auto simp: do_store_connection_def served_defs)
next
  case (read instant)
  then show ?thesis by (cases rule: do_read_cases [of cfg instant c]) (auto simp: served_defs)
next
  case (process packet now)
  then have "is_ok (fst (receive_and_process cfg (c_sid c) packet now b))" by simp
  then show ?thesis using process do_process_eq [OF wf cfg, of packet now c] ok by (auto simp: served_defs)
next
  case drain
  then show ?thesis using do_drain_eq [OF wf, of c] by (auto simp: served_defs split: if_splits)
next
  case (send pkt pkts)
  from send(4) show ?thesis by (cases rule: do_send_cases) (use send in \<open>auto simp: served_defs\<close>)
next
  case leave_broker
  then show ?thesis using do_leave_broker_eq [OF wf, of c] by (auto simp: served_defs split: if_splits)
qed (auto simp: served_defs do_write_def do_timeout_def)

lemma awake_cases:
  assumes "awake s i"
  obtains (noted) "0 < c_notes (ts_tasks s ! i)" | (taken) "c_phase (ts_tasks s ! i) = Draining"
    | (coming) j sids pkts where "j < length (ts_tasks s)" "c_phase (ts_tasks s ! j) = Notifying sids pkts"
        "c_sid (ts_tasks s ! i) \<in> set sids"
  using assms by (auto simp: awake_def)

lemma handler_wakes:
  assumes none: "none_forgotten s" and inv: "server_inv cfg s" and cfg: "config_ok cfg" and j: "j < length (ts_tasks s)"
    and st: "conn_step cfg hc ready False j (ts_broker s, ts_state s, ts_tasks s ! j) (b', st', c')"
    and small: "length (ts_tasks s) \<le> 2 ^ 32"
  shows "none_forgotten \<lparr>ts_broker = b', ts_state = st', ts_tasks = (ts_tasks s)[j := c']\<rparr>"
  unfolding none_forgotten_def
proof (intro allI impI)
  let ?s = "\<lparr>ts_broker = b', ts_state = st', ts_tasks = (ts_tasks s)[j := c']\<rparr>"
  fix i
  assume i: "i < length (ts_tasks ?s)" and sv: "served (c_phase (ts_tasks ?s ! i))"
    and t: "tx (ts_broker ?s) (c_sid (ts_tasks ?s ! i)) \<noteq> []"
  let ?c = "ts_tasks s ! j" and ?k = "c_sid (ts_tasks s ! i)"
  note D = server_invD [OF inv cfg]
  from conn_step_owned [OF st D(1) cfg D(3) [OF j]] have sid: "c_sid c' = c_sid ?c" by simp
  have i': "i < length (ts_tasks s)" using i by simp
  have k: "c_sid (ts_tasks ?s ! i) = ?k" using sid i j by (cases "i = j") simp_all
  from conn_step_wake [OF st D(1) cfg D(3) [OF j]] have
    w: "\<And>k. tx b' k \<noteq> [] \<Longrightarrow> tx (ts_broker s) k \<noteq> [] \<and> (k = c_sid ?c \<longrightarrow> c_phase ?c \<noteq> Draining) \<or>
        (\<exists>ks ps. c_phase c' = Notifying ks ps \<and> k \<in> set ks)"
      "0 < c_notes ?c \<Longrightarrow> 0 < c_notes c' \<or> c_phase c' = Draining" "\<And>k ks ps. c_phase ?c \<noteq> Notifying (k # ks) ps"
      "served (c_phase c') \<Longrightarrow> served (c_phase ?c) \<or> c_phase ?c = Registering_Notification" by blast+
  have "tx b' ?k \<noteq> []" using t k by simp
  from w(1) [OF this] show "awake ?s i"
  proof
    assume "\<exists>ks ps. c_phase c' = Notifying ks ps \<and> ?k \<in> set ks"
    then show ?thesis unfolding awake_def k using j by (intro disjI2 exI [of _ j]) auto
  next
    assume old: "tx (ts_broker s) ?k \<noteq> [] \<and> (?k = c_sid ?c \<longrightarrow> c_phase ?c \<noteq> Draining)"
    then have "?k \<in> set (session_ids (ts_broker s))" using queues_of_unregistered by blast
    then have "c_phase (ts_tasks s ! i) \<noteq> Registering_Notification"
      using D(4) [OF small i'] by (auto simp: owned_def has_session_def)
    then have "served (c_phase (ts_tasks s ! i))" using sv w(4) i j by (cases "i = j") auto
    then have "awake s i" using none i' old by (simp add: none_forgotten_def)
    then show ?thesis
    proof (cases rule: awake_cases)
      case noted
      then show ?thesis unfolding awake_def using w(2) i j by (cases "i = j") auto
    next
      case taken
      then have "i \<noteq> j" using old by auto
      then show ?thesis unfolding awake_def using taken by simp
    next
      case (coming m sids pkts)
      then have "m \<noteq> j" using w(3) by (cases sids) auto
      then show ?thesis unfolding awake_def k using coming by (intro disjI2 exI [of _ m]) simp
    qed
  qed
qed

lemma notify_wakes:
  assumes none: "none_forgotten s" and inv: "server_inv cfg s" and cfg: "config_ok cfg" and j: "j < length (ts_tasks s)"
    and ph: "c_phase (ts_tasks s ! j) = Notifying (sid # sids) pkts"
    and no: "ServerState_notify_session ready sid (ts_state s) (ts_tasks s) = Some tasks"
    and small: "length (ts_tasks s) \<le> 2 ^ 32"
  shows "none_forgotten (s\<lparr>ts_tasks := tasks[j := (tasks ! j)\<lparr>c_phase := Notifying sids pkts\<rparr>]\<rparr>)"
  unfolding none_forgotten_def
proof (intro allI impI)
  let ?s = "s\<lparr>ts_tasks := tasks[j := (tasks ! j)\<lparr>c_phase := Notifying sids pkts\<rparr>]\<rparr>"
  fix i
  assume i: "i < length (ts_tasks ?s)" and sv: "served (c_phase (ts_tasks ?s ! i))"
    and t: "tx (ts_broker ?s) (c_sid (ts_tasks ?s ! i)) \<noteq> []"
  note same = notify_session_same [OF no]
  have i': "i < length (ts_tasks s)" using i same(1) by simp
  have k: "c_sid (ts_tasks ?s ! m) = c_sid (ts_tasks s ! m)" if "m < length (ts_tasks s)" for m
    using that same(1) nth_eqI [OF same(2), of m] by (cases "m = j") simp_all
  have phs: "c_phase (ts_tasks ?s ! m) = (if m = j then Notifying sids pkts else c_phase (ts_tasks s ! m))"
    if "m < length (ts_tasks s)" for m
    using that same(1) nth_eqI [OF same(3), of m] by simp
  have nts: "c_notes (ts_tasks ?s ! m) = c_notes (tasks ! m)" if "m < length (ts_tasks s)" for m
    using that same(1) by (cases "m = j") simp_all
  have more: "c_notes (ts_tasks s ! m) \<le> c_notes (tasks ! m)" if "m < length (ts_tasks s)" for m
    using no
  proof (cases rule: notify_session_cases)
    case (noted l)
    then show ?thesis using that by (cases "l = m") simp_all
  qed simp
  have old: "served (c_phase (ts_tasks s ! i))" using sv phs [OF i'] ph by (auto simp: served_defs split: if_splits)
  then have "awake s i" using none i' t k [OF i'] by (simp add: none_forgotten_def)
  then show "awake ?s i"
  proof (cases rule: awake_cases)
    case noted
    then show ?thesis unfolding awake_def using nts [OF i'] more [OF i'] by simp
  next
    case taken
    then have "i \<noteq> j" using ph by auto
    then show ?thesis unfolding awake_def using taken phs [OF i'] by simp
  next
    case (coming m ks ps)
    show ?thesis
    proof (cases "m = j \<and> c_sid (ts_tasks s ! i) = sid")
      case False
      then have "\<exists>ks' ps'. c_phase (ts_tasks ?s ! m) = Notifying ks' ps' \<and> c_sid (ts_tasks s ! i) \<in> set ks'"
        using coming phs [OF coming(1)] ph by (cases "m = j") auto
      then show ?thesis unfolding awake_def k [OF i'] using coming(1) same(1) by (intro disjI2 exI [of _ m]) simp
    next
      case True
      then have "notification_senders (ts_state s) sid = Some i"
        using server_invD(4) [OF inv cfg small i'] old by (auto simp: owned_def served_def)
      with no have "c_notes (tasks ! i) = c_notes (ts_tasks s ! i) + 1"
        by (cases rule: notify_session_cases) (use old i' in \<open>auto simp: served_def\<close>)
      then show ?thesis unfolding awake_def using nts [OF i'] by simp
    qed
  qed
qed

lemma wakes_inv:
  assumes "tokio_reachable cfg hc ready False s" "config_ok cfg"
  shows "length (ts_tasks s) \<le> 2 ^ 32 \<longrightarrow> none_forgotten s"
  using assms(1)
proof induction
  case start
  then show ?case by (simp add: none_forgotten_def MqttServer_new_def)
next
  case (step s s')
  note inv = tokio_reachable_inv [OF step.hyps(1) assms(2)]
  from step.hyps(2) show ?case
  proof cases
    case (accept now_secs chunks)
    have n: "numbered s" using inv by (simp add: server_inv_def)
    have ts: "ts_tasks s' = ts_tasks s @ [conn_new (session_id_of now_secs (of_nat (length (ts_tasks s)))) chunks]"
      and b: "ts_broker s' = ts_broker s" unfolding accept by (simp_all add: tokio_accept_simps [OF n])
    have "awake s' i" if "i < length (ts_tasks s)" "awake s i" for i
      using that unfolding awake_def ts by (auto simp: nth_append less_Suc_eq)
    moreover have "\<not> served (c_phase (ts_tasks s' ! length (ts_tasks s)))" by (simp add: ts conn_new_def served_defs)
    ultimately show ?thesis using step.IH by (auto simp: none_forgotten_def ts b nth_append less_Suc_eq)
  next
    case (handler i b' st' c')
    then show ?thesis using handler_wakes [OF _ inv assms(2)] step.IH by simp
  next
    case (notify i sid sids pkts tasks)
    then show ?thesis using notify_wakes [OF _ inv assms(2)] step.IH notify_session_same(1) [of ready sid] by simp
  next
    case (cleanup now)
    from server_invD(1) [OF inv assms(2)] show ?thesis
      by (cases rule: cleanup_facts [where now = now])
        (use step.IH cleanup in \<open>auto simp: none_forgotten_def awake_def split: if_splits\<close>)
  qed
qed

end
