(* ===== verification/Server_Tokio_Runs.thy ===== *)
theory Server_Tokio_Runs
  imports Server_Tokio_Laws
begin

text \<open>
  Runs of the tokio server: dropping the future of \<^verbatim>\<open>read_packet\<close> loses nothing, the channels stay within their capacity, and a
  handler that fills its own notification channel stops for ever, which nine pipelined PINGREQ packets achieve.
\<close>

section \<open>Dropping a read\<close>

lemma parse_loop_append:
  "parse_remaining_length_loop buffer idx m v = Ok r \<Longrightarrow> parse_remaining_length_loop (buffer @ rest) idx m v = Ok r"
proof (induction buffer idx m v rule: parse_remaining_length_loop.induct)
  case (1 buffer idx m v)
  show ?case
    using "1.prems" "1.IH" [OF _ refl refl refl]
    by (subst parse_remaining_length_loop.simps, subst (asm) (3) parse_remaining_length_loop.simps)
      (auto simp: Let_def nth_append split: if_splits)
qed

lemma parse_append: "parse_remaining_length buffer = Ok r \<Longrightarrow> parse_remaining_length (buffer @ rest) = Ok r"
  by (simp add: parse_remaining_length_def parse_loop_append)

lemma tokio_fill_done: "need \<le> length b \<Longrightarrow> tokio_fill need b cs = (True, b, cs)"
  by (cases cs) auto

lemma read_cancelled_same: "tokio_read_packet N M (read_cancelled r) = tokio_read_packet N M r"
proof (cases "\<exists>c cs. tk_chunks r = c # cs \<and> wants_more (tk_buffer r) \<and> c \<noteq> []")
  case False
  then have "read_cancelled r = r" by (auto simp: read_cancelled_def split: list.split)
  then show ?thesis by simp
next
  case True
  then obtain c cs where r: "tk_chunks r = c # cs" "wants_more (tk_buffer r)" "c \<noteq> []" by blast
  let ?b = "tk_buffer r"
  have e: "read_cancelled r = \<lparr>tk_buffer = ?b @ c, tk_chunks = cs\<rparr>" using r by (simp add: read_cancelled_def)
  show ?thesis
  proof (cases "length ?b < 2")
    case True
    then have "tokio_fill 2 ?b (c # cs) = tokio_fill 2 (?b @ c) cs" using r(3) by simp
    then show ?thesis unfolding tokio_read_packet_def by (simp only: e r(1) tokio_reader.simps)
  next
    case False
    with r(2) obtain n k where p: "parse_remaining_length ?b = Ok (n, k)" "length ?b < 1 + k + n"
      by (auto simp: wants_more_def split: result.splits prod.splits)
    have "tokio_fill (1 + k + n) ?b (c # cs) = tokio_fill (1 + k + n) (?b @ c) cs" using p(2) r(3) by simp
    then show ?thesis
      using False p(1) parse_append [OF p(1), of c]
      by (simp only: e r(1) tokio_reader.simps tokio_read_packet_def) (simp add: tokio_fill_done Let_def del: tokio_fill.simps)
  qed
qed

section \<open>The channels\<close>

text \<open>A bounded channel has room exactly when it holds fewer values than its capacity.\<close>

definition bounded :: "(usize \<Rightarrow> usize \<Rightarrow> bool) \<Rightarrow> bool" where
  "bounded ready \<longleftrightarrow> (\<forall>capacity held. ready capacity held \<longleftrightarrow> held < capacity)"

definition within :: "HandlerConfig \<Rightarrow> conn \<Rightarrow> bool" where
  "within hc c \<longleftrightarrow> c_notes c \<le> 8 \<and> length (c_frames c) \<le> hc_frame_channel_capacity hc"

lemma conn_step_within:
  assumes st: "conn_step cfg hc ready faults i (b, st, c) (b', st', c')" and r: "bounded ready" and w: "within hc c"
  shows "within hc c'"
  using st
proof cases
  case (read instant)
  then show ?thesis using w by (cases rule: do_read_cases [of cfg instant c]) (auto simp: within_def)
next
  case (send pkt pkts)
  from send(4) show ?thesis by (cases rule: do_send_cases) (use w r in \<open>auto simp: within_def bounded_def\<close>)
qed (use w in \<open>auto simp: within_def do_register_notification_def do_register_session_def do_store_connection_def do_process_def
    do_drain_def do_leave_broker_def do_write_def do_timeout_def split: prod.splits result.splits if_splits\<close>)

lemma tokio_step_within:
  assumes st: "tokio_step cfg hc ready faults s s'" and r: "bounded ready" and w: "\<forall>c \<in> set (ts_tasks s). within hc c"
  shows "\<forall>c \<in> set (ts_tasks s'). within hc c"
  using st
proof cases
  case accept
  then show ?thesis using w by (auto simp: tokio_accept_def conn_new_def within_def split: prod.splits)
next
  case (handler i b' st' c')
  then have "within hc c'" using conn_step_within r w by (metis nth_mem)
  then show ?thesis using handler(1) w set_update_subset_insert [of "ts_tasks s" i c'] by auto
next
  case (notify i sid sids pkts tasks)
  have "\<forall>c \<in> set tasks. within hc c"
    using notify(4)
  proof (cases rule: notify_session_cases)
    case (noted j)
    show ?thesis
    proof (cases "j < length (ts_tasks s)")
      case True
      then have "within hc ((ts_tasks s ! j)\<lparr>c_notes := c_notes (ts_tasks s ! j) + 1\<rparr>)"
        using noted(3) w r nth_mem by (auto simp: within_def bounded_def)
      then show ?thesis using w noted(4) set_update_subset_insert [of "ts_tasks s" j] by auto
    qed (use w noted(4) in \<open>simp add: list_update_beyond\<close>)
  qed (use w in simp)
  moreover have "i < length tasks" using notify(2,4) notify_session_same(1) by metis
  ultimately have "\<forall>c \<in> set (tasks[i := (tasks ! i)\<lparr>c_phase := Notifying sids pkts\<rparr>]). within hc c"
    using set_update_subset_insert [of tasks i] by (fastforce simp: within_def)
  then show ?thesis using notify(1) by simp
next
  case cleanup
  then show ?thesis using w by (simp add: tokio_cleanup_def split: prod.splits)
qed

section \<open>A handler that waits for itself\<close>

text \<open>The next notification of the task is for itself, and its own channel is full: only the task itself would empty it.\<close>

definition stuck :: "tokio_server \<Rightarrow> nat \<Rightarrow> bool" where
  "stuck s i \<longleftrightarrow> i < length (ts_tasks s) \<and> c_notes (ts_tasks s ! i) = 8 \<and>
     notification_senders (ts_state s) (c_sid (ts_tasks s ! i)) = Some i \<and>
     (\<exists>sids pkts. c_phase (ts_tasks s ! i) = Notifying (c_sid (ts_tasks s ! i) # sids) pkts)"

lemma conn_step_not_notifying:
  "conn_step cfg hc ready faults i (b, st, c) (b', st', c') \<Longrightarrow> c_phase c \<noteq> Notifying (sid # sids) pkts"
  by (erule conn_stepE) auto

lemma stuck_stays:
  assumes st: "tokio_step cfg hc ready faults s s'" and i: "stuck s i" and inv: "server_inv cfg s" and cfg: "config_ok cfg"
    and r: "bounded ready" and small: "length (ts_tasks s) \<le> 2 ^ 32"
  shows "stuck s' i \<and> ts_tasks s' ! i = ts_tasks s ! i"
proof -
  obtain sids pkts where i': "i < length (ts_tasks s)" "c_notes (ts_tasks s ! i) = 8"
    "notification_senders (ts_state s) (c_sid (ts_tasks s ! i)) = Some i"
    "c_phase (ts_tasks s ! i) = Notifying (c_sid (ts_tasks s ! i) # sids) pkts"
    using i by (auto simp: stuck_def)
  note D = server_invD [OF inv cfg]
  have "ts_tasks s' ! i = ts_tasks s ! i \<and> i < length (ts_tasks s') \<and>
    notification_senders (ts_state s') (c_sid (ts_tasks s ! i)) = Some i"
    using st
  proof cases
    case (accept now_secs chunks)
    then show ?thesis using i' by (simp add: tokio_accept_simps [OF D(2)] nth_append)
  next
    case (handler j b' st' c')
    have "j \<noteq> i" using conn_step_not_notifying [OF handler(3)] i'(4) by blast
    then have "c_sid (ts_tasks s ! i) \<noteq> c_sid (ts_tasks s ! j)"
      using numbered_inj [OF D(2) small handler(2) i'(1)] by metis
    then have "notification_senders st' (c_sid (ts_tasks s ! i)) = Some i"
      using conn_step_owned [OF handler(3) D(1) cfg D(3) [OF handler(2)]] i'(3) by (simp add: kept_def)
    then show ?thesis using handler(1) i'(1) \<open>j \<noteq> i\<close> by simp
  next
    case (notify j sid ks ps tasks)
    have full: "\<not> (notification_senders (ts_state s) sid = Some i \<and> ready 8 (c_notes (ts_tasks s ! i)))"
      using r i'(2) by (simp add: bounded_def)
    have "j \<noteq> i"
      using notify(3,4) i' full by (auto simp: ServerState_notify_session_def is_gone_def split: if_splits)
    moreover have "tasks ! i = ts_tasks s ! i"
      using notify(4)
    proof (cases rule: notify_session_cases)
      case (noted l)
      then have "l \<noteq> i" using full by metis
      then show ?thesis using noted(4) by simp
    qed simp
    ultimately show ?thesis using notify(1) i'(1,3) notify_session_same(1) [OF notify(4)] by simp
  next
    case (cleanup now)
    from D(1) show ?thesis by (cases rule: cleanup_facts [where now = now]) (use cleanup i' in simp)
  qed
  then show ?thesis using i' by (auto simp: stuck_def)
qed

lemma tokio_step_length: "tokio_step cfg hc ready faults s s' \<Longrightarrow> length (ts_tasks s) \<le> length (ts_tasks s')"
  by (erule tokio_stepE)
    (auto simp: tokio_accept_def tokio_cleanup_def dest: notify_session_same(1) split: prod.splits)

lemma stuck_forever:
  assumes run: "(tokio_step cfg hc ready faults)\<^sup>*\<^sup>* s s'" and s: "tokio_reachable cfg hc ready faults s" "stuck s i"
    and cfg: "config_ok cfg" and r: "bounded ready"
  shows "length (ts_tasks s') \<le> 2 ^ 32 \<longrightarrow> stuck s' i \<and> ts_tasks s' ! i = ts_tasks s ! i"
  using run
proof (induction rule: rtranclp_induct)
  case (step s1 s2)
  have "tokio_reachable cfg hc ready faults s1"
    using step.hyps(1) s(1) by (induction rule: rtranclp_induct) (auto intro: tokio_reachable.step)
  then show ?case
    using step.IH stuck_stays [OF step.hyps(2) _ tokio_reachable_inv [OF _ cfg] cfg r] tokio_step_length [OF step.hyps(2)]
    by force
qed (use s in simp)

section \<open>Nine pipelined PINGREQ packets\<close>

lemma ping_decode: "Packet_decode N M [0xC0, 0] = Ok (PingReq PingReqPacket)"
  by (simp add: Packet_decode_def index_def PacketType_from.simps PingReqPacket_decode_def empty_decode_def
    validate_buffer_size_def validate_packet_type_def slice_from_def)

lemma ping_read:
  "tokio_read_packet N M \<lparr>tk_buffer = [], tk_chunks = [0xC0, 0] # chunks\<rparr> =
     (Ok (Some (PingReq PingReqPacket)), \<lparr>tk_buffer = [], tk_chunks = chunks\<rparr>)"
proof -
  have "tokio_fill 2 [] ([0xC0, 0] # chunks) = (True, [0xC0, 0], chunks)" by (simp add: tokio_fill_done)
  moreover have "parse_remaining_length [0xC0, 0] = Ok (0, 1)"
    using parse_remaining_length_varlen [of 0 "0xC0" "[]"] by (simp add: varlen.simps)
  moreover have "tokio_fill (1 + 1 + 0) [0xC0, 0] chunks = (True, [0xC0, 0], chunks)" by (simp add: tokio_fill_done)
  ultimately show ?thesis by (simp add: tokio_read_packet_def Let_def slice_def ping_decode)
qed

lemma ping_process:
  assumes wf: "broker_wf cfg b" and cfg: "config_ok cfg" "0 < QUEUE_SIZE cfg" and ids: "session_ids b = [c_sid c]"
    and q: "rx b (c_sid c) = []" "tx b (c_sid c) = []"
  shows "\<exists>b'. do_process cfg now (PingReq PingReqPacket) (b, c) =
      (b', c\<lparr>c_phase := Notifying [c_sid c] [PingResp PingRespPacket]\<rparr>) \<and>
    is_ok (fst (receive_and_process cfg (c_sid c) (PingReq PingReqPacket) now b)) \<and>
    session_ids b' = [c_sid c] \<and> rx b' (c_sid c) = [] \<and> tx b' (c_sid c) = []"
proof -
  let ?k = "c_sid c"
  have k: "?k \<in> set (session_ids b)" by (simp add: ids)
  from receive_step [OF wf k, of "PingReq PingReqPacket" now] cfg(2) q obtain b1 where
    b1: "PicoBroker_queue_packet_received_from_client ?k (PingReq PingReqPacket) now b = (Ok (), b1)" "broker_wf cfg b1"
      "session_ids b1 = session_ids b" "tx b1 = tx b" "rx b1 = (rx b)(?k := [PingReq PingReqPacket])" by auto
  have "session_ids b1 = [?k]" "rx b1 ?k = [PingReq PingReqPacket]" "length (tx b1 ?k) < QUEUE_SIZE cfg"
    using b1 ids q(2) cfg(2) by simp_all
  from process_ping [OF b1(2) this] q(2) b1(4) obtain b2 where
    b2: "PicoBroker_process_all_session_packets cfg b1 = (Ok (), b2)" "tx b2 ?k = [PingResp PingRespPacket]" by auto
  have b2': "broker_wf cfg b2" "session_ids b2 = [?k]" "rx b2 ?k = []"
    using process_all_eq [OF b1(2)] b2(1) b1(3) ids by auto
  from pending_eq [OF b2'(1) cfg(1)] obtain v where
    v: "PicoBroker_get_sessions_with_pending_packets cfg b2 = Ok v" "HeaplessVec_as_slice v = [?k]"
    using b2'(2) b2(2) by auto
  from drain_packets_eq [OF b2'(1), of ?k] obtain b3 where
    b3: "drain_packets ?k b2 = (Ok [PingResp PingRespPacket], b3)" "session_ids b3 = [?k]" "tx b3 ?k = []" "rx b3 ?k = []"
    using b2(2) b2'(2,3) by auto
  have rp: "receive_and_process cfg ?k (PingReq PingReqPacket) now b = (Ok (), b2)"
    using b1(1) b2(1) by (simp add: receive_and_process_def then_do_cases(1))
  then have "do_process cfg now (PingReq PingReqPacket) (b, c) = (b3, c\<lparr>c_phase := Notifying [?k] [PingResp PingRespPacket]\<rparr>)"
    using v b3(1) by (simp add: do_process_def)
  then show ?thesis using rp b3 by simp
qed

lemma ping_frame: "\<exists>frame. encode_frame N M (PingResp PingRespPacket) = Ok frame"
  using encode_frame_fits [of N M "PingResp PingRespPacket"] by (simp add: empty_wire_def)

text \<open>One connection that has answered \<open>n\<close> requests without looking at its notifications and has \<open>m\<close> requests to read.\<close>

definition pinging :: "(u128 \<Rightarrow> phase) \<Rightarrow> nat \<Rightarrow> nat \<Rightarrow> tokio_server \<Rightarrow> conn \<Rightarrow> bool" where
  "pinging ph n m s c \<longleftrightarrow> ts_tasks s = [c] \<and> c_phase c = ph (c_sid c) \<and> c_notes c = n \<and> c_frames c = [] \<and>
     c_reader c = \<lparr>tk_buffer = [], tk_chunks = replicate m [0xC0, 0]\<rparr> \<and>
     notification_senders (ts_state s) (c_sid c) = Some 0 \<and> session_ids (ts_broker s) = [c_sid c] \<and>
     rx (ts_broker s) (c_sid c) = [] \<and> tx (ts_broker s) (c_sid c) = []"

abbreviation answering :: "u128 \<Rightarrow> phase" where
  "answering sid \<equiv> Notifying [sid] [PingResp PingRespPacket]"

lemma step1:
  assumes "tokio_reachable cfg hc ready faults s" "ts_tasks s = [c]"
    "conn_step cfg hc ready faults 0 (ts_broker s, ts_state s, c) (b', st', c')"
  shows "tokio_reachable cfg hc ready faults \<lparr>ts_broker = b', ts_state = st', ts_tasks = [c']\<rparr>"
  using tokio_reachable.step [OF assms(1) tokio_step.handler [of 0]] assms(2,3) by fastforce

lemma ping_read_and_process:
  assumes s: "tokio_reachable cfg hc ready faults s" "pinging (\<lambda>_. Selecting) n (Suc m) s c"
    and cfg: "config_ok cfg" "0 < QUEUE_SIZE cfg"
  shows "\<exists>s' c'. tokio_reachable cfg hc ready faults s' \<and> pinging answering n m s' c'"
proof -
  have c: "ts_tasks s = [c]" "c_phase c = Selecting" "c_reader c = \<lparr>tk_buffer = [], tk_chunks = [0xC0, 0] # replicate m [0xC0, 0]\<rparr>"
    using s(2) by (simp_all add: pinging_def)
  let ?c = "c\<lparr>c_phase := Processing (PingReq PingReqPacket),
    c_reader := \<lparr>tk_buffer = [], tk_chunks = replicate m [0xC0, 0]\<rparr>, c_last := 0\<rparr>"
  let ?s = "\<lparr>ts_broker = ts_broker s, ts_state = ts_state s, ts_tasks = [?c]\<rparr>"
  have "do_read cfg 0 c = ?c" by (simp add: do_read_def c(3) ping_read)
  with step1 [OF s(1) c(1) conn_step.read [OF c(2), where instant = 0]] have s1: "tokio_reachable cfg hc ready faults ?s" by simp
  have wf: "broker_wf cfg (ts_broker s)" using server_invD(1) [OF tokio_reachable_inv [OF s(1) cfg(1)] cfg(1)] .
  have "session_ids (ts_broker s) = [c_sid ?c]" "rx (ts_broker s) (c_sid ?c) = []" "tx (ts_broker s) (c_sid ?c) = []"
    using s(2) by (simp_all add: pinging_def)
  from ping_process [OF wf cfg this, of 0] obtain b' where
    b': "do_process cfg 0 (PingReq PingReqPacket) (ts_broker s, ?c) = (b', ?c\<lparr>c_phase := answering (c_sid c)\<rparr>)"
      "is_ok (fst (receive_and_process cfg (c_sid ?c) (PingReq PingReqPacket) 0 (ts_broker s)))"
      "session_ids b' = [c_sid c]" "rx b' (c_sid c) = []" "tx b' (c_sid c) = []" by auto
  let ?c' = "?c\<lparr>c_phase := answering (c_sid c)\<rparr>"
  let ?s' = "\<lparr>ts_broker = b', ts_state = ts_state s, ts_tasks = [?c']\<rparr>"
  have "conn_step cfg hc ready faults 0 (ts_broker s, ts_state s, ?c) (b', ts_state s, ?c')"
    by (rule conn_step.process [OF _ b'(1)]) (use b'(2) in simp_all)
  with step1 [OF s1, of ?c] have "tokio_reachable cfg hc ready faults ?s'" by simp
  moreover have "pinging answering n m ?s' ?c'" using s(2) b'(3-5) by (simp add: pinging_def)
  ultimately show ?thesis by blast
qed

lemma ping_answer:
  assumes s: "tokio_reachable cfg hc ready faults s" "pinging answering n m s c"
    and r: "ready 8 n" "ready (hc_frame_channel_capacity hc) 0"
  shows "\<exists>s' c'. tokio_reachable cfg hc ready faults s' \<and> pinging (\<lambda>_. Selecting) (Suc n) m s' c'"
proof -
  let ?R = "[PingResp PingRespPacket]"
  let ?S = "\<lambda>c. \<lparr>ts_broker = ts_broker s, ts_state = ts_state s, ts_tasks = [c]\<rparr>"
  let ?c1 = "c\<lparr>c_notes := Suc n, c_phase := Notifying [] ?R\<rparr>"
  have c: "ts_tasks s = [c]" "c_phase c = answering (c_sid c)" "c_notes c = n" "c_frames c = []"
    "notification_senders (ts_state s) (c_sid c) = Some 0" using s(2) by (simp_all add: pinging_def)
  obtain frame where f: "encode_frame (MAX_TOPIC_NAME_LENGTH cfg) (MAX_PAYLOAD_SIZE cfg) (PingResp PingRespPacket) = Ok frame"
    using ping_frame by blast
  have "ServerState_notify_session ready (c_sid c) (ts_state s) (ts_tasks s) = Some [c\<lparr>c_notes := Suc n\<rparr>]"
    using c r(1) by (simp add: ServerState_notify_session_def is_gone_def)
  from tokio_reachable.step [OF s(1) tokio_step.notify [OF _ _ this, of 0 "[]" ?R]] c(1,2)
  have s1: "tokio_reachable cfg hc ready faults (?S ?c1)" by (cases s) simp
  from step1 [OF s1 _ conn_step.notified_all [of ?c1]]
  have s2: "tokio_reachable cfg hc ready faults (?S (?c1\<lparr>c_phase := Sending ?R\<rparr>))" by simp
  have "do_send cfg ready hc (PingResp PingRespPacket) [] (?c1\<lparr>c_phase := Sending ?R\<rparr>) =
      Some (?c1\<lparr>c_phase := Sending [], c_frames := [frame]\<rparr>)" using f r(2) c(4) by (simp add: do_send_def)
  from step1 [OF s2 _ conn_step.send [OF _ this]]
  have s3: "tokio_reachable cfg hc ready faults (?S (?c1\<lparr>c_phase := Sending [], c_frames := [frame]\<rparr>))" by simp
  from step1 [OF s3 _ conn_step.sent_all]
  have s4: "tokio_reachable cfg hc ready faults (?S (?c1\<lparr>c_frames := [frame], c_phase := Selecting\<rparr>))" by simp
  let ?c5 = "do_write True frame [] (?c1\<lparr>c_frames := [frame], c_phase := Selecting\<rparr>)"
  from step1 [OF s4 _ conn_step.frame_written [where frame = frame and frames = "[]" and write_ok = True]]
  have "tokio_reachable cfg hc ready faults (?S ?c5)" by simp
  moreover have "pinging (\<lambda>_. Selecting) (Suc n) m (?S ?c5) ?c5" using s(2) by (simp add: pinging_def do_write_def)
  ultimately show ?thesis by blast
qed

lemma pinging_start:
  assumes cfg: "config_ok cfg" "0 < MAX_SESSIONS cfg" and hc: "0 < hc_frame_channel_capacity hc"
  shows "\<exists>s c. tokio_reachable cfg hc ready faults s \<and> pinging (\<lambda>_. Selecting) 0 m s c"
proof -
  let ?b = "PicoBroker_new cfg" and ?c = "conn_new (session_id_of 0 0) (replicate m [0xC0, 0])"
  let ?s0 = "\<lparr>ts_broker = ?b, ts_state = ServerState_new\<lparr>session_id_gen := 1\<rparr>, ts_tasks = [?c]\<rparr>"
  have s0: "tokio_reachable cfg hc ready faults ?s0"
    using tokio_reachable.step [OF tokio_reachable.start tokio_step.accept [where now_secs = 0 and chunks = "replicate m [0xC0, 0]"]]
    by (simp add: tokio_accept_def MqttServer_new_def ServerState_generate_session_id_def SessionIdGenerator_generate_def
      ServerState_new_def)
  obtain st c1 where c1: "do_register_notification 0 (ts_state ?s0, ?c) = (st, c1)" by force
  have r1: "tokio_reachable cfg hc ready faults \<lparr>ts_broker = ?b, ts_state = st, ts_tasks = [c1]\<rparr>"
    using step1 [OF s0, of ?c ?b st c1] conn_step.register_notification [OF _ c1] by (simp add: conn_new_def)
  have "session_ids ?b = []"
    by (simp add: PicoBroker_new_def PicoBroker_default_def ids_def live_def SessionRegistry_default_def
      HeaplessVec_new_def HeaplessVec_as_slice_def)
  with PicoBroker_new_wf [OF cfg(1)] obtain b2 where
    b2: "PicoBroker_register_new_session cfg (session_id_of 0 0) (hc_default_keep_alive_secs hc) 0 ?b = (Ok (), b2)"
      "session_ids b2 = [session_id_of 0 0]"
      "session_of b2 (session_id_of 0 0) =
         Some (Session_new (QUEUE_SIZE cfg) (session_id_of 0 0) (hc_default_keep_alive_secs hc) 0)"
    by (cases rule: register_step [where sid = "session_id_of 0 0" and ka = "hc_default_keep_alive_secs hc" and t = 0])
      (use cfg(2) in auto)
  have q: "tx b2 (session_id_of 0 0) = []" "rx b2 (session_id_of 0 0) = []"
    using b2(3) queue_new_wf [of "QUEUE_SIZE cfg"] cfg(1) by (simp_all add: tx_def rx_def Session_new_def config_ok_def)
  have "do_register_session cfg hc 0 (?b, c1) = (b2, c1\<lparr>c_phase := Storing_Connection\<rparr>)"
    using c1 b2(1) by (auto simp: do_register_session_def do_register_notification_def conn_new_def)
  moreover have "c_phase c1 = Registering_Session" using c1 by (auto simp: do_register_notification_def)
  ultimately have r2: "tokio_reachable cfg hc ready faults
      \<lparr>ts_broker = b2, ts_state = st, ts_tasks = [c1\<lparr>c_phase := Storing_Connection\<rparr>]\<rparr>"
    using step1 [OF r1, of c1 b2 st "c1\<lparr>c_phase := Storing_Connection\<rparr>"] conn_step.register_session by simp
  obtain st3 c3 where c3: "do_store_connection hc 0 (st, c1\<lparr>c_phase := Storing_Connection\<rparr>) = (st3, c3)" by force
  have "tokio_reachable cfg hc ready faults \<lparr>ts_broker = b2, ts_state = st3, ts_tasks = [c3]\<rparr>"
    using step1 [OF r2, of _ b2 st3 c3] conn_step.store_connection [OF _ c3] by simp
  moreover have "pinging (\<lambda>_. Selecting) 0 m \<lparr>ts_broker = b2, ts_state = st3, ts_tasks = [c3]\<rparr> c3"
    using c1 c3 b2(2) q hc
    by (auto simp: pinging_def do_register_notification_def do_store_connection_def conn_new_def table_defs)
  ultimately show ?thesis by blast
qed

lemma pinging_many:
  assumes cfg: "config_ok cfg" "0 < MAX_SESSIONS cfg" "0 < QUEUE_SIZE cfg"
    and r: "bounded ready" "0 < hc_frame_channel_capacity hc"
  shows "n \<le> 8 \<Longrightarrow> \<exists>s c. tokio_reachable cfg hc ready faults s \<and> pinging (\<lambda>_. Selecting) n (9 - n) s c"
proof (induction n)
  case 0
  then show ?case using pinging_start [OF cfg(1,2) r(2)] by simp
next
  case (Suc n)
  have "9 - n = Suc (9 - Suc n)" using Suc.prems by simp
  with Suc obtain s c where "tokio_reachable cfg hc ready faults s" "pinging (\<lambda>_. Selecting) n (Suc (9 - Suc n)) s c"
    by (metis Suc_leD)
  from ping_read_and_process [OF this cfg(1,3)] obtain s1 c1 where
    "tokio_reachable cfg hc ready faults s1" "pinging answering n (9 - Suc n) s1 c1" by blast
  moreover have "ready 8 n" "ready (hc_frame_channel_capacity hc) 0" using r Suc.prems by (simp_all add: bounded_def)
  ultimately show ?case by (rule ping_answer)
qed

lemma stuck_reachable:
  assumes cfg: "config_ok cfg" "0 < MAX_SESSIONS cfg" "0 < QUEUE_SIZE cfg"
    and r: "bounded ready" "0 < hc_frame_channel_capacity hc"
  shows "\<exists>s. tokio_reachable cfg hc ready faults s \<and> length (ts_tasks s) = 1 \<and> stuck s 0 \<and>
    c_phase (ts_tasks s ! 0) = answering (c_sid (ts_tasks s ! 0))"
proof -
  have "9 - 8 = Suc 0" by simp
  with pinging_many [OF cfg r, of 8] obtain s c where
    s: "tokio_reachable cfg hc ready faults s" "pinging (\<lambda>_. Selecting) 8 (Suc 0) s c" by (metis order_refl)
  from ping_read_and_process [OF s cfg(1,3)] obtain s1 c1 where
    "tokio_reachable cfg hc ready faults s1" "pinging answering 8 0 s1 c1" by blast
  then show ?thesis by (intro exI [of _ s1]) (simp add: pinging_def stuck_def)
qed

section \<open>Properties\<close>

text \<open>Two reachable states for the instances: a connection in its loop, and one that could not be registered.\<close>

definition queue_ready :: "usize \<Rightarrow> usize \<Rightarrow> bool" where
  "queue_ready capacity held \<longleftrightarrow> held < capacity"

lemma queue_ready_bounded: "bounded queue_ready"
  by (simp add: bounded_def queue_ready_def)

definition full_config :: config where
  "full_config = small_config\<lparr>MAX_SESSIONS := 0\<rparr>"

lemma full_config_ok: "config_ok full_config"
  by (simp add: full_config_def config_ok_def small_config_def)

lemma failed_reachable:
  "\<exists>s. tokio_reachable full_config HandlerConfig_default queue_ready True s \<and> length (ts_tasks s) = 1 \<and>
     c_phase (ts_tasks s ! 0) = Failed"
proof -
  let ?b = "PicoBroker_new full_config" and ?c = "conn_new (session_id_of 0 0) []"
  let ?R = "tokio_reachable full_config HandlerConfig_default queue_ready True"
  let ?s0 = "\<lparr>ts_broker = ?b, ts_state = ServerState_new\<lparr>session_id_gen := 1\<rparr>, ts_tasks = [?c]\<rparr>"
  have s0: "?R ?s0"
    using tokio_reachable.step [OF tokio_reachable.start tokio_step.accept [where now_secs = 0 and chunks = "[]"]]
    by (simp add: tokio_accept_def MqttServer_new_def ServerState_generate_session_id_def SessionIdGenerator_generate_def
      ServerState_new_def)
  obtain st c1 where c1: "do_register_notification 0 (ts_state ?s0, ?c) = (st, c1)" by force
  have r1: "?R \<lparr>ts_broker = ?b, ts_state = st, ts_tasks = [c1]\<rparr>"
    using step1 [OF s0, of ?c ?b st c1] conn_step.register_notification [OF _ c1] by (simp add: conn_new_def)
  have "\<exists>e. PicoBroker_register_new_session full_config (c_sid c1) (hc_default_keep_alive_secs HandlerConfig_default) 0 ?b = (Err e, ?b)"
    using PicoBroker_new_wf [OF full_config_ok]
    by (cases rule: register_step [where sid = "c_sid c1" and ka = "hc_default_keep_alive_secs HandlerConfig_default" and t = 0])
      (auto simp: full_config_def)
  then have "do_register_session full_config HandlerConfig_default 0 (?b, c1) = (?b, c1\<lparr>c_phase := Failed\<rparr>)"
    by (auto simp: do_register_session_def)
  moreover have "c_phase c1 = Registering_Session" using c1 by (auto simp: do_register_notification_def)
  ultimately have "?R \<lparr>ts_broker = ?b, ts_state = st, ts_tasks = [c1\<lparr>c_phase := Failed\<rparr>]\<rparr>"
    using step1 [OF r1, of c1 ?b st "c1\<lparr>c_phase := Failed\<rparr>"] conn_step.register_session by simp
  then show ?thesis by fastforce
qed



text \<open>
  C8: Ownership. As long as at most \<open>2 ^ 32\<close> connections have been accepted, every session of the broker belongs to exactly one
  handler, one that has registered it and has not left; and a handler that has finished leaves no session, no
  subscription, no entry in the table of connections and no notification sender behind.
\<close>

theorem tokio_sessions_owned:
  assumes "tokio_reachable cfg hc ready faults s" "config_ok cfg" "length (ts_tasks s) \<le> 2 ^ 32"
  shows "(\<forall>k \<in> set (session_ids (ts_broker s)). \<exists>!i. i < length (ts_tasks s) \<and> c_sid (ts_tasks s ! i) = k) \<and>
    (\<forall>c \<in> set (ts_tasks s). c_sid c \<in> set (session_ids (ts_broker s)) \<longrightarrow>
       c_phase c \<notin> {Registering_Notification, Registering_Session, Finished, Failed}) \<and>
    (\<forall>c \<in> set (ts_tasks s). c_phase c = Finished \<longrightarrow> c_sid c \<notin> set (session_ids (ts_broker s)) \<and>
       (\<forall>f. (f, c_sid c) \<notin> subscriptions_of (ts_broker s)) \<and> c_sid c \<notin> connections (ts_state s) \<and>
       notification_senders (ts_state s) (c_sid c) = None)"
proof -
  note inv = tokio_reachable_inv [OF assms(1,2)]
  note D = server_invD [OF inv assms(2)]
  have sub: "set (session_ids (ts_broker s)) \<subseteq> c_sid ` set (ts_tasks s)"
    using inv assms(3) by (simp add: server_inv_def all_owned_def)
  have o: "\<exists>i. owned (ts_broker s) (ts_state s) i c" if "c \<in> set (ts_tasks s)" for c
    using that D(4) [OF assms(3)] by (auto simp: in_set_conv_nth)
  have "\<exists>!i. i < length (ts_tasks s) \<and> c_sid (ts_tasks s ! i) = k" if k: "k \<in> set (session_ids (ts_broker s))" for k
  proof -
    obtain c where "c \<in> set (ts_tasks s)" "c_sid c = k" using sub k by blast
    then obtain i where "i < length (ts_tasks s)" "c_sid (ts_tasks s ! i) = k" by (auto simp: in_set_conv_nth)
    then show ?thesis using numbered_inj [OF D(2) assms(3)] by blast
  qed
  moreover have "c_phase c \<notin> {Registering_Notification, Registering_Session, Finished, Failed}"
    if "c \<in> set (ts_tasks s)" "c_sid c \<in> set (session_ids (ts_broker s))" for c
    using o [OF that(1)] that(2) unfolding owned_def has_session_def by blast
  moreover have "c_sid c \<notin> connections (ts_state s) \<and> notification_senders (ts_state s) (c_sid c) = None"
    if "c \<in> set (ts_tasks s)" "c_phase c = Finished" for c
    using o [OF that(1)] that(2) by (auto simp: owned_def phase_defs)
  ultimately show ?thesis using broker_wf_parts(3) [OF D(1)] by blast
qed

theorem tokio_sessions_owned_witness:
  "\<exists>s. tokio_reachable small_config HandlerConfig_default queue_ready True s \<and> length (session_ids (ts_broker s)) = 1 \<and>
     (\<forall>k \<in> set (session_ids (ts_broker s)). \<exists>!i. i < length (ts_tasks s) \<and> c_sid (ts_tasks s ! i) = k)"
proof -
  from pinging_start [OF small_config_ok, of HandlerConfig_default queue_ready True 0] obtain s c where
    s: "tokio_reachable small_config HandlerConfig_default queue_ready True s" "pinging (\<lambda>_. Selecting) 0 0 s c"
    by (auto simp: HandlerConfig_default_def)
  have l: "length (ts_tasks s) \<le> 2 ^ 32" "length (session_ids (ts_broker s)) = 1" using s(2) by (simp_all add: pinging_def)
  from tokio_sessions_owned [OF s(1) small_config_ok l(1)] s(1) l(2) show ?thesis by blast
qed





text \<open>
  C26: The cleanup scan of the tokio server removes exactly the expired and the disconnected sessions, with their
  subscriptions and their entries in the table of connections, and keeps every other session as it is.
\<close>

theorem tokio_cleanup_removes:
  assumes "tokio_reachable cfg hc ready faults s" "config_ok cfg"
  shows "session_of (ts_broker (tokio_cleanup now s)) k =
      (case session_of (ts_broker s) k of
         None \<Rightarrow> None
       | Some x \<Rightarrow> if ExpirationInfo_is_expired (Session_expiration_info now x) \<or> sess_state x = Disconnected then None else Some x) \<and>
    (k \<in> set (session_ids (ts_broker s)) \<longrightarrow> session_of (ts_broker (tokio_cleanup now s)) k = None \<longrightarrow>
       k \<notin> connections (ts_state (tokio_cleanup now s)) \<and>
       (\<forall>f. (f, k) \<notin> subscriptions_of (ts_broker (tokio_cleanup now s))))"
proof -
  note inv = tokio_reachable_inv [OF assms]
  note wf = server_invD(1) [OF inv assms(2)]
  from cleanup_scan_eq [OF wf, of now "ts_state s"] obtain b' X where
    c: "cleanup_scan now (ts_state s, ts_broker s) = (Ok (), (fold connections_remove X (ts_state s), b'))"
      "session_ids b' = filter (\<lambda>k. k \<notin> set X) (session_ids (ts_broker s))"
      "\<forall>k x. session_of (ts_broker s) k = Some x \<longrightarrow> (k \<in> set X \<longleftrightarrow> stale now x)"
      "\<forall>k. session_of b' k = (if k \<in> set X then None else session_of (ts_broker s) k)" by blast
  have wf': "broker_wf cfg (ts_broker (tokio_cleanup now s))"
    using server_invD(1) [OF cleanup_keeps [OF inv assms(2)] assms(2)] .
  have e: "ts_broker (tokio_cleanup now s) = b'" "connections (ts_state (tokio_cleanup now s)) = connections (ts_state s) - set X"
    using c(1) by (simp_all add: tokio_cleanup_def fold_connections_remove)
  have gone: "k \<in> set X" if "k \<in> set (session_ids (ts_broker s))" "session_of b' k = None"
    using that c(4) session_of_iff [of "ts_broker s" k] by (auto split: if_splits)
  have "k \<notin> set X \<and> k \<in> set (session_ids (ts_broker s))" if "(f, k) \<in> subscriptions_of b'" for f
    using broker_wf_parts(3) [OF wf', of f k] that c(2) by (simp add: e)
  then show ?thesis
    using c(3,4) gone by (auto simp: e stale_def split: option.split)
qed

theorem tokio_cleanup_removes_witness:
  "\<exists>s. tokio_reachable small_config HandlerConfig_default queue_ready True s \<and> length (session_ids (ts_broker s)) = 1 \<and>
     (\<forall>k. session_of (ts_broker (tokio_cleanup 0 s)) k =
        (case session_of (ts_broker s) k of
           None \<Rightarrow> None
         | Some x \<Rightarrow> if ExpirationInfo_is_expired (Session_expiration_info 0 x) \<or> sess_state x = Disconnected then None else Some x))"
proof -
  from pinging_start [OF small_config_ok, of HandlerConfig_default queue_ready True 0] obtain s c where
    s: "tokio_reachable small_config HandlerConfig_default queue_ready True s" "pinging (\<lambda>_. Selecting) 0 0 s c"
    by (auto simp: HandlerConfig_default_def)
  have "length (session_ids (ts_broker s)) = 1" using s(2) by (simp add: pinging_def)
  then show ?thesis using tokio_cleanup_removes [OF s(1) small_config_ok, of 0] s(1) by blast
qed

text \<open>
  C24: Dropping the future of the tokio server's \<^verbatim>\<open>read_packet\<close> after it has read some data, as \<^verbatim>\<open>select!\<close> does when another
  branch completes first, loses and changes nothing: the next call returns the packet, the error or the end of the
  stream that the dropped call would have returned, and leaves the same state.
\<close>

theorem tokio_read_cancel_safe: "tokio_read_packet N M ((read_cancelled ^^ n) r) = tokio_read_packet N M r"
  by (induction n) (simp_all add: read_cancelled_same)

text \<open>
  The channels of the tokio server stay bounded: no handler ever has more than eight notifications or more frames than
  the configured capacity waiting.
\<close>

theorem tokio_channels_bounded:
  assumes "tokio_reachable cfg hc ready faults s" "\<forall>capacity held. ready capacity held \<longleftrightarrow> held < capacity"
    and "c \<in> set (ts_tasks s)"
  shows "c_notes c \<le> 8 \<and> length (c_frames c) \<le> hc_frame_channel_capacity hc"
proof -
  have r: "bounded ready" using assms(2) by (simp add: bounded_def)
  have "\<forall>c \<in> set (ts_tasks s). within hc c"
    using assms(1)
  proof induction
    case start
    then show ?case by (simp add: MqttServer_new_def)
  next
    case (step s s')
    then show ?case using tokio_step_within [OF _ r] by blast
  qed
  then show ?thesis using assms(3) by (simp add: within_def)
qed

theorem tokio_channels_bounded_witness:
  "\<exists>s. tokio_reachable small_config HandlerConfig_default queue_ready True s \<and> c_notes (ts_tasks s ! 0) = 8 \<and>
     length (c_frames (ts_tasks s ! 0)) \<le> 32"
proof -
  from stuck_reachable [OF small_config_ok _ _ queue_ready_bounded, of HandlerConfig_default True] obtain s where
    s: "tokio_reachable small_config HandlerConfig_default queue_ready True s" "length (ts_tasks s) = 1" "stuck s 0"
    by (auto simp: HandlerConfig_default_def)
  have "ts_tasks s ! 0 \<in> set (ts_tasks s)" using s(2) by simp
  from tokio_channels_bounded [OF s(1) _ this] s(1,3) show ?thesis
    by (auto simp: queue_ready_def HandlerConfig_default_def stuck_def)
qed

text \<open>
  A handler whose registration with the broker failed has returned, but its notification sender stays in the table:
  in every reachable state it is still there, so the table grows with every refused connection.
\<close>

lemma tokio_refused_sender_leaks:
  assumes "tokio_reachable cfg hc ready faults s" "config_ok cfg" "length (ts_tasks s) \<le> 2 ^ 32"
    and "i < length (ts_tasks s)" "c_phase (ts_tasks s ! i) = Failed"
  shows "notification_senders (ts_state s) (c_sid (ts_tasks s ! i)) = Some i"
  using server_invD(4) [OF tokio_reachable_inv [OF assms(1,2)] assms(2-4)] assms(5) by (simp add: owned_def has_sender_def)

lemma tokio_refused_sender_example:
  "\<exists>s. tokio_reachable full_config HandlerConfig_default queue_ready True s \<and> c_phase (ts_tasks s ! 0) = Failed \<and>
     notification_senders (ts_state s) (c_sid (ts_tasks s ! 0)) = Some 0"
proof -
  from failed_reachable obtain s where
    s: "tokio_reachable full_config HandlerConfig_default queue_ready True s" "length (ts_tasks s) = 1"
      "c_phase (ts_tasks s ! 0) = Failed" by blast
  have "length (ts_tasks s) \<le> 2 ^ 32" "0 < length (ts_tasks s)" using s(2) by simp_all
  from tokio_refused_sender_leaks [OF s(1) full_config_ok this s(3)] s(1,3) show ?thesis by blast
qed

text \<open>
  A connection outlives its session: once the cleanup task has removed the session (after a DISCONNECT, say), the
  handler drops every packet that still arrives without a word, leaves the broker as it is and goes back to its loop with the
  keep-alive timer restarted.
\<close>

theorem tokio_orphan_keeps_running:
  assumes "broker_wf cfg b" "c_sid c \<notin> set (session_ids b)"
  shows "do_process cfg now packet (b, c) = (b, c\<lparr>c_phase := Notifying [] []\<rparr>)"
proof -
  have "session_of b (c_sid c) = None" using assms(2) lookup_None by metis
  then show ?thesis
    using receive_missing [OF assms] mark_disconnected_step(2) [OF assms(1)]
    by (simp add: do_process_def receive_and_process_def then_do_cases(2))
qed

theorem tokio_orphan_keeps_running_witness:
  "do_process small_config 0 (PingReq PingReqPacket) (small_broker, conn_new 9 []) =
     (small_broker, (conn_new 9 [])\<lparr>c_phase := Notifying [] []\<rparr>)"
proof -
  have "c_sid (conn_new 9 []) \<notin> set (session_ids small_broker)" by (simp add: conn_new_def small_broker_facts)
  from tokio_orphan_keeps_running [OF small_broker_facts(2) this] show ?thesis .
qed

end
