(* ===== verification/Broker_Isolation.thy ===== *)
theory Broker_Isolation
  imports Broker_Steps
begin

text \<open>
  Isolation of sessions: what the broker does for one session does not reach a session that has no subscription. A
  handler for \<open>sid\<close> \<open>spares\<close> another session \<open>k\<close> if the transmit queue of \<open>k\<close> stays as it is and \<open>k\<close> gains no subscription. The
  laws compose like the handlers themselves, and give the law of the processing loop. The last section characterises
  what the broker sends at all.
\<close>

section \<open>Handlers that spare a session\<close>

definition unsubscribed :: "u128 \<Rightarrow> PicoBroker \<Rightarrow> bool" where
  "unsubscribed k b \<longleftrightarrow> k \<notin> snd ` subscriptions_of b"

definition spares :: "config \<Rightarrow> u128 \<Rightarrow> u128 \<Rightarrow> (PicoBroker, 'a, BrokerError) action \<Rightarrow> bool" where
  "spares cfg sid k m \<longleftrightarrow> (\<forall>b. broker_wf cfg b \<longrightarrow> sid \<in> set (session_ids b) \<longrightarrow> unsubscribed k b \<longrightarrow>
     tx (snd (m b)) k = tx b k \<and> unsubscribed k (snd (m b)))"

lemma sparesD:
  assumes "spares cfg sid k m" "m b = (x, b')" "broker_wf cfg b" "sid \<in> set (session_ids b)" "unsubscribed k b"
  shows "tx b' k = tx b k" "unsubscribed k b'"
  using assms unfolding spares_def by (metis snd_conv)+

lemma spares_ret: "spares cfg sid k (ret a)"
  by (simp add: spares_def)

lemma spares_then:
  assumes ok: "handler_ok cfg sid G m" and m: "spares cfg sid k m" and f: "\<And>a. spares cfg sid k (f a)"
  shows "spares cfg sid k (then_do m f)"
  unfolding spares_def
proof (intro allI impI)
  fix b assume b: "broker_wf cfg b" "sid \<in> set (session_ids b)" "unsubscribed k b"
  from ok b(1,2) obtain x b1 where b1: "m b = (x, b1)" "broker_wf cfg b1" "session_ids b1 = session_ids b" by (rule handler_okE)
  note s1 = sparesD [OF m b1(1) b]
  show "tx (snd (then_do m f b)) k = tx b k \<and> unsubscribed k (snd (then_do m f b))"
  proof (cases x)
    case (Ok a)
    then show ?thesis
      using s1 b1 b(2) sparesD [OF f, of a b1 "fst (f a b1)" "snd (f a b1)"] by (simp add: then_do_cases(1))
  qed (use s1 b1(1) in \<open>simp_all add: then_do_cases\<close>)
qed

lemma spares_silent:
  assumes "handler_ok cfg sid {} (on_sessions m)"
  shows "spares cfg sid k (on_sessions m)"
  unfolding spares_def
proof (intro allI impI)
  fix b assume b: "broker_wf cfg b" "sid \<in> set (session_ids b)" "unsubscribed k b"
  from assms b(1,2) obtain x b' where b': "on_sessions m b = (x, b')" "appends {} b b'" by (rule handler_okE)
  then have "tx b' = tx b" by (auto simp: appends_def)
  moreover have "br_topics b' = br_topics b" using b'(1) by (auto simp: on_sessions_def on_field_def split: prod.splits)
  ultimately show "tx (snd (on_sessions m b)) k = tx b k \<and> unsubscribed k (snd (on_sessions m b))"
    using b'(1) b(3) by (simp add: unsubscribed_def)
qed

lemma queue_tx_spares:
  assumes "broker_wf cfg b" "sid \<in> set (session_ids b)" "unsubscribed k b" "k \<noteq> sid"
    "on_sessions (SessionRegistry_queue_tx_packet sid p) b = (x, b')"
  shows "broker_wf cfg b' \<and> session_ids b' = session_ids b \<and> tx b' k = tx b k \<and> unsubscribed k b'"
  using assms(1,2)
  by (cases rule: queue_tx_step [where p = p]) (use assms in \<open>auto simp: only_tx_def unsubscribed_def\<close>)

lemma spares_queue_tx: "k \<noteq> sid \<Longrightarrow> spares cfg sid k (on_sessions (SessionRegistry_queue_tx_packet sid p))"
  unfolding spares_def using queue_tx_spares prod.collapse by metis

lemma spares_subscribe:
  assumes "k \<noteq> sid"
  shows "spares cfg sid k (on_topics (TopicRegistry_subscribe (MAX_SUBSCRIBERS_PER_TOPIC cfg) sid f))"
  unfolding spares_def
proof (intro allI impI)
  let ?m = "on_topics (TopicRegistry_subscribe (MAX_SUBSCRIBERS_PER_TOPIC cfg) sid f)"
  fix b assume b: "broker_wf cfg b" "sid \<in> set (session_ids b)" "unsubscribed k b"
  from b(1,2) show "tx (snd (?m b)) k = tx b k \<and> unsubscribed k (snd (?m b))"
    by (cases rule: subscribe_step [where f = f]) (use b(3) assms in \<open>auto simp: unsubscribed_def tx_def\<close>)
qed

text \<open>The recipients of a PUBLISH have a subscription.\<close>

lemma recipients_subscribed: "unsubscribed k b \<Longrightarrow> k \<notin> set (recipients cfg p b)"
  by (force simp: recipients_def uniq_simps set_matching_subscribers unsubscribed_def dest!: in_set_takeD)

lemma deliver_loop_spares:
  "broker_wf cfg b \<Longrightarrow> set ks \<subseteq> set (session_ids b) \<Longrightarrow> unsubscribed k b \<Longrightarrow> k \<notin> set ks \<Longrightarrow> deliver_loop p ks b = (x, b') \<Longrightarrow>
     broker_wf cfg b' \<and> session_ids b' = session_ids b \<and> tx b' k = tx b k \<and> unsubscribed k b'"
proof (induction ks arbitrary: b)
  case (Cons j ks)
  obtain y b1 where b1: "on_sessions (SessionRegistry_queue_tx_packet j (Publish p)) b = (y, b1)" by force
  from queue_tx_spares [OF Cons.prems(1) _ Cons.prems(3) _ b1] Cons.prems(2,4) have
    s1: "broker_wf cfg b1" "session_ids b1 = session_ids b" "tx b1 k = tx b k" "unsubscribed k b1" by auto
  show ?case
    using Cons.IH [OF s1(1) _ s1(4)] Cons.prems b1 s1 by (cases y) (auto simp: then_do_cases)
qed simp

lemma spares_publish:
  assumes "k \<noteq> sid"
  shows "spares cfg sid k (PicoBroker_handle_publish cfg sid p)"
  unfolding spares_def
proof (intro allI impI)
  fix b assume b: "broker_wf cfg b" "sid \<in> set (session_ids b)" "unsubscribed k b"
  let ?ack = "if acks p = [] then ret ()
    else then_do (on_sessions (SessionRegistry_queue_tx_packet sid (hd (acks p)))) (\<lambda>_. ret ())"
  obtain x b1 where b1: "deliver_loop p (recipients cfg p b) b = (x, b1)" by force
  from deliver_loop_spares [OF b(1) recipients_registered(2) [OF b(1)] b(3) recipients_subscribed [OF b(3)] b1]
  have s1: "broker_wf cfg b1" "session_ids b1 = session_ids b" "tx b1 k = tx b k" "unsubscribed k b1" by auto
  have "spares cfg sid k ?ack"
    using spares_then [OF handler_ok_queue_tx [OF UNIV_I] spares_queue_tx [OF assms] spares_ret [where a = "()"]] spares_ret
    by (auto simp: ret_def)
  then have "tx (snd (?ack b1)) k = tx b k" "unsubscribed k (snd (?ack b1))"
    using s1 b(2) sparesD [of cfg sid k ?ack b1 "fst (?ack b1)" "snd (?ack b1)"] by auto
  then show "tx (snd (PicoBroker_handle_publish cfg sid p b)) k = tx b k \<and>
      unsubscribed k (snd (PicoBroker_handle_publish cfg sid p b))"
    unfolding handle_publish_unfold [OF b(1)] using b1 s1 by (cases x) (simp_all only: then_do_cases snd_conv simp_thms)
qed

section \<open>The processing loop\<close>

lemma spares_packet:
  assumes "k \<noteq> sid"
  shows "spares cfg sid k (PicoBroker_handle_packet cfg sid p)"
proof -
  note silent = handler_ok_simple [THEN spares_silent]
  have "spares cfg sid k (PicoBroker_handle_connect sid c)" for c
    unfolding PicoBroker_handle_connect_def Let_def
    by (cases "HeaplessString_is_empty (con_client_id c)"; simp only: simp_thms if_True if_False)
      (intro spares_then [where G = UNIV] handler_ok_simple handler_ok_ret handler_ok_queue_tx UNIV_I silent spares_ret
        spares_queue_tx [OF assms])+
  moreover have "spares cfg sid k (PicoBroker_handle_subscribe cfg sid q)" for q
    unfolding PicoBroker_handle_subscribe_def Let_def
    by (intro spares_then [where G = UNIV] handler_ok_subscribe spares_subscribe spares_queue_tx assms)
  moreover have "spares cfg sid k (PicoBroker_handle_pingreq sid)"
    unfolding PicoBroker_handle_pingreq_def by (rule spares_queue_tx [OF assms])
  moreover have "spares cfg sid k (PicoBroker_handle_disconnect sid)"
    unfolding PicoBroker_handle_disconnect_def PicoBroker_mark_session_disconnected_def by (rule silent)
  ultimately show ?thesis
    using spares_publish [OF assms] spares_ret [of cfg sid k "()"] by (cases p) simp_all
qed

lemma process_session_spares:
  "broker_wf cfg b \<Longrightarrow> sid \<in> set (session_ids b) \<Longrightarrow> unsubscribed k b \<Longrightarrow> k \<noteq> sid \<or> rx b k = [] \<Longrightarrow>
     tx (snd (PicoBroker_process_session cfg sid b)) k = tx b k \<and> unsubscribed k (snd (PicoBroker_process_session cfg sid b))"
proof (induction cfg sid b rule: PicoBroker_process_session.induct)
  case (1 cfg sid b)
  from dequeue_rx_step [OF "1.prems"(1,2)] obtain b1 where
    b1: "on_sessions (SessionRegistry_dequeue_rx_packet sid) b = (Ok (front_of (rx b sid)), b1)" "br_topics b1 = br_topics b"
      "broker_wf cfg b1" "session_ids b1 = session_ids b" "tx b1 = tx b" by blast
  have u1: "unsubscribed k b1" using "1.prems"(3) b1(2) by (simp add: unsubscribed_def)
  show ?case
  proof (cases "rx b sid")
    case Nil
    then show ?thesis using b1 u1 by (subst (1 2) PicoBroker_process_session.simps) (simp add: front_of_def)
  next
    case (Cons packet rest)
    then have k: "k \<noteq> sid" using "1.prems"(4) by auto
    have deq: "on_sessions (SessionRegistry_dequeue_rx_packet sid) b = (Ok (Some packet), b1)"
      using b1(1) Cons by (simp add: front_of_def)
    have sid1: "sid \<in> set (session_ids b1)" using "1.prems"(2) b1 by simp
    obtain x b2 where b2: "PicoBroker_handle_packet cfg sid packet b1 = (x, b2)" by force
    note s2 = sparesD [OF spares_packet [OF k] b2 b1(3) sid1 u1]
    from b1(3) sid1 have w2: "broker_wf cfg b2" "session_ids b2 = session_ids b1"
      by (cases rule: h_packet.handled [where p = packet]; use b2 in simp)+
    show ?thesis
    proof (cases x)
      case (Ok u)
      from "1.IH" [OF deq [symmetric] refl refl b2 [symmetric] Ok w2(1) _ s2(2)] sid1 w2(2) k s2(1) b1(5) deq b2 Ok
      show ?thesis by (subst (1 2) PicoBroker_process_session.simps) simp
    qed (use deq b2 s2 b1(5) in \<open>subst (1 2) PicoBroker_process_session.simps, simp\<close>)+
  qed
qed

lemma process_sessions_spares:
  "broker_wf cfg b \<Longrightarrow> distinct sids \<Longrightarrow> set sids \<subseteq> set (session_ids b) \<Longrightarrow> unsubscribed k b \<Longrightarrow> rx b k = [] \<Longrightarrow>
     tx (snd (process_sessions cfg sids b)) k = tx b k \<and> unsubscribed k (snd (process_sessions cfg sids b))"
proof (induction sids arbitrary: b)
  case (Cons sid sids)
  then have sid: "sid \<in> set (session_ids b)" by simp
  from process_session_eq [OF Cons.prems(1) sid] obtain x b1 where
    b1: "PicoBroker_process_session cfg sid b = (x, b1)" "broker_wf cfg b1" "session_ids b1 = session_ids b"
      "\<forall>k. k \<noteq> sid \<longrightarrow> rx b1 k = rx b k" "set (rx b1 sid) \<subseteq> set (rx b sid)" by blast
  have r: "rx b1 k = []" using b1(4,5) Cons.prems(5) by (cases "k = sid") auto
  from process_session_spares [OF Cons.prems(1) sid Cons.prems(4)] Cons.prems(5) b1(1) have
    s1: "tx b1 k = tx b k" "unsubscribed k b1" by auto
  show ?case
    using Cons.IH [OF b1(2) _ _ s1(2) r] Cons.prems b1(1,3) s1 by (cases x) (simp_all add: then_do_cases)
qed simp

lemma process_all_spares:
  assumes wf: "broker_wf cfg b" and k: "unsubscribed k b" "rx b k = []"
    and e: "PicoBroker_process_all_session_packets cfg b = (x, b')"
  shows "tx b' k = tx b k" "unsubscribed k b'" "rx b' k = []"
proof -
  note sw = broker_wf_parts(2) [OF wf]
  have "process_sessions cfg (session_ids b) b = (x, b')"
    using e get_all_sessions_eq [OF sw]
    by (simp add: PicoBroker_process_all_session_packets_def PicoBroker_get_all_sessions_def)
  then show "tx b' k = tx b k" "unsubscribed k b'"
    using process_sessions_spares [OF wf _ subset_refl k] sr.ids_law [OF sw] by auto
  have "set (rx b' k) \<subseteq> set (rx b k)" using process_all_eq [OF wf] e by auto
  then show "rx b' k = []" using k(2) by simp
qed

section \<open>What the broker sends\<close>

definition server_packet :: "Packet \<Rightarrow> bool" where
  "server_packet p \<longleftrightarrow> Packet_packet_type p \<in> {PT_ConnAck, PT_Publish, PT_PubAck, PT_SubAck, PT_PingResp}"

lemma responses_server_packet: "p \<in> responses_to q \<Longrightarrow> server_packet p"
  using acks_cases [of "case q of Publish r \<Rightarrow> r"] by (cases q) (auto simp: server_packet_def)

lemma broker_step_tx:
  assumes st: "broker_step cfg b b'" and wf: "broker_wf cfg b" and cfg: "config_ok cfg" and p: "p \<in> set (tx b' k)"
  shows "p \<in> set (tx b k) \<or> server_packet p"
  using st
proof cases
  case (register sid ka t x)
  from wf have "tx b' = tx b"
  proof (cases rule: register_step [where sid = sid and ka = ka and t = t])
    case (registered b1)
    then have "session_of b sid = None" by (simp add: lookup_None)
    then show ?thesis
      using registered(3,7) register queue_new_wf [of "QUEUE_SIZE cfg"] cfg
      by (auto simp: tx_def fun_eq_iff Session_new_def config_ok_def)
  qed (use register in simp_all)
  then show ?thesis using p by simp
next
  case (receive bs q sid t x)
  then show ?thesis
    using receive_step [OF wf, of sid q t] receive_missing [OF wf, of sid q t] p
    by (cases "sid \<in> set (session_ids b)") auto
next
  case (process x)
  from process_all_eq [OF wf] process obtain new where
    "tx b' = (\<lambda>k. tx b k @ new k)" "\<forall>k. set (new k) \<subseteq> responses_from b (set (session_ids b))" by (auto simp: appends_def)
  then show ?thesis using p responses_server_packet unfolding responses_from_def by fastforce
next
  case (send sid y)
  then show ?thesis
    using send_step [OF wf, of sid] send_missing [OF wf, of sid] p
    by (cases "sid \<in> set (session_ids b)"; cases "tx b sid") (auto split: if_splits)
next
  case (disconnect sid x)
  then have "tx b' = tx b"
    using mark_disconnected_step [OF wf, of sid] by (cases "session_of b sid") (auto simp: tx_def fun_eq_iff)
  then show ?thesis using p by simp
next
  case (remove sid z)
  from remove_session_step [OF wf, of sid] remove have "session_of b' = (session_of b)(sid := None)" by auto
  then show ?thesis using p by (auto simp: tx_def split: if_splits)
qed

lemma reachable_server_packets:
  assumes "reachable cfg b" "config_ok cfg"
  shows "\<forall>k. \<forall>p \<in> set (tx b k). server_packet p"
  using assms(1)
proof induction
  case init
  then show ?case by (simp add: PicoBroker_new_queues)
next
  case (step b b')
  then show ?case using broker_step_tx reachable_invariants assms(2) by blast
qed

end
