(* ===== verification/Server_Tokio_Delivery.thy ===== *)
theory Server_Tokio_Delivery
  imports Server_Tokio_Runs Broker_Isolation
begin

text \<open>
  From the transmit queue of a session to the socket of its client, in the tokio server. The \<open>pipeline\<close> of a handler is
  everything on this way, in order: the frames already written, the frames in the channel, the packets that the handler holds, and
  the packets in the broker's queue. Every step of the server extends the pipeline at its end or leaves it as it is, as long as the
  handler serves its session: nothing is lost, doubled or overtaken. A handler that has been notified can write its whole pipeline.
\<close>

section \<open>The pipeline of a handler\<close>

definition frame_of :: "config \<Rightarrow> Packet \<Rightarrow> bytes list" where
  "frame_of cfg p = (case encode_frame (MAX_TOPIC_NAME_LENGTH cfg) (MAX_PAYLOAD_SIZE cfg) p of Ok frame \<Rightarrow> [frame] | _ \<Rightarrow> [])"

definition frames_of :: "config \<Rightarrow> Packet list \<Rightarrow> bytes list" where
  "frames_of cfg ps = concat (map (frame_of cfg) ps)"

fun in_hand :: "phase \<Rightarrow> Packet list" where
  "in_hand (Notifying _ pkts) = pkts"
| "in_hand (Sending pkts) = pkts"
| "in_hand _ = []"

definition pipeline :: "config \<Rightarrow> PicoBroker \<Rightarrow> conn \<Rightarrow> bytes list" where
  "pipeline cfg b c = c_written c @ c_frames c @ frames_of cfg (in_hand (c_phase c)) @ frames_of cfg (tx b (c_sid c))"

definition serving :: "phase \<Rightarrow> bool" where
  "serving ph \<longleftrightarrow> has_session ph \<and> \<not> is_gone ph \<and> ph \<notin> {Leaving_Connections, Leaving_Notifications, Leaving_Broker}"

definition in_service :: "tokio_server \<Rightarrow> nat \<Rightarrow> bool" where
  "in_service s i \<longleftrightarrow> i < length (ts_tasks s) \<and> serving (c_phase (ts_tasks s ! i)) \<and>
     c_sid (ts_tasks s ! i) \<in> set (session_ids (ts_broker s))"

lemmas serving_defs = serving_def has_session_def is_gone_def

lemma frames_of_simps [simp]: "frames_of cfg [] = []" "frames_of cfg (p # ps) = frame_of cfg p @ frames_of cfg ps"
    "frames_of cfg (ps @ qs) = frames_of cfg ps @ frames_of cfg qs"
  by (simp_all add: frames_of_def)

lemma pipelineI:
  assumes "c_written c' @ c_frames c' @ frames_of cfg (in_hand (c_phase c')) = c_written c @ c_frames c @ frames_of cfg (in_hand (c_phase c))"
    "c_sid c' = c_sid c" "tx b' (c_sid c) = tx b (c_sid c) @ new"
  shows "pipeline cfg b' c' = pipeline cfg b c @ frames_of cfg new"
  using assms(1) [unfolded append_assoc [symmetric]] assms(2,3) by (simp add: pipeline_def) 

section \<open>The steps\<close>

lemma receive_and_process_appends:
  assumes wf: "broker_wf cfg b" and e: "receive_and_process cfg sid p t b = (x, b')"
  shows "\<exists>new. tx b' = (\<lambda>k. tx b k @ new k)"
proof (cases "sid \<in> set (session_ids b)")
  case False
  then have "tx b' = tx b" using receive_missing [OF wf False, of p t] e by (simp add: receive_and_process_def then_do_cases(2))
  then show ?thesis by (intro exI [of _ "\<lambda>_. []"]) simp
next
  case True
  from receive_step [OF wf True, of p t] obtain y b1 where
    b1: "PicoBroker_queue_packet_received_from_client sid p t b = (y, b1)" "broker_wf cfg b1" "tx b1 = tx b"
      "y = Ok () \<or> (\<exists>e. y = Err e)" by (auto split: if_splits)
  show ?thesis
  proof (cases "y = Ok ()")
    case True
    then have "PicoBroker_process_all_session_packets cfg b1 = (x, b')"
      using b1(1) e by (simp add: receive_and_process_def then_do_cases(1))
    then show ?thesis using process_all_eq [OF b1(2)] b1(3) by (auto simp: appends_def)
  next
    case False
    then have "b' = b1" using b1(1,4) e by (auto simp: receive_and_process_def then_do_cases(2))
    then show ?thesis using b1(3) by (intro exI [of _ "\<lambda>_. []"]) simp
  qed
qed

lemma do_process_pipeline:
  assumes wf: "broker_wf cfg b" and cfg: "config_ok cfg" and p: "decoded cfg p" and e: "do_process cfg now p (b, c) = (b', c')"
    and ph: "in_hand (c_phase c) = []"
  shows "\<exists>new. pipeline cfg b' c' = pipeline cfg b c @ frames_of cfg (new (c_sid c)) \<and>
    (\<forall>k. k \<noteq> c_sid c \<longrightarrow> tx b' k = tx b k @ new k)"
proof -
  from receive_and_process_eq [OF wf p] obtain x b1 where
    b1: "receive_and_process cfg (c_sid c) p now b = (x, b1)" "x \<noteq> Panic" "broker_wf cfg b1" by blast
  from receive_and_process_appends [OF wf b1(1)] obtain new where new: "tx b1 = (\<lambda>k. tx b k @ new k)" by blast
  show ?thesis
  proof (cases x)
    case (Ok u)
    from pending_eq [OF b1(3) cfg] obtain v where v: "PicoBroker_get_sessions_with_pending_packets cfg b1 = Ok v" by blast
    from drain_packets_eq [OF b1(3), of "c_sid c"] obtain b2 where
      b2: "drain_packets (c_sid c) b1 = (Ok (tx b1 (c_sid c)), b2)" "tx b2 = (tx b1)(c_sid c := [])" by blast
    have "b' = b2" "c' = c\<lparr>c_phase := Notifying (HeaplessVec_as_slice v) (tx b1 (c_sid c))\<rparr>"
      using e b1(1) Ok v b2(1) by (simp_all add: do_process_def)
    then show ?thesis using new b2(2) ph by (intro exI [of _ new]) (simp add: pipeline_def)
  next
    case (Err err)
    obtain y b2 where b2: "PicoBroker_mark_session_disconnected (c_sid c) b1 = (y, b2)" by force
    then have "tx b2 = tx b1"
      using mark_disconnected_step [OF b1(3), of "c_sid c"] by (cases "session_of b1 (c_sid c)") (auto simp: tx_def fun_eq_iff)
    moreover have "b' = b2" "c' = c\<lparr>c_phase := Notifying [] []\<rparr>" using e b1(1) Err b2 by (simp_all add: do_process_def)
    ultimately show ?thesis using new ph by (intro exI [of _ new]) (simp add: pipeline_def)
  qed (use b1(2) in simp)
qed

text \<open>
  A step of a handler: what it does to its own pipeline if it goes on serving, and to the queues of the other sessions.
\<close>

lemma pipeline_step:
  assumes "tx b' = tx b" "c_sid c' = c_sid c" "serving (c_phase c') \<Longrightarrow> serving (c_phase c) \<or> c_phase c = Registering_Session"
    and "serving (c_phase c') \<Longrightarrow> c_written c' @ c_frames c' @ frames_of cfg (in_hand (c_phase c')) =
      c_written c @ c_frames c @ frames_of cfg (in_hand (c_phase c))"
  shows "(serving (c_phase c') \<longrightarrow> (\<exists>new. pipeline cfg b' c' = pipeline cfg b c @ frames_of cfg new)) \<and>
    (\<forall>k. k \<noteq> c_sid c \<longrightarrow> (\<exists>new. tx b' k = tx b k @ new)) \<and>
    (serving (c_phase c') \<longrightarrow> serving (c_phase c) \<or> c_phase c = Registering_Session)"
proof -
  have "pipeline cfg b' c' = pipeline cfg b c @ frames_of cfg []" if "serving (c_phase c')"
    by (rule pipelineI) (use that assms in simp_all)
  then show ?thesis using assms(1,3) by (metis append_Nil2)
qed

lemma conn_step_pipeline:
  assumes st: "conn_step cfg hc ready faults i (b, st, c) (b', st', c')"
    and wf: "broker_wf cfg b" and cfg: "config_ok cfg" and ok: "phase_ok cfg (c_phase c)"
  shows "(serving (c_phase c') \<longrightarrow> (\<exists>new. pipeline cfg b' c' = pipeline cfg b c @ frames_of cfg new)) \<and>
    (\<forall>k. k \<noteq> c_sid c \<longrightarrow> (\<exists>new. tx b' k = tx b k @ new)) \<and>
    (serving (c_phase c') \<longrightarrow> serving (c_phase c) \<or> c_phase c = Registering_Session)"
  using st
proof cases
  case register_notification
  then show ?thesis by (intro pipeline_step) (auto simp: do_register_notification_def serving_defs)
next
  case (register_session now)
  then show ?thesis
    using do_register_session_eq [OF wf cfg, of hc now c] by (intro pipeline_step) (auto simp: serving_defs)
next
  case (store_connection instant)
  then show ?thesis by (intro pipeline_step) (auto simp: do_store_connection_def serving_defs split: if_splits)
next
  case (read instant)
  then show ?thesis
    by (intro pipeline_step; cases rule: do_read_cases [of cfg instant c]) (auto simp: serving_defs)
next
  case (process packet now)
  then have d: "decoded cfg packet" using ok by simp
  from process have "in_hand (c_phase c) = []" by simp
  from do_process_pipeline [OF wf cfg d process(3) this] process(2) show ?thesis by (auto simp: serving_defs)
next
  case drain
  from do_drain_eq [OF wf, of c] drain have
    "c' = c\<lparr>c_phase := Sending (tx b (c_sid c))\<rparr>" "tx b' = (tx b)(c_sid c := [])" by auto
  then show ?thesis using drain by (auto intro!: exI [of _ "[]"] simp: pipeline_def serving_defs)
next
  case (send pkt pkts)
  have "serving (c_phase c') \<longrightarrow> c_written c' @ c_frames c' @ frames_of cfg (in_hand (c_phase c')) =
      c_written c @ c_frames c @ frames_of cfg (in_hand (c_phase c))" "c_sid c' = c_sid c"
    using send(3,4) by (auto simp: do_send_def frame_of_def serving_defs split: result.splits if_splits)
  then show ?thesis using send by (intro pipeline_step) (auto simp: serving_defs)
next
  case leave_broker
  then show ?thesis
    using do_leave_broker_eq [OF wf, of c] by (auto simp: serving_defs intro: exI [of _ "[]"])
qed (intro pipeline_step; auto simp: serving_defs do_write_def do_timeout_def split: if_splits)+

lemma notify_session_frames:
  assumes "ServerState_notify_session ready sid st tasks = Some tasks'"
  shows "map c_written tasks' = map c_written tasks" "map c_frames tasks' = map c_frames tasks"
  using assms
  by (cases rule: notify_session_cases; simp add: map_update; metis list_update_beyond list_update_id map_update nth_map linorder_not_less)+

text \<open>A step of the server, seen from the handler with number \<open>i\<close>.\<close>

lemma tokio_step_pipeline:
  assumes st: "tokio_step cfg hc ready faults s s'" and inv: "server_inv cfg s" and cfg: "config_ok cfg"
    and small: "length (ts_tasks s) \<le> 2 ^ 32" and i: "i < length (ts_tasks s)" and on: "in_service s' i"
  shows "(\<exists>new. pipeline cfg (ts_broker s') (ts_tasks s' ! i) = pipeline cfg (ts_broker s) (ts_tasks s ! i) @ frames_of cfg new) \<and>
    (in_service s i \<or> c_phase (ts_tasks s ! i) = Registering_Session)"
  using st
proof cases
  case (accept now_secs chunks)
  have n: "numbered s" using inv by (simp add: server_inv_def)
  have "ts_tasks s' ! i = ts_tasks s ! i" "ts_broker s' = ts_broker s"
    using i unfolding accept by (simp_all add: tokio_accept_simps [OF n] nth_append)
  then show ?thesis using on i by (auto simp: in_service_def intro!: exI [of _ "[]"])
next
  case (handler j b' st' c')
  note D = server_invD [OF inv cfg]
  note p = conn_step_pipeline [OF handler(3) D(1) cfg D(3) [OF handler(2)]]
  note o = conn_step_owned [OF handler(3) D(1) cfg D(3) [OF handler(2)]]
  show ?thesis
  proof (cases "i = j")
    case True
    then have c': "serving (c_phase c')" "c_sid c' \<in> set (session_ids b')" using on handler by (simp_all add: in_service_def)
    have "c_sid (ts_tasks s ! i) \<in> set (session_ids (ts_broker s))" if "c_phase (ts_tasks s ! i) \<noteq> Registering_Session"
      using handler(3)
    proof cases
      case (process packet now)
      then show ?thesis using do_process_eq [OF D(1) cfg, of packet now "ts_tasks s ! j"] D(3) [OF i] o c'(2) True by auto
    qed (use that True c' o do_drain_eq [OF D(1), of "ts_tasks s ! j"] do_leave_broker_eq [OF D(1), of "ts_tasks s ! j"] in
        \<open>auto simp: serving_defs do_register_notification_def\<close>)
    then show ?thesis using True p c'(1) handler(1) i by (auto simp: in_service_def)
  next
    case False
    have ne: "c_sid (ts_tasks s ! i) \<noteq> c_sid (ts_tasks s ! j)" using numbered_inj [OF D(2) small i handler(2)] False by blast
    then obtain new where "tx b' (c_sid (ts_tasks s ! i)) = tx (ts_broker s) (c_sid (ts_tasks s ! i)) @ new" using p by blast
    then have "pipeline cfg b' (ts_tasks s ! i) = pipeline cfg (ts_broker s) (ts_tasks s ! i) @ frames_of cfg new"
      by (intro pipelineI) simp_all
    moreover have "c_sid (ts_tasks s ! i) \<in> set (session_ids (ts_broker s))"
      using o ne on handler(1) False by (auto simp: kept_def in_service_def)
    ultimately show ?thesis using on handler(1) False i by (auto simp: in_service_def)
  qed
next
  case (notify j sid sids pkts tasks)
  note same = notify_session_same [OF notify(4)] notify_session_frames [OF notify(4)]
  have ts: "ts_tasks s' = tasks[j := (tasks ! j)\<lparr>c_phase := Notifying sids pkts\<rparr>]" "ts_broker s' = ts_broker s" using notify(1) by simp_all
  have "c_written (ts_tasks s' ! i) = c_written (ts_tasks s ! i)" "c_frames (ts_tasks s' ! i) = c_frames (ts_tasks s ! i)"
    "c_sid (ts_tasks s' ! i) = c_sid (ts_tasks s ! i)"
    using same i nth_eqI [OF same(4), of i] nth_eqI [OF same(5), of i] nth_eqI [OF same(2), of i]
    unfolding ts by (cases "i = j"; simp)+
  moreover have "c_phase (ts_tasks s' ! i) = (if i = j then Notifying sids pkts else c_phase (ts_tasks s ! i))"
    using same(1) i nth_eqI [OF same(3), of i] unfolding ts by simp
  ultimately show ?thesis
    using on ts(2) notify(3) i by (cases "i = j") (auto simp: pipeline_def in_service_def serving_defs intro!: exI [of _ "[]"])
next
  case (cleanup now)
  note wf = server_invD(1) [OF inv cfg]
  from wf show ?thesis
  proof (cases rule: cleanup_facts [where now = now])
    case (1 X)
    have "c_sid (ts_tasks s ! i) \<notin> X" "c_sid (ts_tasks s ! i) \<in> set (session_ids (ts_broker s))"
      using on 1(1,3) cleanup by (auto simp: in_service_def)
    then show ?thesis
      using 1(1,7) on i cleanup by (auto simp: pipeline_def in_service_def intro!: exI [of _ "[]"])
  qed
qed

section \<open>Runs\<close>

lemma reachable_run:
  "(tokio_step cfg hc ready faults)\<^sup>*\<^sup>* s s' \<Longrightarrow> tokio_reachable cfg hc ready faults s \<Longrightarrow> tokio_reachable cfg hc ready faults s'"
  by (induction rule: rtranclp_induct) (auto intro: tokio_reachable.step)

lemma run_length: "(tokio_step cfg hc ready faults)\<^sup>*\<^sup>* s s' \<Longrightarrow> length (ts_tasks s) \<le> length (ts_tasks s')"
  by (induction rule: rtranclp_induct) (auto dest: tokio_step_length)

text \<open>A handler registers its session once.\<close>

definition past_registration :: "phase \<Rightarrow> bool" where
  "past_registration ph \<longleftrightarrow> ph \<notin> {Registering_Notification, Registering_Session}"

lemma conn_step_past:
  assumes "conn_step cfg hc ready faults i (b, st, c) (b', st', c')" "past_registration (c_phase c)"
  shows "past_registration (c_phase c')"
  using assms(1)
proof cases
  case (read instant)
  then show ?thesis by (cases rule: do_read_cases [of cfg instant c]) (auto simp: past_registration_def)
next
  case (send pkt pkts)
  from send(4) show ?thesis by (cases rule: do_send_cases) (auto simp: past_registration_def)
qed (use assms(2) in \<open>auto simp: past_registration_def do_store_connection_def do_process_def do_drain_def do_leave_broker_def
    do_write_def do_timeout_def split: prod.splits result.splits if_splits\<close>)

lemma tokio_step_past:
  assumes "tokio_step cfg hc ready faults s s'" "i < length (ts_tasks s)" "past_registration (c_phase (ts_tasks s ! i))"
  shows "past_registration (c_phase (ts_tasks s' ! i))"
  using assms(1)
proof cases
  case (handler j b' st' c')
  then show ?thesis using assms(2,3) conn_step_past [OF handler(3)] by (cases "i = j") auto
next
  case (notify j sid sids pkts tasks)
  note same = notify_session_same [OF notify(4)]
  show ?thesis using notify(1) assms(2,3) same(1) nth_eqI [OF same(3), of i] by (cases "i = j") (auto simp: past_registration_def)
qed (use assms(2,3) in \<open>auto simp: tokio_accept_def tokio_cleanup_def nth_append split: prod.splits\<close>)

lemma run_pipeline:
  assumes run: "(tokio_step cfg hc ready faults)\<^sup>*\<^sup>* s s'" and s: "tokio_reachable cfg hc ready faults s" "in_service s i"
    and cfg: "config_ok cfg"
  shows "length (ts_tasks s') \<le> 2 ^ 32 \<longrightarrow> past_registration (c_phase (ts_tasks s' ! i)) \<and> (in_service s' i \<longrightarrow>
    (\<exists>new. pipeline cfg (ts_broker s') (ts_tasks s' ! i) = pipeline cfg (ts_broker s) (ts_tasks s ! i) @ frames_of cfg new))"
  using run
proof (induction rule: rtranclp_induct)
  case base
  then show ?case
    using s(2) by (auto simp: past_registration_def in_service_def serving_defs intro!: exI [of _ "[]"])
next
  case (step s1 s2)
  have i: "i < length (ts_tasks s1)" using run_length [OF step.hyps(1)] s(2) by (simp add: in_service_def)
  note inv = tokio_reachable_inv [OF reachable_run [OF step.hyps(1) s(1)] cfg]
  show ?case
  proof (intro impI conjI)
    assume "length (ts_tasks s2) \<le> 2 ^ 32"
    then have small: "length (ts_tasks s1) \<le> 2 ^ 32" using tokio_step_length [OF step.hyps(2)] by simp
    with step.IH have past: "past_registration (c_phase (ts_tasks s1 ! i))" by simp
    then show "past_registration (c_phase (ts_tasks s2 ! i))" by (rule tokio_step_past [OF step.hyps(2) i])
    assume "in_service s2 i"
    from tokio_step_pipeline [OF step.hyps(2) inv cfg small i this] past obtain new where
      new: "pipeline cfg (ts_broker s2) (ts_tasks s2 ! i) = pipeline cfg (ts_broker s1) (ts_tasks s1 ! i) @ frames_of cfg new"
      and on: "in_service s1 i" by (auto simp: past_registration_def)
    with step.IH small obtain old where
      "pipeline cfg (ts_broker s1) (ts_tasks s1 ! i) = pipeline cfg (ts_broker s) (ts_tasks s ! i) @ frames_of cfg old" by auto
    with new show "\<exists>new. pipeline cfg (ts_broker s2) (ts_tasks s2 ! i) =
        pipeline cfg (ts_broker s) (ts_tasks s ! i) @ frames_of cfg new"
      by (intro exI [of _ "old @ new"]) simp
  qed
qed

section \<open>Flushing the pipeline\<close>

text \<open>Steps of one handler that concern only itself.\<close>

abbreviation put_task :: "nat \<Rightarrow> conn \<Rightarrow> tokio_server \<Rightarrow> tokio_server" where
  "put_task i c s \<equiv> s\<lparr>ts_tasks := (ts_tasks s)[i := c]\<rparr>"

lemma solo_step:
  assumes "i < length (ts_tasks s)" "conn_step cfg hc ready faults i (ts_broker s, ts_state s, ts_tasks s ! i) (b', ts_state s, c')"
  shows "tokio_step cfg hc ready faults s (put_task i c' (s\<lparr>ts_broker := b'\<rparr>))"
  using tokio_step.handler [OF assms] by (cases s) simp

lemma send_all_run:
  assumes "i < length (ts_tasks s)" "ts_tasks s ! i = c\<lparr>c_phase := Sending ps\<rparr>" "bounded ready"
    and "length (c_frames c) + length ps \<le> hc_frame_channel_capacity hc"
    and "\<forall>p \<in> set ps. encode_frame (MAX_TOPIC_NAME_LENGTH cfg) (MAX_PAYLOAD_SIZE cfg) p \<noteq> Panic"
  shows "(tokio_step cfg hc ready faults)\<^sup>*\<^sup>* s (put_task i (c\<lparr>c_phase := Sending [], c_frames := c_frames c @ frames_of cfg ps\<rparr>) s)"
  using assms
proof (induction ps arbitrary: s c)
  case Nil
  then have "put_task i (c\<lparr>c_phase := Sending [], c_frames := c_frames c @ frames_of cfg []\<rparr>) s = s"
    by (cases s; cases c) (simp, metis list_update_id)
  then show ?case by simp
next
  case (Cons p ps)
  let ?c = "c\<lparr>c_frames := c_frames c @ frame_of cfg p\<rparr>" and ?p = "c\<lparr>c_phase := Sending (p # ps)\<rparr>"
  have ready: "ready (hc_frame_channel_capacity hc) (length (c_frames c))" using Cons.prems(3,4) by (simp add: bounded_def)
  have "do_send cfg ready hc p ps ?p = Some (?c\<lparr>c_phase := Sending ps\<rparr>)"
    using Cons.prems(5) ready by (cases c) (auto simp: do_send_def frame_of_def split: result.splits)
  then have "conn_step cfg hc ready faults i (ts_broker s, ts_state s, ts_tasks s ! i) (ts_broker s, ts_state s, ?c\<lparr>c_phase := Sending ps\<rparr>)"
    unfolding Cons.prems(2) by (intro conn_step.send) simp_all
  from solo_step [OF Cons.prems(1) this]
  have first: "tokio_step cfg hc ready faults s (put_task i (?c\<lparr>c_phase := Sending ps\<rparr>) s)" by (cases s) simp
  have "length (frame_of cfg p) \<le> 1" by (simp add: frame_of_def split: result.split)
  then have "(tokio_step cfg hc ready faults)\<^sup>*\<^sup>* (put_task i (?c\<lparr>c_phase := Sending ps\<rparr>) s)
      (put_task i (?c\<lparr>c_phase := Sending [], c_frames := c_frames ?c @ frames_of cfg ps\<rparr>) (put_task i (?c\<lparr>c_phase := Sending ps\<rparr>) s))"
    using Cons.prems by (intro Cons.IH) auto
  then show ?case using converse_rtranclp_into_rtranclp [of "tokio_step cfg hc ready faults", OF first] by simp
qed

lemma write_all_run:
  assumes "i < length (ts_tasks s)" "ts_tasks s ! i = c\<lparr>c_frames := fs\<rparr>" "c_phase c = Selecting"
  shows "(tokio_step cfg hc ready faults)\<^sup>*\<^sup>* s (put_task i (c\<lparr>c_frames := [], c_written := c_written c @ fs\<rparr>) s)"
  using assms
proof (induction fs arbitrary: s c)
  case Nil
  then have "put_task i (c\<lparr>c_frames := [], c_written := c_written c @ []\<rparr>) s = s"
    by (cases s; cases c) (simp, metis list_update_id)
  then show ?case by simp
next
  case (Cons f fs)
  let ?c = "c\<lparr>c_written := c_written c @ [f]\<rparr>"
  have "do_write True f fs (ts_tasks s ! i) = ?c\<lparr>c_frames := fs\<rparr>" using Cons.prems(2) by (cases c) (simp add: do_write_def)
  with conn_step.frame_written [where c = "ts_tasks s ! i" and frame = f and frames = fs and write_ok = True]
  have "conn_step cfg hc ready faults i (ts_broker s, ts_state s, ts_tasks s ! i) (ts_broker s, ts_state s, ?c\<lparr>c_frames := fs\<rparr>)"
    using Cons.prems(2,3) by auto
  from solo_step [OF Cons.prems(1) this]
  have first: "tokio_step cfg hc ready faults s (put_task i (?c\<lparr>c_frames := fs\<rparr>) s)" by (cases s) simp
  have "(tokio_step cfg hc ready faults)\<^sup>*\<^sup>* (put_task i (?c\<lparr>c_frames := fs\<rparr>) s)
      (put_task i (?c\<lparr>c_frames := [], c_written := c_written ?c @ fs\<rparr>) (put_task i (?c\<lparr>c_frames := fs\<rparr>) s))"
    using Cons.prems by (intro Cons.IH) auto
  then show ?case using converse_rtranclp_into_rtranclp [of "tokio_step cfg hc ready faults", OF first] by simp
qed

lemma server_packet_frame:
  assumes "Packet_wf (MAX_TOPIC_NAME_LENGTH cfg) (MAX_PAYLOAD_SIZE cfg) p" "server_packet p"
  shows "encode_frame (MAX_TOPIC_NAME_LENGTH cfg) (MAX_PAYLOAD_SIZE cfg) p \<noteq> Panic"
proof -
  have "Packet_packet_type p \<noteq> PT_Connect" using assms(2) by (auto simp: server_packet_def)
  then show ?thesis
    using encode_frame_fits [OF assms(1)] encode_frame_too_small [OF assms(1)]
    by (cases "length (Packet_wire p) \<le> 5 + MAX_PAYLOAD_SIZE cfg + MAX_TOPIC_NAME_LENGTH cfg") auto
qed

lemma flush_run:
  assumes s: "tokio_reachable cfg hc ready faults s" and cfg: "config_ok cfg" and r: "bounded ready"
    and i: "i < length (ts_tasks s)" "ts_tasks s ! i = c" "c_phase c = Selecting" "0 < c_notes c"
    and room: "length (c_frames c) + length (tx (ts_broker s) (c_sid c)) \<le> hc_frame_channel_capacity hc"
  shows "\<exists>b'. tx b' = (tx (ts_broker s))(c_sid c := []) \<and> (tokio_step cfg hc ready faults)\<^sup>*\<^sup>* s
    (put_task i (c\<lparr>c_notes := c_notes c - 1, c_frames := [], c_written := pipeline cfg (ts_broker s) c\<rparr>) (s\<lparr>ts_broker := b'\<rparr>))"
proof -
  let ?S = "tokio_step cfg hc ready faults" and ?b = "ts_broker s" and ?ps = "tx (ts_broker s) (c_sid c)"
  have reach: "reachable cfg ?b" using tokio_reachable_inv [OF s cfg] by (simp add: server_inv_def)
  have wf: "broker_wf cfg ?b" "traffic_wf cfg ?b" using reachable_invariants [OF reach cfg] by simp_all
  have enc: "\<forall>p \<in> set ?ps. encode_frame (MAX_TOPIC_NAME_LENGTH cfg) (MAX_PAYLOAD_SIZE cfg) p \<noteq> Panic"
    using wf(2) reachable_server_packets [OF reach cfg] server_packet_frame unfolding traffic_wf_def by blast
  define c1 where "c1 = c\<lparr>c_notes := c_notes c - 1\<rparr>"
  have "conn_step cfg hc ready faults i (?b, ts_state s, ts_tasks s ! i) (?b, ts_state s, c1\<lparr>c_phase := Draining\<rparr>)"
    using conn_step.notified [of c cfg hc ready faults i ?b "ts_state s"] i by (cases c) (simp add: c1_def)
  from solo_step [OF i(1) this] have s1: "?S s (put_task i (c1\<lparr>c_phase := Draining\<rparr>) s)" by (cases s) simp
  let ?s1 = "put_task i (c1\<lparr>c_phase := Draining\<rparr>) s"
  from do_drain_eq [OF wf(1), of "c1\<lparr>c_phase := Draining\<rparr>"] obtain b' where
    b': "do_drain (?b, c1\<lparr>c_phase := Draining\<rparr>) = (b', c1\<lparr>c_phase := Sending ?ps\<rparr>)" "tx b' = (tx ?b)(c_sid c := [])"
    by (auto simp: c1_def)
  have at1: "i < length (ts_tasks ?s1)" "ts_tasks ?s1 ! i = c1\<lparr>c_phase := Draining\<rparr>" using i(1) by simp_all
  have "conn_step cfg hc ready faults i (ts_broker ?s1, ts_state ?s1, ts_tasks ?s1 ! i) (b', ts_state ?s1, c1\<lparr>c_phase := Sending ?ps\<rparr>)"
    unfolding at1(2) by (rule conn_step.drain) (use b'(1) in simp_all)
  from solo_step [OF at1(1) this] have s2: "?S ?s1 (put_task i (c1\<lparr>c_phase := Sending ?ps\<rparr>) (s\<lparr>ts_broker := b'\<rparr>))" by simp
  let ?s2 = "put_task i (c1\<lparr>c_phase := Sending ?ps\<rparr>) (s\<lparr>ts_broker := b'\<rparr>)"
  have "i < length (ts_tasks ?s2)" "ts_tasks ?s2 ! i = c1\<lparr>c_phase := Sending ?ps\<rparr>" using i(1) by simp_all
  from send_all_run [OF this r _ enc] room have s3: "?S\<^sup>*\<^sup>* ?s2
      (put_task i (c1\<lparr>c_phase := Sending [], c_frames := c_frames c @ frames_of cfg ?ps\<rparr>) ?s2)" by (simp add: c1_def)
  let ?c3 = "c1\<lparr>c_phase := Sending [], c_frames := c_frames c @ frames_of cfg ?ps\<rparr>" and ?s3 = "put_task i (c1\<lparr>c_phase := Sending [],
    c_frames := c_frames c @ frames_of cfg ?ps\<rparr>) ?s2"
  have at3: "i < length (ts_tasks ?s3)" "ts_tasks ?s3 ! i = ?c3" using i(1) by simp_all
  have "conn_step cfg hc ready faults i (ts_broker ?s3, ts_state ?s3, ts_tasks ?s3 ! i) (b', ts_state ?s3, ?c3\<lparr>c_phase := Selecting\<rparr>)"
    unfolding at3(2) using conn_step.sent_all [of ?c3 cfg hc ready faults i b' "ts_state s"] by simp
  from solo_step [OF at3(1) this] have s4: "?S ?s3 (put_task i (?c3\<lparr>c_phase := Selecting\<rparr>) ?s3)" by simp
  let ?c4 = "c1\<lparr>c_phase := Selecting\<rparr>" and ?s4 = "put_task i (?c3\<lparr>c_phase := Selecting\<rparr>) ?s3"
  have "i < length (ts_tasks ?s4)" "ts_tasks ?s4 ! i = ?c4\<lparr>c_frames := c_frames c @ frames_of cfg ?ps\<rparr>" using i(1) by simp_all
  from write_all_run [OF this, of cfg hc ready faults]
  have s5: "?S\<^sup>*\<^sup>* ?s4 (put_task i (?c4\<lparr>c_frames := [], c_written := c_written c @ c_frames c @ frames_of cfg ?ps\<rparr>) ?s4)"
    by (simp add: c1_def)
  have "?S\<^sup>*\<^sup>* s (put_task i (?c4\<lparr>c_frames := [], c_written := c_written c @ c_frames c @ frames_of cfg ?ps\<rparr>) ?s4)"
    using s1 s2 s3 s4 s5 by (meson converse_rtranclp_into_rtranclp rtranclp_trans)
  moreover have "put_task i (?c4\<lparr>c_frames := [], c_written := c_written c @ c_frames c @ frames_of cfg ?ps\<rparr>) ?s4 =
      put_task i (c\<lparr>c_notes := c_notes c - 1, c_frames := [], c_written := pipeline cfg ?b c\<rparr>) (s\<lparr>ts_broker := b'\<rparr>)"
    using i(3) by (cases c) (simp add: c1_def pipeline_def)
  ultimately show ?thesis using b'(2) by (intro exI [of _ b']) simp
qed

section \<open>From the publisher to the subscriber\<close>

text \<open>The broker, when the packet just received is the only one to process.\<close>

lemma process_idle:
  assumes "broker_wf cfg b" "set ks \<subseteq> set (session_ids b)" "\<forall>k \<in> set ks. rx b k = []"
  shows "\<exists>b'. process_sessions cfg ks b = (Ok (), b') \<and> broker_wf cfg b' \<and> session_ids b' = session_ids b \<and>
    br_topics b' = br_topics b \<and> rx b' = rx b \<and> tx b' = tx b"
  using assms
proof (induction ks arbitrary: b)
  case (Cons k ks)
  from dequeue_rx_step [OF Cons.prems(1), of k] Cons.prems(2,3) obtain b1 where
    b1: "on_sessions (SessionRegistry_dequeue_rx_packet k) b = (Ok None, b1)" "broker_wf cfg b1" "session_ids b1 = session_ids b"
      "br_topics b1 = br_topics b" "rx b1 = rx b" "tx b1 = tx b" by (auto simp: front_of_def fun_upd_idem)
  have "PicoBroker_process_session cfg k b = (Ok (), b1)"
    by (subst PicoBroker_process_session.simps) (simp add: b1(1))
  moreover from Cons.IH [of b1] b1 Cons.prems obtain b' where "process_sessions cfg ks b1 = (Ok (), b')" "broker_wf cfg b'"
    "session_ids b' = session_ids b" "br_topics b' = br_topics b" "rx b' = rx b" "tx b' = tx b" by auto
  ultimately show ?case by (auto simp: then_do_cases(1))
qed simp

lemma process_sessions_append:
  assumes "process_sessions cfg xs b = (Ok (), b1)"
  shows "process_sessions cfg (xs @ ys) b = process_sessions cfg ys b1"
  using assms
proof (induction xs arbitrary: b)
  case (Cons x xs)
  then show ?case by (cases "PicoBroker_process_session cfg x b"; cases "fst (PicoBroker_process_session cfg x b)")
      (auto simp: then_do_cases)
qed simp

lemma publish_processed:
  assumes wf: "broker_wf cfg b" and sid: "sid \<in> set (session_ids b)" and idle: "\<forall>k. rx b k = []" "0 < QUEUE_SIZE cfg"
    and room: "\<forall>k \<in> set (recipients cfg p b). has_room cfg b k"
      "length (tx b sid) + (if sid \<in> set (recipients cfg p b) then 1 else 0) + length (acks p) \<le> QUEUE_SIZE cfg"
  shows "\<exists>b'. receive_and_process cfg sid (Publish p) t b = (Ok (), b') \<and> broker_wf cfg b' \<and> session_ids b' = session_ids b \<and>
    tx b' = (\<lambda>k. tx b k @ (if k \<in> set (recipients cfg p b) then [Publish p] else []) @ (if k = sid then acks p else []))"
proof -
  let ?tx = "\<lambda>k. tx b k @ (if k \<in> set (recipients cfg p b) then [Publish p] else []) @ (if k = sid then acks p else [])"
  from receive_step [OF wf sid, of "Publish p" t] idle obtain b1 where
    b1: "PicoBroker_queue_packet_received_from_client sid (Publish p) t b = (Ok (), b1)" "broker_wf cfg b1"
      "br_topics b1 = br_topics b" "session_ids b1 = session_ids b" "tx b1 = tx b" "rx b1 = (rx b)(sid := [Publish p])" by auto
  have dist: "distinct (session_ids b)" using sr.ids_law [OF broker_wf_parts(2) [OF wf]] by simp
  obtain xs ys where l: "session_ids b = xs @ sid # ys" using sid by (meson split_list)
  have "set xs \<subseteq> set (session_ids b1)" "\<forall>k \<in> set xs. rx b1 k = []" using l dist b1(4,6) idle(1) by auto
  from process_idle [OF b1(2) this] obtain b2 where
    b2: "process_sessions cfg xs b1 = (Ok (), b2)" "broker_wf cfg b2" "session_ids b2 = session_ids b" "br_topics b2 = br_topics b"
      "rx b2 = (rx b)(sid := [Publish p])" "tx b2 = tx b" using b1 by auto
  from dequeue_rx_step [OF b2(2), of sid] sid b2 idle(1) obtain b3 where
    b3: "on_sessions (SessionRegistry_dequeue_rx_packet sid) b2 = (Ok (Some (Publish p)), b3)" "broker_wf cfg b3"
      "session_ids b3 = session_ids b" "br_topics b3 = br_topics b" "\<forall>k. rx b3 k = []" "tx b3 = tx b" by (auto simp: front_of_def)
  have rec: "recipients cfg p b3 = recipients cfg p b" by (simp add: recipients_def b3(4))
  from handle_publish_delivers [OF b3(2), of sid p] sid room b3(3,6) obtain b4 where
    b4: "PicoBroker_handle_publish cfg sid p b3 = (Ok (), b4)" "broker_wf cfg b4" "only_tx b3 b4" "tx b4 = ?tx"
    unfolding rec has_room_def by auto
  have r4: "session_ids b4 = session_ids b" "\<forall>k. rx b4 k = []" using b4(3) b3(3,5) only_tx_rx [OF b4(3)] by (simp_all add: only_tx_def)
  from dequeue_rx_step [OF b4(2), of sid] r4 sid obtain b5 where
    b5: "on_sessions (SessionRegistry_dequeue_rx_packet sid) b4 = (Ok None, b5)" "broker_wf cfg b5" "session_ids b5 = session_ids b"
      "\<forall>k. rx b5 k = []" "tx b5 = ?tx" using b4(4) by (auto simp: front_of_def)
  have "PicoBroker_process_session cfg sid b4 = (Ok (), b5)"
    by (subst PicoBroker_process_session.simps) (simp add: b5(1))
  then have p: "PicoBroker_process_session cfg sid b2 = (Ok (), b5)"
    by (subst PicoBroker_process_session.simps) (simp add: b3(1) b4(1))
  from process_idle [OF b5(2), of ys] b5 l obtain b' where
    b': "process_sessions cfg ys b5 = (Ok (), b')" "broker_wf cfg b'" "session_ids b' = session_ids b" "tx b' = ?tx" by auto
  have "process_sessions cfg (session_ids b) b1 = (Ok (), b')"
    unfolding l process_sessions_append [OF b2(1)] using p b'(1) by (simp add: then_do_cases(1))
  then have "PicoBroker_process_all_session_packets cfg b1 = (Ok (), b')"
    using get_all_sessions_eq [OF broker_wf_parts(2) [OF b1(2)]] b1(4)
    by (simp add: PicoBroker_process_all_session_packets_def PicoBroker_get_all_sessions_def)
  then show ?thesis using b1(1) b'(2-4) by (simp add: receive_and_process_def then_do_cases(1))
qed

text \<open>Without failures the receive queues are empty between two steps of the server.\<close>

lemma receive_and_process_empties:
  assumes wf: "broker_wf cfg b" and e: "receive_and_process cfg sid p t b = (Ok u, b')"
  shows "\<forall>k. rx b' k = []"
proof -
  obtain b1 where q: "PicoBroker_queue_packet_received_from_client sid p t b = (Ok (), b1)"
    "PicoBroker_process_all_session_packets cfg b1 = (Ok u, b')"
    using e by (cases "PicoBroker_queue_packet_received_from_client sid p t b";
      cases "fst (PicoBroker_queue_packet_received_from_client sid p t b)") (auto simp: receive_and_process_def then_do_cases)
  have "broker_wf cfg b1" using q(1) receive_step [OF wf, of sid p t] receive_missing [OF wf, of sid p t]
    by (cases "sid \<in> set (session_ids b)") auto
  from process_all_eq [OF this] q(2) show ?thesis by auto
qed

lemma conn_step_idle:
  assumes st: "conn_step cfg hc ready False i (b, st, c) (b', st', c')"
    and wf: "broker_wf cfg b" and cfg: "config_ok cfg" and ok: "phase_ok cfg (c_phase c)" and idle: "\<forall>k. rx b k = []"
  shows "\<forall>k. rx b' k = []"
  using st
proof cases
  case (register_session now)
  from wf show ?thesis
  proof (cases rule: register_step [where sid = "c_sid c" and ka = "hc_default_keep_alive_secs hc" and t = now])
    case (registered b1)
    have "rx b1 k = []" for k
      using registered(7) idle [rule_format, of k] queue_new_wf [of "QUEUE_SIZE cfg"] cfg
      by (auto simp: rx_def config_ok_def Session_new_def)
    then show ?thesis using register_session registered(3) by (auto simp: do_register_session_def)
  qed (use register_session idle in \<open>auto simp: do_register_session_def\<close>)
next
  case (process packet now)
  then have p: "decoded cfg packet" using ok by simp
  from receive_and_process_eq [OF wf p, of "c_sid c" now] process(4) obtain b1 where
    b1: "receive_and_process cfg (c_sid c) packet now b = (Ok (), b1)" "broker_wf cfg b1" by (auto elim!: is_ok.elims)
  from pending_eq [OF b1(2) cfg] drain_packets_eq [OF b1(2), of "c_sid c"] process(3) b1(1) have "rx b' = rx b1"
    by (auto simp: do_process_def)
  then show ?thesis using receive_and_process_empties [OF wf b1(1)] by simp
next
  case drain
  then show ?thesis using drain_packets_eq [OF wf, of "c_sid c"] idle by (auto simp: do_drain_def)
next
  case leave_broker
  then show ?thesis using remove_session_step [OF wf, of "c_sid c"] idle
    by (auto simp: do_leave_broker_def rx_def split: if_splits)
qed (use idle in simp_all)

lemma idle_inv:
  assumes "tokio_reachable cfg hc ready False s" "config_ok cfg"
  shows "\<forall>k. rx (ts_broker s) k = []"
  using assms(1)
proof induction
  case start
  then show ?case by (simp add: MqttServer_new_def PicoBroker_new_queues)
next
  case (step s s')
  note D = server_invD [OF tokio_reachable_inv [OF step.hyps(1) assms(2)] assms(2)]
  from step.hyps(2) show ?case
  proof cases
    case accept
    then show ?thesis using step.IH by (simp add: tokio_accept_simps [OF D(2)])
  next
    case handler
    then show ?thesis using conn_step_idle [OF handler(3) D(1) assms(2) D(3) step.IH] by simp
  next
    case (cleanup now)
    from cleanup_scan_eq [OF D(1), of now "ts_state s"] step.IH show ?thesis unfolding cleanup
      by (auto simp: tokio_cleanup_def rx_def)
  qed (use step.IH in simp)
qed

section \<open>The wake-up of the subscribers\<close>

text \<open>
  The notifications of a handler all go through when the channels have room; they change nothing but the number of
  notifications, and each handler whose session is named has one afterwards.
\<close>

definition same_but_notes :: "conn \<Rightarrow> conn \<Rightarrow> bool" where
  "same_but_notes c c' \<longleftrightarrow> c'\<lparr>c_notes := c_notes c\<rparr> = c \<and> c_notes c \<le> c_notes c'"

lemma same_but_notesD:
  "same_but_notes c c' \<Longrightarrow> c_sid c' = c_sid c \<and> c_phase c' = c_phase c \<and> c_frames c' = c_frames c \<and>
    c_written c' = c_written c \<and> c_notes c \<le> c_notes c'"
  by (cases c; cases c') (simp add: same_but_notes_def)

lemma same_but_notes_refl [simp]: "same_but_notes c c" by (simp add: same_but_notes_def)

lemma same_but_notes_trans: "same_but_notes c d \<Longrightarrow> same_but_notes d e \<Longrightarrow> same_but_notes c e"
  by (cases c; cases d; cases e) (simp add: same_but_notes_def)

lemma notify_session_room:
  assumes r: "bounded ready" and own: "\<And>j. notification_senders st k = Some j \<Longrightarrow> j < length tasks \<and> c_notes (tasks ! j) < 8"
  shows "\<exists>tasks'. ServerState_notify_session ready k st tasks = Some tasks' \<and> length tasks' = length tasks \<and>
    (\<forall>i < length tasks. same_but_notes (tasks ! i) (tasks' ! i) \<and>
       (notification_senders st k \<noteq> Some i \<longrightarrow> tasks' ! i = tasks ! i) \<and>
       (notification_senders st k = Some i \<longrightarrow> \<not> is_gone (c_phase (tasks ! i)) \<longrightarrow> 0 < c_notes (tasks' ! i)))"
proof (cases "notification_senders st k")
  case None
  then show ?thesis by (simp add: ServerState_notify_session_def)
next
  case (Some j)
  with own r show ?thesis
    by (auto simp: ServerState_notify_session_def bounded_def nth_list_update same_but_notes_def)
qed

lemma notify_run:
  assumes r: "bounded ready" and a: "a < length (ts_tasks s)" "c_phase (ts_tasks s ! a) = Notifying ks ps" and d: "distinct ks"
    and own: "\<forall>k \<in> set ks. \<forall>j. notification_senders (ts_state s) k = Some j \<longrightarrow>
      j < length (ts_tasks s) \<and> c_sid (ts_tasks s ! j) = k \<and> c_notes (ts_tasks s ! j) < 8"
  shows "\<exists>tasks. (tokio_step cfg hc ready faults)\<^sup>*\<^sup>* s (s\<lparr>ts_tasks := tasks\<rparr>) \<and> length tasks = length (ts_tasks s) \<and>
    (\<forall>i < length tasks. i \<noteq> a \<longrightarrow> same_but_notes (ts_tasks s ! i) (tasks ! i) \<and>
       (c_sid (tasks ! i) \<in> set ks \<longrightarrow> notification_senders (ts_state s) (c_sid (tasks ! i)) = Some i \<longrightarrow>
         \<not> is_gone (c_phase (tasks ! i)) \<longrightarrow> 0 < c_notes (tasks ! i)))"
  using a d own
proof (induction ks arbitrary: s)
  case Nil
  then show ?case by (intro exI [of _ "ts_tasks s"]) simp
next
  case (Cons k ks)
  let ?st = "ts_state s"
  have "j < length (ts_tasks s) \<and> c_notes (ts_tasks s ! j) < 8" if "notification_senders ?st k = Some j" for j
    using Cons.prems(4) that by simp
  from notify_session_room [OF r this] obtain tasks where
    t: "ServerState_notify_session ready k ?st (ts_tasks s) = Some tasks" "length tasks = length (ts_tasks s)"
      "\<forall>i < length (ts_tasks s). same_but_notes (ts_tasks s ! i) (tasks ! i) \<and>
         (notification_senders ?st k \<noteq> Some i \<longrightarrow> tasks ! i = ts_tasks s ! i) \<and>
         (notification_senders ?st k = Some i \<longrightarrow> \<not> is_gone (c_phase (ts_tasks s ! i)) \<longrightarrow> 0 < c_notes (tasks ! i))" by blast
  let ?s1 = "s\<lparr>ts_tasks := tasks[a := (tasks ! a)\<lparr>c_phase := Notifying ks ps\<rparr>]\<rparr>"
  have s1: "tokio_step cfg hc ready faults s ?s1" by (rule tokio_step.notify [OF Cons.prems(1,2) t(1)])
  have "\<forall>k' \<in> set ks. \<forall>j. notification_senders ?st k' = Some j \<longrightarrow>
      j < length (ts_tasks ?s1) \<and> c_sid (ts_tasks ?s1 ! j) = k' \<and> c_notes (ts_tasks ?s1 ! j) < 8"
  proof (intro ballI allI impI)
    fix k' j assume k': "k' \<in> set ks" "notification_senders ?st k' = Some j"
    have j: "j < length (ts_tasks s)" "c_sid (ts_tasks s ! j) = k'" "c_notes (ts_tasks s ! j) < 8" using Cons.prems(4) k' by simp_all
    have "notification_senders ?st k \<noteq> Some j" using Cons.prems(3,4) j(2) k'(1) by force
    then have "tasks ! j = ts_tasks s ! j" using t(3) j(1) by simp
    then show "j < length (ts_tasks ?s1) \<and> c_sid (ts_tasks ?s1 ! j) = k' \<and> c_notes (ts_tasks ?s1 ! j) < 8"
      using j t(2) by (cases "j = a") simp_all
  qed
  with Cons.IH [of ?s1] Cons.prems(1,3) t(2) obtain tasks' where
    t': "(tokio_step cfg hc ready faults)\<^sup>*\<^sup>* ?s1 (s\<lparr>ts_tasks := tasks'\<rparr>)" "length tasks' = length (ts_tasks s)"
      "\<forall>i < length tasks'. i \<noteq> a \<longrightarrow> same_but_notes (tasks ! i) (tasks' ! i) \<and>
         (c_sid (tasks' ! i) \<in> set ks \<longrightarrow> notification_senders ?st (c_sid (tasks' ! i)) = Some i \<longrightarrow>
           \<not> is_gone (c_phase (tasks' ! i)) \<longrightarrow> 0 < c_notes (tasks' ! i))" by auto
  have "same_but_notes (ts_tasks s ! i) (tasks' ! i) \<and> (c_sid (tasks' ! i) \<in> set (k # ks) \<longrightarrow>
      notification_senders ?st (c_sid (tasks' ! i)) = Some i \<longrightarrow> \<not> is_gone (c_phase (tasks' ! i)) \<longrightarrow> 0 < c_notes (tasks' ! i))"
    if i: "i < length tasks'" "i \<noteq> a" for i
  proof -
    have sb: "same_but_notes (ts_tasks s ! i) (tasks ! i)" "same_but_notes (tasks ! i) (tasks' ! i)" using t(3) t'(2,3) i by simp_all
    have "0 < c_notes (tasks' ! i)" if "c_sid (tasks' ! i) = k" "notification_senders ?st k = Some i" "\<not> is_gone (c_phase (tasks' ! i))"
      using t(3) t'(2) i that same_but_notesD [OF sb(1)] same_but_notesD [OF sb(2)] by fastforce
    then show ?thesis using same_but_notes_trans [OF sb] t'(3) i by auto
  qed
  then show ?case using s1 t'(1,2) by (intro exI [of _ tasks']) (auto intro: converse_rtranclp_into_rtranclp)
qed

lemma publish_step:
  assumes s: "tokio_reachable cfg hc ready False s" and cfg: "config_ok cfg" "0 < QUEUE_SIZE cfg"
    and a: "a < length (ts_tasks s)" "ts_tasks s ! a = c" "c_phase c = Processing (Publish p)" "c_sid c \<in> set (session_ids (ts_broker s))"
    and room: "\<forall>k \<in> set (recipients cfg p (ts_broker s)). has_room cfg (ts_broker s) k"
      "length (tx (ts_broker s) (c_sid c)) + (if c_sid c \<in> set (recipients cfg p (ts_broker s)) then 1 else 0) + length (acks p)
         \<le> QUEUE_SIZE cfg"
  shows "\<exists>b' ks ps. tokio_step cfg hc ready False s (put_task a (c\<lparr>c_phase := Notifying ks ps\<rparr>) (s\<lparr>ts_broker := b'\<rparr>)) \<and>
    set ks \<subseteq> set (session_ids (ts_broker s)) \<and> distinct ks \<and>
    (\<forall>k. k \<in> set (recipients cfg p (ts_broker s)) \<longrightarrow> k \<noteq> c_sid c \<longrightarrow> k \<in> set ks \<and> tx b' k = tx (ts_broker s) k @ [Publish p])"
proof -
  let ?b = "ts_broker s"
  note D = server_invD [OF tokio_reachable_inv [OF s cfg(1)] cfg(1)]
  from publish_processed [OF D(1) a(4) idle_inv [OF s cfg(1)] cfg(2) room, of 0] obtain b1 where
    b1: "receive_and_process cfg (c_sid c) (Publish p) 0 ?b = (Ok (), b1)" "broker_wf cfg b1" "session_ids b1 = session_ids ?b"
      "tx b1 = (\<lambda>k. tx ?b k @ (if k \<in> set (recipients cfg p ?b) then [Publish p] else []) @ (if k = c_sid c then acks p else []))"
    by blast
  from pending_eq [OF b1(2) cfg(1)] obtain v where v: "PicoBroker_get_sessions_with_pending_packets cfg b1 = Ok v"
    "HeaplessVec_as_slice v = filter (\<lambda>k. tx b1 k \<noteq> []) (session_ids b1)" by blast
  from drain_packets_eq [OF b1(2), of "c_sid c"] obtain b2 where
    b2: "drain_packets (c_sid c) b1 = (Ok (tx b1 (c_sid c)), b2)" "tx b2 = (tx b1)(c_sid c := [])" by blast
  let ?ks = "HeaplessVec_as_slice v" and ?ps = "tx b1 (c_sid c)"
  have "do_process cfg 0 (Publish p) (?b, c) = (b2, c\<lparr>c_phase := Notifying ?ks ?ps\<rparr>)"
    by (simp add: do_process_def b1(1) v(1) b2(1))
  then have "conn_step cfg hc ready False a (?b, ts_state s, c) (b2, ts_state s, c\<lparr>c_phase := Notifying ?ks ?ps\<rparr>)"
    by (rule conn_step.process [OF a(3)]) (simp add: b1(1))
  from solo_step [OF a(1) this [folded a(2)]]
  have "tokio_step cfg hc ready False s (put_task a (c\<lparr>c_phase := Notifying ?ks ?ps\<rparr>) (s\<lparr>ts_broker := b2\<rparr>))" by (simp add: a(2))
  moreover have "distinct ?ks" "set ?ks \<subseteq> set (session_ids ?b)"
    using sr.ids_law [OF broker_wf_parts(2) [OF b1(2)]] v(2) b1(3) by auto
  moreover have "k \<in> set ?ks \<and> tx b2 k = tx ?b k @ [Publish p]" if "k \<in> set (recipients cfg p ?b)" "k \<noteq> c_sid c" for k
    using that recipients_registered [OF D(1), of p] v(2) b1(3,4) b2(2) by auto
  ultimately show ?thesis by blast
qed

lemma publish_run:
  assumes s: "tokio_reachable cfg hc ready False s" and cfg: "config_ok cfg" "0 < QUEUE_SIZE cfg" and r: "bounded ready"
    and small: "length (ts_tasks s) \<le> 2 ^ 32" and few: "\<forall>c \<in> set (ts_tasks s). c_notes c < 8"
    and a: "a < length (ts_tasks s)" "c_phase (ts_tasks s ! a) = Processing (Publish p)"
      "c_sid (ts_tasks s ! a) \<in> set (session_ids (ts_broker s))"
    and room: "\<forall>k \<in> set (recipients cfg p (ts_broker s)). has_room cfg (ts_broker s) k"
      "length (tx (ts_broker s) (c_sid (ts_tasks s ! a))) +
         (if c_sid (ts_tasks s ! a) \<in> set (recipients cfg p (ts_broker s)) then 1 else 0) + length (acks p) \<le> QUEUE_SIZE cfg"
    and j: "j < length (ts_tasks s)" "j \<noteq> a" "c_phase (ts_tasks s ! j) = Selecting"
      "c_sid (ts_tasks s ! j) \<in> set (recipients cfg p (ts_broker s))"
      "length (c_frames (ts_tasks s ! j)) + length (tx (ts_broker s) (c_sid (ts_tasks s ! j))) + 1 \<le> hc_frame_channel_capacity hc"
  shows "\<exists>s'. (tokio_step cfg hc ready False)\<^sup>*\<^sup>* s s' \<and>
    c_written (ts_tasks s' ! j) = pipeline cfg (ts_broker s) (ts_tasks s ! j) @ frame_of cfg (Publish p)"
proof -
  let ?S = "tokio_step cfg hc ready False" and ?k = "c_sid (ts_tasks s ! j)" and ?b = "ts_broker s"
  note D = server_invD [OF tokio_reachable_inv [OF s cfg(1)] cfg(1)]
  have sub: "set (session_ids ?b) \<subseteq> c_sid ` set (ts_tasks s)"
    using tokio_reachable_inv [OF s cfg(1)] small by (simp add: server_inv_def all_owned_def)
  have ne: "?k \<noteq> c_sid (ts_tasks s ! a)" using numbered_inj [OF D(2) small j(1) a(1)] j(2) by blast
  from publish_step [OF s cfg a(1) refl a(2,3) room] j(4) ne obtain b' ks ps where
    s1: "?S s (put_task a ((ts_tasks s ! a)\<lparr>c_phase := Notifying ks ps\<rparr>) (s\<lparr>ts_broker := b'\<rparr>))"
      "set ks \<subseteq> set (session_ids ?b)" "distinct ks" "?k \<in> set ks" "tx b' ?k = tx ?b ?k @ [Publish p]" by blast
  let ?s1 = "put_task a ((ts_tasks s ! a)\<lparr>c_phase := Notifying ks ps\<rparr>) (s\<lparr>ts_broker := b'\<rparr>)"
  have own: "owned ?b (ts_state s) i (ts_tasks s ! i)" if "i < length (ts_tasks s)" for i using D(4) [OF small that] .
  have "i < length (ts_tasks ?s1) \<and> c_sid (ts_tasks ?s1 ! i) = k \<and> c_notes (ts_tasks ?s1 ! i) < 8"
    if k: "k \<in> set ks" "notification_senders (ts_state s) k = Some i" for k i
  proof -
    obtain i' where i': "i' < length (ts_tasks s)" "c_sid (ts_tasks s ! i') = k" using k(1) s1(2) sub by (force simp: in_set_conv_nth)
    then have "i' = i" using own [OF i'(1)] k(2) by (simp add: owned_def split: if_splits)
    then show ?thesis using i' few by (cases "i = a") auto
  qed
  with notify_run [OF r, of a ?s1 ks ps cfg hc False] a(1) s1(3) obtain tasks where
    t: "?S\<^sup>*\<^sup>* ?s1 (s\<lparr>ts_broker := b', ts_tasks := tasks\<rparr>)" "length tasks = length (ts_tasks s)"
      "\<forall>i < length tasks. i \<noteq> a \<longrightarrow> same_but_notes (ts_tasks s ! i) (tasks ! i) \<and>
         (c_sid (tasks ! i) \<in> set ks \<longrightarrow> notification_senders (ts_state s) (c_sid (tasks ! i)) = Some i \<longrightarrow>
           \<not> is_gone (c_phase (tasks ! i)) \<longrightarrow> 0 < c_notes (tasks ! i))" by auto
  let ?s2 = "s\<lparr>ts_broker := b', ts_tasks := tasks\<rparr>"
  have sj: "same_but_notes (ts_tasks s ! j) (tasks ! j)" using t(2,3) j(1,2) by simp
  note J = same_but_notesD [OF sj]
  have woken: "0 < c_notes (tasks ! j)"
    using own [OF j(1)] t(2,3) j(1-3) s1(4) J by (auto simp: owned_def has_sender_def is_gone_def)
  have run2: "?S\<^sup>*\<^sup>* s ?s2" using s1(1) t(1) by (rule converse_rtranclp_into_rtranclp)
  from flush_run [OF reachable_run [OF run2 s] cfg(1) r, of j "tasks ! j"] woken J j(1,3,5) t(2) s1(5) obtain b'' where
    "?S\<^sup>*\<^sup>* ?s2 (put_task j ((tasks ! j)\<lparr>c_notes := c_notes (tasks ! j) - 1, c_frames := [],
       c_written := pipeline cfg b' (tasks ! j)\<rparr>) (?s2\<lparr>ts_broker := b''\<rparr>))" by auto
  with run2 have "?S\<^sup>*\<^sup>* s (put_task j ((tasks ! j)\<lparr>c_notes := c_notes (tasks ! j) - 1, c_frames := [],
       c_written := pipeline cfg b' (tasks ! j)\<rparr>) (?s2\<lparr>ts_broker := b''\<rparr>))" by (rule rtranclp_trans)
  moreover have "pipeline cfg b' (tasks ! j) = pipeline cfg ?b (ts_tasks s ! j) @ frame_of cfg (Publish p)"
    using J s1(5) by (simp add: pipeline_def)
  ultimately show ?thesis using t(2) j(1) by (intro exI conjI) (assumption, simp)
qed

end
