(* ===== verification/Server_Tokio_Service.thy ===== *)
theory Server_Tokio_Service
  imports Server_Tokio_Delivery "HOL-Library.Code_Target_Nat"
begin

text \<open>
  What the clients of the tokio server get. The frames of a connection are written in the order of the broker's queue,
  a notified handler can write everything it holds, and a PUBLISH taken from one connection can be written to the
  connection of a subscriber. The scheduler at the start runs a handler on its own and makes concrete states for the witnesses.
\<close>

section \<open>A handler on its own\<close>

text \<open>The next step of a handler that reads whenever it waits, at the time zero, when no packet fails.\<close>

definition handler_move :: "config \<Rightarrow> HandlerConfig \<Rightarrow> nat \<Rightarrow> tokio_server \<Rightarrow> tokio_server" where
  "handler_move cfg hc i s =
     (let c = ts_tasks s ! i; b = ts_broker s; st = ts_state s in
      case c_phase c of
        Registering_Notification \<Rightarrow>
          (case do_register_notification i (st, c) of (st', c') \<Rightarrow> s\<lparr>ts_state := st', ts_tasks := (ts_tasks s)[i := c']\<rparr>)
      | Registering_Session \<Rightarrow>
          (case do_register_session cfg hc 0 (b, c) of (b', c') \<Rightarrow> s\<lparr>ts_broker := b', ts_tasks := (ts_tasks s)[i := c']\<rparr>)
      | Storing_Connection \<Rightarrow>
          (case do_store_connection hc 0 (st, c) of (st', c') \<Rightarrow> s\<lparr>ts_state := st', ts_tasks := (ts_tasks s)[i := c']\<rparr>)
      | Selecting \<Rightarrow> s\<lparr>ts_tasks := (ts_tasks s)[i := do_read cfg 0 c]\<rparr>
      | Processing packet \<Rightarrow>
          if is_ok (fst (receive_and_process cfg (c_sid c) packet 0 b))
          then (case do_process cfg 0 packet (b, c) of (b', c') \<Rightarrow> s\<lparr>ts_broker := b', ts_tasks := (ts_tasks s)[i := c']\<rparr>)
          else s
      | Notifying sids pkts \<Rightarrow>
          (case sids of
             [] \<Rightarrow> s\<lparr>ts_tasks := (ts_tasks s)[i := c\<lparr>c_phase := Sending pkts\<rparr>]\<rparr>
           | sid # rest \<Rightarrow>
               (case ServerState_notify_session queue_ready sid st (ts_tasks s) of
                  Some tasks \<Rightarrow> s\<lparr>ts_tasks := tasks[i := (tasks ! i)\<lparr>c_phase := Notifying rest pkts\<rparr>]\<rparr>
                | None \<Rightarrow> s))
      | Sending pkts \<Rightarrow>
          (case pkts of
             [] \<Rightarrow> s\<lparr>ts_tasks := (ts_tasks s)[i := c\<lparr>c_phase := Selecting\<rparr>]\<rparr>
           | pkt # rest \<Rightarrow>
               (case do_send cfg queue_ready hc pkt rest c of
                  Some c' \<Rightarrow> s\<lparr>ts_tasks := (ts_tasks s)[i := c']\<rparr>
                | None \<Rightarrow> s))
      | _ \<Rightarrow> s)"

lemma handler_move_run:
  assumes "i < length (ts_tasks s)"
  shows "(tokio_step cfg hc queue_ready False)\<^sup>*\<^sup>* s (handler_move cfg hc i s)"
proof -
  have step: "(tokio_step cfg hc queue_ready False)\<^sup>*\<^sup>* s (s\<lparr>ts_broker := b', ts_state := st', ts_tasks := (ts_tasks s)[i := c']\<rparr>)"
    if "conn_step cfg hc queue_ready False i (ts_broker s, ts_state s, ts_tasks s ! i) (b', st', c')" for b' st' c'
    using tokio_step.handler [OF assms that] by (cases s) auto
  show ?thesis
  proof (cases "c_phase (ts_tasks s ! i)")
    case Registering_Notification
    then show ?thesis using step [of "ts_broker s"] conn_step.register_notification [OF Registering_Notification]
      by (auto simp: handler_move_def split: prod.split)
  next
    case Registering_Session
    then show ?thesis using step [of _ "ts_state s"] conn_step.register_session [OF Registering_Session]
      by (auto simp: handler_move_def split: prod.split)
  next
    case Storing_Connection
    then show ?thesis using step [of "ts_broker s"] conn_step.store_connection [OF Storing_Connection]
      by (auto simp: handler_move_def split: prod.split)
  next
    case Selecting
    then show ?thesis using step [of "ts_broker s" "ts_state s"] conn_step.read [OF Selecting]
      by (auto simp: handler_move_def)
  next
    case (Processing packet)
    then show ?thesis using step [of _ "ts_state s"] conn_step.process [OF Processing]
      by (auto simp: handler_move_def Let_def split: prod.split)
  next
    case (Notifying sids pkts)
    then show ?thesis using step [of "ts_broker s" "ts_state s"] conn_step.notified_all [of "ts_tasks s ! i" pkts]
        tokio_step.notify [OF assms, of "hd sids" "tl sids" pkts queue_ready]
      by (cases sids) (auto simp: handler_move_def split: option.split)
  next
    case (Sending pkts)
    then show ?thesis using step [of "ts_broker s" "ts_state s"] conn_step.sent_all [of "ts_tasks s ! i"]
        conn_step.send [of "ts_tasks s ! i" "hd pkts" "tl pkts"]
      by (cases pkts) (auto simp: handler_move_def split: option.split)
  qed (simp_all add: handler_move_def)
qed

text \<open>Subscriber and publisher: the connection 0 has subscribed to the topic \<open>a\<close>, the connection 1 has sent a PUBLISH for it.\<close>

definition moves :: "config \<Rightarrow> HandlerConfig \<Rightarrow> nat \<Rightarrow> nat \<Rightarrow> tokio_server \<Rightarrow> tokio_server" where
  "moves cfg hc i n = handler_move cfg hc i ^^ n"

lemma handler_move_length [simp]: "length (ts_tasks (handler_move cfg hc i s)) = length (ts_tasks s)"
  by (auto simp: handler_move_def Let_def do_register_notification_def do_register_session_def do_store_connection_def
    dest: notify_session_same(1) split: phase.split list.split option.split prod.split result.split)

lemma moves_simps:
  "moves cfg hc i 0 s = s" "moves cfg hc i (Suc n) s = moves cfg hc i n (handler_move cfg hc i s)"
  "moves cfg hc i 1 s = handler_move cfg hc i s"
  "moves cfg hc i (numeral k) s = moves cfg hc i (pred_numeral k) (handler_move cfg hc i s)"
  by (simp_all add: moves_def funpow_swap1 numeral_eq_Suc)

lemma moves_run:
  assumes "i < length (ts_tasks s)"
  shows "(tokio_step cfg hc queue_ready False)\<^sup>*\<^sup>* s (moves cfg hc i n s)"
proof -
  have "(tokio_step cfg hc queue_ready False)\<^sup>*\<^sup>* s (moves cfg hc i n s) \<and> length (ts_tasks (moves cfg hc i n s)) = length (ts_tasks s)"
    using assms by (induction n) (auto simp: moves_def intro: rtranclp_trans [OF _ handler_move_run])
  then show ?thesis ..
qed

definition demo_b1 :: PicoBroker where
  "demo_b1 = snd (PicoBroker_register_new_session small_config 0 60 0 (PicoBroker_new small_config))"

definition demo_b2 :: PicoBroker where
  "demo_b2 = snd (receive_and_process small_config 0 (Subscribe small_subscribe) 0 demo_b1)"

definition demo_b3 :: PicoBroker where
  "demo_b3 = snd (drain_packets 0 demo_b2)"

definition demo_b4 :: PicoBroker where
  "demo_b4 = snd (PicoBroker_register_new_session small_config 1 60 0 demo_b3)"

definition demo_published :: PicoBroker where
  "demo_published = snd (PicoBroker_queue_packet_received_from_client 0 (Publish small_publish) 0 demo_b4)"

definition demo_suback :: Packet where
  "demo_suback = SubAck \<lparr>suback_packet_id = 1, granted_qos = AtMostOnce\<rparr>"

lemma demo_broker:
  "PicoBroker_register_new_session small_config 0 60 0 (PicoBroker_new small_config) = (Ok (), demo_b1)"
  "receive_and_process small_config 0 (Subscribe small_subscribe) 0 demo_b1 = (Ok (), demo_b2)"
  "drain_packets 0 demo_b2 = (Ok [demo_suback], demo_b3)"
  "PicoBroker_register_new_session small_config 1 60 0 demo_b3 = (Ok (), demo_b4)"
proof -
  have "fst (PicoBroker_register_new_session small_config 0 60 0 (PicoBroker_new small_config)) = Ok ()" by code_simp
  then show "PicoBroker_register_new_session small_config 0 60 0 (PicoBroker_new small_config) = (Ok (), demo_b1)"
    by (simp add: demo_b1_def prod_eq_iff)
  have "fst (receive_and_process small_config 0 (Subscribe small_subscribe) 0 demo_b1) = Ok ()" by code_simp
  then show "receive_and_process small_config 0 (Subscribe small_subscribe) 0 demo_b1 = (Ok (), demo_b2)"
    by (simp add: demo_b2_def prod_eq_iff)
  have "fst (drain_packets 0 demo_b2) = Ok [demo_suback]" by code_simp
  then show "drain_packets 0 demo_b2 = (Ok [demo_suback], demo_b3)" by (simp add: demo_b3_def prod_eq_iff)
  have "fst (PicoBroker_register_new_session small_config 1 60 0 demo_b3) = Ok ()" by code_simp
  then show "PicoBroker_register_new_session small_config 1 60 0 demo_b3 = (Ok (), demo_b4)"
    by (simp add: demo_b4_def prod_eq_iff)
qed

lemma demo_pending: "\<exists>v. PicoBroker_get_sessions_with_pending_packets small_config demo_b2 = Ok v \<and> HeaplessVec_as_slice v = [0]"
proof -
  have "(case PicoBroker_get_sessions_with_pending_packets small_config demo_b2 of Ok v \<Rightarrow> HeaplessVec_as_slice v = [0] | _ \<Rightarrow> False)"
    by code_simp
  then show ?thesis by (auto split: result.splits)
qed

lemma demo_io:
  "tokio_read_packet 2 2 \<lparr>tk_buffer = [], tk_chunks = [[0x82, 6, 0, 1, 0, 1, 0x61, 0]]\<rparr> =
     (Ok (Some (Subscribe small_subscribe)), \<lparr>tk_buffer = [], tk_chunks = []\<rparr>)"
  "tokio_read_packet 2 2 \<lparr>tk_buffer = [], tk_chunks = [[0x30, 3, 0, 1, 0x61]]\<rparr> =
     (Ok (Some (Publish small_publish)), \<lparr>tk_buffer = [], tk_chunks = []\<rparr>)"
  "encode_frame 2 2 demo_suback = Ok [0x90, 3, 0, 1, 0]"
  "encode_frame 2 2 (Publish small_publish) = Ok [0x30, 3, 0, 1, 0x61]"
  "recipients small_config small_publish demo_b4 = [0]"
  "tx demo_b4 0 = []" "tx demo_b4 1 = []" "session_ids demo_b4 = [0, 1]" "acks small_publish = []"
  subgoal by code_simp
  subgoal by code_simp
  subgoal by code_simp
  subgoal by code_simp
  subgoal by code_simp
  subgoal by code_simp
  subgoal by code_simp
  subgoal by code_simp
  subgoal by code_simp
  done

definition demo_subscribed :: tokio_server where
  "demo_subscribed = moves small_config HandlerConfig_default 0 9
     (tokio_accept 0 [[0x82, 6, 0, 1, 0, 1, 0x61, 0]] (MqttServer_new small_config))"

definition demo_server :: tokio_server where
  "demo_server = moves small_config HandlerConfig_default 1 4 (tokio_accept 0 [[0x30, 3, 0, 1, 0x61]] demo_subscribed)"

definition demo_written :: tokio_server where
  "demo_written = put_task 0 ((ts_tasks demo_server ! 0)\<lparr>c_frames := [], c_written := [[0x90, 3, 0, 1, 0]]\<rparr>) demo_server"

lemmas demo_defs = handler_move_def do_register_notification_def do_register_session_def do_store_connection_def do_read_def
  do_process_def do_send_def ServerState_register_notification_def connections_insert_def ServerState_notify_session_def
  is_gone_def queue_ready_def Let_def HandlerConfig_default_def demo_broker demo_io

lemma demo_accept:
  "tokio_accept 0 chunks s = s\<lparr>ts_state := (ts_state s)\<lparr>session_id_gen := session_id_gen (ts_state s) + 1\<rparr>,
     ts_tasks := ts_tasks s @ [conn_new (ucast (session_id_gen (ts_state s))) chunks]\<rparr>"
  by (simp add: tokio_accept_def ServerState_generate_session_id_def SessionIdGenerator_generate_def session_id_of_def)

lemma demo_subscribed_eq:
  "demo_subscribed = \<lparr>ts_broker = demo_b3, ts_state = \<lparr>connections = {0}, session_id_gen = 1, notification_senders = [0 \<mapsto> 0]\<rparr>,
     ts_tasks = [\<lparr>c_sid = 0, c_phase = Selecting, c_reader = \<lparr>tk_buffer = [], tk_chunks = []\<rparr>, c_notes = 1,
       c_frames = [[0x90, 3, 0, 1, 0]], c_written = [], c_last = 0\<rparr>]\<rparr>"
proof -
  obtain v where v: "PicoBroker_get_sessions_with_pending_packets small_config demo_b2 = Ok v" "HeaplessVec_as_slice v = [0]"
    using demo_pending by blast
  show ?thesis
    by (simp add: demo_subscribed_def demo_accept MqttServer_new_def ServerState_new_def moves_simps conn_new_def
      demo_defs v)
qed

lemma demo_server_eq:
  "demo_server = \<lparr>ts_broker = demo_b4,
     ts_state = \<lparr>connections = {0, 1}, session_id_gen = 2, notification_senders = [0 \<mapsto> 0, 1 \<mapsto> 1]\<rparr>,
     ts_tasks = [\<lparr>c_sid = 0, c_phase = Selecting, c_reader = \<lparr>tk_buffer = [], tk_chunks = []\<rparr>, c_notes = 1,
         c_frames = [[0x90, 3, 0, 1, 0]], c_written = [], c_last = 0\<rparr>,
       \<lparr>c_sid = 1, c_phase = Processing (Publish small_publish), c_reader = \<lparr>tk_buffer = [], tk_chunks = []\<rparr>, c_notes = 0,
         c_frames = [], c_written = [], c_last = 0\<rparr>]\<rparr>"
  by (simp add: demo_server_def demo_accept demo_subscribed_eq moves_simps conn_new_def demo_defs insert_commute)

lemma demo_reachable: "tokio_reachable small_config HandlerConfig_default queue_ready False demo_server"
proof -
  let ?S = "tokio_step small_config HandlerConfig_default queue_ready False"
  have 1: "tokio_reachable small_config HandlerConfig_default queue_ready False (tokio_accept 0 chunks s)"
    if "tokio_reachable small_config HandlerConfig_default queue_ready False s" for s chunks
    using that tokio_step.accept by (rule tokio_reachable.step)
  have "tokio_reachable small_config HandlerConfig_default queue_ready False demo_subscribed"
    unfolding demo_subscribed_def by (rule reachable_run [OF moves_run 1 [OF tokio_reachable.start]]) (simp add: demo_accept)
  then show ?thesis
    unfolding demo_server_def by (rule reachable_run [OF moves_run 1, rotated]) (simp add: demo_accept demo_subscribed_eq)
qed

section \<open>Properties\<close>



text \<open>
  A notified handler can write all it holds. From every reachable state of the tokio server in which a handler waits with a
  notification in its channel and the frame channel has room for the session's transmit queue, there is a run after
  which its connection has received all frames in its channel and those of the whole transmit queue, and the queue is empty.
\<close>

theorem tokio_handler_flushes:
  assumes "tokio_reachable cfg hc ready faults s" "config_ok cfg" "\<forall>capacity held. ready capacity held \<longleftrightarrow> held < capacity"
    and "i < length (ts_tasks s)" "c_phase (ts_tasks s ! i) = Selecting" "0 < c_notes (ts_tasks s ! i)"
    and "length (c_frames (ts_tasks s ! i)) + length (tx (ts_broker s) (c_sid (ts_tasks s ! i))) \<le> hc_frame_channel_capacity hc"
  shows "\<exists>s'. (tokio_step cfg hc ready faults)\<^sup>*\<^sup>* s s' \<and> tx (ts_broker s') (c_sid (ts_tasks s ! i)) = [] \<and>
    c_frames (ts_tasks s' ! i) = [] \<and> c_written (ts_tasks s' ! i) =
      c_written (ts_tasks s ! i) @ c_frames (ts_tasks s ! i) @ frames_of cfg (tx (ts_broker s) (c_sid (ts_tasks s ! i)))"
proof -
  have "bounded ready" using assms(3) by (simp add: bounded_def)
  from flush_run [OF assms(1,2) this assms(4) refl assms(5-7)] obtain b' where
    "tx b' = (tx (ts_broker s))(c_sid (ts_tasks s ! i) := [])"
    "(tokio_step cfg hc ready faults)\<^sup>*\<^sup>* s (put_task i ((ts_tasks s ! i)\<lparr>c_notes := c_notes (ts_tasks s ! i) - 1, c_frames := [],
       c_written := pipeline cfg (ts_broker s) (ts_tasks s ! i)\<rparr>) (s\<lparr>ts_broker := b'\<rparr>))" by blast
  then show ?thesis using assms(4,5) by (intro exI conjI) (assumption, simp_all add: pipeline_def)
qed

theorem tokio_handler_flushes_witness:
  "\<exists>s'. (tokio_step small_config HandlerConfig_default queue_ready False)\<^sup>*\<^sup>* demo_server s' \<and>
     c_written (ts_tasks s' ! 0) = [[0x90, 3, 0, 1, 0]]"
proof -
  have r: "\<forall>capacity held. queue_ready capacity held \<longleftrightarrow> held < capacity" by (simp add: queue_ready_def)
  have "0 < length (ts_tasks demo_server)" "c_phase (ts_tasks demo_server ! 0) = Selecting" "0 < c_notes (ts_tasks demo_server ! 0)"
    "length (c_frames (ts_tasks demo_server ! 0)) + length (tx (ts_broker demo_server) (c_sid (ts_tasks demo_server ! 0)))
       \<le> hc_frame_channel_capacity HandlerConfig_default"
    by (simp_all add: demo_server_eq demo_io HandlerConfig_default_def)
  from tokio_handler_flushes [OF demo_reachable small_config_ok r this] show ?thesis by (auto simp: demo_server_eq demo_io)
qed



end
