(* ===== verification/Server_Rp.thy ===== *)
theory Server_Rp
  imports Server_Broker Server_Io Server_State
begin

text \<open>
  The rp2040 server, \<^verbatim>\<open>examples/rp2040_mqtt_server/src/handler.rs\<close> and the tasks of \<^verbatim>\<open>main.rs\<close>, as a state machine: a fixed
  number of accept tasks, each with one socket that it serves again and again, the cleanup task, the broker and the
  notification registry. A step is what a task does between two points where it can be suspended. A panic halts the device.
  The vectors of the crate \<^verbatim>\<open>heapless\<close> are parameters: \<open>push\<close> is \<^verbatim>\<open>Vec::<_, 8>::push\<close> and \<open>collect\<close> is \<^verbatim>\<open>collect\<close> into a
  \<^verbatim>\<open>Vec<_, 4>\<close>, with \<open>None\<close> for a refused element and for the panic on overflow.
\<close>

section \<open>The state\<close>

definition RX_BUFFER_SIZE :: usize where
  "RX_BUFFER_SIZE = 1536"

definition DEFAULT_KEEP_ALIVE :: u16 where
  "DEFAULT_KEEP_ALIVE = 60"

definition rp_keep_alive_timeout :: nat where
  "rp_keep_alive_timeout = unat DEFAULT_KEEP_ALIVE * 3 div 2 * 10 ^ 6"

datatype rp_phase =
    Rp_Accepting
  | Rp_Registering
  | Rp_Registering_Channel
  | Rp_Looping
  | Rp_Processing Packet
  | Rp_Notifying "u128 list" "Packet list"
  | Rp_Draining
  | Rp_Writing "Packet list"
  | Rp_Unregistering
  | Rp_Removing

record rp_conn =
  rc_sid :: u128
  rc_phase :: rp_phase
  rc_reader :: rp_reader
  rc_writer :: rp_writer
  rc_last :: nat

record rp_server =
  rs_broker :: PicoBroker
  rs_registry :: NotificationRegistry
  rs_gen :: u64
  rs_conns :: "rp_conn list"
  rs_halted :: bool

definition rp_conn_idle :: rp_conn where
  "rp_conn_idle = \<lparr>rc_sid = 0, rc_phase = Rp_Accepting, rc_reader = \<lparr>rp_buffer = [], rp_len = 0, rp_socket = []\<rparr>,
     rc_writer = \<lparr>wr_buffer = [], wr_accepts = [], wr_sent = []\<rparr>, rc_last = 0\<rparr>"

definition rp_main :: "config \<Rightarrow> rp_server" where
  "rp_main cfg = \<lparr>rs_broker = PicoBroker_new cfg, rs_registry = NotificationRegistry_new (MAX_SESSIONS cfg), rs_gen = 0,
     rs_conns = replicate (MAX_SESSIONS cfg) rp_conn_idle, rs_halted = False\<rparr>"

section \<open>The sections of the accept task and of the handler\<close>

text \<open>The new socket brings the pieces that it will deliver and the counts that it will accept.\<close>

definition rp_accepted :: "u64 \<Rightarrow> bytes option list \<Rightarrow> usize option list \<Rightarrow> u64 \<Rightarrow> rp_conn \<times> u64" where
  "rp_accepted now_ticks socket accepts gen =
     (case SessionIdGen_generate now_ticks gen of (sid, gen') \<Rightarrow>
        (\<lparr>rc_sid = sid, rc_phase = Rp_Registering,
          rc_reader = \<lparr>rp_buffer = replicate RX_BUFFER_SIZE 0, rp_len = 0, rp_socket = socket\<rparr>,
          rc_writer = \<lparr>wr_buffer = replicate RX_BUFFER_SIZE 0, wr_accepts = accepts, wr_sent = []\<rparr>, rc_last = 0\<rparr>, gen'))"

text \<open>Sections that use the broker; \<open>None\<close> is a panic.\<close>

definition rp_register :: "config \<Rightarrow> u64 \<Rightarrow> PicoBroker \<times> rp_conn \<Rightarrow> (PicoBroker \<times> rp_conn) option" where
  "rp_register cfg now_ticks = (\<lambda>(b, c).
     case PicoBroker_register_new_session cfg (rc_sid c) DEFAULT_KEEP_ALIVE (rp_current_time_nanos now_ticks) b of
       (Ok _, b') \<Rightarrow> Some (b', c\<lparr>rc_phase := Rp_Registering_Channel\<rparr>)
     | (Err _, b') \<Rightarrow> Some (b', c\<lparr>rc_phase := Rp_Accepting\<rparr>)
     | (Panic, _) \<Rightarrow> None)"

text \<open>\<^verbatim>\<open>socket.read(&mut rx_buffer[buffer_len..])\<close> has completed in \<^verbatim>\<open>select3\<close>; the handler goes on to \<^verbatim>\<open>read_packet\<close>.\<close>

definition rp_socket_event :: "config \<Rightarrow> nat \<Rightarrow> rp_conn \<Rightarrow> rp_conn option" where
  "rp_socket_event cfg instant c =
     (let r = rc_reader c in
      if length (rp_buffer r) < rp_len r then None
      else
        (case socket_read (length (rp_buffer r) - rp_len r) (rp_socket r) of
           (None, cs) \<Rightarrow> Some (c\<lparr>rc_phase := Rp_Unregistering, rc_reader := r\<lparr>rp_socket := cs\<rparr>\<rparr>)
         | (Some data, cs) \<Rightarrow>
             if length data = 0 then Some (c\<lparr>rc_phase := Rp_Unregistering, rc_reader := r\<lparr>rp_socket := cs\<rparr>\<rparr>)
             else
               (let r1 = \<lparr>rp_buffer = put_at (rp_buffer r) (rp_len r) data, rp_len = rp_len r + length data, rp_socket = cs\<rparr> in
                case rp_read_packet (MAX_TOPIC_NAME_LENGTH cfg) (MAX_PAYLOAD_SIZE cfg) r1 of
                  (Ok (Some packet), r2) \<Rightarrow> Some (c\<lparr>rc_phase := Rp_Processing packet, rc_reader := r2, rc_last := instant\<rparr>)
                | (Ok None, r2) \<Rightarrow> Some (c\<lparr>rc_reader := r2\<rparr>)
                | (Err _, r2) \<Rightarrow> Some (c\<lparr>rc_phase := Rp_Unregistering, rc_reader := r2\<rparr>)
                | (Panic, _) \<Rightarrow> None)))"

text \<open>\<^verbatim>\<open>while let Ok(Some(pkt)) = .. { let _ = packets.push(pkt); }\<close>\<close>

definition rp_collect :: "(Packet list \<Rightarrow> Packet \<Rightarrow> Packet list option) \<Rightarrow> Packet list \<Rightarrow> Packet list" where
  "rp_collect push pkts = foldl (\<lambda>v pkt. case push v pkt of Some v' \<Rightarrow> v' | None \<Rightarrow> v) [] pkts"

definition rp_process :: "config \<Rightarrow> (Packet list \<Rightarrow> Packet \<Rightarrow> Packet list option) \<Rightarrow> u64 \<Rightarrow> Packet \<Rightarrow>
    PicoBroker \<times> rp_conn \<Rightarrow> (PicoBroker \<times> rp_conn) option" where
  "rp_process cfg push now_ticks packet = (\<lambda>(b, c).
     case receive_and_process cfg (rc_sid c) packet (rp_current_time_nanos now_ticks) b of
       (Ok _, b1) \<Rightarrow>
         (case PicoBroker_get_sessions_with_pending_packets cfg b1 of
            Ok sessions_to_notify \<Rightarrow>
              (case drain_packets (rc_sid c) b1 of
                 (Ok pkts, b2) \<Rightarrow>
                   (case HeaplessVec_collect 0 (HeaplessVec_into_iter sessions_to_notify) of
                      Ok sids \<Rightarrow> Some (b2, c\<lparr>rc_phase := Rp_Notifying sids (rp_collect push pkts)\<rparr>)
                    | _ \<Rightarrow> None)
               | _ \<Rightarrow> None)
          | _ \<Rightarrow> None)
     | (Err _, b1) \<Rightarrow> Some (snd (PicoBroker_mark_session_disconnected (rc_sid c) b1), c\<lparr>rc_phase := Rp_Unregistering\<rparr>)
     | (Panic, _) \<Rightarrow> None)"

definition rp_drain :: "(Packet list \<Rightarrow> Packet \<Rightarrow> Packet list option) \<Rightarrow> PicoBroker \<times> rp_conn \<Rightarrow> (PicoBroker \<times> rp_conn) option" where
  "rp_drain push = (\<lambda>(b, c).
     case drain_packets (rc_sid c) b of
       (Ok pkts, b') \<Rightarrow> Some (b', c\<lparr>rc_phase := Rp_Writing (rp_collect push pkts)\<rparr>)
     | _ \<Rightarrow> None)"

text \<open>An error of \<^verbatim>\<open>write_packet\<close> leaves the loop over the packets only.\<close>

definition rp_write_one :: "Packet \<Rightarrow> Packet list \<Rightarrow> rp_conn \<Rightarrow> rp_conn option" where
  "rp_write_one pkt pkts c =
     (case rp_write_packet pkt (rc_writer c) of
        (Ok _, w) \<Rightarrow> Some (c\<lparr>rc_phase := Rp_Writing pkts, rc_writer := w\<rparr>)
      | (Err _, w) \<Rightarrow> Some (c\<lparr>rc_phase := Rp_Looping, rc_writer := w\<rparr>)
      | (Panic, _) \<Rightarrow> None)"

definition rp_remove :: "PicoBroker \<times> rp_conn \<Rightarrow> (PicoBroker \<times> rp_conn) option" where
  "rp_remove = (\<lambda>(b, c).
     case PicoBroker_remove_session (rc_sid c) b of
       (Panic, _) \<Rightarrow> None
     | (_, b') \<Rightarrow> Some (b', c\<lparr>rc_phase := Rp_Accepting\<rparr>))"

text \<open>One scan of \<^verbatim>\<open>cleanup_task\<close>.\<close>

definition rp_cleanup :: "(u128 list \<Rightarrow> u128 list option) \<Rightarrow> u64 \<Rightarrow> PicoBroker \<Rightarrow> PicoBroker option" where
  "rp_cleanup collect now_ticks b =
     (case collect (map ei_session_id (flatten (PicoBroker_get_expired_sessions (rp_current_time_nanos now_ticks) b))) of
        None \<Rightarrow> None
      | Some expired \<Rightarrow>
          (case remove_all expired b of
             (Ok _, b1) \<Rightarrow>
               (case collect (flatten (PicoBroker_get_disconnected_sessions b1)) of
                  None \<Rightarrow> None
                | Some disconnected \<Rightarrow>
                    (case remove_all disconnected b1 of
                       (Ok _, b2) \<Rightarrow> Some b2
                     | _ \<Rightarrow> None))
           | _ \<Rightarrow> None))"

section \<open>The steps\<close>

definition rp_put :: "nat \<Rightarrow> rp_conn \<Rightarrow> rp_server \<Rightarrow> rp_server" where
  "rp_put i c s = s\<lparr>rs_conns := (rs_conns s)[i := c]\<rparr>"

text \<open>Store the outcome of a section, or halt.\<close>

definition rp_conn_outcome :: "nat \<Rightarrow> rp_conn option \<Rightarrow> rp_server \<Rightarrow> rp_server" where
  "rp_conn_outcome i x s = (case x of Some c \<Rightarrow> rp_put i c s | None \<Rightarrow> s\<lparr>rs_halted := True\<rparr>)"

definition rp_broker_outcome :: "nat \<Rightarrow> (PicoBroker \<times> rp_conn) option \<Rightarrow> rp_server \<Rightarrow> rp_server" where
  "rp_broker_outcome i x s =
     (case x of Some (b, c) \<Rightarrow> rp_put i c (s\<lparr>rs_broker := b\<rparr>) | None \<Rightarrow> s\<lparr>rs_halted := True\<rparr>)"

inductive rp_step :: "config \<Rightarrow> (Packet list \<Rightarrow> Packet \<Rightarrow> Packet list option) \<Rightarrow> (u128 list \<Rightarrow> u128 list option) \<Rightarrow>
    rp_server \<Rightarrow> nat \<Rightarrow> rp_conn \<Rightarrow> rp_server \<Rightarrow> bool"
  for cfg push collect s i c where
  accepted: "rc_phase c = Rp_Accepting \<Longrightarrow> rp_accepted now_ticks socket accepts (rs_gen s) = (c', gen') \<Longrightarrow>
    rp_step cfg push collect s i c (rp_put i c' (s\<lparr>rs_gen := gen'\<rparr>))"
| register: "rc_phase c = Rp_Registering \<Longrightarrow>
    rp_step cfg push collect s i c (rp_broker_outcome i (rp_register cfg now_ticks (rs_broker s, c)) s)"
| register_channel: "rc_phase c = Rp_Registering_Channel \<Longrightarrow>
    rp_step cfg push collect s i c
      (rp_put i (c\<lparr>rc_phase := Rp_Looping, rc_last := instant\<rparr>)
         (s\<lparr>rs_registry := NotificationRegistry_register_session i (rc_sid c) (rs_registry s)\<rparr>))"
| socket: "rc_phase c = Rp_Looping \<Longrightarrow>
    rp_step cfg push collect s i c (rp_conn_outcome i (rp_socket_event cfg instant c) s)"
| notified: "rc_phase c = Rp_Looping \<Longrightarrow> nr_channels (rs_registry s) ! i \<Longrightarrow>
    rp_step cfg push collect s i c
      (rp_put i (c\<lparr>rc_phase := Rp_Draining\<rparr>)
         (s\<lparr>rs_registry := (rs_registry s)\<lparr>nr_channels := (nr_channels (rs_registry s))[i := False]\<rparr>\<rparr>))"
| timeout: "rc_phase c = Rp_Looping \<Longrightarrow> rp_keep_alive_timeout \<le> instant - rc_last c \<Longrightarrow>
    rp_step cfg push collect s i c (rp_put i (c\<lparr>rc_phase := Rp_Unregistering\<rparr>) s)"
| process: "rc_phase c = Rp_Processing packet \<Longrightarrow>
    rp_step cfg push collect s i c (rp_broker_outcome i (rp_process cfg push now_ticks packet (rs_broker s, c)) s)"
| notify: "rc_phase c = Rp_Notifying (sid # sids) pkts \<Longrightarrow>
    rp_step cfg push collect s i c
      (rp_put i (c\<lparr>rc_phase := Rp_Notifying sids pkts\<rparr>)
         (s\<lparr>rs_registry := NotificationRegistry_notify_session sid (rs_registry s)\<rparr>))"
| notified_all: "rc_phase c = Rp_Notifying [] pkts \<Longrightarrow>
    rp_step cfg push collect s i c (rp_put i (c\<lparr>rc_phase := Rp_Writing pkts\<rparr>) s)"
| drain: "rc_phase c = Rp_Draining \<Longrightarrow>
    rp_step cfg push collect s i c (rp_broker_outcome i (rp_drain push (rs_broker s, c)) s)"
| write_one: "rc_phase c = Rp_Writing (pkt # pkts) \<Longrightarrow>
    rp_step cfg push collect s i c (rp_conn_outcome i (rp_write_one pkt pkts c) s)"
| written_all: "rc_phase c = Rp_Writing [] \<Longrightarrow>
    rp_step cfg push collect s i c (rp_put i (c\<lparr>rc_phase := Rp_Looping\<rparr>) s)"
| unregister: "rc_phase c = Rp_Unregistering \<Longrightarrow>
    rp_step cfg push collect s i c
      (rp_put i (c\<lparr>rc_phase := Rp_Removing\<rparr>)
         (s\<lparr>rs_registry := NotificationRegistry_unregister_session i (rs_registry s)\<rparr>))"
| remove: "rc_phase c = Rp_Removing \<Longrightarrow>
    rp_step cfg push collect s i c (rp_broker_outcome i (rp_remove (rs_broker s, c)) s)"

inductive rp_server_step :: "config \<Rightarrow> (Packet list \<Rightarrow> Packet \<Rightarrow> Packet list option) \<Rightarrow> (u128 list \<Rightarrow> u128 list option) \<Rightarrow>
    rp_server \<Rightarrow> rp_server \<Rightarrow> bool"
  for cfg push collect where
  task: "\<not> rs_halted s \<Longrightarrow> i < length (rs_conns s) \<Longrightarrow> rp_step cfg push collect s i (rs_conns s ! i) s' \<Longrightarrow>
    rp_server_step cfg push collect s s'"
| cleanup: "\<not> rs_halted s \<Longrightarrow> rp_cleanup collect now_ticks (rs_broker s) = Some b \<Longrightarrow>
    rp_server_step cfg push collect s (s\<lparr>rs_broker := b\<rparr>)"
| cleanup_panic: "\<not> rs_halted s \<Longrightarrow> rp_cleanup collect now_ticks (rs_broker s) = None \<Longrightarrow>
    rp_server_step cfg push collect s (s\<lparr>rs_halted := True\<rparr>)"

inductive rp_reachable :: "config \<Rightarrow> (Packet list \<Rightarrow> Packet \<Rightarrow> Packet list option) \<Rightarrow> (u128 list \<Rightarrow> u128 list option) \<Rightarrow>
    rp_server \<Rightarrow> bool"
  for cfg push collect where
  start: "rp_reachable cfg push collect (rp_main cfg)"
| step: "rp_reachable cfg push collect s \<Longrightarrow> rp_server_step cfg push collect s s' \<Longrightarrow> rp_reachable cfg push collect s'"

section \<open>The broker in the server\<close>

definition rp_phase_ok :: "config \<Rightarrow> rp_phase \<Rightarrow> bool" where
  "rp_phase_ok cfg ph \<longleftrightarrow> (\<forall>p. ph = Rp_Processing p \<longrightarrow> decoded cfg p)"

lemma rp_phase_ok_simps [simp]:
  "rp_phase_ok cfg (Rp_Processing p) = decoded cfg p" "(\<And>p. ph \<noteq> Rp_Processing p) \<Longrightarrow> rp_phase_ok cfg ph"
  by (auto simp: rp_phase_ok_def)

lemma rp_read_decoded:
  assumes "rp_read_packet (MAX_TOPIC_NAME_LENGTH cfg) (MAX_PAYLOAD_SIZE cfg) r = (Ok (Some p), r')"
  shows "decoded cfg p"
proof -
  have "\<exists>b n. and_then (slice b 0 n) (Packet_decode (MAX_TOPIC_NAME_LENGTH cfg) (MAX_PAYLOAD_SIZE cfg)) = Ok p"
    using assms by (auto simp: rp_read_packet_def Let_def split: prod.splits fill_result.splits result.splits if_splits)
  then obtain b n where "and_then (slice b 0 n) (Packet_decode (MAX_TOPIC_NAME_LENGTH cfg) (MAX_PAYLOAD_SIZE cfg)) = Ok p" by blast
  then show ?thesis by (cases "slice b 0 n :: (bytes, ProtocolError) result") (auto simp: decoded_def)
qed

lemma rp_socket_event_ok:
  assumes "rp_socket_event cfg instant c = Some c'" "rp_phase_ok cfg (rc_phase c)"
  shows "rp_phase_ok cfg (rc_phase c')"
  using assms rp_read_decoded
  by (auto simp: rp_socket_event_def Let_def split: if_splits prod.splits option.splits result.splits)

lemma rp_register_steps:
  assumes "rp_register cfg t (b, c) = Some (b', c')"
  shows "(broker_step cfg)\<^sup>*\<^sup>* b b' \<and> rp_phase_ok cfg (rc_phase c')"
proof -
  obtain x where x: "PicoBroker_register_new_session cfg (rc_sid c) DEFAULT_KEEP_ALIVE (rp_current_time_nanos t) b = (x, b')"
    using assms by (auto simp: rp_register_def split: prod.splits result.splits)
  have "(broker_step cfg)\<^sup>*\<^sup>* b b'" using broker_step.register [OF x] by (rule r_into_rtranclp)
  then show ?thesis using assms by (auto simp: rp_register_def split: prod.splits result.splits)
qed

lemma rp_drain_eq:
  assumes "broker_wf cfg b"
  shows "\<exists>b'. rp_drain push (b, c) = Some (b', c\<lparr>rc_phase := Rp_Writing (rp_collect push (tx b (rc_sid c)))\<rparr>) \<and>
    tx b' = (tx b)(rc_sid c := []) \<and> (broker_step cfg)\<^sup>*\<^sup>* b b'"
  using drain_packets_eq [OF assms, of "rc_sid c"] by (auto simp: rp_drain_def)

lemma rp_process_steps:
  assumes e: "rp_process cfg push t p (b, c) = Some (b', c')" and wf: "broker_wf cfg b" and p: "decoded cfg p"
  shows "(broker_step cfg)\<^sup>*\<^sup>* b b' \<and> rp_phase_ok cfg (rc_phase c')"
proof -
  from receive_and_process_eq [OF wf p] obtain x b1 where
    b1: "receive_and_process cfg (rc_sid c) p (rp_current_time_nanos t) b = (x, b1)" "broker_wf cfg b1"
      "(broker_step cfg)\<^sup>*\<^sup>* b b1" by blast
  show ?thesis
  proof (cases x)
    case (Ok u)
    from drain_packets_eq [OF b1(2), of "rc_sid c"] obtain b2 where
      b2: "drain_packets (rc_sid c) b1 = (Ok (tx b1 (rc_sid c)), b2)" "(broker_step cfg)\<^sup>*\<^sup>* b1 b2" by blast
    show ?thesis
      using e b1(1) Ok b2(1) rtranclp_trans [of "broker_step cfg", OF b1(3) b2(2)]
      by (auto simp: rp_process_def split: result.splits)
  next
    case (Err err)
    obtain y b2 where b2: "PicoBroker_mark_session_disconnected (rc_sid c) b1 = (y, b2)" by force
    have "broker_step cfg b1 b2" using b2 by (rule broker_step.disconnect)
    then have "(broker_step cfg)\<^sup>*\<^sup>* b b2" using b1(3) by (rule rtranclp.rtrancl_into_rtrancl [rotated])
    then show ?thesis using e b1(1) Err b2 by (auto simp: rp_process_def)
  qed (use e b1(1) in \<open>auto simp: rp_process_def\<close>)
qed

lemma rp_remove_steps:
  assumes "rp_remove (b, c) = Some (b', c')"
  shows "(broker_step cfg)\<^sup>*\<^sup>* b b' \<and> rp_phase_ok cfg (rc_phase c')"
proof -
  obtain x where x: "PicoBroker_remove_session (rc_sid c) b = (x, b')"
    using assms by (auto simp: rp_remove_def split: prod.splits result.splits)
  have "(broker_step cfg)\<^sup>*\<^sup>* b b'" using broker_step.remove [OF x] by (rule r_into_rtranclp)
  then show ?thesis using assms by (auto simp: rp_remove_def split: prod.splits result.splits)
qed

lemma rp_cleanup_steps:
  assumes e: "rp_cleanup collect t b = Some b'" and wf: "broker_wf cfg b"
  shows "(broker_step cfg)\<^sup>*\<^sup>* b b'"
proof -
  obtain E where E: "collect (map ei_session_id (flatten (PicoBroker_get_expired_sessions (rp_current_time_nanos t) b))) = Some E"
    using e by (auto simp: rp_cleanup_def split: option.splits)
  from remove_all_eq [OF wf, of E] obtain b1 where
    b1: "remove_all E b = (Ok (), b1)" "broker_wf cfg b1" "(broker_step cfg)\<^sup>*\<^sup>* b b1" by blast
  obtain D where D: "collect (flatten (PicoBroker_get_disconnected_sessions b1)) = Some D"
    using e E b1(1) by (auto simp: rp_cleanup_def split: option.splits)
  from remove_all_eq [OF b1(2), of D] obtain b2 where
    b2: "remove_all D b1 = (Ok (), b2)" "(broker_step cfg)\<^sup>*\<^sup>* b1 b2" by blast
  have "b' = b2" using e E b1(1) D b2(1) by (simp add: rp_cleanup_def)
  then show ?thesis using rtranclp_trans [of "broker_step cfg", OF b1(3) b2(2)] by simp
qed

text \<open>What every step keeps, from the outcome of a section.\<close>

definition rp_sound :: "config \<Rightarrow> rp_server \<Rightarrow> rp_server \<Rightarrow> bool" where
  "rp_sound cfg s s' \<longleftrightarrow> (broker_step cfg)\<^sup>*\<^sup>* (rs_broker s) (rs_broker s') \<and>
     (\<forall>c \<in> set (rs_conns s'). rp_phase_ok cfg (rc_phase c))"

lemma rp_outcome_sound:
  assumes "\<forall>c \<in> set (rs_conns s). rp_phase_ok cfg (rc_phase c)"
  shows "rp_phase_ok cfg (rc_phase c) \<Longrightarrow> rs_broker s1 = rs_broker s \<Longrightarrow> rs_conns s1 = rs_conns s \<Longrightarrow>
      rp_sound cfg s (rp_put i c s1)"
    and "(\<And>c. x = Some c \<Longrightarrow> rp_phase_ok cfg (rc_phase c)) \<Longrightarrow> rp_sound cfg s (rp_conn_outcome i x s)"
    and "(\<And>b c. y = Some (b, c) \<Longrightarrow> (broker_step cfg)\<^sup>*\<^sup>* (rs_broker s) b \<and> rp_phase_ok cfg (rc_phase c)) \<Longrightarrow>
      rp_sound cfg s (rp_broker_outcome i y s)"
  using assms set_update_subset_insert [of "rs_conns s" i]
  by (fastforce simp: rp_sound_def rp_put_def rp_conn_outcome_def rp_broker_outcome_def split: option.splits)+

lemma rp_step_sound:
  assumes st: "rp_step cfg push collect s i c s'" and c: "rp_phase_ok cfg (rc_phase c)"
    and ok: "\<forall>c \<in> set (rs_conns s). rp_phase_ok cfg (rc_phase c)" and wf: "broker_wf cfg (rs_broker s)"
  shows "rp_sound cfg s s'"
  using st
proof cases
  case accepted
  then show ?thesis
    by (auto simp: rp_accepted_def split: prod.splits intro!: rp_outcome_sound(1) [OF ok])
next
  case (register now_ticks)
  show ?thesis unfolding register by (rule rp_outcome_sound(3) [OF ok]) (rule rp_register_steps)
next
  case (socket instant)
  show ?thesis unfolding socket by (rule rp_outcome_sound(2) [OF ok]) (rule rp_socket_event_ok [OF _ c])
next
  case (process packet now_ticks)
  have "decoded cfg packet" using c process by simp
  then show ?thesis unfolding process by (intro rp_outcome_sound(3) [OF ok]) (rule rp_process_steps [OF _ wf])
next
  case drain
  show ?thesis unfolding drain by (rule rp_outcome_sound(3) [OF ok]) (use rp_drain_eq [OF wf, of push c] in auto)
next
  case (write_one pkt pkts)
  show ?thesis
    unfolding write_one
    by (rule rp_outcome_sound(2) [OF ok]) (auto simp: rp_write_one_def split: prod.splits result.splits)
next
  case remove
  show ?thesis unfolding remove by (rule rp_outcome_sound(3) [OF ok]) (rule rp_remove_steps)
qed (auto intro!: rp_outcome_sound(1) [OF ok])

lemma rp_server_step_sound:
  assumes st: "rp_server_step cfg push collect s s'" and ok: "\<forall>c \<in> set (rs_conns s). rp_phase_ok cfg (rc_phase c)"
    and wf: "broker_wf cfg (rs_broker s)"
  shows "rp_sound cfg s s'"
  using st
proof cases
  case (task i)
  then show ?thesis using rp_step_sound [OF _ _ ok wf] ok by (metis nth_mem)
next
  case (cleanup now_ticks b)
  then show ?thesis using rp_cleanup_steps [OF _ wf] ok by (simp add: rp_sound_def)
next
  case cleanup_panic
  then show ?thesis using ok by (simp add: rp_sound_def)
qed

lemma rp_reachable_inv:
  assumes "rp_reachable cfg push collect s" "config_ok cfg"
  shows "reachable cfg (rs_broker s) \<and> (\<forall>c \<in> set (rs_conns s). rp_phase_ok cfg (rc_phase c))"
  using assms(1)
proof induction
  case start
  then show ?case by (simp add: rp_main_def reachable.init rp_conn_idle_def)
next
  case (step s s')
  have "broker_wf cfg (rs_broker s)" using reachable_invariants step.IH assms(2) by blast
  with rp_server_step_sound [OF step.hyps(2)] step.IH have "rp_sound cfg s s'" by blast
  then show ?case using step.IH reachable_steps by (auto simp: rp_sound_def)
qed

section \<open>What the buffer keeps back\<close>

lemma rp_fill_done: "need \<le> rp_len s \<Longrightarrow> rp_fill need s = (Filled, s)"
  by (subst rp_fill.simps) simp

lemma rp_fill_closed:
  assumes "rp_socket s = []"
  shows "rp_socket (snd (rp_fill need s)) = []"
  using assms by (subst rp_fill.simps) simp

lemma rp_read_closed: "rp_socket s = [] \<Longrightarrow> rp_socket (snd (rp_read_packet N M s)) = []"
  using rp_fill_closed [of s 2] rp_fill_closed [of "snd (rp_fill 2 s)"]
  by (auto simp: rp_read_packet_def Let_def split: prod.split fill_result.split result.split) (metis snd_conv)+

lemma rp_collect_take:
  assumes "\<forall>v pkt. push v pkt = (if length v < 8 then Some (v @ [pkt]) else None)"
  shows "rp_collect push pkts = take 8 pkts"
proof -
  have "foldl (\<lambda>v pkt. case push v pkt of Some v' \<Rightarrow> v' | None \<Rightarrow> v) v pkts = v @ take (8 - length v) pkts"
    if "length v \<le> 8" for v
    using that assms by (induction pkts arbitrary: v) (auto simp: take_Cons' Suc_diff_le split: nat.split)
  from this [of "[]"] show ?thesis by (simp add: rp_collect_def)
qed

lemma rp_event_read:
  assumes "rc_reader c = \<lparr>rp_buffer = replicate RX_BUFFER_SIZE 0, rp_len = 0, rp_socket = [Some data]\<rparr>"
    and "data \<noteq> []" "length data \<le> RX_BUFFER_SIZE"
  shows "rp_socket_event cfg instant c =
    (case rp_read_packet (MAX_TOPIC_NAME_LENGTH cfg) (MAX_PAYLOAD_SIZE cfg)
        \<lparr>rp_buffer = put_at (replicate RX_BUFFER_SIZE 0) 0 data, rp_len = length data, rp_socket = []\<rparr> of
       (Ok (Some packet), r) \<Rightarrow> Some (c\<lparr>rc_phase := Rp_Processing packet, rc_reader := r, rc_last := instant\<rparr>)
     | (Ok None, r) \<Rightarrow> Some (c\<lparr>rc_reader := r\<rparr>)
     | (Err _, r) \<Rightarrow> Some (c\<lparr>rc_phase := Rp_Unregistering, rc_reader := r\<rparr>)
     | (Panic, _) \<Rightarrow> None)"
  using assms by (simp add: rp_socket_event_def Let_def)

lemma rp_event_eof:
  "rp_socket (rc_reader c) = [] \<Longrightarrow> rp_len (rc_reader c) \<le> length (rp_buffer (rc_reader c)) \<Longrightarrow>
     rp_socket_event cfg instant c = Some (c\<lparr>rc_phase := Rp_Unregistering, rc_reader := (rc_reader c)\<lparr>rp_socket := []\<rparr>\<rparr>)"
  by (simp add: rp_socket_event_def Let_def)

text \<open>A PINGREQ frame with remaining length 128 panics the decoder, and nothing runs after a panic.\<close>

lemma rp_fatal_read:
  assumes "\<not> rs_halted s" "i < length (rs_conns s)" "rc_phase (rs_conns s ! i) = Rp_Looping"
    and "rc_reader (rs_conns s ! i) =
      \<lparr>rp_buffer = replicate 1536 0, rp_len = 0, rp_socket = [Some ([0xC0, 0x80, 1] @ replicate 128 0)]\<rparr>"
  shows "\<exists>s'. rp_server_step cfg push collect s s' \<and> rs_halted s' \<and> (\<forall>s''. \<not> rp_server_step cfg push collect s' s'')"
proof -
  let ?d = "[0xC0, 0x80, 1] @ replicate 128 0 :: bytes" and ?c = "rs_conns s ! i"
  let ?r = "\<lparr>rp_buffer = put_at (replicate RX_BUFFER_SIZE 0) 0 ?d, rp_len = length ?d, rp_socket = []\<rparr>"
  have len: "length ?d = 131" "131 \<le> RX_BUFFER_SIZE" by (simp_all add: RX_BUFFER_SIZE_def)
  have sl: "slice (rp_buffer ?r) 0 131 = Ok ?d" using len by (simp add: slice_def put_at_def)
  have "parse_remaining_length (0xC0 # varlen 128 @ replicate 128 0) = Ok (128, length (varlen 128))"
    by (rule parse_remaining_length_varlen) (simp add: MAX_VARIABLE_LENGTH_def)
  then have parse: "parse_remaining_length ?d = Ok (128, 2)" by (simp add: varlen.simps)
  have rl: "rp_len ?r = 131" using len(1) by (simp only: rp_reader.simps)
  have "rp_fill 2 ?r = (Filled, ?r)" "rp_fill 131 ?r = (Filled, ?r)" 
    using rp_fill_done [of 2 ?r] rp_fill_done [of 131 ?r] unfolding rl by simp_all
  moreover have "and_then (slice (rp_buffer ?r) 0 131) parse_remaining_length = Ok (128, 2)"
    "and_then (slice (rp_buffer ?r) 0 131) (Packet_decode (MAX_TOPIC_NAME_LENGTH cfg) (MAX_PAYLOAD_SIZE cfg)) = Panic"
    unfolding sl by (simp_all only: and_then.simps parse ping_length_panics)
  moreover have "1 + 2 + 128 = (131 :: nat)" by simp
  ultimately have "rp_read_packet (MAX_TOPIC_NAME_LENGTH cfg) (MAX_PAYLOAD_SIZE cfg) ?r = (Panic, ?r)"
    unfolding rp_read_packet_def Let_def by (simp only: rl prod.case fill_result.case result.case)
  moreover have "rc_reader ?c = \<lparr>rp_buffer = replicate RX_BUFFER_SIZE 0, rp_len = 0, rp_socket = [Some ?d]\<rparr>"
    using assms(4) by (simp only: RX_BUFFER_SIZE_def)
  ultimately have "rp_socket_event cfg 0 ?c = None"
    using rp_event_read [of ?c ?d cfg 0] len by simp
  then have "rp_conn_outcome i (rp_socket_event cfg 0 ?c) s = s\<lparr>rs_halted := True\<rparr>" by (simp add: rp_conn_outcome_def)
  with rp_step.socket [OF assms(3), of cfg push collect s i 0]
  have "rp_server_step cfg push collect s (s\<lparr>rs_halted := True\<rparr>)"
    by (intro rp_server_step.task [OF assms(1,2)]) simp
  moreover have "\<not> rp_server_step cfg push collect (s\<lparr>rs_halted := True\<rparr>) s''" for s''
    by (auto elim: rp_server_step.cases)
  ultimately show ?thesis by (intro exI [of _ "s\<lparr>rs_halted := True\<rparr>"]) simp
qed

section \<open>Properties\<close>

text \<open>The vectors of the crate, for the instances.\<close>

definition push8 :: "Packet list \<Rightarrow> Packet \<Rightarrow> Packet list option" where
  "push8 v pkt = (if length v < 8 then Some (v @ [pkt]) else None)"

definition collect4 :: "u128 list \<Rightarrow> u128 list option" where
  "collect4 sids = (if length sids \<le> 4 then Some sids else None)"



text \<open>
  A notified handler of the rp2040 server takes the whole transmit queue of its session out of the broker and sends
  the first eight packets of it; with a queue of more than eight packets (as in \<^verbatim>\<open>LargeMqttServer\<close>) the others are lost.
\<close>

theorem rp_drain_sends_eight:
  assumes "\<forall>v pkt. push v pkt = (if length v < 8 then Some (v @ [pkt]) else None)" "broker_wf cfg b"
  shows "\<exists>b'. rp_drain push (b, c) = Some (b', c\<lparr>rc_phase := Rp_Writing (take 8 (tx b (rc_sid c)))\<rparr>) \<and>
    tx b' = (tx b)(rc_sid c := [])"
  using rp_drain_eq [OF assms(2), of push c] rp_collect_take [OF assms(1)] by auto

theorem rp_drain_sends_eight_witness:
  "\<exists>b'. rp_drain push8 (small_answered, rp_conn_idle\<lparr>rc_sid := 7\<rparr>) =
       Some (b', rp_conn_idle\<lparr>rc_sid := 7, rc_phase := Rp_Writing [PingResp PingRespPacket]\<rparr>) \<and>
     tx b' 7 = []"
proof -
  have p: "\<forall>v pkt. push8 v pkt = (if length v < 8 then Some (v @ [pkt]) else None)" by (simp add: push8_def)
  have "broker_wf small_config small_answered" using reachable_invariants [OF small_answered_facts(2) small_config_ok] by simp
  from rp_drain_sends_eight [OF p this, of "rp_conn_idle\<lparr>rc_sid := 7\<rparr>"] small_answered_facts(3) show ?thesis by auto
qed

text \<open>
  Pipelined packets can be lost by the rp2040 server: if two packets arrive in one read and the client then closes its
  end, the handler processes the first packet, goes back to wait for the socket with the complete second packet in its buffer,
  and leaves at the end of the stream without having processed it.
\<close>

theorem rp_pipelined_packet_lost:
  assumes "Packet_wf (MAX_TOPIC_NAME_LENGTH cfg) (MAX_PAYLOAD_SIZE cfg) p" "length (Packet_wire p) \<le> 129"
    and "length (Packet_wire p) + length (Packet_wire q) \<le> 1536"
    and "rc_reader c = \<lparr>rp_buffer = replicate 1536 0, rp_len = 0, rp_socket = [Some (Packet_wire p @ Packet_wire q)]\<rparr>"
  shows "\<exists>c1 c2. rp_socket_event cfg t1 c = Some c1 \<and> rc_phase c1 = Rp_Processing p \<and>
    take (rp_len (rc_reader c1)) (rp_buffer (rc_reader c1)) = Packet_wire q \<and>
    rp_socket_event cfg t2 (c1\<lparr>rc_phase := Rp_Looping\<rparr>) = Some c2 \<and> rc_phase c2 = Rp_Unregistering"
proof -
  let ?d = "Packet_wire p @ Packet_wire q"
  let ?r = "\<lparr>rp_buffer = put_at (replicate RX_BUFFER_SIZE 0) 0 ?d, rp_len = length ?d, rp_socket = []\<rparr>"
  obtain h where "Packet_wire p = framed h (Packet_body p)" using Packet_wire_framed by blast
  then have ne: "?d \<noteq> []" by (simp add: framed_def)
  have h: "rp_healthy RX_BUFFER_SIZE ?r" "rp_stream ?r = ?d"
    using assms(3) by (simp_all add: rp_healthy_def rp_stream_def put_at_def RX_BUFFER_SIZE_def)
  from rp_read_law [OF h(1) assms(1) h(2)] assms(2,3) obtain r where
    r: "rp_read_packet (MAX_TOPIC_NAME_LENGTH cfg) (MAX_PAYLOAD_SIZE cfg) ?r = (Ok (Some p), r)" "rp_healthy RX_BUFFER_SIZE r"
      "rp_stream r = Packet_wire q" by (auto simp: RX_BUFFER_SIZE_def)
  have so: "rp_socket r = []"
    using rp_read_closed [of ?r "MAX_TOPIC_NAME_LENGTH cfg" "MAX_PAYLOAD_SIZE cfg"] r(1) by simp
  let ?c1 = "c\<lparr>rc_phase := Rp_Processing p, rc_reader := r, rc_last := t1\<rparr>"
  have "rc_reader c = \<lparr>rp_buffer = replicate RX_BUFFER_SIZE 0, rp_len = 0, rp_socket = [Some ?d]\<rparr>" "length ?d \<le> RX_BUFFER_SIZE"
    using assms(3,4) by (simp_all add: RX_BUFFER_SIZE_def)
  from rp_event_read [OF this(1) ne this(2), of cfg t1] r(1) have e1: "rp_socket_event cfg t1 c = Some ?c1" by simp
  have e2: "rp_socket_event cfg t2 (?c1\<lparr>rc_phase := Rp_Looping\<rparr>) =
      Some (?c1\<lparr>rc_phase := Rp_Unregistering, rc_reader := r\<lparr>rp_socket := []\<rparr>\<rparr>)"
    using rp_event_eof [of "?c1\<lparr>rc_phase := Rp_Looping\<rparr>"] so r(2) by (simp add: rp_healthy_def)
  have "take (rp_len r) (rp_buffer r) = Packet_wire q" using r(3) so by (simp add: rp_stream_def)
  then show ?thesis using e1 e2 by simp
qed

theorem rp_pipelined_packet_lost_witness:
  "\<exists>c1 c2. rp_socket_event small_config 0 (rp_conn_idle\<lparr>rc_reader := \<lparr>rp_buffer = replicate 1536 0, rp_len = 0,
       rp_socket = [Some (Packet_wire (PingReq PingReqPacket) @ Packet_wire (Disconnect DisconnectPacket))]\<rparr>\<rparr>) = Some c1 \<and>
     rc_phase c1 = Rp_Processing (PingReq PingReqPacket) \<and>
     rp_socket_event small_config 1 (c1\<lparr>rc_phase := Rp_Looping\<rparr>) = Some c2 \<and> rc_phase c2 = Rp_Unregistering"
proof -
  let ?p = "PingReq PingReqPacket" and ?q = "Disconnect DisconnectPacket"
  let ?c = "rp_conn_idle\<lparr>rc_reader := \<lparr>rp_buffer = replicate 1536 0, rp_len = 0, rp_socket = [Some (Packet_wire ?p @ Packet_wire ?q)]\<rparr>\<rparr>"
  have "Packet_wf (MAX_TOPIC_NAME_LENGTH small_config) (MAX_PAYLOAD_SIZE small_config) ?p" "length (Packet_wire ?p) \<le> 129"
    "length (Packet_wire ?p) + length (Packet_wire ?q) \<le> 1536"
    "rc_reader ?c = \<lparr>rp_buffer = replicate 1536 0, rp_len = 0, rp_socket = [Some (Packet_wire ?p @ Packet_wire ?q)]\<rparr>"
    by (simp_all add: empty_wire_def)
  from rp_pipelined_packet_lost [OF this, of 0 1] show ?thesis by blast
qed

end
