(* ===== verification/Server_Rp_Laws.thy ===== *)
theory Server_Rp_Laws
  imports Server_Rp Broker_Isolation
begin

text \<open>
  The invariants of the rp2040 server under every interleaving of its tasks: which task owns which session and which
  entry of the notification registry, and that no wake-up is lost. The laws speak of runs in which at most \<open>2 ^ 32\<close> connections
  have been accepted, so that the identifiers are different, and in which no identifier is \<open>0\<close>, the marker of a free entry (the
  first connection would have to be accepted at tick \<open>0\<close>).
\<close>

section \<open>Runs\<close>

text \<open>A step fails if a handler leaves its loop because the broker has refused its packet.\<close>

definition rp_failing :: "rp_server \<Rightarrow> rp_server \<Rightarrow> bool" where
  "rp_failing s s' \<longleftrightarrow> (\<exists>i < length (rs_conns s). \<exists>p. rc_phase (rs_conns s ! i) = Rp_Processing p \<and>
     rc_phase (rs_conns s' ! i) = Rp_Unregistering)"

definition rp_regular :: "rp_server \<Rightarrow> bool" where
  "rp_regular s \<longleftrightarrow> unat (rs_gen s) \<le> 2 ^ 32 \<and>
     (\<forall>c \<in> set (rs_conns s). rc_phase c = Rp_Registering \<longrightarrow> rc_sid c \<noteq> 0)"

inductive rp_run :: "config \<Rightarrow> (Packet list \<Rightarrow> Packet \<Rightarrow> Packet list option) \<Rightarrow> (u128 list \<Rightarrow> u128 list option) \<Rightarrow> bool \<Rightarrow>
    rp_server \<Rightarrow> bool"
  for cfg push collect failures where
  start: "rp_run cfg push collect failures (rp_main cfg)"
| step: "rp_run cfg push collect failures s \<Longrightarrow> rp_server_step cfg push collect s s' \<Longrightarrow> rp_regular s' \<Longrightarrow>
    failures \<or> \<not> rp_failing s s' \<Longrightarrow> rp_run cfg push collect failures s'"

lemma rp_run_reachable: "rp_run cfg push collect failures s \<Longrightarrow> rp_reachable cfg push collect s"
  by (induction rule: rp_run.induct) (auto intro: rp_reachable.intros)

section \<open>What a task holds\<close>

definition rp_has_session :: "rp_phase \<Rightarrow> bool" where
  "rp_has_session ph \<longleftrightarrow> ph \<notin> {Rp_Accepting, Rp_Registering}"

definition rp_has_channel :: "rp_phase \<Rightarrow> bool" where
  "rp_has_channel ph \<longleftrightarrow> ph \<notin> {Rp_Accepting, Rp_Registering, Rp_Registering_Channel, Rp_Removing}"

lemmas rp_phase_defs = rp_has_session_def rp_has_channel_def

text \<open>A session for which nothing is queued and to which nothing will be delivered.\<close>

definition quiet :: "u128 \<Rightarrow> PicoBroker \<Rightarrow> bool" where
  "quiet k b \<longleftrightarrow> unsubscribed k b \<and> tx b k = [] \<and> rx b k = []"

definition rp_numbered :: "rp_server \<Rightarrow> bool" where
  "rp_numbered s \<longleftrightarrow> unat (rs_gen s) \<le> 2 ^ 32 \<and>
     (\<forall>i < length (rs_conns s). rc_phase (rs_conns s ! i) \<noteq> Rp_Accepting \<longrightarrow>
        rc_sid (rs_conns s ! i) \<noteq> 0 \<and> unat (rc_sid (rs_conns s ! i)) mod 2 ^ 32 < unat (rs_gen s)) \<and>
     (\<forall>i < length (rs_conns s). \<forall>j < length (rs_conns s). rc_phase (rs_conns s ! i) \<noteq> Rp_Accepting \<longrightarrow>
        rc_phase (rs_conns s ! j) \<noteq> Rp_Accepting \<longrightarrow> rc_sid (rs_conns s ! i) = rc_sid (rs_conns s ! j) \<longrightarrow> i = j)"

definition rp_owned :: "config \<Rightarrow> rp_server \<Rightarrow> bool" where
  "rp_owned cfg s \<longleftrightarrow> length (rs_conns s) = MAX_SESSIONS cfg \<and>
     length (nr_channels (rs_registry s)) = MAX_SESSIONS cfg \<and> length (nr_session_ids (rs_registry s)) = MAX_SESSIONS cfg \<and>
     (\<forall>k \<in> set (session_ids (rs_broker s)). \<exists>i < length (rs_conns s).
        rp_has_session (rc_phase (rs_conns s ! i)) \<and> rc_sid (rs_conns s ! i) = k) \<and>
     (\<forall>i < length (rs_conns s). nr_session_ids (rs_registry s) ! i =
        (if rp_has_channel (rc_phase (rs_conns s ! i)) then rc_sid (rs_conns s ! i) else 0)) \<and>
     (\<forall>i < length (rs_conns s). rc_phase (rs_conns s ! i) = Rp_Registering_Channel \<longrightarrow>
        quiet (rc_sid (rs_conns s ! i)) (rs_broker s))"

section \<open>The sections of a task\<close>

lemma quietI: "br_topics b' = br_topics b \<Longrightarrow> tx b' k = tx b k \<Longrightarrow> rx b' k = rx b k \<Longrightarrow> quiet k b \<Longrightarrow> quiet k b'"
  by (simp add: quiet_def unsubscribed_def)

lemma receive_and_process_quiet:
  assumes wf: "broker_wf cfg b" and q: "quiet k b" "k \<noteq> sid" and e: "receive_and_process cfg sid p t b = (x, b')"
  shows "quiet k b'"
proof (cases "sid \<in> set (session_ids b)")
  case False
  then show ?thesis using receive_missing [OF wf False, of p t] q e by (simp add: receive_and_process_def then_do_cases(2))
next
  case True
  from receive_step [OF wf True, of p t] obtain y b1 where
    b1: "PicoBroker_queue_packet_received_from_client sid p t b = (y, b1)" "broker_wf cfg b1" "br_topics b1 = br_topics b"
      "tx b1 = tx b" "y = Ok () \<and> rx b1 = (rx b)(sid := rx b sid @ [p]) \<or> (\<exists>e. y = Err e) \<and> rx b1 = rx b"
    by (auto split: if_splits)
  have q1: "quiet k b1" using b1(3-5) q by (intro quietI [of b1 b k]) auto
  show ?thesis
    using b1(1,5) e q1 process_all_spares [OF b1(2), of k x b']
    by (auto simp: receive_and_process_def then_do_cases quiet_def)
qed

lemma rp_process_eq:
  assumes wf: "broker_wf cfg b" and cfg: "config_ok cfg" and p: "decoded cfg p"
  shows "\<exists>b' ph. rp_process cfg push t p (b, c) = Some (b', c\<lparr>rc_phase := ph\<rparr>) \<and> session_ids b' = session_ids b \<and>
    (\<forall>k. k \<noteq> rc_sid c \<longrightarrow> quiet k b \<longrightarrow> quiet k b') \<and>
    (ph = Rp_Unregistering \<or> (\<exists>ks ps. ph = Rp_Notifying ks (rp_collect push ps) \<and> (\<forall>k. tx b' k \<noteq> [] \<longrightarrow> k \<in> set ks) \<and>
      (\<exists>b1. (broker_step cfg)\<^sup>*\<^sup>* b b1 \<and> ps = tx b1 (rc_sid c))))"
proof -
  let ?t = "rp_current_time_nanos t" and ?k = "rc_sid c"
  from receive_and_process_eq [OF wf p, of ?k ?t] obtain x b1 where
    b1: "receive_and_process cfg ?k p ?t b = (x, b1)" "x \<noteq> Panic" "broker_wf cfg b1" "session_ids b1 = session_ids b"
      "(broker_step cfg)\<^sup>*\<^sup>* b b1" by blast
  have q1: "quiet k b1" if "k \<noteq> ?k" "quiet k b" for k using receive_and_process_quiet [OF wf that(2,1) b1(1)] .
  show ?thesis
  proof (cases x)
    case (Ok u)
    from pending_eq [OF b1(3) cfg] obtain v where
      v: "PicoBroker_get_sessions_with_pending_packets cfg b1 = Ok v"
        "HeaplessVec_as_slice v = filter (\<lambda>k. tx b1 k \<noteq> []) (session_ids b1)" "vec_wf v" by blast
    from drain_packets_eq [OF b1(3), of ?k] obtain b2 where
      b2: "drain_packets ?k b1 = (Ok (tx b1 ?k), b2)" "session_ids b2 = session_ids b1" "br_topics b2 = br_topics b1"
        "tx b2 = (tx b1)(?k := [])" "rx b2 = rx b1" by blast
    have "k \<in> set (session_ids b1)" if "tx b2 k \<noteq> []" for k
      using that b2(4) queues_of_unregistered [of k b1] by (auto split: if_splits)
    then have "\<forall>k. tx b2 k \<noteq> [] \<longrightarrow> k \<in> set (HeaplessVec_as_slice v)" using b2(4) v(2) by auto
    moreover have "quiet k b2" if "k \<noteq> ?k" "quiet k b" for k
      using q1 [OF that] b2 that(1) by (intro quietI [of b2 b1 k]) auto
    ultimately show ?thesis
      using b1 Ok v b2 HeaplessVec_collect_into_iter [OF v(3)]
      by (intro exI [of _ b2] exI [of _ "Rp_Notifying (HeaplessVec_as_slice v) (rp_collect push (tx b1 ?k))"])
        (auto simp: rp_process_def)
  next
    case (Err e)
    obtain y b2 where b2: "PicoBroker_mark_session_disconnected ?k b1 = (y, b2)" by force
    have "session_ids b2 = session_ids b1 \<and> br_topics b2 = br_topics b1 \<and> (\<forall>k. tx b2 k = tx b1 k \<and> rx b2 k = rx b1 k)"
      using mark_disconnected_step [OF b1(3), of ?k] b2 by (cases "session_of b1 ?k") (auto simp: tx_def rx_def)
    then show ?thesis
      using b1 Err b2 q1 quietI [of b2 b1]
      by (intro exI [of _ b2] exI [of _ Rp_Unregistering]) (simp add: rp_process_def)
  qed (use b1(2) in simp)
qed

text \<open>What a step of the task with number \<open>i\<close> does to what it holds.\<close>

definition rp_effect :: "nat \<Rightarrow> PicoBroker \<times> NotificationRegistry \<times> rp_conn \<Rightarrow> PicoBroker \<times> NotificationRegistry \<times> rp_conn \<Rightarrow> bool" where
  "rp_effect i = (\<lambda>(b, r, c) (b', r', c'). rc_sid c' = rc_sid c \<and>
     set (session_ids b') \<subseteq> insert (rc_sid c) (set (session_ids b)) \<and>
     (rc_sid c \<in> set (session_ids b') \<longrightarrow> rp_has_session (rc_phase c')) \<and>
     nr_session_ids r' = (nr_session_ids r)[i := if rp_has_channel (rc_phase c') then rc_sid c else 0] \<and>
     length (nr_channels r') = length (nr_channels r) \<and>
     (\<forall>k. k \<noteq> rc_sid c \<longrightarrow> quiet k b \<longrightarrow> quiet k b') \<and>
     (rc_phase c' = Rp_Registering_Channel \<longrightarrow> quiet (rc_sid c) b'))"

text \<open>What it does to the wake-ups.\<close>

definition rp_wakes :: "nat \<Rightarrow> PicoBroker \<times> NotificationRegistry \<times> rp_conn \<Rightarrow> PicoBroker \<times> NotificationRegistry \<times> rp_conn \<Rightarrow> bool" where
  "rp_wakes i = (\<lambda>(b, r, c) (b', r', c').
     (\<forall>k. tx b' k \<noteq> [] \<longrightarrow> tx b k \<noteq> [] \<and> (k = rc_sid c \<longrightarrow> rc_phase c \<noteq> Rp_Draining) \<or>
        (\<exists>ks ps. rc_phase c' = Rp_Notifying ks ps \<and> k \<in> set ks)) \<and>
     (\<forall>j. nr_channels r ! j \<longrightarrow> nr_channels r' ! j \<or> j = i \<and> rc_phase c' = Rp_Draining) \<and>
     (\<forall>k ks ps. rc_phase c = Rp_Notifying (k # ks) ps \<longrightarrow>
        rc_phase c' = Rp_Notifying ks ps \<and> r' = NotificationRegistry_notify_session k r) \<and>
     (rp_has_channel (rc_phase c') \<longrightarrow> rp_has_channel (rc_phase c) \<or> rc_phase c = Rp_Registering_Channel))"

lemma rp_register_eq:
  assumes wf: "broker_wf cfg b" and cfg: "config_ok cfg"
  shows "\<exists>b' ph. rp_register cfg t (b, c) = Some (b', c\<lparr>rc_phase := ph\<rparr>) \<and>
    (ph = Rp_Registering_Channel \<and> session_ids b' = session_ids b @ [rc_sid c] \<and> tx b' = tx b \<and> quiet (rc_sid c) b' \<and>
       (\<forall>k. quiet k b \<longrightarrow> quiet k b') \<or>
     ph = Rp_Accepting \<and> b' = b \<and> (length (session_ids b) = MAX_SESSIONS cfg \<or> rc_sid c \<in> set (session_ids b)))"
  using wf
proof (cases rule: register_step [where sid = "rc_sid c" and ka = DEFAULT_KEEP_ALIVE and t = "rp_current_time_nanos t"])
  case (registered b')
  have none: "session_of b (rc_sid c) = None" using registered(2) by (simp add: lookup_None)
  have q: "tx b' = tx b" "rx b' = rx b"
    using registered(7) none queue_new_wf [of "QUEUE_SIZE cfg"] cfg
    by (auto simp: tx_def rx_def fun_eq_iff Session_new_def config_ok_def)
  have "tx b (rc_sid c) = []" "rx b (rc_sid c) = []" using none by (simp_all add: tx_def rx_def)
  moreover have "unsubscribed (rc_sid c) b"
    using registered(2) broker_wf_parts(3) [OF wf] by (auto simp: unsubscribed_def)
  ultimately have "quiet (rc_sid c) b" by (simp add: quiet_def)
  then show ?thesis
    using registered(3,5,6) q quietI [of b' b] by (intro exI [of _ b'] exI [of _ Rp_Registering_Channel]) (simp add: rp_register_def)
qed (auto simp: rp_register_def)

lemma rp_remove_eq:
  assumes wf: "broker_wf cfg b"
  shows "\<exists>b'. rp_remove (b, c) = Some (b', c\<lparr>rc_phase := Rp_Accepting\<rparr>) \<and>
    set (session_ids b') = set (session_ids b) - {rc_sid c} \<and> tx b' = (tx b)(rc_sid c := []) \<and> (\<forall>k. quiet k b \<longrightarrow> quiet k b')"
proof -
  from remove_session_step [OF wf, of "rc_sid c"] obtain b' where
    b': "PicoBroker_remove_session (rc_sid c) b = (Ok (rc_sid c \<in> set (session_ids b)), b')"
      "session_ids b' = filter (\<lambda>k. k \<noteq> rc_sid c) (session_ids b)" "session_of b' = (session_of b)(rc_sid c := None)"
      "subscriptions_of b' = {p \<in> subscriptions_of b. snd p \<noteq> rc_sid c}" by blast
  have q: "tx b' = (tx b)(rc_sid c := [])" "rx b' = (rx b)(rc_sid c := [])" using b'(3) by (auto simp: tx_def rx_def fun_eq_iff)
  then have "quiet k b'" if "quiet k b" for k using that b'(4) by (auto simp: quiet_def unsubscribed_def)
  then show ?thesis using b'(1,2) q by (auto simp: rp_remove_def)
qed

lemma rp_socket_event_phase:
  assumes "rp_socket_event cfg instant c = Some c'" "rc_phase c = Rp_Looping"
  shows "rc_sid c' = rc_sid c" "rc_phase c' = Rp_Looping \<or> rc_phase c' = Rp_Unregistering \<or> (\<exists>p. rc_phase c' = Rp_Processing p)"
  using assms by (auto simp: rp_socket_event_def Let_def split: if_splits prod.splits option.splits result.splits)

lemma rp_write_one_phase:
  assumes "rp_write_one pkt pkts c = Some c'"
  shows "rc_sid c' = rc_sid c" "rc_phase c' = Rp_Looping \<or> rc_phase c' = Rp_Writing pkts"
  using assms by (auto simp: rp_write_one_def split: prod.splits result.splits)

lemma rp_step_moved:
  assumes st: "rp_step cfg push collect s i c s'" and na: "rc_phase c \<noteq> Rp_Accepting"
    and wf: "broker_wf cfg (rs_broker s)" and cfg: "config_ok cfg" and ok: "rp_phase_ok cfg (rc_phase c)"
    and i: "i < length (nr_session_ids (rs_registry s))"
    and own: "rc_sid c \<in> set (session_ids (rs_broker s)) \<longrightarrow> rp_has_session (rc_phase c)"
      "nr_session_ids (rs_registry s) ! i = (if rp_has_channel (rc_phase c) then rc_sid c else 0)"
  obtains (halted) "s' = s\<lparr>rs_halted := True\<rparr>"
    | (moved) c' where "rs_conns s' = (rs_conns s)[i := c']" "rs_gen s' = rs_gen s" "rs_halted s' = rs_halted s"
        "rp_effect i (rs_broker s, rs_registry s, c) (rs_broker s', rs_registry s', c')"
        "(\<exists>p. rc_phase c = Rp_Processing p) \<and> rc_phase c' = Rp_Unregistering \<or>
           rp_wakes i (rs_broker s, rs_registry s, c) (rs_broker s', rs_registry s', c')"
proof -
  have upd: "nr_session_ids (rs_registry s) = (nr_session_ids (rs_registry s))[i := if rp_has_channel (rc_phase c) then rc_sid c else 0]"
    using own(2) by (metis list_update_id)
  note defs = rp_effect_def rp_wakes_def rp_put_def rp_conn_outcome_def rp_broker_outcome_def rp_phase_defs
  show ?thesis
    using st
  proof cases
    case (register now_ticks)
    from rp_register_eq [OF wf cfg, of now_ticks c] obtain b' ph where
      "rp_register cfg now_ticks (rs_broker s, c) = Some (b', c\<lparr>rc_phase := ph\<rparr>)" and
      ph: "ph = Rp_Registering_Channel \<and> session_ids b' = session_ids (rs_broker s) @ [rc_sid c] \<and> tx b' = tx (rs_broker s) \<and>
         quiet (rc_sid c) b' \<and> (\<forall>k. quiet k (rs_broker s) \<longrightarrow> quiet k b') \<or> ph = Rp_Accepting \<and> b' = rs_broker s" by blast
    with register show ?thesis
      by (intro moved [of "c\<lparr>rc_phase := ph\<rparr>"]; use upd own ph in \<open>auto simp: defs\<close>)
  next
    case (register_channel instant)
    show ?thesis
      by (rule moved [of "c\<lparr>rc_phase := Rp_Looping, rc_last := instant\<rparr>"]; use register_channel own i in \<open>auto simp: defs NotificationRegistry_register_session_def\<close>)
  next
    case (socket instant)
    show ?thesis
    proof (cases "rp_socket_event cfg instant c")
      case None
      then show ?thesis using socket halted by (simp add: rp_conn_outcome_def)
    next
      case (Some c')
      then show ?thesis
        by (intro moved [of c']; use socket own upd rp_socket_event_phase [OF Some] in \<open>auto simp: defs\<close>)
    qed
  next
    case notified
    show ?thesis
      by (rule moved [of "c\<lparr>rc_phase := Rp_Draining\<rparr>"]; use notified own upd in \<open>auto simp: defs nth_list_update\<close>)
  next
    case (process packet now_ticks)
    from ok process have "decoded cfg packet" by simp
    from rp_process_eq [OF wf cfg this, of push now_ticks c] obtain b' ph where
      "rp_process cfg push now_ticks packet (rs_broker s, c) = Some (b', c\<lparr>rc_phase := ph\<rparr>)" "session_ids b' = session_ids (rs_broker s)"
      "\<forall>k. k \<noteq> rc_sid c \<longrightarrow> quiet k (rs_broker s) \<longrightarrow> quiet k b'"
      "ph = Rp_Unregistering \<or> (\<exists>ks ps. ph = Rp_Notifying ks ps \<and> (\<forall>k. tx b' k \<noteq> [] \<longrightarrow> k \<in> set ks))" by blast
    with process show ?thesis
      by (intro moved [of "c\<lparr>rc_phase := ph\<rparr>"]; use own upd in \<open>auto simp: defs\<close>)
  next
    case (notify sid sids pkts)
    show ?thesis
      by (rule moved [of "c\<lparr>rc_phase := Rp_Notifying sids pkts\<rparr>"]; use notify own upd notify_session_keeps in \<open>auto simp: defs\<close>)
  next
    case drain
    from drain_packets_eq [OF wf, of "rc_sid c"] obtain b' where
      b': "drain_packets (rc_sid c) (rs_broker s) = (Ok (tx (rs_broker s) (rc_sid c)), b')" "br_topics b' = br_topics (rs_broker s)"
        "session_ids b' = session_ids (rs_broker s)" "tx b' = (tx (rs_broker s))(rc_sid c := [])" "rx b' = rx (rs_broker s)" by blast
    have "quiet k b'" if "k \<noteq> rc_sid c" "quiet k (rs_broker s)" for k using b' that by (intro quietI [of b' "rs_broker s"]) auto
    then show ?thesis
      by (intro moved [of "c\<lparr>rc_phase := Rp_Writing (rp_collect push (tx (rs_broker s) (rc_sid c)))\<rparr>"]; use drain own upd b' in \<open>auto simp: defs rp_drain_def\<close>)
  next
    case (write_one pkt pkts)
    show ?thesis
    proof (cases "rp_write_one pkt pkts c")
      case None
      then show ?thesis using write_one halted by (simp add: rp_conn_outcome_def)
    next
      case (Some c')
      then show ?thesis
        by (intro moved [of c']; use write_one own upd rp_write_one_phase [OF Some] in \<open>auto simp: defs\<close>)
    qed
  next
    case unregister
    show ?thesis
      by (rule moved [of "c\<lparr>rc_phase := Rp_Removing\<rparr>"]; use unregister own i in \<open>auto simp: defs NotificationRegistry_unregister_session_def\<close>)
  next
    case remove
    from rp_remove_eq [OF wf, of c] obtain b' where
      "rp_remove (rs_broker s, c) = Some (b', c\<lparr>rc_phase := Rp_Accepting\<rparr>)" "set (session_ids b') = set (session_ids (rs_broker s)) - {rc_sid c}"
      "tx b' = (tx (rs_broker s))(rc_sid c := [])" "\<forall>k. quiet k (rs_broker s) \<longrightarrow> quiet k b'" by blast
    with remove show ?thesis
      by (intro moved [of "c\<lparr>rc_phase := Rp_Accepting\<rparr>"]; use own upd in \<open>auto simp: defs split: if_splits\<close>)
  next
    case (timeout instant)
    show ?thesis by (rule moved [of "c\<lparr>rc_phase := Rp_Unregistering\<rparr>"]; use timeout own upd in \<open>auto simp: defs\<close>)
  next
    case (notified_all pkts)
    show ?thesis by (rule moved [of "c\<lparr>rc_phase := Rp_Writing pkts\<rparr>"]; use notified_all own upd in \<open>auto simp: defs\<close>)
  next
    case written_all
    show ?thesis by (rule moved [of "c\<lparr>rc_phase := Rp_Looping\<rparr>"]; use written_all own upd in \<open>auto simp: defs\<close>)
  qed (use na in simp)
qed

section \<open>Ownership\<close>

lemma rp_ownedD:
  assumes "rp_owned cfg s" "rp_numbered s" "i < length (rs_conns s)"
  shows "i < length (nr_session_ids (rs_registry s))"
    and "rc_phase (rs_conns s ! i) \<noteq> Rp_Accepting \<Longrightarrow> rc_sid (rs_conns s ! i) \<in> set (session_ids (rs_broker s)) \<longrightarrow>
      rp_has_session (rc_phase (rs_conns s ! i))"
    and "nr_session_ids (rs_registry s) ! i = (if rp_has_channel (rc_phase (rs_conns s ! i)) then rc_sid (rs_conns s ! i) else 0)"
proof -
  show "i < length (nr_session_ids (rs_registry s))"
    and "nr_session_ids (rs_registry s) ! i = (if rp_has_channel (rc_phase (rs_conns s ! i)) then rc_sid (rs_conns s ! i) else 0)"
    using assms by (simp_all add: rp_owned_def)
  assume na: "rc_phase (rs_conns s ! i) \<noteq> Rp_Accepting"
  show "rc_sid (rs_conns s ! i) \<in> set (session_ids (rs_broker s)) \<longrightarrow> rp_has_session (rc_phase (rs_conns s ! i))"
  proof
    assume "rc_sid (rs_conns s ! i) \<in> set (session_ids (rs_broker s))"
    then obtain j where j: "j < length (rs_conns s)" "rp_has_session (rc_phase (rs_conns s ! j))"
      "rc_sid (rs_conns s ! j) = rc_sid (rs_conns s ! i)" using assms(1) unfolding rp_owned_def by blast
    then have "rc_phase (rs_conns s ! j) \<noteq> Rp_Accepting" by (auto simp: rp_has_session_def)
    then have "j = i" using assms(2,3) na j(1,3) unfolding rp_numbered_def by blast
    then show "rp_has_session (rc_phase (rs_conns s ! i))" using j(2) by simp
  qed
qed

lemma rp_moved_keeps:
  assumes own: "rp_owned cfg s" and num: "rp_numbered s" and i: "i < length (rs_conns s)"
    and na: "rc_phase (rs_conns s ! i) \<noteq> Rp_Accepting"
    and s': "rs_conns s' = (rs_conns s)[i := c']" "rs_gen s' = rs_gen s"
    and e: "rp_effect i (rs_broker s, rs_registry s, rs_conns s ! i) (rs_broker s', rs_registry s', c')"
  shows "rp_owned cfg s' \<and> rp_numbered s'"
proof
  let ?k = "rc_sid (rs_conns s ! i)"
  have sid: "rc_sid (rs_conns s' ! j) = rc_sid (rs_conns s ! j)" if "j < length (rs_conns s)" for j
    using that s'(1) e by (cases "j = i") (simp_all add: rp_effect_def)
  have ph: "rc_phase (rs_conns s' ! j) = (if j = i then rc_phase c' else rc_phase (rs_conns s ! j))" if "j < length (rs_conns s)" for j
    using that s'(1) by simp
  have other: "rc_sid (rs_conns s ! j) \<noteq> ?k" if "j < length (rs_conns s)" "j \<noteq> i" "rc_phase (rs_conns s ! j) \<noteq> Rp_Accepting" for j
    using num that i na unfolding rp_numbered_def by blast
  have was: "rc_phase (rs_conns s ! j) \<noteq> Rp_Accepting" if "j < length (rs_conns s)" "rc_phase (rs_conns s' ! j) \<noteq> Rp_Accepting" for j
    using that na ph [of j] by (cases "j = i") auto
  show "rp_numbered s'"
    unfolding rp_numbered_def s'
    by (intro conjI allI impI; use num sid was s' in \<open>auto simp: rp_numbered_def\<close>)
  have "\<exists>j < length (rs_conns s'). rp_has_session (rc_phase (rs_conns s' ! j)) \<and> rc_sid (rs_conns s' ! j) = k"
    if k: "k \<in> set (session_ids (rs_broker s'))" for k
  proof (cases "k = ?k")
    case True
    then show ?thesis using k e sid [OF i] ph [OF i] i s'(1) by (intro exI [of _ i]) (auto simp: rp_effect_def)
  next
    case False
    then have "k \<in> set (session_ids (rs_broker s))" using k e by (auto simp: rp_effect_def)
    then obtain j where j: "j < length (rs_conns s)" "rp_has_session (rc_phase (rs_conns s ! j))" "rc_sid (rs_conns s ! j) = k"
      using own unfolding rp_owned_def by blast
    then have "j \<noteq> i" using False by auto
    then show ?thesis using j sid [OF j(1)] ph [OF j(1)] s'(1) by (intro exI [of _ j]) simp
  qed
  moreover have "nr_session_ids (rs_registry s') ! j = (if rp_has_channel (rc_phase (rs_conns s' ! j)) then rc_sid (rs_conns s' ! j) else 0)"
    if j: "j < length (rs_conns s)" for j
    using j own e sid [OF j] ph [OF j] by (cases "j = i") (auto simp: rp_owned_def rp_effect_def)
  moreover have "quiet (rc_sid (rs_conns s' ! j)) (rs_broker s')"
    if j: "j < length (rs_conns s)" "rc_phase (rs_conns s' ! j) = Rp_Registering_Channel" for j
    using j own e sid [OF j(1)] ph [OF j(1)] other [OF j(1)] by (cases "j = i") (auto simp: rp_owned_def rp_effect_def)
  ultimately show "rp_owned cfg s'"
    using own e s'(1) by (auto simp: rp_owned_def rp_effect_def)
qed

lemma rp_accepted_keeps:
  assumes own: "rp_owned cfg s" and num: "rp_numbered s" and i: "i < length (rs_conns s)"
    and ac: "rc_phase (rs_conns s ! i) = Rp_Accepting" "rp_accepted now socket accepts (rs_gen s) = (c', gen')"
    and reg: "rp_regular (rp_put i c' (s\<lparr>rs_gen := gen'\<rparr>))"
  shows "rp_owned cfg (rp_put i c' (s\<lparr>rs_gen := gen'\<rparr>)) \<and> rp_numbered (rp_put i c' (s\<lparr>rs_gen := gen'\<rparr>))"
proof -
  let ?g = "rs_gen s" and ?s = "rp_put i c' (s\<lparr>rs_gen := gen'\<rparr>)"
  have c': "rc_sid c' = session_id_of now ?g" "rc_phase c' = Rp_Registering" and gen': "gen' = ?g + 1"
    using ac(2) by (auto simp: rp_accepted_def SessionIdGen_generate_def)
  have le: "unat ?g \<le> 2 ^ 32" using num by (simp add: rp_numbered_def)
  then have "unat ?g < 2 ^ 64 - 1" by simp
  then have g: "unat gen' = Suc (unat ?g)" unfolding gen' by (simp add: unat_word_ariths)
  have small: "unat ?g < 2 ^ 32" using reg g by (simp add: rp_regular_def rp_put_def)
  note low = session_id_counter [OF small, of now]
  have nz: "rc_sid c' \<noteq> 0" using reg i c'(2) set_update_memI [OF i, of c'] by (auto simp: rp_regular_def rp_put_def)
  have conns: "rs_conns ?s = (rs_conns s)[i := c']" "rs_broker ?s = rs_broker s" "rs_registry ?s = rs_registry s" "rs_gen ?s = gen'"
    by (simp_all add: rp_put_def)
  have old: "rc_sid (rs_conns s ! j) \<noteq> rc_sid c' \<and> rc_sid (rs_conns s ! j) \<noteq> 0 \<and> unat (rc_sid (rs_conns s ! j)) mod 2 ^ 32 < unat ?g"
    if "j < length (rs_conns s)" "rc_phase (rs_conns s ! j) \<noteq> Rp_Accepting" for j
    using num that low c'(1) unfolding rp_numbered_def by (metis less_irrefl)
  have new: "unat (rc_sid c') mod 2 ^ 32 < Suc (unat ?g)" using low c'(1) by simp
  have "rp_numbered ?s"
    unfolding rp_numbered_def conns g
  proof (intro conjI allI impI)
    show "Suc (unat ?g) \<le> 2 ^ 32" using small by simp
  next
    fix j assume j: "j < length ((rs_conns s)[i := c'])" "rc_phase ((rs_conns s)[i := c'] ! j) \<noteq> Rp_Accepting"
    show "rc_sid ((rs_conns s)[i := c'] ! j) \<noteq> 0" using j old [of j] nz by (cases "j = i") auto
    show "unat (rc_sid ((rs_conns s)[i := c'] ! j)) mod 2 ^ 32 < Suc (unat ?g)"
    proof (cases "j = i")
      case False
      then show ?thesis using j old [of j] less_Suc_eq by auto
    qed (use j new in auto)
  next
    fix j m assume "j < length ((rs_conns s)[i := c'])" "m < length ((rs_conns s)[i := c'])"
      "rc_phase ((rs_conns s)[i := c'] ! j) \<noteq> Rp_Accepting" "rc_phase ((rs_conns s)[i := c'] ! m) \<noteq> Rp_Accepting"
      "rc_sid ((rs_conns s)[i := c'] ! j) = rc_sid ((rs_conns s)[i := c'] ! m)"
    then show "j = m"
      using old [of j] old [of m] num unfolding rp_numbered_def by (cases "j = i"; cases "m = i") auto
  qed
  moreover have "rp_owned cfg ?s"
    using own ac(1) c'(2) i unfolding rp_owned_def conns by (auto simp: rp_phase_defs nth_list_update) metis+
  ultimately show ?thesis by blast
qed

lemma rp_cleanup_effect:
  assumes e: "rp_cleanup collect t b = Some b'" and wf: "broker_wf cfg b"
  shows "set (session_ids b') \<subseteq> set (session_ids b)" "quiet k b \<Longrightarrow> quiet k b'" "tx b' k \<noteq> [] \<Longrightarrow> tx b k \<noteq> []"
proof -
  have rem: "set (session_ids b2) \<subseteq> set (session_ids b1) \<and> (quiet k b1 \<longrightarrow> quiet k b2) \<and> (tx b2 k \<noteq> [] \<longrightarrow> tx b1 k \<noteq> []) \<and> broker_wf cfg b2"
    if "remove_all X b1 = (Ok (), b2)" "broker_wf cfg b1" for X b1 b2
  proof -
    from remove_all_eq [OF that(2), of X] that(1) have
      f: "session_ids b2 = filter (\<lambda>k. k \<notin> set X) (session_ids b1)"
        "session_of b2 = (\<lambda>k. if k \<in> set X then None else session_of b1 k)"
        "subscriptions_of b2 = {p \<in> subscriptions_of b1. snd p \<notin> set X}" "broker_wf cfg b2" by auto
    then have "tx b2 k = (if k \<in> set X then [] else tx b1 k)" "rx b2 k = (if k \<in> set X then [] else rx b1 k)"
      by (simp_all add: tx_def rx_def)
    then show ?thesis using f by (auto simp: quiet_def unsubscribed_def)
  qed
  obtain E D b1 where "remove_all E b = (Ok (), b1)" "remove_all D b1 = (Ok (), b')"
    using e by (auto simp: rp_cleanup_def split: option.splits prod.splits result.splits)
  then show "set (session_ids b') \<subseteq> set (session_ids b)" "quiet k b \<Longrightarrow> quiet k b'" "tx b' k \<noteq> [] \<Longrightarrow> tx b k \<noteq> []"
    using rem [of E b b1] rem [of D b1 b'] wf by auto
qed

lemma rp_main_owned: "rp_owned cfg (rp_main cfg) \<and> rp_numbered (rp_main cfg)"
proof -
  have "session_ids (PicoBroker_new cfg) = []"
    by (simp add: PicoBroker_new_def PicoBroker_default_def ids_def live_def SessionRegistry_default_def
      HeaplessVec_new_def HeaplessVec_as_slice_def)
  then show ?thesis
    by (simp add: rp_owned_def rp_numbered_def rp_main_def rp_conn_idle_def NotificationRegistry_new_def rp_phase_defs)
qed

lemma rp_inv_halted [simp]:
  "rp_owned cfg (s\<lparr>rs_halted := x\<rparr>) = rp_owned cfg s" "rp_numbered (s\<lparr>rs_halted := x\<rparr>) = rp_numbered s"
  by (simp_all add: rp_owned_def rp_numbered_def)

lemma rp_run_owned:
  assumes "rp_run cfg push collect failures s" "config_ok cfg"
  shows "rp_owned cfg s \<and> rp_numbered s"
  using assms(1)
proof induction
  case start
  show ?case by (rule rp_main_owned)
next
  case (step s s')
  note inv = rp_reachable_inv [OF rp_run_reachable [OF step.hyps(1)] assms(2)]
  have wf: "broker_wf cfg (rs_broker s)" using reachable_invariants inv assms(2) by blast
  from step.hyps(2) show ?case
  proof cases
    case (task i)
    have ok: "rp_phase_ok cfg (rc_phase (rs_conns s ! i))" using inv task(2) by simp
    show ?thesis
    proof (cases "rc_phase (rs_conns s ! i) = Rp_Accepting")
      case True
      from task(3) True obtain now socket accepts c' gen' where
        "rp_accepted now socket accepts (rs_gen s) = (c', gen')" "s' = rp_put i c' (s\<lparr>rs_gen := gen'\<rparr>)" by cases auto
      then show ?thesis using rp_accepted_keeps [of cfg s i] step.IH task(2) True step.hyps(3) by blast
    next
      case False
      from rp_ownedD [OF conjunct1 [OF step.IH] conjunct2 [OF step.IH] task(2)] False have
        o: "i < length (nr_session_ids (rs_registry s))"
          "rc_sid (rs_conns s ! i) \<in> set (session_ids (rs_broker s)) \<longrightarrow> rp_has_session (rc_phase (rs_conns s ! i))"
          "nr_session_ids (rs_registry s) ! i = (if rp_has_channel (rc_phase (rs_conns s ! i)) then rc_sid (rs_conns s ! i) else 0)"
        by blast+
      from task(3) False wf assms(2) ok o show ?thesis
      proof (cases rule: rp_step_moved)
        case halted
        then show ?thesis using step.IH by simp
      next
        case (moved c')
        then show ?thesis using rp_moved_keeps step.IH task(2) False by blast
      qed
    qed
  next
    case (cleanup now_ticks b)
    have "set (session_ids b) \<subseteq> set (session_ids (rs_broker s))" "\<And>k. quiet k (rs_broker s) \<Longrightarrow> quiet k b"
      using rp_cleanup_effect [OF cleanup(3) wf] by auto
    then show ?thesis using step.IH cleanup(1) by (auto simp: rp_owned_def rp_numbered_def)
  next
    case cleanup_panic
    then show ?thesis using step.IH by simp
  qed
qed

section \<open>Wake-ups\<close>

text \<open>A signal for the task is in its channel, has just been taken out, or is about to be sent by some handler.\<close>

definition rp_awake :: "rp_server \<Rightarrow> nat \<Rightarrow> bool" where
  "rp_awake s i \<longleftrightarrow> nr_channels (rs_registry s) ! i \<or> rc_phase (rs_conns s ! i) = Rp_Draining \<or>
     (\<exists>j < length (rs_conns s). \<exists>ks ps. rc_phase (rs_conns s ! j) = Rp_Notifying ks ps \<and> rc_sid (rs_conns s ! i) \<in> set ks)"

definition rp_none_forgotten :: "rp_server \<Rightarrow> bool" where
  "rp_none_forgotten s \<longleftrightarrow> (\<forall>i < length (rs_conns s). rp_has_channel (rc_phase (rs_conns s ! i)) \<longrightarrow>
     tx (rs_broker s) (rc_sid (rs_conns s ! i)) \<noteq> [] \<longrightarrow> rp_awake s i)"

lemma rp_awake_cases:
  assumes "rp_awake s i"
  obtains (signalled) "nr_channels (rs_registry s) ! i" | (taken) "rc_phase (rs_conns s ! i) = Rp_Draining"
    | (coming) j ks ps where "j < length (rs_conns s)" "rc_phase (rs_conns s ! j) = Rp_Notifying ks ps"
        "rc_sid (rs_conns s ! i) \<in> set ks"
  using assms by (auto simp: rp_awake_def)

lemma rp_registry_unique:
  assumes own: "rp_owned cfg s" and num: "rp_numbered s" and i: "i < length (rs_conns s)"
    and ch: "rp_has_channel (rc_phase (rs_conns s ! i))"
    and j: "j < length (nr_session_ids (rs_registry s))" "nr_session_ids (rs_registry s) ! j = rc_sid (rs_conns s ! i)"
  shows "j = i"
proof -
  have na: "rc_phase (rs_conns s ! i) \<noteq> Rp_Accepting" using ch by (auto simp: rp_has_channel_def)
  have "j < length (rs_conns s)" "rc_sid (rs_conns s ! i) \<noteq> 0" using j own num i na by (auto simp: rp_owned_def rp_numbered_def)
  then have "rp_has_channel (rc_phase (rs_conns s ! j))" "rc_sid (rs_conns s ! j) = rc_sid (rs_conns s ! i)"
    using own j(2) unfolding rp_owned_def by metis+
  then show ?thesis
    using num i na \<open>j < length (rs_conns s)\<close> unfolding rp_numbered_def rp_has_channel_def by blast
qed

lemma rp_notified_awake:
  assumes own: "rp_owned cfg s" and num: "rp_numbered s" and i: "i < length (rs_conns s)"
    and ch: "rp_has_channel (rc_phase (rs_conns s ! i))"
  shows "nr_channels (NotificationRegistry_notify_session (rc_sid (rs_conns s ! i)) (rs_registry s)) ! i"
proof -
  have "i < length (nr_session_ids (rs_registry s))" "nr_session_ids (rs_registry s) ! i = rc_sid (rs_conns s ! i)"
    "i < length (nr_channels (rs_registry s))" using own i ch by (simp_all add: rp_owned_def)
  with notify_session_wakes [of i "rs_registry s" "rc_sid (rs_conns s ! i)"] rp_registry_unique [OF assms] show ?thesis by simp
qed

lemma rp_moved_wakes:
  assumes none: "rp_none_forgotten s" and own: "rp_owned cfg s" and num: "rp_numbered s" and j: "j < length (rs_conns s)"
    and s': "rs_conns s' = (rs_conns s)[j := c']"
    and e: "rp_effect j (rs_broker s, rs_registry s, rs_conns s ! j) (rs_broker s', rs_registry s', c')"
    and w: "rp_wakes j (rs_broker s, rs_registry s, rs_conns s ! j) (rs_broker s', rs_registry s', c')"
  shows "rp_none_forgotten s'"
  unfolding rp_none_forgotten_def
proof (intro allI impI)
  fix i
  assume i': "i < length (rs_conns s')" and ch': "rp_has_channel (rc_phase (rs_conns s' ! i))"
    and t: "tx (rs_broker s') (rc_sid (rs_conns s' ! i)) \<noteq> []"
  let ?c = "rs_conns s ! j" and ?k = "rc_sid (rs_conns s ! i)"
  have i: "i < length (rs_conns s)" using i' s' by simp
  have sid: "rc_sid (rs_conns s' ! m) = rc_sid (rs_conns s ! m)" if "m < length (rs_conns s)" for m
    using that s' e by (cases "m = j") (simp_all add: rp_effect_def)
  have ph: "rc_phase (rs_conns s' ! m) = (if m = j then rc_phase c' else rc_phase (rs_conns s ! m))" if "m < length (rs_conns s)" for m
    using that s' by simp
  note w = w [unfolded rp_wakes_def prod.case]
  show "rp_awake s' i"
  proof (cases "\<exists>ks ps. rc_phase c' = Rp_Notifying ks ps \<and> ?k \<in> set ks")
    case True
    then show ?thesis unfolding rp_awake_def sid [OF i] using j ph [OF j] s' by (intro disjI2 exI [of _ j]) auto
  next
    case False
    then have old: "tx (rs_broker s) ?k \<noteq> []" "?k = rc_sid ?c \<longrightarrow> rc_phase ?c \<noteq> Rp_Draining"
      using w t sid [OF i] by auto
    have ch: "rp_has_channel (rc_phase (rs_conns s ! i))"
    proof (cases "i = j")
      case True
      then have "rc_phase ?c \<noteq> Rp_Registering_Channel" using own j old(1) by (auto simp: rp_owned_def quiet_def)
      then show ?thesis using True w ch' ph [OF i] by auto
    qed (use ch' ph [OF i] in simp)
    with none i old(1) have "rp_awake s i" by (simp add: rp_none_forgotten_def)
    then show ?thesis
    proof (cases rule: rp_awake_cases)
      case signalled
      then show ?thesis using w ph [OF i] unfolding rp_awake_def by auto
    next
      case taken
      then have "i \<noteq> j" using old(2) by auto
      then show ?thesis unfolding rp_awake_def using taken ph [OF i] by simp
    next
      case (coming m ks ps)
      show ?thesis
      proof (cases "m = j")
        case True
        then obtain k rest where ks: "ks = k # rest" using coming(3) by (cases ks) auto
        then have n: "rc_phase c' = Rp_Notifying rest ps" "rs_registry s' = NotificationRegistry_notify_session k (rs_registry s)"
          using w coming(2) True by auto
        then have "?k = k" using False coming(3) ks by auto
        then show ?thesis unfolding rp_awake_def using rp_notified_awake [OF own num i ch] n(2) by simp
      next
        case False
        then show ?thesis
          unfolding rp_awake_def sid [OF i] using coming ph [OF coming(1)] s' by (intro disjI2 exI [of _ m]) simp
      qed
    qed
  qed
qed

lemma rp_run_wakes:
  assumes "rp_run cfg push collect False s" "config_ok cfg"
  shows "rp_none_forgotten s"
  using assms(1)
proof induction
  case start
  show ?case by (simp add: rp_none_forgotten_def rp_main_def rp_conn_idle_def rp_has_channel_def)
next
  case (step s s')
  note inv = rp_reachable_inv [OF rp_run_reachable [OF step.hyps(1)] assms(2)]
  have wf: "broker_wf cfg (rs_broker s)" using reachable_invariants inv assms(2) by blast
  note own = rp_run_owned [OF step.hyps(1) assms(2)]
  from step.hyps(2) show ?case
  proof cases
    case (task i)
    have ok: "rp_phase_ok cfg (rc_phase (rs_conns s ! i))" using inv task(2) by simp
    show ?thesis
    proof (cases "rc_phase (rs_conns s ! i) = Rp_Accepting")
      case True
      from task(3) True obtain now socket accepts c' gen' where
        a: "rp_accepted now socket accepts (rs_gen s) = (c', gen')" "s' = rp_put i c' (s\<lparr>rs_gen := gen'\<rparr>)" by cases auto
      then have "rc_phase c' = Rp_Registering" by (auto simp: rp_accepted_def split: prod.splits)
      then have ph: "rp_has_channel (rc_phase (rs_conns s' ! m)) \<Longrightarrow> m \<noteq> i" "rc_phase (rs_conns s ! m) = Rp_Notifying ks ps \<Longrightarrow> m \<noteq> i" for m ks ps
        using a(2) task(2) True by (auto simp: rp_put_def rp_has_channel_def)
      have "rp_awake s' m" if "rp_awake s m" "m < length (rs_conns s)" "m \<noteq> i" for m
        using that(1)
      proof (cases rule: rp_awake_cases)
        case (coming j ks ps)
        then show ?thesis
          unfolding rp_awake_def using that(2,3) ph(2) [OF coming(2)] a(2)
          by (intro disjI2 exI [of _ j]) (simp add: rp_put_def)
      qed (use that(2,3) a(2) in \<open>simp_all add: rp_awake_def rp_put_def\<close>)
      moreover have "rs_conns s' = (rs_conns s)[i := c']" "rs_broker s' = rs_broker s" using a(2) by (simp_all add: rp_put_def)
      ultimately show ?thesis
        unfolding rp_none_forgotten_def using step.IH ph(1) by (simp add: rp_none_forgotten_def) (metis nth_list_update_neq)
    next
      case False
      from rp_ownedD [OF conjunct1 [OF own] conjunct2 [OF own] task(2)] False have
        o: "i < length (nr_session_ids (rs_registry s))"
          "rc_sid (rs_conns s ! i) \<in> set (session_ids (rs_broker s)) \<longrightarrow> rp_has_session (rc_phase (rs_conns s ! i))"
          "nr_session_ids (rs_registry s) ! i = (if rp_has_channel (rc_phase (rs_conns s ! i)) then rc_sid (rs_conns s ! i) else 0)"
        by blast+
      from task(3) False wf assms(2) ok o show ?thesis
      proof (cases rule: rp_step_moved)
        case halted
        then show ?thesis using step.IH by (simp add: rp_none_forgotten_def rp_awake_def)
      next
        case (moved c')
        have "\<not> ((\<exists>p. rc_phase (rs_conns s ! i) = Rp_Processing p) \<and> rc_phase c' = Rp_Unregistering)"
          using step.hyps(4) task(2) moved(1) by (auto simp: rp_failing_def)
        then show ?thesis using rp_moved_wakes [OF step.IH _ _ task(2) moved(1,4)] own moved(5) by blast
      qed
    qed
  next
    case (cleanup now_ticks b)
    have "tx b k \<noteq> [] \<Longrightarrow> tx (rs_broker s) k \<noteq> []" for k using rp_cleanup_effect(3) [OF cleanup(3) wf] .
    then show ?thesis using step.IH cleanup(1) by (auto simp: rp_none_forgotten_def rp_awake_def)
  next
    case cleanup_panic
    then show ?thesis using step.IH by (simp add: rp_none_forgotten_def rp_awake_def)
  qed
qed

end
