(* ===== verification/Server_Rp_Halt.thy ===== *)
theory Server_Rp_Halt
  imports Server_Rp_Laws
begin

text \<open>
  What can halt the rp2040 server. A panic of any task stops the device; the only section that can panic is the decoding of a
  received frame. The proof needs that the server's parser of the remaining length agrees with the library's, that the fill level
  of a receive buffer stays within the buffer, and that whatever a handler holds for writing came from the broker.
\<close>

section \<open>The two parsers of the remaining length\<close>

lemma parse_loop_Ok_idx: "parse_remaining_length_loop buffer idx m v = Ok (n, k) \<Longrightarrow> idx < length buffer"
  by (subst (asm) parse_remaining_length_loop.simps) (auto split: if_splits)

lemma parse_loop_agrees:
  "parse_remaining_length_loop buffer (j + 1) (128 ^ j) v = Ok (n, k) \<Longrightarrow> j \<le> 3 \<Longrightarrow> v < 128 ^ j \<Longrightarrow>
     read_variable_length_loop 64 (drop 1 buffer) (128 ^ j) v j = Ok (n, k)"
proof (induction "3 - j" arbitrary: j v)
  case 0
  have idx: "j + 1 < length buffer" using 0 parse_loop_Ok_idx by blast
  have j: "j = 3" using 0 by simp
  let ?b = "unat (buffer ! 4)"
  have p: "?b < 128" "n = v + ?b mod 128 * 128 ^ 3" "k = 4"
    using 0(2) parse_step [OF idx 0(3), of v] j by (auto simp: Let_def split: if_splits)
  have "n \<le> MAX_VARIABLE_LENGTH" using p(1,2) 0(4) j by (simp add: MAX_VARIABLE_LENGTH_def)
  moreover have "v \<le> MAX_VARIABLE_LENGTH" using 0(4) j by (simp add: MAX_VARIABLE_LENGTH_def)
  ultimately show ?case
    using read_variable_length_step [of 3 "drop 1 buffer" "128 ^ 3" v 64] idx j p by (simp add: Let_def)
next
  case (Suc d)
  have idx: "j + 1 < length buffer" using Suc.prems(1) parse_loop_Ok_idx by blast
  let ?b = "unat (buffer ! (j + 1))" and ?v = "v + unat (buffer ! (j + 1)) mod 128 * 128 ^ j"
  have "j < 3" using Suc.hyps(2) by simp
  then have j: "j < 3" "(128 :: nat) ^ j \<le> 128 ^ 3" using power_increasing [of j 3 "128 :: nat"] by simp_all
  have "?b mod 128 * 128 ^ j \<le> 127 * 128 ^ j" using mod_less_divisor [of 128 ?b] by (intro mult_le_mono1) simp
  then have v: "?v < 128 ^ (j + 1)" using Suc.prems(3) unfolding power_add power_one_right by linarith
  have le: "?v \<le> MAX_VARIABLE_LENGTH"
  proof -
    have "(128 :: nat) ^ (j + 1) \<le> 128 ^ 4" using j(1) by (intro power_increasing) auto
    then show ?thesis using v by (simp add: MAX_VARIABLE_LENGTH_def)
  qed
  then have "v \<le> MAX_VARIABLE_LENGTH" by simp
  from read_variable_length_step [OF _ j(2) this, of j "drop 1 buffer" 64] idx le
  have "read_variable_length_loop 64 (drop 1 buffer) (128 ^ j) v j =
      (if ?b < 128 then Ok (?v, j + 1) else read_variable_length_loop 64 (drop 1 buffer) (128 ^ (j + 1)) ?v (j + 1))"
    by (simp add: Let_def mult.commute)
  moreover have "parse_remaining_length_loop buffer (j + 1) (128 ^ j) v =
      (if ?b < 128 then Ok (?v, j + 1) else parse_remaining_length_loop buffer (j + 1 + 1) (128 ^ (j + 1)) ?v)"
    using parse_step [OF idx Suc.prems(2), of v] j(1) by (simp add: Let_def)
  ultimately show ?case
    using Suc.prems(1) Suc.hyps(1) [of "j + 1" ?v] Suc.hyps(2) v by (cases "?b < 128") auto
qed

lemma parse_remaining_length_agrees:
  "parse_remaining_length buffer = Ok (n, k) \<Longrightarrow> read_variable_length (drop 1 buffer) = Ok (n, k)"
  using parse_loop_agrees [of buffer 0 0 n k]
  by (simp add: parse_remaining_length_def read_variable_length_def read_variable_length_at_def)

text \<open>The parser looks only at the length field.\<close>

lemma parse_loop_prefix:
  "parse_remaining_length_loop buffer idx m v = Ok (n, k) \<Longrightarrow> take (k + 1) buffer' = take (k + 1) buffer \<Longrightarrow>
     parse_remaining_length_loop buffer' idx m v = Ok (n, k) \<and> idx \<le> k \<and> k < length buffer"
proof (induction buffer idx m v rule: parse_remaining_length_loop.induct)
  case (1 buffer idx m v)
  have idx: "\<not> length buffer \<le> idx" using parse_loop_Ok_idx [OF "1.prems"(1)] by simp
  let ?b = "unat (buffer ! idx)"
  show ?case
  proof (cases "?b AND 128 = 0")
    case True
    then have k: "k = idx" "n = v + (?b AND 127) * m"
      using "1.prems"(1) idx by (subst (asm) parse_remaining_length_loop.simps, simp add: Let_def)+
    then have "length (take (idx + 1) buffer') = idx + 1" "take (idx + 1) buffer' ! idx = take (idx + 1) buffer ! idx"
      using "1.prems"(2) idx by simp_all
    then have "idx < length buffer'" "buffer' ! idx = buffer ! idx" by simp_all
    then show ?thesis using True k idx by (subst parse_remaining_length_loop.simps) (simp add: Let_def)
  next
    case False
    have m: "\<not> m * 128 > 128 * 128 * 128"
      using "1.prems"(1) False idx by (subst (asm) parse_remaining_length_loop.simps, simp add: Let_def split: if_splits)
    have rest: "parse_remaining_length_loop buffer (idx + 1) (m * 128) (v + (?b AND 127) * m) = Ok (n, k)"
      using "1.prems"(1) False idx m by (subst (asm) parse_remaining_length_loop.simps, simp add: Let_def)
    from "1.IH" [OF idx refl refl refl False refl m rest "1.prems"(2)] have
      IH: "parse_remaining_length_loop buffer' (idx + 1) (m * 128) (v + (?b AND 127) * m) = Ok (n, k)" "idx < k" "k < length buffer"
      by auto
    have "length (take (k + 1) buffer') = k + 1" "take (k + 1) buffer' ! idx = take (k + 1) buffer ! idx"
      using "1.prems"(2) IH(3) by simp_all
    then have "idx < length buffer'" "buffer' ! idx = buffer ! idx" using IH(2) by (auto simp: min_def split: if_splits)
    then show ?thesis using False m IH by (subst parse_remaining_length_loop.simps) (simp add: Let_def)
  qed
qed

section \<open>The receive buffer\<close>

definition rp_fits :: "rp_reader \<Rightarrow> bool" where
  "rp_fits r \<longleftrightarrow> rp_len r \<le> length (rp_buffer r)"

lemma socket_read_within: "socket_read space cs = (Some c, cs') \<Longrightarrow> length c \<le> space"
  by (induction space cs rule: socket_read.induct) (auto split: if_splits)

lemma rp_fill_fits:
  "rp_fits s \<Longrightarrow> rp_fill need s = (x, s') \<Longrightarrow> x \<noteq> Out_Of_Range \<and> rp_fits s' \<and> (x = Filled \<longrightarrow> need \<le> rp_len s') \<and>
     rp_len s \<le> rp_len s' \<and> take (rp_len s) (rp_buffer s') = take (rp_len s) (rp_buffer s)"
proof (induction need s rule: rp_fill.induct)
  case (1 need s)
  have in_range: "\<not> length (rp_buffer s) < rp_len s" using "1.prems"(1) by (simp add: rp_fits_def)
  show ?case
  proof (cases "rp_len s < need")
    case False
    then show ?thesis using "1.prems" rp_fill_done [of need s] by auto
  next
    case True
    obtain y cs where y: "socket_read (length (rp_buffer s) - rp_len s) (rp_socket s) = (y, cs)" by force
    show ?thesis
    proof (cases "\<exists>c. y = Some c \<and> length c \<noteq> 0")
      case False
      then have "rp_fill need s = (Read_Error, s\<lparr>rp_socket := cs\<rparr>) \<or> rp_fill need s = (End_Of_Stream, s\<lparr>rp_socket := cs\<rparr>)"
        using True in_range y by (subst (1 2) rp_fill.simps) (auto split: option.splits)
      then show ?thesis using "1.prems" by (auto simp: rp_fits_def)
    next
      case c: True
      then obtain c where c: "y = Some c" "length c \<noteq> 0" by blast
      have l: "rp_len s + length c \<le> length (rp_buffer s)" using socket_read_within y c(1) in_range by fastforce
      let ?s = "\<lparr>rp_buffer = put_at (rp_buffer s) (rp_len s) c, rp_len = rp_len s + length c, rp_socket = cs\<rparr>"
      have fits: "rp_fits ?s" "rp_fill need ?s = (x, s')"
        using l "1.prems"(2) True in_range y c by (simp add: rp_fits_def, subst (asm) rp_fill.simps, simp)
      from "1.IH" [OF True in_range y [symmetric] c(1) c(2) fits] have
        IH: "x \<noteq> Out_Of_Range \<and> rp_fits s' \<and> (x = Filled \<longrightarrow> need \<le> rp_len s')" "rp_len s + length c \<le> rp_len s'"
          "take (rp_len s + length c) (rp_buffer s') = take (rp_len s + length c) (put_at (rp_buffer s) (rp_len s) c)" by auto
      have "take (rp_len s) (rp_buffer s') = take (rp_len s) (put_at (rp_buffer s) (rp_len s) c)"
        using arg_cong [OF IH(3), of "take (rp_len s)"] by simp
      then show ?thesis using IH in_range by (auto simp: put_at_def)
    qed
  qed
qed

text \<open>The only panic of the reader is the one of the decoder on a complete frame.\<close>

definition fatal_frame :: "bytes \<Rightarrow> bool" where
  "fatal_frame frame \<longleftrightarrow> (\<exists>n k size. read_variable_length (drop 1 frame) = Ok (n, k) \<and> length frame = 1 + k + n \<and>
     fixed_size (PacketType_from (drop_bit 4 (frame ! 0))) = Some size \<and> size \<le> variable_length_length n)"

lemma rp_read_fits:
  assumes fits: "rp_fits s" and e: "rp_read_packet N M s = (x, s')" and NM: "N < 2 ^ 16" "M < 2 ^ 16"
  shows "x \<noteq> Panic \<Longrightarrow> rp_fits s'" and "x = Panic \<Longrightarrow> \<exists>frame. fatal_frame frame \<and> Packet_decode N M frame = Panic"
proof -
  obtain y s1 where s1: "rp_fill 2 s = (y, s1)" by force
  note f1 = rp_fill_fits [OF fits s1]
  then have sl1: "slice (rp_buffer s1) 0 (rp_len s1) = (Ok (take (rp_len s1) (rp_buffer s1)) :: (bytes, ProtocolError) result)" by (simp add: slice_def rp_fits_def)
  show "x \<noteq> Panic \<Longrightarrow> rp_fits s'" and "x = Panic \<Longrightarrow> \<exists>frame. fatal_frame frame \<and> Packet_decode N M frame = Panic"
  proof (atomize(full), cases "y = Filled \<and> (\<exists>n v. parse_remaining_length (take (rp_len s1) (rp_buffer s1)) = Ok (n, v))")
    case False
    then show "(x \<noteq> Panic \<longrightarrow> rp_fits s') \<and> (x = Panic \<longrightarrow> (\<exists>frame. fatal_frame frame \<and> Packet_decode N M frame = Panic))"
      using e s1 f1 sl1 parse_remaining_length_not_Panic [of _ 1 1 0, folded parse_remaining_length_def]
      by (cases y; cases "parse_remaining_length (take (rp_len s1) (rp_buffer s1))") (auto simp: rp_read_packet_def)
  next
    case True
    then obtain n v where parse: "parse_remaining_length (take (rp_len s1) (rp_buffer s1)) = Ok (n, v)" by blast
    let ?t = "1 + v + n"
    obtain z s2 where s2: "rp_fill ?t s1 = (z, s2)" by force
    note f2 = rp_fill_fits [OF conjunct1 [OF conjunct2 [OF f1]] s2]
    have b: "v < rp_len s1"
      using parse_loop_prefix [OF parse [unfolded parse_remaining_length_def] refl] f1 by (auto simp: rp_fits_def)
    show "(x \<noteq> Panic \<longrightarrow> rp_fits s') \<and> (x = Panic \<longrightarrow> (\<exists>frame. fatal_frame frame \<and> Packet_decode N M frame = Panic))"
    proof (cases "z = Filled")
      case False
      then show ?thesis using e s1 s2 f2 sl1 parse True by (cases z) (auto simp: rp_read_packet_def Let_def)
    next
      case filled: True
      let ?f = "take ?t (rp_buffer s2)"
      have len: "?t \<le> length (rp_buffer s2)" using f2 filled by (auto simp: rp_fits_def)
      then have sl2: "slice (rp_buffer s2) 0 ?t = (Ok ?f :: (bytes, ProtocolError) result)" by (simp add: slice_def)
      have "take (v + 1) ?f = take (v + 1) (take (rp_len s1) (rp_buffer s1))"
        using arg_cong [of _ _ "take (v + 1)", OF conjunct2 [OF conjunct2 [OF conjunct2 [OF conjunct2 [OF f2]]]]] b by simp
      from parse_loop_prefix [OF parse [unfolded parse_remaining_length_def] this]
      have "read_variable_length (drop 1 ?f) = Ok (n, v)"
        by (intro parse_remaining_length_agrees) (simp add: parse_remaining_length_def)
      then have fatal: "fatal_frame ?f" if "Packet_decode N M ?f = Panic"
        using Packet_decode_Panic [OF NM that] len by (auto simp: fatal_frame_def)
      show ?thesis
        using e s1 s2 f2 sl1 sl2 parse True filled len fatal
        by (cases "Packet_decode N M ?f") (auto simp: rp_read_packet_def Let_def rp_fits_def put_at_def)
    qed
  qed
qed

section \<open>The sections that cannot panic\<close>

definition writable :: "config \<Rightarrow> Packet \<Rightarrow> bool" where
  "writable cfg p \<longleftrightarrow> Packet_wf (MAX_TOPIC_NAME_LENGTH cfg) (MAX_PAYLOAD_SIZE cfg) p \<and> server_packet p"

lemma reachable_writable:
  assumes "reachable cfg b" "config_ok cfg" "p \<in> set (tx b k)"
  shows "writable cfg p"
  using reachable_invariants [OF assms(1,2)] reachable_server_packets [OF assms(1,2)] assms(3)
  unfolding writable_def traffic_wf_def by blast

lemma rp_write_loop_not_Panic: "fst (rp_write_loop sz written buffer accepts sent) \<noteq> Panic"
  by (induction sz written buffer accepts sent rule: rp_write_loop.induct) (auto simp: Let_def split: option.split)

lemma rp_write_packet_not_Panic:
  assumes "writable cfg p"
  shows "fst (rp_write_packet p w) \<noteq> Panic"
proof (cases "length (Packet_wire p) \<le> length (wr_buffer w)")
  case True
  from packet.encode_fits [OF conjunct1 [OF assms [unfolded writable_def]] True] True show ?thesis
    using rp_write_loop_not_Panic [of "length (Packet_wire p)" 0 "put_at (wr_buffer w) 0 (Packet_wire p)" "wr_accepts w" "wr_sent w"]
    by (auto simp: rp_write_packet_def split: prod.split)
next
  case False
  have "Packet_packet_type p \<noteq> PT_Connect" using assms by (auto simp: writable_def server_packet_def)
  from Packet_too_small [OF conjunct1 [OF assms [unfolded writable_def]] this, of "wr_buffer w"] False show ?thesis
    by (auto simp: rp_write_packet_def)
qed

text \<open>The documented behaviour of the vectors of the crate, as far as it is needed here.\<close>

definition push_keeps :: "(Packet list \<Rightarrow> Packet \<Rightarrow> Packet list option) \<Rightarrow> bool" where
  "push_keeps push \<longleftrightarrow> (\<forall>v p v'. push v p = Some v' \<longrightarrow> v' = v @ [p])"

definition collects_four :: "(u128 list \<Rightarrow> u128 list option) \<Rightarrow> bool" where
  "collects_four collect \<longleftrightarrow> (\<forall>xs. length xs \<le> 4 \<longrightarrow> collect xs = Some xs)"

lemma rp_collect_subset:
  assumes "push_keeps push"
  shows "set (rp_collect push ps) \<subseteq> set ps"
proof -
  have "set (foldl (\<lambda>v pkt. case push v pkt of Some v' \<Rightarrow> v' | None \<Rightarrow> v) v ps) \<subseteq> set v \<union> set ps" for v
  proof (induction ps arbitrary: v)
    case (Cons p ps)
    have "set (case push v p of Some v' \<Rightarrow> v' | None \<Rightarrow> v) \<subseteq> insert p (set v)"
    proof (cases "push v p")
      case (Some w)
      then have "w = v @ [p]" using assms by (simp add: push_keeps_def)
      then show ?thesis using Some by auto
    qed auto
    then show ?case using Cons.IH [of "case push v p of Some v' \<Rightarrow> v' | None \<Rightarrow> v"] by auto
  qed simp
  from this [of "[]"] show ?thesis by (simp add: rp_collect_def)
qed

lemma rp_cleanup_not_panics:
  assumes wf: "broker_wf cfg b" and four: "MAX_SESSIONS cfg \<le> 4" "collects_four collect"
  shows "rp_cleanup collect t b \<noteq> None"
proof -
  note sw = broker_wf_parts(2) [OF wf]
  let ?E = "map ei_session_id (flatten (PicoBroker_get_expired_sessions (rp_current_time_nanos t) b))"
  have "length ?E \<le> length (live (br_sessions b))"
    using get_expired_sessions_eq [OF sw] by (simp add: PicoBroker_get_expired_sessions_def)
  then have E: "collect ?E = Some ?E" using four live_within [OF sw] by (auto simp: collects_four_def)
  from remove_all_eq [OF wf, of ?E] obtain b1 where b1: "remove_all ?E b = (Ok (), b1)" "broker_wf cfg b1" by blast
  note sw1 = broker_wf_parts(2) [OF b1(2)]
  let ?D = "flatten (PicoBroker_get_disconnected_sessions b1)"
  have "length ?D \<le> length (live (br_sessions b1))"
    using get_disconnected_sessions_eq [OF sw1] by (simp add: PicoBroker_get_disconnected_sessions_def)
  then have D: "collect ?D = Some ?D" using four live_within [OF sw1] by (auto simp: collects_four_def)
  from remove_all_eq [OF b1(2), of ?D] show ?thesis using E b1(1) D by (auto simp: rp_cleanup_def)
qed

section \<open>The invariant\<close>

text \<open>What a task carries: a receive buffer that is not overrun, and packets that can be written.\<close>

fun carried :: "rp_phase \<Rightarrow> Packet list" where
  "carried (Rp_Notifying _ pkts) = pkts"
| "carried (Rp_Writing pkts) = pkts"
| "carried _ = []"

definition rp_sane :: "config \<Rightarrow> rp_conn \<Rightarrow> bool" where
  "rp_sane cfg c \<longleftrightarrow> rp_fits (rc_reader c) \<and> (\<forall>p \<in> set (carried (rc_phase c)). writable cfg p)"

lemma rp_socket_event_sane:
  assumes "rp_sane cfg c" "config_ok cfg" "rc_phase c = Rp_Looping"
  shows "rp_socket_event cfg t c = Some c' \<Longrightarrow> rp_sane cfg c'"
    and "rp_socket_event cfg t c = None \<Longrightarrow> \<exists>frame. fatal_frame frame \<and>
      Packet_decode (MAX_TOPIC_NAME_LENGTH cfg) (MAX_PAYLOAD_SIZE cfg) frame = Panic"
proof -
  let ?r = "rc_reader c" and ?N = "MAX_TOPIC_NAME_LENGTH cfg" and ?M = "MAX_PAYLOAD_SIZE cfg"
  have NM: "?N < 2 ^ 16" "?M < 2 ^ 16" using assms(2) by (simp_all add: config_ok_def)
  have fits: "rp_fits ?r" using assms(1) by (simp add: rp_sane_def)
  obtain y cs where y: "socket_read (length (rp_buffer ?r) - rp_len ?r) (rp_socket ?r) = (y, cs)" by force
  have "(\<forall>c'. rp_socket_event cfg t c = Some c' \<longrightarrow> rp_sane cfg c') \<and> (rp_socket_event cfg t c = None \<longrightarrow>
      (\<exists>frame. fatal_frame frame \<and> Packet_decode ?N ?M frame = Panic))"
  proof (cases "\<exists>data. y = Some data \<and> length data \<noteq> 0")
    case False
    then have "rp_socket_event cfg t c = Some (c\<lparr>rc_phase := Rp_Unregistering, rc_reader := ?r\<lparr>rp_socket := cs\<rparr>\<rparr>)"
      using y fits by (auto simp: rp_socket_event_def Let_def rp_fits_def split: option.splits)
    then show ?thesis using fits by (simp add: rp_sane_def rp_fits_def)
  next
    case True
    then obtain data where data: "y = Some data" "length data \<noteq> 0" by blast
    let ?r1 = "\<lparr>rp_buffer = put_at (rp_buffer ?r) (rp_len ?r) data, rp_len = rp_len ?r + length data, rp_socket = cs\<rparr>"
    have r1: "rp_fits ?r1" using socket_read_within y data(1) fits by (fastforce simp: rp_fits_def)
    obtain x r2 where r2: "rp_read_packet ?N ?M ?r1 = (x, r2)" by force
    have "rp_socket_event cfg t c = (case x of
         Ok (Some packet) \<Rightarrow> Some (c\<lparr>rc_phase := Rp_Processing packet, rc_reader := r2, rc_last := t\<rparr>)
       | Ok None \<Rightarrow> Some (c\<lparr>rc_reader := r2\<rparr>)
       | Err _ \<Rightarrow> Some (c\<lparr>rc_phase := Rp_Unregistering, rc_reader := r2\<rparr>)
       | Panic \<Rightarrow> None)"
      using y fits data r2 by (simp add: rp_socket_event_def Let_def rp_fits_def split: result.split option.split)
    then show ?thesis
      using rp_read_fits [OF r1 r2 NM] assms(3) by (cases x) (auto simp: rp_sane_def split: option.splits)
  qed
  then show "rp_socket_event cfg t c = Some c' \<Longrightarrow> rp_sane cfg c'"
    and "rp_socket_event cfg t c = None \<Longrightarrow> \<exists>frame. fatal_frame frame \<and> Packet_decode ?N ?M frame = Panic" by blast+
qed

text \<open>One step of a task: it keeps what the task carries in order, and halts only in the decoder.\<close>

lemma rp_step_sane:
  assumes st: "rp_step cfg push collect s i c s'" and c: "rp_sane cfg c" "rp_phase_ok cfg (rc_phase c)"
    and b: "reachable cfg (rs_broker s)" and cfg: "config_ok cfg" and push: "push_keeps push"
  obtains (moved) c' where "rs_conns s' = (rs_conns s)[i := c']" "rp_sane cfg c'" "rs_halted s' = rs_halted s"
    | (halted) t where "rs_conns s' = rs_conns s" "rc_phase c = Rp_Looping" "rp_socket_event cfg t c = None"
proof -
  have wf: "broker_wf cfg (rs_broker s)" using reachable_invariants [OF b cfg] by simp
  have sane: "rp_sane cfg (c\<lparr>rc_phase := ph\<rparr>) \<longleftrightarrow> (\<forall>p \<in> set (carried ph). writable cfg p)" for ph
    using c(1) by (simp add: rp_sane_def)
  note carried_c = c(1) [unfolded rp_sane_def, THEN conjunct2]
  note defs = rp_put_def rp_conn_outcome_def rp_broker_outcome_def
  show ?thesis
    using st
  proof cases
    case (accepted now socket accepts c' gen')
    then have "rp_sane cfg c'" by (auto simp: rp_accepted_def rp_sane_def rp_fits_def split: prod.splits)
    then show ?thesis using accepted by (intro moved [of c']) (simp_all add: defs)
  next
    case (register now_ticks)
    from rp_register_eq [OF wf cfg, of now_ticks c] obtain b' ph where
      "rp_register cfg now_ticks (rs_broker s, c) = Some (b', c\<lparr>rc_phase := ph\<rparr>)" "carried ph = []" by auto
    then show ?thesis using register sane by (intro moved [of "c\<lparr>rc_phase := ph\<rparr>"]) (simp_all add: defs)
  next
    case (register_channel instant)
    then show ?thesis
      using c(1) by (intro moved [of "c\<lparr>rc_phase := Rp_Looping, rc_last := instant\<rparr>"]) (simp_all add: defs rp_sane_def)
  next
    case (socket instant)
    then show ?thesis
      using rp_socket_event_sane(1) [OF c(1) cfg socket(2)] halted [of instant]
      by (cases "rp_socket_event cfg instant c") (auto intro: moved simp: defs)
  next
    case notified
    then show ?thesis using sane by (intro moved [of "c\<lparr>rc_phase := Rp_Draining\<rparr>"]) (simp_all add: defs)
  next
    case (process packet now_ticks)
    have "decoded cfg packet" using c(2) process(2) by simp
    from rp_process_eq [OF wf cfg this, of push now_ticks c] obtain b' ph where
      b': "rp_process cfg push now_ticks packet (rs_broker s, c) = Some (b', c\<lparr>rc_phase := ph\<rparr>)" and
      ph: "ph = Rp_Unregistering \<or> (\<exists>ks ps b1. ph = Rp_Notifying ks (rp_collect push ps) \<and>
        (broker_step cfg)\<^sup>*\<^sup>* (rs_broker s) b1 \<and> ps = tx b1 (rc_sid c))" by blast
    have "\<forall>p \<in> set (carried ph). writable cfg p"
      using ph reachable_writable [OF reachable_steps [OF _ b] cfg] rp_collect_subset [OF push] by (elim disjE exE) (simp, auto, blast)
    then show ?thesis using process b' sane by (intro moved [of "c\<lparr>rc_phase := ph\<rparr>"]) (simp_all add: defs)
  next
    case (notify sid sids pkts)
    then show ?thesis using sane carried_c by (intro moved [of "c\<lparr>rc_phase := Rp_Notifying sids pkts\<rparr>"]) (simp_all add: defs)
  next
    case (notified_all pkts)
    then show ?thesis using sane carried_c by (intro moved [of "c\<lparr>rc_phase := Rp_Writing pkts\<rparr>"]) (simp_all add: defs)
  next
    case drain
    let ?ph = "Rp_Writing (rp_collect push (tx (rs_broker s) (rc_sid c)))"
    have "\<forall>p \<in> set (carried ?ph). writable cfg p"
      using reachable_writable [OF b cfg] rp_collect_subset [OF push] by fastforce
    then show ?thesis
      using drain rp_drain_eq [OF wf, of push c] sane by (intro moved [of "c\<lparr>rc_phase := ?ph\<rparr>"]) (auto simp: defs)
  next
    case (write_one pkt pkts)
    obtain x w where w: "rp_write_packet pkt (rc_writer c) = (x, w)" by force
    have "x \<noteq> Panic" using rp_write_packet_not_Panic [of cfg pkt "rc_writer c"] carried_c write_one(2) w by auto
    then obtain ph where ph: "rp_write_one pkt pkts c = Some (c\<lparr>rc_phase := ph, rc_writer := w\<rparr>)" "ph = Rp_Writing pkts \<or> ph = Rp_Looping"
      using w by (cases x) (auto simp: rp_write_one_def)
    then have "rp_sane cfg (c\<lparr>rc_phase := ph, rc_writer := w\<rparr>)" using c(1) write_one(2) by (auto simp: rp_sane_def)
    then show ?thesis using write_one ph(1) by (intro moved [of "c\<lparr>rc_phase := ph, rc_writer := w\<rparr>"]) (simp_all add: defs)
  next
    case remove
    then show ?thesis
      using rp_remove_eq [OF wf, of c] sane by (intro moved [of "c\<lparr>rc_phase := Rp_Accepting\<rparr>"]) (auto simp: defs)
  next
    case (timeout instant)
    then show ?thesis using sane by (intro moved [of "c\<lparr>rc_phase := Rp_Unregistering\<rparr>"]) (simp_all add: defs)
  next
    case written_all
    then show ?thesis using sane by (intro moved [of "c\<lparr>rc_phase := Rp_Looping\<rparr>"]) (simp_all add: defs)
  next
    case unregister
    then show ?thesis using sane by (intro moved [of "c\<lparr>rc_phase := Rp_Removing\<rparr>"]) (simp_all add: defs)
  qed
qed

lemma rp_reachable_sane:
  assumes "rp_reachable cfg push collect s" "config_ok cfg" "push_keeps push"
  shows "\<forall>c \<in> set (rs_conns s). rp_sane cfg c"
  using assms(1)
proof induction
  case start
  show ?case by (simp add: rp_main_def rp_conn_idle_def rp_sane_def rp_fits_def)
next
  case (step s s')
  note inv = rp_reachable_inv [OF step.hyps(1) assms(2)]
  from step.hyps(2) show ?case
  proof cases
    case (task i)
    have "rp_sane cfg (rs_conns s ! i)" "rp_phase_ok cfg (rc_phase (rs_conns s ! i))" using step.IH inv task(2) by simp_all
    from task(3) this conjunct1 [OF inv] assms(2,3) show ?thesis
      by (cases rule: rp_step_sane) (use step.IH set_update_subset_insert [of "rs_conns s" i] in fastforce)+
  qed (use step.IH in simp_all)
qed

section \<open>Registration\<close>

lemma rp_register_succeeds:
  assumes run: "rp_run cfg push collect failures s" and cfg: "config_ok cfg"
    and i: "i < length (rs_conns s)" "rc_phase (rs_conns s ! i) = Rp_Registering"
  shows "\<exists>b. rp_register cfg t (rs_broker s, rs_conns s ! i) = Some (b, (rs_conns s ! i)\<lparr>rc_phase := Rp_Registering_Channel\<rparr>)"
proof -
  from rp_run_owned [OF run cfg] have own: "rp_owned cfg s" and num: "rp_numbered s" by simp_all
  have wf: "broker_wf cfg (rs_broker s)"
    using reachable_invariants rp_reachable_inv [OF rp_run_reachable [OF run] cfg] cfg by blast
  have nh: "\<not> rp_has_session (rc_phase (rs_conns s ! i))" using i(2) by (simp add: rp_has_session_def)
  have new: "rc_sid (rs_conns s ! i) \<notin> set (session_ids (rs_broker s))" using rp_ownedD(2) [OF own num i(1)] i(2) nh by auto
  let ?others = "{..<length (rs_conns s)} - {i}" and ?sid = "\<lambda>j. rc_sid (rs_conns s ! j)"
  have "k \<in> ?sid ` ?others" if k: "k \<in> set (session_ids (rs_broker s))" for k
  proof -
    obtain j where "j < length (rs_conns s)" "rp_has_session (rc_phase (rs_conns s ! j))" "?sid j = k"
      using own k unfolding rp_owned_def by blast
    then show ?thesis using nh by blast
  qed
  then have "card (set (session_ids (rs_broker s))) \<le> card (?sid ` ?others)" by (intro card_mono) auto
  also have "\<dots> \<le> card ?others" by (rule card_image_le) simp
  also have "\<dots> = length (rs_conns s) - 1" using i(1) by simp
  finally have "length (session_ids (rs_broker s)) \<le> length (rs_conns s) - 1"
    using sr.ids_law [OF broker_wf_parts(2) [OF wf]] by (simp add: distinct_card)
  then have "length (session_ids (rs_broker s)) \<noteq> MAX_SESSIONS cfg" using own i(1) by (simp add: rp_owned_def)
  then show ?thesis using rp_register_eq [OF wf cfg, of t "rs_conns s ! i"] new by auto
qed

section \<open>A run\<close>

text \<open>The first connection: accepted, registered, and in the loop of its handler.\<close>

lemma rp_run_task:
  assumes "rp_run cfg push collect failures s" "\<not> rs_halted s" "i < length (rs_conns s)"
    and "rp_step cfg push collect s i (rs_conns s ! i) s'" "rp_regular s'" "\<And>p. rc_phase (rs_conns s ! i) \<noteq> Rp_Processing p"
    and "rs_conns s' = (rs_conns s)[i := c']"
  shows "rp_run cfg push collect failures s'"
proof (rule rp_run.step [OF assms(1) rp_server_step.task [OF assms(2-4)] assms(5)])
  have "rc_phase (rs_conns s' ! j) \<noteq> Rp_Unregistering" if "j < length (rs_conns s)" "rc_phase (rs_conns s ! j) = Rp_Processing p" for j p
    using that assms(3,6,7) by (cases "j = i") auto
  then show "failures \<or> \<not> rp_failing s s'" unfolding rp_failing_def by blast
qed

lemma rp_looping_run:
  assumes cfg: "config_ok cfg" "0 < MAX_SESSIONS cfg"
  shows "\<exists>s. rp_run cfg push collect failures s \<and> \<not> rs_halted s \<and> 0 < length (rs_conns s) \<and>
    rc_phase (rs_conns s ! 0) = Rp_Looping \<and>
    rc_reader (rs_conns s ! 0) = \<lparr>rp_buffer = replicate RX_BUFFER_SIZE 0, rp_len = 0, rp_socket = socket\<rparr>"
proof -
  let ?R = "rp_run cfg push collect failures" and ?s0 = "rp_main cfg"
  obtain c1 gen where c1: "rp_accepted 1 socket accepts 0 = (c1, gen)" by force
  then have f1: "rc_phase c1 = Rp_Registering" "rc_sid c1 = session_id_of 1 0" "gen = 1"
    "rc_reader c1 = \<lparr>rp_buffer = replicate RX_BUFFER_SIZE 0, rp_len = 0, rp_socket = socket\<rparr>"
    by (auto simp: rp_accepted_def SessionIdGen_generate_def)
  have nz: "session_id_of 1 0 \<noteq> 0" by (simp add: session_id_of_def)
  let ?s1 = "rp_put 0 c1 (?s0\<lparr>rs_gen := gen\<rparr>)"
  have len: "length (rs_conns ?s0) = MAX_SESSIONS cfg" "rs_conns ?s0 ! 0 = rp_conn_idle" "rs_gen ?s0 = 0" "\<not> rs_halted ?s0"
    using cfg(2) by (simp_all add: rp_main_def)
  have idle: "c \<in> set (rs_conns ?s0) \<Longrightarrow> c = rp_conn_idle" for c by (simp add: rp_main_def)
  have reg1: "rp_regular ?s1"
    using f1 nz idle set_update_subset_insert [of "rs_conns ?s0" 0 c1] by (fastforce simp: rp_regular_def rp_put_def rp_conn_idle_def)
  have conns1: "rs_conns ?s1 = (rs_conns ?s0)[0 := c1]" by (simp add: rp_put_def)
  have r1: "?R ?s1"
    by (rule rp_run_task [OF rp_run.start, where i = 0 and c' = c1])
      (use len cfg(2) c1 reg1 conns1 in \<open>auto simp: rp_conn_idle_def intro!: rp_step.accepted\<close>)
  have at1: "rs_conns ?s1 ! 0 = c1" "0 < length (rs_conns ?s1)" "\<not> rs_halted ?s1" using cfg(2) len conns1 by (simp_all add: rp_put_def)
  from rp_register_succeeds [OF r1 cfg(1) at1(2), of 1] f1(1) at1(1) obtain b where
    b: "rp_register cfg 1 (rs_broker ?s1, c1) = Some (b, c1\<lparr>rc_phase := Rp_Registering_Channel\<rparr>)" by auto
  let ?c2 = "c1\<lparr>rc_phase := Rp_Registering_Channel\<rparr>"
  define s2 where "s2 = rp_put 0 ?c2 (?s1\<lparr>rs_broker := b\<rparr>)"
  have conns2: "rs_conns s2 = (rs_conns ?s1)[0 := ?c2]" "rs_gen s2 = rs_gen ?s1" "rs_halted s2 = rs_halted ?s1"
    by (simp_all add: s2_def rp_put_def)
  have reg2: "rp_regular s2"
    using reg1 conns2 set_update_subset_insert [of "rs_conns ?s1" 0 ?c2] by (fastforce simp: rp_regular_def)
  have "rp_step cfg push collect ?s1 0 c1 s2"
    using rp_step.register [OF f1(1), of cfg push collect ?s1 0 1] b by (simp add: rp_broker_outcome_def s2_def)
  then have r2: "?R s2"
    by (intro rp_run_task [OF r1, where i = 0 and c' = ?c2]) (use at1 f1 reg2 conns2 in simp_all)
  have at2: "rs_conns s2 ! 0 = ?c2" "0 < length (rs_conns s2)" "\<not> rs_halted s2" using at1 conns2 by simp_all
  let ?c3 = "?c2\<lparr>rc_phase := Rp_Looping, rc_last := 0\<rparr>"
  define s3 where "s3 = rp_put 0 ?c3 (s2\<lparr>rs_registry := NotificationRegistry_register_session 0 (rc_sid ?c2) (rs_registry s2)\<rparr>)"
  have conns3: "rs_conns s3 = (rs_conns s2)[0 := ?c3]" "rs_gen s3 = rs_gen s2" "rs_halted s3 = rs_halted s2"
    by (simp_all add: s3_def rp_put_def)
  have reg3: "rp_regular s3"
    using reg2 conns3 set_update_subset_insert [of "rs_conns s2" 0 ?c3] by (fastforce simp: rp_regular_def)
  have "rp_step cfg push collect s2 0 ?c2 s3" unfolding s3_def by (rule rp_step.register_channel) simp
  then have "?R s3"
    by (intro rp_run_task [OF r2, where i = 0 and c' = ?c3]) (use at2 reg3 conns3 in simp_all)
  moreover have "rs_conns s3 ! 0 = ?c3" "0 < length (rs_conns s3)" "\<not> rs_halted s3" using at2 conns3 by simp_all
  ultimately show ?thesis using f1(4) by (intro exI [of _ s3]) simp
qed

lemma rp_fatal_run:
  assumes cfg: "config_ok cfg" "0 < MAX_SESSIONS cfg"
  shows "\<exists>s s'. rp_reachable cfg push collect s \<and> rp_server_step cfg push collect s s' \<and> rs_halted s' \<and>
    (\<forall>s''. \<not> rp_server_step cfg push collect s' s'')"
proof -
  from rp_looping_run [OF cfg, of push collect True "[Some ([0xC0, 0x80, 1] @ replicate 128 0)]"] obtain s where
    s: "rp_run cfg push collect True s" "\<not> rs_halted s" "0 < length (rs_conns s)" "rc_phase (rs_conns s ! 0) = Rp_Looping"
      "rc_reader (rs_conns s ! 0) = \<lparr>rp_buffer = replicate 1536 0, rp_len = 0, rp_socket = [Some ([0xC0, 0x80, 1] @ replicate 128 0)]\<rparr>"
    unfolding RX_BUFFER_SIZE_def by blast
  with rp_fatal_read [OF s(2-5), of cfg push collect] rp_run_reachable [OF s(1)] show ?thesis by blast
qed

section \<open>Properties\<close>

text \<open>
  C18: Ownership in the rp2040 server. In every regular run, each session of the broker belongs to exactly one accept task, one that
  has registered it and has not removed it yet; each entry of the notification registry is the session of its task while the
  task's handler runs, and free otherwise. Therefore a task that registers a session always succeeds: there is always
  room, and the identifier is new.
\<close>

theorem rp_sessions_owned:
  assumes "rp_run cfg push collect failures s" "config_ok cfg"
  shows "(\<forall>k \<in> set (session_ids (rs_broker s)). \<exists>!i. i < length (rs_conns s) \<and> rp_has_session (rc_phase (rs_conns s ! i)) \<and>
      rc_sid (rs_conns s ! i) = k) \<and>
    (\<forall>i < length (rs_conns s). nr_session_ids (rs_registry s) ! i =
      (if rp_has_channel (rc_phase (rs_conns s ! i)) then rc_sid (rs_conns s ! i) else 0)) \<and>
    (\<forall>i < length (rs_conns s). rc_phase (rs_conns s ! i) = Rp_Registering \<longrightarrow>
      (\<exists>b. rp_register cfg t (rs_broker s, rs_conns s ! i) = Some (b, (rs_conns s ! i)\<lparr>rc_phase := Rp_Registering_Channel\<rparr>)))"
proof -
  from rp_run_owned [OF assms] have own: "rp_owned cfg s" and num: "rp_numbered s" by simp_all
  have act: "rp_has_session ph \<Longrightarrow> ph \<noteq> Rp_Accepting" for ph by (auto simp: rp_has_session_def)
  have uniq: "i = j" if "i < length (rs_conns s)" "j < length (rs_conns s)" "rc_phase (rs_conns s ! i) \<noteq> Rp_Accepting"
    "rc_phase (rs_conns s ! j) \<noteq> Rp_Accepting" "rc_sid (rs_conns s ! i) = rc_sid (rs_conns s ! j)" for i j
    using num that unfolding rp_numbered_def by blast
  have "\<exists>!i. i < length (rs_conns s) \<and> rp_has_session (rc_phase (rs_conns s ! i)) \<and> rc_sid (rs_conns s ! i) = k"
    if k: "k \<in> set (session_ids (rs_broker s))" for k
  proof -
    obtain i where "i < length (rs_conns s)" "rp_has_session (rc_phase (rs_conns s ! i))" "rc_sid (rs_conns s ! i) = k"
      using own k unfolding rp_owned_def by blast
    then show ?thesis using uniq act by (intro ex1I [of _ i]) blast+
  qed
  then show ?thesis using own rp_register_succeeds [OF assms] by (simp add: rp_owned_def)
qed

theorem rp_sessions_owned_witness:
  "\<exists>s. rp_run small_config push8 collect4 True s \<and> rc_phase (rs_conns s ! 0) = Rp_Looping \<and>
     nr_session_ids (rs_registry s) ! 0 = rc_sid (rs_conns s ! 0)"
proof -
  from rp_looping_run [OF small_config_ok, of push8 collect4 True "[]"] obtain s where
    s: "rp_run small_config push8 collect4 True s" "0 < length (rs_conns s)" "rc_phase (rs_conns s ! 0) = Rp_Looping" by auto
  with rp_sessions_owned [OF s(1) small_config_ok, of 0] show ?thesis by (intro exI [of _ s]) (simp add: rp_has_channel_def)
qed

text \<open>
  C19: No lost wake-up in the rp2040 server. In regular runs in which the broker refuses no packet, whenever packets wait in the
  transmit queue of a session whose handler runs, a signal is in the channel of the handler, the handler has just taken one
  and is about to drain the queue, or another handler is about to send one.
\<close>

theorem rp_no_lost_wakeup:
  assumes "rp_run cfg push collect False s" "config_ok cfg" "i < length (rs_conns s)"
    and "rp_has_channel (rc_phase (rs_conns s ! i))"
  shows "tx (rs_broker s) (rc_sid (rs_conns s ! i)) = [] \<or> nr_channels (rs_registry s) ! i \<or> rc_phase (rs_conns s ! i) = Rp_Draining \<or>
    (\<exists>j < length (rs_conns s). \<exists>ks ps. rc_phase (rs_conns s ! j) = Rp_Notifying ks ps \<and> rc_sid (rs_conns s ! i) \<in> set ks)"
  using rp_run_wakes [OF assms(1,2)] assms(3,4) unfolding rp_none_forgotten_def rp_awake_def by blast

theorem rp_no_lost_wakeup_witness:
  "\<exists>s. rp_run small_config push8 collect4 False s \<and> rp_has_channel (rc_phase (rs_conns s ! 0)) \<and>
     (tx (rs_broker s) (rc_sid (rs_conns s ! 0)) = [] \<or> nr_channels (rs_registry s) ! 0 \<or> rc_phase (rs_conns s ! 0) = Rp_Draining \<or>
      (\<exists>j < length (rs_conns s). \<exists>ks ps. rc_phase (rs_conns s ! j) = Rp_Notifying ks ps \<and> rc_sid (rs_conns s ! 0) \<in> set ks))"
proof -
  from rp_looping_run [OF small_config_ok, of push8 collect4 False "[]"] obtain s where
    s: "rp_run small_config push8 collect4 False s" "0 < length (rs_conns s)" "rp_has_channel (rc_phase (rs_conns s ! 0))"
    by (auto simp: rp_has_channel_def)
  from rp_no_lost_wakeup [OF s(1) small_config_ok s(2,3)] s(1,3) show ?thesis by blast
qed



text \<open>
  One client can halt the rp2040 server: in some reachable state, the arrival of a complete PINGREQ frame with remaining length
  128 panics the decoder, and on this target no task runs after a panic.
\<close>

theorem rp_halted_by_client:
  assumes "config_ok cfg" "0 < MAX_SESSIONS cfg"
  shows "\<exists>s s'. rp_reachable cfg push collect s \<and> rp_server_step cfg push collect s s' \<and> rs_halted s' \<and>
    (\<forall>s''. \<not> rp_server_step cfg push collect s' s'')"
  using rp_fatal_run [OF assms] .

theorem rp_halted_by_client_witness:
  "\<exists>s s'. rp_reachable small_config push8 collect4 s \<and> rp_server_step small_config push8 collect4 s s' \<and> rs_halted s'"
proof -
  have "0 < MAX_SESSIONS small_config" by simp
  from rp_halted_by_client [OF small_config_ok this, of push8 collect4] show ?thesis by blast
qed

end
