(* ===== verification/Server_Rp_Service.thy ===== *)
theory Server_Rp_Service
  imports Server_Rp_Halt Server_Tokio_Delivery
begin

text \<open>
  What the clients of the rp2040 server get. While packets wait for a session whose handler is in its loop, the handler can take
  only a bounded number of steps before it takes them all or leaves, whatever the other tasks do meanwhile; and a PUBLISH
  taken from one connection can be written to the connection of a subscriber.
\<close>

section \<open>How long packets wait\<close>

definition rp_in_loop :: "rp_phase \<Rightarrow> bool" where
  "rp_in_loop ph \<longleftrightarrow> ph \<notin> {Rp_Accepting, Rp_Registering, Rp_Registering_Channel, Rp_Unregistering, Rp_Removing}"

definition rp_waiting :: "nat \<Rightarrow> rp_server \<Rightarrow> bool" where
  "rp_waiting i s \<longleftrightarrow> \<not> rs_halted s \<and> i < length (rs_conns s) \<and> rp_in_loop (rc_phase (rs_conns s ! i)) \<and>
     tx (rs_broker s) (rc_sid (rs_conns s ! i)) \<noteq> []"

text \<open>
  Runs in which packets wait for the task \<open>i\<close> all the time, with the number of the steps of this task in them. The other
  tasks and the cleanup run at any time and in any order.
\<close>

inductive rp_waits :: "config \<Rightarrow> (Packet list \<Rightarrow> Packet \<Rightarrow> Packet list option) \<Rightarrow> (u128 list \<Rightarrow> u128 list option) \<Rightarrow> nat \<Rightarrow>
    rp_server \<Rightarrow> nat \<Rightarrow> rp_server \<Rightarrow> bool"
  for cfg push collect i s where
  here: "rp_waiting i s \<Longrightarrow> rp_waits cfg push collect i s 0 s"
| own: "rp_waits cfg push collect i s n t \<Longrightarrow> rp_step cfg push collect t i (rs_conns t ! i) u \<Longrightarrow> rp_waiting i u \<Longrightarrow>
    rp_waits cfg push collect i s (Suc n) u"
| other: "rp_waits cfg push collect i s n t \<Longrightarrow> j < length (rs_conns t) \<Longrightarrow> j \<noteq> i \<Longrightarrow>
    rp_step cfg push collect t j (rs_conns t ! j) u \<Longrightarrow> rp_waiting i u \<Longrightarrow> rp_waits cfg push collect i s n u"
| cleanup: "rp_waits cfg push collect i s n t \<Longrightarrow> rp_cleanup collect now_ticks (rs_broker t) = Some b \<Longrightarrow>
    rp_waiting i (t\<lparr>rs_broker := b\<rparr>) \<Longrightarrow> rp_waits cfg push collect i s n (t\<lparr>rs_broker := b\<rparr>)"

text \<open>What the socket can still deliver, and the number of steps that are left.\<close>

fun pieces_weight :: "bytes option list \<Rightarrow> nat" where
  "pieces_weight [] = 0"
| "pieces_weight (None # cs) = 1 + pieces_weight cs"
| "pieces_weight (Some data # cs) = 1 + length data + pieces_weight cs"

definition rp_weight :: "rp_conn \<Rightarrow> nat" where
  "rp_weight c = pieces_weight (rp_socket (rc_reader c))"

definition rp_patience :: "rp_conn \<Rightarrow> nat" where
  "rp_patience c = (case rc_phase c of
       Rp_Looping \<Rightarrow> 1 + rp_weight c
     | Rp_Writing pkts \<Rightarrow> length pkts + 2 + rp_weight c
     | Rp_Notifying sids pkts \<Rightarrow> length sids + length pkts + 3 + rp_weight c
     | _ \<Rightarrow> 0)"

lemma weight_socket_read:
  assumes "socket_read space cs = (x, cs')"
  shows "pieces_weight cs' + (case x of Some c \<Rightarrow> length c | None \<Rightarrow> 0) \<le> pieces_weight cs"
  using assms by (cases "(space, cs)" rule: socket_read.cases) (auto split: if_splits)

lemma weight_fill:
  assumes "rp_fill need r = (x, r')"
  shows "rp_weight (c\<lparr>rc_reader := r'\<rparr>) \<le> rp_weight (c\<lparr>rc_reader := r\<rparr>)"
  using assms
proof (induction need r rule: rp_fill.induct)
  case (1 need r)
  show ?case
  proof (cases "rp_len r < need \<and> \<not> length (rp_buffer r) < rp_len r")
    case False
    then show ?thesis using "1.prems" by (subst (asm) rp_fill.simps) (auto split: if_splits)
  next
    case True
    obtain y cs where y: "socket_read (length (rp_buffer r) - rp_len r) (rp_socket r) = (y, cs)" by force
    note le = weight_socket_read [OF y]
    show ?thesis
    proof (cases "\<exists>d. y = Some d \<and> length d \<noteq> 0")
      case False
      then have "r' = r\<lparr>rp_socket := cs\<rparr>"
        using "1.prems" True y by (subst (asm) rp_fill.simps) (auto split: option.splits)
      then show ?thesis using le by (simp add: rp_weight_def)
    next
      case d: True
      then obtain d where d: "y = Some d" "length d \<noteq> 0" by blast
      let ?r = "\<lparr>rp_buffer = put_at (rp_buffer r) (rp_len r) d, rp_len = rp_len r + length d, rp_socket = cs\<rparr>"
      have "rp_fill need ?r = (x, r')" using "1.prems" True y d by (subst (asm) rp_fill.simps) simp
      from "1.IH" [OF _ _ y [symmetric] d(1) d(2) this] True have "rp_weight (c\<lparr>rc_reader := r'\<rparr>) \<le> rp_weight (c\<lparr>rc_reader := ?r\<rparr>)"
        by blast
      then show ?thesis using le by (simp add: rp_weight_def)
    qed
  qed
qed

lemma weight_read:
  assumes "rp_read_packet N M r = (x, r')"
  shows "rp_weight (c\<lparr>rc_reader := r'\<rparr>) \<le> rp_weight (c\<lparr>rc_reader := r\<rparr>)"
proof -
  have upd: "rp_weight (c\<lparr>rc_reader := r\<lparr>rp_buffer := b, rp_len := n\<rparr>\<rparr>) = rp_weight (c\<lparr>rc_reader := r\<rparr>)" for r b n
    by (simp add: rp_weight_def)
  obtain y r1 where y: "rp_fill 2 r = (y, r1)" by force
  then have "r' = r1 \<or> (\<exists>need z r2. rp_fill need r1 = (z, r2) \<and> (r' = r2 \<or> (\<exists>b n. r' = r2\<lparr>rp_buffer := b, rp_len := n\<rparr>)))"
    using assms by (auto simp: rp_read_packet_def Let_def split: fill_result.splits result.splits prod.splits if_splits) blast+
  with weight_fill [OF y, of c] weight_fill [of _ r1 _ _ c] upd show ?thesis by (metis le_trans)
qed

lemma socket_event_weight:
  assumes "rp_socket_event cfg instant c = Some c'" "rc_phase c = Rp_Looping" "rc_phase c' = Rp_Looping"
  shows "rp_weight c' < rp_weight c"
proof -
  let ?r = "rc_reader c"
  obtain y cs where y: "socket_read (length (rp_buffer ?r) - rp_len ?r) (rp_socket ?r) = (y, cs)" by force
  with assms obtain d r2 where d: "y = Some d" "d \<noteq> []" "c' = c\<lparr>rc_reader := r2\<rparr>"
    "rp_read_packet (MAX_TOPIC_NAME_LENGTH cfg) (MAX_PAYLOAD_SIZE cfg)
       \<lparr>rp_buffer = put_at (rp_buffer ?r) (rp_len ?r) d, rp_len = rp_len ?r + length d, rp_socket = cs\<rparr> = (Ok None, r2)"
    by (auto simp: rp_socket_event_def Let_def split: if_splits option.splits result.splits prod.splits)
  from weight_read [OF d(4), of c] weight_socket_read [OF y] d(1-3) show ?thesis by (cases d) (simp_all add: rp_weight_def)
qed

lemma rp_process_takes:
  assumes wf: "broker_wf cfg b" and cfg: "config_ok cfg" and p: "decoded cfg p" and e: "rp_process cfg push t p (b, c) = Some (b', c')"
  shows "rc_phase c' = Rp_Unregistering \<or> tx b' (rc_sid c') = []"
proof -
  from receive_and_process_eq [OF wf p, of "rc_sid c" "rp_current_time_nanos t"] obtain x b1 where
    b1: "receive_and_process cfg (rc_sid c) p (rp_current_time_nanos t) b = (x, b1)" "x \<noteq> Panic" "broker_wf cfg b1" by blast
  obtain b2 where "drain_packets (rc_sid c) b1 = (Ok (tx b1 (rc_sid c)), b2)" "tx b2 = (tx b1)(rc_sid c := [])"
    using drain_packets_eq [OF b1(3), of "rc_sid c"] by blast
  with b1 e show ?thesis by (cases x) (auto simp: rp_process_def split: result.splits)
qed

lemma other_step_keeps:
  assumes "rp_step cfg push collect t j c u" "j \<noteq> i"
  shows "rs_conns u ! i = rs_conns t ! i" "length (rs_conns u) = length (rs_conns t)"
  using assms by (auto elim!: rp_step.cases simp: rp_put_def rp_conn_outcome_def rp_broker_outcome_def split: option.split)

lemma own_step_patience:
  assumes st: "rp_step cfg push collect t i (rs_conns t ! i) u" and i: "rp_waiting i t" "rp_waiting i u"
    and wf: "broker_wf cfg (rs_broker t)" and cfg: "config_ok cfg" and ok: "rp_phase_ok cfg (rc_phase (rs_conns t ! i))"
  shows "rp_patience (rs_conns u ! i) < rp_patience (rs_conns t ! i)"
proof -
  let ?c = "rs_conns t ! i"
  have len: "i < length (rs_conns t)" and loop: "rp_in_loop (rc_phase ?c)" "rp_in_loop (rc_phase (rs_conns u ! i))"
    and full: "tx (rs_broker u) (rc_sid (rs_conns u ! i)) \<noteq> []" and run: "\<not> rs_halted u"
    using i by (simp_all add: rp_waiting_def)
  have same: "rp_weight (c\<lparr>rc_phase := ph\<rparr>) = rp_weight c" "rp_weight (c\<lparr>rc_phase := ph, rc_writer := w\<rparr>) = rp_weight c" for c ph w
    by (simp_all add: rp_weight_def)
  note defs = rp_put_def rp_conn_outcome_def rp_broker_outcome_def rp_patience_def same
  show ?thesis
    using st
  proof cases
    case (socket instant)
    then obtain c' where e: "rp_socket_event cfg instant ?c = Some c'" "rs_conns u ! i = c'"
      using run len by (auto simp: defs split: option.splits)
    from rp_socket_event_phase(2) [OF e(1) socket(2)] loop(2) e(2) consider "rc_phase c' = Rp_Looping" | p where "rc_phase c' = Rp_Processing p"
      by (auto simp: rp_in_loop_def)
    then show ?thesis
      using socket_event_weight [OF e(1) socket(2)] socket(2) e(2) by cases (simp_all add: rp_patience_def)
  next
    case (process packet now_ticks)
    then obtain b' c' where e: "rp_process cfg push now_ticks packet (rs_broker t, ?c) = Some (b', c')" "rs_conns u ! i = c'" "rs_broker u = b'"
      using run len by (auto simp: defs split: option.splits)
    have "decoded cfg packet" using ok process(2) by simp
    from rp_process_takes [OF wf cfg this e(1)] show ?thesis using full loop(2) e by (simp add: rp_in_loop_def)
  next
    case drain
    from drain_packets_eq [OF wf, of "rc_sid ?c"] full drain(1) len have False
      by (auto simp: defs rp_drain_def)
    then show ?thesis ..
  next
    case (write_one pkt pkts)
    then obtain c' where e: "rp_write_one pkt pkts ?c = Some c'" "rs_conns u ! i = c'"
      using run len by (auto simp: defs split: option.splits)
    then show ?thesis unfolding e(2) using write_one(2) by (auto simp: rp_write_one_def defs split: prod.splits result.splits)
  qed (use len loop in \<open>auto simp: defs rp_in_loop_def split: option.splits\<close>)
qed

lemma rp_waits_bound:
  assumes "rp_waits cfg push collect i s n t" "rp_reachable cfg push collect s" "config_ok cfg"
  shows "rp_reachable cfg push collect t \<and> rp_waiting i t \<and> n + rp_patience (rs_conns t ! i) \<le> rp_patience (rs_conns s ! i)"
  using assms(1)
proof induction
  case here
  then show ?case using assms(2) by simp
next
  case (own n t u)
  have w: "rp_waiting i t" and r: "rp_reachable cfg push collect t" using own.IH by blast+
  note inv = rp_reachable_inv [OF r assms(3)]
  have "broker_wf cfg (rs_broker t)" using reachable_invariants inv assms(3) by blast
  moreover have "rp_phase_ok cfg (rc_phase (rs_conns t ! i))" using inv w by (simp add: rp_waiting_def)
  ultimately have "rp_patience (rs_conns u ! i) < rp_patience (rs_conns t ! i)"
    using own_step_patience [OF own.hyps(2) w own.hyps(3)] assms(3) by blast
  moreover have "rp_server_step cfg push collect t u" using own.hyps(2) w by (intro rp_server_step.task) (auto simp: rp_waiting_def)
  ultimately show ?case using own.IH own.hyps(3) rp_reachable.step [OF r] by simp
next
  case (other n t j u)
  have "rp_server_step cfg push collect t u"
    using other.IH other.hyps by (intro rp_server_step.task [of t j]) (auto simp: rp_waiting_def)
  then show ?case using other.IH other.hyps(5) other_step_keeps [OF other.hyps(4,3)] rp_reachable.step by metis
next
  case (cleanup n t now_ticks b)
  have "rp_server_step cfg push collect t (t\<lparr>rs_broker := b\<rparr>)"
    using cleanup.IH cleanup.hyps(2) by (intro rp_server_step.cleanup) (auto simp: rp_waiting_def)
  then show ?case using cleanup.IH cleanup.hyps(3) rp_reachable.step by fastforce
qed

section \<open>The loop of the handler, one step at a time\<close>

text \<open>
  The arm of \<^verbatim>\<open>select3\<close> that completes first. A handler that has been idle for too long leaves before it waits; the timer fires when
  the same condition has become true.
\<close>

datatype rp_arm = Socket_Arm | Notify_Arm | Timer_Arm

definition rp_loop :: "config \<Rightarrow> rp_arm \<Rightarrow> nat \<Rightarrow> nat \<Rightarrow> rp_server \<Rightarrow> rp_server" where
  "rp_loop cfg arm instant i s =
     (let c = rs_conns s ! i; r = rs_registry s in
      if instant - rc_last c \<ge> rp_keep_alive_timeout then rp_put i (c\<lparr>rc_phase := Rp_Unregistering\<rparr>) s
      else case arm of
        Socket_Arm \<Rightarrow> rp_conn_outcome i (rp_socket_event cfg instant c) s
      | Notify_Arm \<Rightarrow>
          if nr_channels r ! i
          then rp_put i (c\<lparr>rc_phase := Rp_Draining\<rparr>) (s\<lparr>rs_registry := r\<lparr>nr_channels := (nr_channels r)[i := False]\<rparr>\<rparr>)
          else s
      | Timer_Arm \<Rightarrow> s)"

definition rp_move :: "config \<Rightarrow> (Packet list \<Rightarrow> Packet \<Rightarrow> Packet list option) \<Rightarrow> rp_arm \<Rightarrow> u64 \<Rightarrow> nat \<Rightarrow> nat \<Rightarrow> rp_server \<Rightarrow> rp_server" where
  "rp_move cfg push arm now_ticks instant i s =
     (let c = rs_conns s ! i; b = rs_broker s; r = rs_registry s in
      case rc_phase c of
        Rp_Accepting \<Rightarrow> s
      | Rp_Registering \<Rightarrow> rp_broker_outcome i (rp_register cfg now_ticks (b, c)) s
      | Rp_Registering_Channel \<Rightarrow>
          rp_put i (c\<lparr>rc_phase := Rp_Looping, rc_last := instant\<rparr>)
            (s\<lparr>rs_registry := NotificationRegistry_register_session i (rc_sid c) r\<rparr>)
      | Rp_Looping \<Rightarrow> rp_loop cfg arm instant i s
      | Rp_Processing packet \<Rightarrow> rp_broker_outcome i (rp_process cfg push now_ticks packet (b, c)) s
      | Rp_Notifying sids pkts \<Rightarrow>
          (case sids of
             [] \<Rightarrow> rp_put i (c\<lparr>rc_phase := Rp_Writing pkts\<rparr>) s
           | sid # rest \<Rightarrow>
               rp_put i (c\<lparr>rc_phase := Rp_Notifying rest pkts\<rparr>) (s\<lparr>rs_registry := NotificationRegistry_notify_session sid r\<rparr>))
      | Rp_Draining \<Rightarrow> rp_broker_outcome i (rp_drain push (b, c)) s
      | Rp_Writing pkts \<Rightarrow>
          (case pkts of
             [] \<Rightarrow> rp_put i (c\<lparr>rc_phase := Rp_Looping\<rparr>) s
           | pkt # rest \<Rightarrow> rp_conn_outcome i (rp_write_one pkt rest c) s)
      | Rp_Unregistering \<Rightarrow>
          rp_put i (c\<lparr>rc_phase := Rp_Removing\<rparr>) (s\<lparr>rs_registry := NotificationRegistry_unregister_session i r\<rparr>)
      | Rp_Removing \<Rightarrow> rp_broker_outcome i (rp_remove (b, c)) s)"

lemma rp_move_step:
  "rp_move cfg push arm now_ticks instant i s = s \<or>
   rp_step cfg push collect s i (rs_conns s ! i) (rp_move cfg push arm now_ticks instant i s)"
  by (cases "rc_phase (rs_conns s ! i)"; cases arm)
    (auto simp: rp_move_def rp_loop_def Let_def split: list.split intro: rp_step.intros)

lemma rp_move_run:
  assumes "rp_run cfg push collect False s" "\<not> rs_halted s" "i < length (rs_conns s)"
    and "rp_move cfg push arm now_ticks instant i s = s'" "rp_regular s'" "\<not> rp_failing s s'"
  shows "rp_run cfg push collect False s'"
proof (cases "s' = s")
  case False
  with rp_move_step [of cfg push arm now_ticks instant i s collect] have "rp_step cfg push collect s i (rs_conns s ! i) s'"
    unfolding assms(4) by blast
  then have "rp_server_step cfg push collect s s'" by (rule rp_server_step.task [OF assms(2,3)])
  then show ?thesis by (rule rp_run.step [OF assms(1) _ assms(5)]) (use assms(6) in blast)
qed (use assms(1) in simp)

section \<open>The receive queues between two steps\<close>

text \<open>A task cannot have two broker sections at once: as long as no packet is refused, nothing is left unprocessed.\<close>

lemma rp_step_idle:
  assumes st: "rp_step cfg push collect s i c s'" and wf: "broker_wf cfg (rs_broker s)" and cfg: "config_ok cfg"
    and ok: "rp_phase_ok cfg (rc_phase c)" and idle: "\<forall>k. rx (rs_broker s) k = []"
    and good: "\<forall>p b c'. rc_phase c = Rp_Processing p \<longrightarrow> rc_phase c' = Rp_Unregistering \<longrightarrow> s' \<noteq> rp_put i c' (s\<lparr>rs_broker := b\<rparr>)"
  shows "\<forall>k. rx (rs_broker s') k = []"
  using st
proof cases
  case (register now_ticks)
  from wf show ?thesis
  proof (cases rule: register_step [where sid = "rc_sid c" and ka = DEFAULT_KEEP_ALIVE and t = "rp_current_time_nanos now_ticks"])
    case (registered b1)
    have "rx b1 k = []" for k
      using registered(7) idle [rule_format, of k] queue_new_wf [of "QUEUE_SIZE cfg"] cfg
      by (auto simp: rx_def config_ok_def Session_new_def)
    then show ?thesis using register registered(3) by (auto simp: rp_register_def rp_broker_outcome_def rp_put_def)
  qed (use register idle in \<open>auto simp: rp_register_def rp_broker_outcome_def rp_put_def\<close>)
next
  case (process packet now_ticks)
  then have p: "decoded cfg packet" using ok by simp
  from receive_and_process_eq [OF wf p, of "rc_sid c" "rp_current_time_nanos now_ticks"] obtain x b1 where
    b1: "receive_and_process cfg (rc_sid c) packet (rp_current_time_nanos now_ticks) (rs_broker s) = (x, b1)" "x \<noteq> Panic"
      "broker_wf cfg b1" by blast
  show ?thesis
  proof (cases x)
    case (Ok u)
    from pending_eq [OF b1(3) cfg] obtain v where v: "PicoBroker_get_sessions_with_pending_packets cfg b1 = Ok v" "vec_wf v" by blast
    moreover from drain_packets_eq [OF b1(3), of "rc_sid c"] obtain b2 where
      "drain_packets (rc_sid c) b1 = (Ok (tx b1 (rc_sid c)), b2)" "rx b2 = rx b1" by blast
    ultimately have "rs_broker s' = b2" "rx b2 = rx b1"
      using process b1(1) Ok HeaplessVec_collect_into_iter [OF v(2), of 0] by (auto simp: rp_process_def rp_broker_outcome_def rp_put_def)
    then show ?thesis using receive_and_process_empties [OF wf b1(1) [unfolded Ok]] by simp
  next
    case (Err e)
    then show ?thesis using process b1(1) good by (simp add: rp_process_def rp_broker_outcome_def)
  qed (use b1(2) in simp)
next
  case drain
  then show ?thesis using drain_packets_eq [OF wf, of "rc_sid c"] idle by (auto simp: rp_drain_def rp_broker_outcome_def rp_put_def)
next
  case remove
  then show ?thesis using remove_session_step [OF wf, of "rc_sid c"] idle
    by (auto simp: rp_remove_def rp_broker_outcome_def rp_put_def rx_def split: if_splits)
qed (use idle in \<open>auto simp: rp_put_def rp_conn_outcome_def split: option.split\<close>)

lemma rp_run_idle:
  assumes "rp_run cfg push collect False s" "config_ok cfg"
  shows "\<forall>k. rx (rs_broker s) k = []"
  using assms(1)
proof induction
  case start
  then show ?case by (simp add: rp_main_def PicoBroker_new_queues)
next
  case (step s s')
  note inv = rp_reachable_inv [OF rp_run_reachable [OF step.hyps(1)] assms(2)]
  have wf: "broker_wf cfg (rs_broker s)" using reachable_invariants inv assms(2) by blast
  from step.hyps(2) show ?case
  proof cases
    case (task i)
    have "rp_phase_ok cfg (rc_phase (rs_conns s ! i))" using inv task(2) by simp
    moreover have "s' \<noteq> rp_put i c' (s\<lparr>rs_broker := b\<rparr>)"
      if "rc_phase (rs_conns s ! i) = Rp_Processing p" "rc_phase c' = Rp_Unregistering" for p b c'
      using step.hyps(4) that task(2) by (auto simp: rp_failing_def rp_put_def)
    ultimately show ?thesis using rp_step_idle [OF task(3) wf assms(2) _ step.IH] by blast
  next
    case (cleanup now_ticks b)
    have rem: "rx b2 k = []" if "remove_all X b1 = (Ok (), b2)" "broker_wf cfg b1" "\<forall>k. rx b1 k = []" for X b1 b2 k
      using remove_all_eq [OF that(2), of X] that(1,3) by (auto simp: rx_def split: if_splits)
    have wf2: "broker_wf cfg b2" if "remove_all X b1 = (Ok (), b2)" "broker_wf cfg b1" for X b1 b2
      using remove_all_eq [OF that(2), of X] that(1) by auto
    obtain E D b1 where "remove_all E (rs_broker s) = (Ok (), b1)" "remove_all D b1 = (Ok (), b)"
      using cleanup(3) by (auto simp: rp_cleanup_def split: option.splits prod.splits result.splits)
    then show ?thesis using rem [of E "rs_broker s" b1] rem [of D b1 b] wf2 [of E "rs_broker s" b1] wf step.IH cleanup by auto
  qed (use step.IH in simp)
qed

section \<open>Writing\<close>

lemma write_loop_accepts:
  "rp_write_loop sz written buffer accepts sent = (Ok (), accepts', sent') \<Longrightarrow> \<exists>k \<le> sz - written. accepts' = drop k accepts"
proof (induction sz written buffer accepts sent rule: rp_write_loop.induct)
  case (2 sz written buffer a accepts sent)
  show ?case
  proof (cases "written < sz")
    case True
    then obtain n where n: "a = Some n" "min n (sz - written) \<noteq> 0"
      using "2.prems" by (auto simp: Let_def split: option.splits if_splits)
    from "2.IH" [OF True n(1) refl n(2)] "2.prems" True n obtain k where
      "k \<le> sz - (written + min n (sz - written))" "accepts' = drop k accepts" by (auto simp: Let_def)
    then show ?thesis using True n(2) by (intro exI [of _ "Suc k"]) auto
  qed (use "2.prems" in auto)
qed (auto split: if_splits)

definition willing :: "Packet list \<Rightarrow> rp_writer \<Rightarrow> bool" where
  "willing pkts w \<longleftrightarrow> None \<notin> set (wr_accepts w) \<and> Some 0 \<notin> set (wr_accepts w) \<and>
     length (concat (map Packet_wire pkts)) \<le> length (wr_accepts w) \<and> (\<forall>p \<in> set pkts. length (Packet_wire p) \<le> length (wr_buffer w))"

lemma write_willing:
  assumes "Packet_wf N M p" "willing (p # pkts) w"
  shows "\<exists>w'. rp_write_packet p w = (Ok (), w') \<and> wr_sent w' = wr_sent w @ Packet_wire p \<and> willing pkts w'"
proof -
  have w: "None \<notin> set (wr_accepts w)" "Some 0 \<notin> set (wr_accepts w)" "length (Packet_wire p) \<le> length (wr_accepts w)"
    and fits: "length (Packet_wire p) \<le> length (wr_buffer w)" using assms(2) by (auto simp: willing_def)
  from rp_write_packet_eq [OF assms(1) fits w] obtain w' where
    w': "rp_write_packet p w = (Ok (), w')" "wr_sent w' = wr_sent w @ Packet_wire p" "length (wr_buffer w') = length (wr_buffer w)" by blast
  have "Packet_encode p (wr_buffer w) = (Ok (length (Packet_wire p)), put_at (wr_buffer w) 0 (Packet_wire p))"
    using packet.encode_fits [OF assms(1) fits] .
  then have "\<exists>k \<le> length (Packet_wire p). wr_accepts w' = drop k (wr_accepts w)"
    using w'(1) write_loop_accepts by (fastforce simp: rp_write_packet_def split: prod.splits if_splits)
  then obtain k where k: "k \<le> length (Packet_wire p)" "wr_accepts w' = drop k (wr_accepts w)" by blast
  have "set (wr_accepts w') \<subseteq> set (wr_accepts w)" using k(2) set_drop_subset by metis
  then have "willing pkts w'" using assms(2) k w'(3) by (auto simp: willing_def)
  then show ?thesis using w' by blast
qed

lemma rp_task_step:
  assumes "\<not> rs_halted s" "i < length (rs_conns s)" "rp_step cfg push collect s i (rs_conns s ! i) s'"
  shows "(rp_server_step cfg push collect)\<^sup>*\<^sup>* s s'"
  using rp_server_step.task [OF assms] by blast

lemma write_run:
  assumes "\<not> rs_halted s" "j < length (rs_conns s)" "rc_phase (rs_conns s ! j) = Rp_Writing pkts"
    and "\<forall>p \<in> set pkts. Packet_wf N M p" "willing pkts (rc_writer (rs_conns s ! j))"
  shows "\<exists>s'. (rp_server_step cfg push collect)\<^sup>*\<^sup>* s s' \<and>
    wr_sent (rc_writer (rs_conns s' ! j)) = wr_sent (rc_writer (rs_conns s ! j)) @ concat (map Packet_wire pkts)"
  using assms
proof (induction pkts arbitrary: s)
  case (Cons p pkts)
  let ?c = "rs_conns s ! j"
  from write_willing [of N M p pkts "rc_writer ?c"] Cons.prems(4,5) obtain w where
    w: "rp_write_packet p (rc_writer ?c) = (Ok (), w)" "wr_sent w = wr_sent (rc_writer ?c) @ Packet_wire p" "willing pkts w" by auto
  let ?c' = "?c\<lparr>rc_phase := Rp_Writing pkts, rc_writer := w\<rparr>" let ?s = "rp_put j ?c' s"
  have at: "rs_conns ?s ! j = ?c'" "\<not> rs_halted ?s" "j < length (rs_conns ?s)" using Cons.prems(1,2) by (simp_all add: rp_put_def)
  have "rp_write_one p pkts ?c = Some ?c'" using w(1) by (simp add: rp_write_one_def)
  with rp_step.write_one [OF Cons.prems(3), of cfg push collect s j]
  have "rp_step cfg push collect s j ?c ?s" by (simp add: rp_conn_outcome_def)
  from rp_task_step [OF Cons.prems(1,2) this] Cons.IH [OF at(2,3)] at(1) w(2,3) Cons.prems(4) show ?case
    by (auto intro: rtranclp_trans)
qed (auto intro: exI)

section \<open>The order on the socket\<close>

text \<open>
  What has been sent on a connection, what its handler has in hand, and what waits for it in the broker, as bytes. A handler serves a
  session while it is in its loop and the broker has the session.
\<close>

definition rp_pipeline :: "PicoBroker \<Rightarrow> rp_conn \<Rightarrow> bytes" where
  "rp_pipeline b c = wr_sent (rc_writer c) @ concat (map Packet_wire (carried (rc_phase c) @ tx b (rc_sid c)))"

definition rp_in_service :: "rp_server \<Rightarrow> nat \<Rightarrow> bool" where
  "rp_in_service s i \<longleftrightarrow> i < length (rs_conns s) \<and> \<not> rs_halted s \<and> rp_in_loop (rc_phase (rs_conns s ! i)) \<and>
     rc_sid (rs_conns s ! i) \<in> set (session_ids (rs_broker s))"

text \<open>An error of \<^verbatim>\<open>write_packet\<close>, after which the handler drops the packets it has in hand.\<close>

definition rp_write_failed :: "rp_server \<Rightarrow> nat \<Rightarrow> rp_server \<Rightarrow> bool" where
  "rp_write_failed s i s' \<longleftrightarrow> (\<exists>p ps. rc_phase (rs_conns s ! i) = Rp_Writing (p # ps)) \<and> rc_phase (rs_conns s' ! i) = Rp_Looping"

inductive rp_serves :: "config \<Rightarrow> (Packet list \<Rightarrow> Packet \<Rightarrow> Packet list option) \<Rightarrow> (u128 list \<Rightarrow> u128 list option) \<Rightarrow> bool \<Rightarrow> nat \<Rightarrow>
    rp_server \<Rightarrow> rp_server \<Rightarrow> bool"
  for cfg push collect failures i s where
  here: "rp_run cfg push collect failures s \<Longrightarrow> rp_in_service s i \<Longrightarrow> rp_serves cfg push collect failures i s s"
| step: "rp_serves cfg push collect failures i s t \<Longrightarrow> rp_server_step cfg push collect t u \<Longrightarrow> rp_run cfg push collect failures u \<Longrightarrow>
    rp_in_service u i \<Longrightarrow> \<not> rp_write_failed t i u \<Longrightarrow> rp_serves cfg push collect failures i s u"

lemma write_ok:
  assumes "Packet_wf N M p" "rp_write_packet p w = (Ok u, w')"
  shows "wr_sent w' = wr_sent w @ Packet_wire p"
proof -
  obtain sz b where e: "Packet_encode p (wr_buffer w) = (Ok sz, b)" using assms(2) by (auto simp: rp_write_packet_def split: prod.splits result.splits)
  have "length (Packet_wire p) \<le> length (wr_buffer w)"
    using packet.encode_small [OF assms(1), of "wr_buffer w"] e by (cases "length (wr_buffer w) < length (Packet_wire p)") auto
  from packet.encode_fits [OF assms(1) this] e have sz: "sz = length (Packet_wire p)" "b = put_at (wr_buffer w) 0 (Packet_wire p)"
    "length b = length (wr_buffer w)" "sz \<le> length b"
    using \<open>length (Packet_wire p) \<le> length (wr_buffer w)\<close> by (simp_all add: put_at_def)
  obtain accepts sent where "rp_write_loop sz 0 b (wr_accepts w) (wr_sent w) = (Ok u, accepts, sent)" "wr_sent w' = sent"
    using assms(2) e sz(4) by (auto simp: rp_write_packet_def split: prod.splits if_splits)
  with rp_write_loop_prefix [OF sz(4), of 0 "wr_accepts w" "wr_sent w" "Ok u" accepts sent] sz(1,2) show ?thesis by (auto simp: put_at_def)
qed

lemma tx_within:
  assumes "broker_wf cfg b"
  shows "length (tx b k) \<le> QUEUE_SIZE cfg"
proof (cases "k \<in> set (session_ids b)")
  case True
  from assms True show ?thesis by (cases rule: queue_tx_step [where p = "PingResp PingRespPacket"]) simp_all
next
  case False
  then show ?thesis by (simp add: queues_of_unregistered)
qed

text \<open>A step of the handler itself, and what the broker sections of another task do to the queue.\<close>

lemma rp_process_pipeline:
  assumes wf: "broker_wf cfg b" and cfg: "config_ok cfg" "QUEUE_SIZE cfg \<le> 8" and p: "decoded cfg p"
    and push: "\<forall>v pkt. push v pkt = (if length v < 8 then Some (v @ [pkt]) else None)"
    and e: "rp_process cfg push t p (b, c) = Some (b', c')" and c: "carried (rc_phase c) = []"
  shows "\<exists>new. (rp_in_loop (rc_phase c') \<longrightarrow> rp_pipeline b' c' = rp_pipeline b c @ concat (map Packet_wire (new (rc_sid c)))) \<and>
    (\<forall>k. k \<noteq> rc_sid c \<longrightarrow> tx b' k = tx b k @ new k)"
proof -
  from receive_and_process_eq [OF wf p, of "rc_sid c" "rp_current_time_nanos t"] obtain x b1 where
    b1: "receive_and_process cfg (rc_sid c) p (rp_current_time_nanos t) b = (x, b1)" "x \<noteq> Panic" "broker_wf cfg b1" by blast
  from receive_and_process_appends [OF wf b1(1)] obtain new where new: "tx b1 = (\<lambda>k. tx b k @ new k)" by blast
  show ?thesis
  proof (cases x)
    case (Ok u)
    from drain_packets_eq [OF b1(3), of "rc_sid c"] obtain b2 where
      b2: "drain_packets (rc_sid c) b1 = (Ok (tx b1 (rc_sid c)), b2)" "tx b2 = (tx b1)(rc_sid c := [])" by blast
    then obtain ks where "b' = b2" "c' = c\<lparr>rc_phase := Rp_Notifying ks (rp_collect push (tx b1 (rc_sid c)))\<rparr>"
      using e b1(1) Ok by (auto simp: rp_process_def split: result.splits)
    then show ?thesis
      using new b2(2) c rp_collect_take [OF push] tx_within [OF b1(3), of "rc_sid c"] cfg(2) by (intro exI [of _ new]) (simp add: rp_pipeline_def)
  next
    case (Err err)
    obtain y b2 where b2: "PicoBroker_mark_session_disconnected (rc_sid c) b1 = (y, b2)" by force
    then have "tx b2 = tx b1"
      using mark_disconnected_step [OF b1(3), of "rc_sid c"] by (cases "session_of b1 (rc_sid c)") (auto simp: tx_def fun_eq_iff)
    moreover have "b' = b2" "c' = c\<lparr>rc_phase := Rp_Unregistering\<rparr>" using e b1(1) Err b2 by (simp_all add: rp_process_def)
    ultimately show ?thesis using new by (intro exI [of _ new]) (simp add: rp_in_loop_def)
  qed (use b1(2) in simp)
qed

lemma own_step_pipeline:
  assumes st: "rp_step cfg push collect t i (rs_conns t ! i) u" and i: "i < length (rs_conns t)" "\<not> rs_halted u"
    and loop: "rp_in_loop (rc_phase (rs_conns t ! i))" "rp_in_loop (rc_phase (rs_conns u ! i))" and good: "\<not> rp_write_failed t i u"
    and wf: "broker_wf cfg (rs_broker t)" and cfg: "config_ok cfg" "QUEUE_SIZE cfg \<le> 8"
    and ok: "rp_phase_ok cfg (rc_phase (rs_conns t ! i))" and sane: "rp_sane cfg (rs_conns t ! i)"
    and push: "\<forall>v pkt. push v pkt = (if length v < 8 then Some (v @ [pkt]) else None)"
  shows "\<exists>new. rp_pipeline (rs_broker u) (rs_conns u ! i) = rp_pipeline (rs_broker t) (rs_conns t ! i) @ concat (map Packet_wire new)"
proof -
  let ?c = "rs_conns t ! i"
  note defs = rp_put_def rp_conn_outcome_def rp_broker_outcome_def rp_pipeline_def
  have still: ?thesis if "rp_pipeline (rs_broker u) (rs_conns u ! i) = rp_pipeline (rs_broker t) ?c"
    using that by (intro exI [of _ "[]"]) simp
  show ?thesis
    using st
  proof cases
    case (socket instant)
    then obtain c' where e: "rp_socket_event cfg instant ?c = Some c'" "u = rp_put i c' t"
      using i(2) by (auto simp: rp_conn_outcome_def split: option.splits)
    have w: "rc_writer c' = rc_writer ?c"
      using e(1) by (auto simp: rp_socket_event_def Let_def split: if_splits prod.splits option.splits result.splits)
    have "carried (rc_phase c') = []" using rp_socket_event_phase(2) [OF e(1) socket(2)] by auto
    then show ?thesis
      by (intro still) (use w e(2) i(1) socket(2) rp_socket_event_phase(1) [OF e(1) socket(2)] in \<open>simp add: rp_pipeline_def rp_put_def\<close>)
  next
    case (process packet now_ticks)
    then obtain b' c' where e: "rp_process cfg push now_ticks packet (rs_broker t, ?c) = Some (b', c')" "u = rp_put i c' (t\<lparr>rs_broker := b'\<rparr>)"
      using i(2) by (auto simp: rp_broker_outcome_def split: option.splits)
    have "decoded cfg packet" "carried (rc_phase ?c) = []" using ok process(2) by simp_all
    from rp_process_pipeline [OF wf cfg this(1) push e(1) this(2)] e(2) i(1) loop(2) show ?thesis by (auto simp: rp_put_def)
  next
    case drain
    from rp_drain_eq [OF wf, of push ?c] obtain b' where
      "rp_drain push (rs_broker t, ?c) = Some (b', ?c\<lparr>rc_phase := Rp_Writing (rp_collect push (tx (rs_broker t) (rc_sid ?c)))\<rparr>)"
      "tx b' = (tx (rs_broker t))(rc_sid ?c := [])" by blast
    then show ?thesis
      using drain i(1) rp_collect_take [OF push] tx_within [OF wf, of "rc_sid ?c"] cfg(2) by (intro still) (simp add: defs)
  next
    case (write_one pkt pkts)
    then obtain c' where e: "rp_write_one pkt pkts ?c = Some c'" "u = rp_put i c' t"
      using i(2) by (auto simp: rp_conn_outcome_def split: option.splits)
    have "rc_phase c' \<noteq> Rp_Looping" using good write_one(2) e(2) i(1) by (auto simp: rp_write_failed_def rp_put_def)
    then obtain x w where w: "rp_write_packet pkt (rc_writer ?c) = (Ok x, w)" "c' = ?c\<lparr>rc_phase := Rp_Writing pkts, rc_writer := w\<rparr>"
      using e(1) by (auto simp: rp_write_one_def split: prod.splits result.splits)
    have "Packet_wf (MAX_TOPIC_NAME_LENGTH cfg) (MAX_PAYLOAD_SIZE cfg) pkt" using sane write_one(2) by (simp add: rp_sane_def writable_def)
    from write_ok [OF this w(1)] have "wr_sent w = wr_sent (rc_writer ?c) @ Packet_wire pkt" .
    then show ?thesis using w(2) e(2) i(1) write_one(2) by (intro still) (simp add: rp_pipeline_def rp_put_def)
  qed (use i(1) loop in \<open>auto intro: exI [of _ "[]"] simp: defs rp_in_loop_def split: option.splits\<close>)
qed

lemma other_step_tx:
  assumes st: "rp_step cfg push collect t j c u" and wf: "broker_wf cfg (rs_broker t)" and cfg: "config_ok cfg" "QUEUE_SIZE cfg \<le> 8"
    and ok: "rp_phase_ok cfg (rc_phase c)" and push: "\<forall>v pkt. push v pkt = (if length v < 8 then Some (v @ [pkt]) else None)"
    and k: "k \<noteq> rc_sid c"
  shows "\<exists>new. tx (rs_broker u) k = tx (rs_broker t) k @ new"
  using st
proof cases
  case (register now_ticks)
  from rp_register_eq [OF wf cfg(1), of now_ticks c] obtain b' ph where
    "rp_register cfg now_ticks (rs_broker t, c) = Some (b', c\<lparr>rc_phase := ph\<rparr>)" "tx b' = tx (rs_broker t)" by blast
  then show ?thesis using register by (simp add: rp_broker_outcome_def rp_put_def)
next
  case (process packet now_ticks)
  show ?thesis
  proof (cases "rp_process cfg push now_ticks packet (rs_broker t, c)")
    case None
    then show ?thesis using process by (simp add: rp_broker_outcome_def)
  next
    case (Some bc)
    then obtain b' c' where e: "rp_process cfg push now_ticks packet (rs_broker t, c) = Some (b', c')" by (cases bc) simp
    have "decoded cfg packet" "carried (rc_phase c) = []" using ok process(2) by simp_all
    from rp_process_pipeline [OF wf cfg this(1) push e this(2)] k obtain new where "tx b' k = tx (rs_broker t) k @ new k" by blast
    then show ?thesis using process e by (simp add: rp_broker_outcome_def rp_put_def)
  qed
next
  case drain
  then show ?thesis using rp_drain_eq [OF wf, of push c] k by (auto simp: rp_broker_outcome_def rp_put_def)
next
  case remove
  then show ?thesis using rp_remove_eq [OF wf, of c] k by (auto simp: rp_broker_outcome_def rp_put_def)
qed (auto simp: rp_put_def rp_conn_outcome_def split: option.split)

lemma cleanup_tx:
  assumes "rp_cleanup collect now_ticks b = Some b'" "broker_wf cfg b" "k \<in> set (session_ids b')"
  shows "tx b' k = tx b k"
proof -
  have rem: "tx b2 k = tx b1 k \<and> k \<in> set (session_ids b1) \<and> broker_wf cfg b2"
    if "remove_all X b1 = (Ok (), b2)" "broker_wf cfg b1" "k \<in> set (session_ids b2)" for X b1 b2
    using remove_all_eq [OF that(2), of X] that(1,3) by (auto simp: tx_def)
  obtain E D b1 where r: "remove_all E b = (Ok (), b1)" "remove_all D b1 = (Ok (), b')"
    using assms(1) by (auto simp: rp_cleanup_def split: option.splits prod.splits result.splits)
  have "broker_wf cfg b1" using remove_all_eq [OF assms(2), of E] r(1) by auto
  from rem [OF r(2) this assms(3)] rem [OF r(1) assms(2)] show ?thesis by simp
qed

lemma rp_serves_pipeline:
  assumes "rp_serves cfg push collect failures i s t" and cfg: "config_ok cfg" "QUEUE_SIZE cfg \<le> 8"
    and push: "\<forall>v pkt. push v pkt = (if length v < 8 then Some (v @ [pkt]) else None)"
  shows "rp_run cfg push collect failures t \<and> rp_in_service t i \<and>
    (\<exists>new. rp_pipeline (rs_broker t) (rs_conns t ! i) = rp_pipeline (rs_broker s) (rs_conns s ! i) @ concat (map Packet_wire new))"
  using assms(1)
proof induction
  case here
  then show ?case by (auto intro: exI [of _ "[]"])
next
  case (step t u)
  from step.IH obtain new where run: "rp_run cfg push collect failures t" and srv: "rp_in_service t i"
    and new: "rp_pipeline (rs_broker t) (rs_conns t ! i) = rp_pipeline (rs_broker s) (rs_conns s ! i) @ concat (map Packet_wire new)" by blast
  note reach = rp_run_reachable [OF run]
  note inv = rp_reachable_inv [OF reach cfg(1)]
  have wf: "broker_wf cfg (rs_broker t)" using reachable_invariants inv cfg(1) by blast
  have keeps: "push_keeps push" using push by (simp add: push_keeps_def)
  have i: "i < length (rs_conns t)" using srv by (simp add: rp_in_service_def)
  have same: "\<exists>new. rp_pipeline (rs_broker u) (rs_conns u ! i) = rp_pipeline (rs_broker t) (rs_conns t ! i) @ concat (map Packet_wire new)"
    if "rs_conns u ! i = rs_conns t ! i" "\<exists>new. tx (rs_broker u) (rc_sid (rs_conns t ! i)) = tx (rs_broker t) (rc_sid (rs_conns t ! i)) @ new"
    using that by (auto simp: rp_pipeline_def)
  from step.hyps(2) have "\<exists>new. rp_pipeline (rs_broker u) (rs_conns u ! i) = rp_pipeline (rs_broker t) (rs_conns t ! i) @ concat (map Packet_wire new)"
  proof cases
    case (task j)
    have ok: "rp_phase_ok cfg (rc_phase (rs_conns t ! j))" using inv task(2) by simp
    show ?thesis
    proof (cases "j = i")
      case True
      have "rp_sane cfg (rs_conns t ! i)" using rp_reachable_sane [OF reach cfg(1) keeps] i by simp
      then show ?thesis
        using own_step_pipeline [OF task(3) [unfolded True] i _ _ _ step.hyps(5) wf cfg ok [unfolded True] _ push] srv step.hyps(4)
        by (simp add: rp_in_service_def)
    next
      case False
      show ?thesis
      proof (cases "rc_sid (rs_conns t ! j) = rc_sid (rs_conns t ! i)")
        case True
        have "rp_numbered t" using rp_run_owned [OF run cfg(1)] by simp
        then have "rc_phase (rs_conns t ! j) = Rp_Accepting"
          using True False i task(2) srv unfolding rp_numbered_def rp_in_service_def rp_in_loop_def by blast
        with task(3) have "rs_broker u = rs_broker t" by (cases rule: rp_step.cases) (auto simp: rp_put_def)
        then show ?thesis using same other_step_keeps(1) [OF task(3) False] by (auto intro: exI [of _ "[]"])
      next
        case k: False
        then show ?thesis
          using same other_step_keeps(1) [OF task(3) False] other_step_tx [OF task(3) wf cfg ok push, of "rc_sid (rs_conns t ! i)"] by metis
      qed
    qed
  next
    case (cleanup now_ticks b)
    have "rc_sid (rs_conns t ! i) \<in> set (session_ids b)" using step.hyps(4) cleanup by (simp add: rp_in_service_def)
    from cleanup_tx [OF cleanup(3) wf this] show ?thesis using same cleanup by auto
  qed (use step.hyps(4) in \<open>simp add: rp_in_service_def\<close>)
  then obtain more where "rp_pipeline (rs_broker u) (rs_conns u ! i) = rp_pipeline (rs_broker t) (rs_conns t ! i) @ concat (map Packet_wire more)" by blast
  then show ?case using new step.hyps(3,4) by (intro conjI exI [of _ "new @ more"]) simp_all
qed

section \<open>From the publisher to the subscriber\<close>

lemma rp_notify_run:
  assumes "\<not> rs_halted s" "a < length (rs_conns s)" "rc_phase (rs_conns s ! a) = Rp_Notifying ks ps"
    and "j < length (nr_session_ids (rs_registry s))" "nr_session_ids (rs_registry s) ! j = k" "j < length (nr_channels (rs_registry s))"
    and "\<forall>m < length (nr_session_ids (rs_registry s)). nr_session_ids (rs_registry s) ! m = k \<longrightarrow> m = j"
  shows "\<exists>r. (rp_server_step cfg push collect)\<^sup>*\<^sup>* s (rp_put a ((rs_conns s ! a)\<lparr>rc_phase := Rp_Notifying [] ps\<rparr>) (s\<lparr>rs_registry := r\<rparr>)) \<and>
    ((k \<in> set ks \<or> nr_channels (rs_registry s) ! j) \<longrightarrow> nr_channels r ! j)"
  using assms
proof (induction ks arbitrary: s)
  case Nil
  have "rp_put a ((rs_conns s ! a)\<lparr>rc_phase := Rp_Notifying [] ps\<rparr>) (s\<lparr>rs_registry := rs_registry s\<rparr>) = s"
    unfolding rp_put_def Nil.prems(3) [symmetric] by simp
  then show ?case by (intro exI [of _ "rs_registry s"]) simp
next
  case (Cons k' ks)
  let ?r = "NotificationRegistry_notify_session k' (rs_registry s)" and ?c = "(rs_conns s ! a)\<lparr>rc_phase := Rp_Notifying ks ps\<rparr>"
  let ?s = "rp_put a ?c (s\<lparr>rs_registry := ?r\<rparr>)"
  have at: "\<not> rs_halted ?s" "a < length (rs_conns ?s)" "rs_conns ?s ! a = ?c" "rs_registry ?s = ?r"
    using Cons.prems(1,2) by (simp_all add: rp_put_def)
  have first: "(rp_server_step cfg push collect)\<^sup>*\<^sup>* s ?s"
    by (rule rp_task_step [OF Cons.prems(1,2)]) (rule rp_step.notify [OF Cons.prems(3)])
  have woken: "nr_channels ?r ! j" if "k' = k \<or> nr_channels (rs_registry s) ! j"
    using that notify_session_wakes [OF Cons.prems(4,5)] Cons.prems(6,7) notify_session_keeps(3) by auto
  have ids: "nr_session_ids ?r = nr_session_ids (rs_registry s)" "length (nr_channels ?r) = length (nr_channels (rs_registry s))"
    by (simp_all add: notify_session_keeps)
  have "rc_phase (rs_conns ?s ! a) = Rp_Notifying ks ps" "j < length (nr_session_ids (rs_registry ?s))"
    "nr_session_ids (rs_registry ?s) ! j = k" "j < length (nr_channels (rs_registry ?s))"
    "\<forall>m < length (nr_session_ids (rs_registry ?s)). nr_session_ids (rs_registry ?s) ! m = k \<longrightarrow> m = j"
    unfolding at(3,4) ids by (simp, fact+)
  from Cons.IH [OF at(1,2) this] obtain r where
    r: "(rp_server_step cfg push collect)\<^sup>*\<^sup>* ?s (rp_put a (?c\<lparr>rc_phase := Rp_Notifying [] ps\<rparr>) (?s\<lparr>rs_registry := r\<rparr>))"
      "(k \<in> set ks \<or> nr_channels ?r ! j) \<longrightarrow> nr_channels r ! j"
    unfolding at(3,4) by blast
  have "rp_put a (?c\<lparr>rc_phase := Rp_Notifying [] ps\<rparr>) (?s\<lparr>rs_registry := r\<rparr>) =
      rp_put a ((rs_conns s ! a)\<lparr>rc_phase := Rp_Notifying [] ps\<rparr>) (s\<lparr>rs_registry := r\<rparr>)" by (simp add: rp_put_def)
  with r first woken show ?case by (intro exI [of _ r]) (auto intro: rtranclp_trans)
qed

text \<open>A signalled handler that waits in \<^verbatim>\<open>select3\<close> takes the queue of its session and writes it.\<close>

lemma rp_flush_run:
  assumes "\<not> rs_halted s" "j < length (rs_conns s)" "rc_phase (rs_conns s ! j) = Rp_Looping" "nr_channels (rs_registry s) ! j"
    and wf: "broker_wf cfg (rs_broker s)" and push: "\<forall>v pkt. push v pkt = (if length v < 8 then Some (v @ [pkt]) else None)"
    and pkts: "tx (rs_broker s) (rc_sid (rs_conns s ! j)) = pkts" "length pkts \<le> 8" "\<forall>p \<in> set pkts. Packet_wf N M p"
      "willing pkts (rc_writer (rs_conns s ! j))"
  shows "\<exists>s'. (rp_server_step cfg push collect)\<^sup>*\<^sup>* s s' \<and>
    wr_sent (rc_writer (rs_conns s' ! j)) = wr_sent (rc_writer (rs_conns s ! j)) @ concat (map Packet_wire pkts)"
proof -
  let ?c = "rs_conns s ! j"
  define s1 where "s1 = rp_put j (?c\<lparr>rc_phase := Rp_Draining\<rparr>)
    (s\<lparr>rs_registry := (rs_registry s)\<lparr>nr_channels := (nr_channels (rs_registry s))[j := False]\<rparr>\<rparr>)"
  have at1: "\<not> rs_halted s1" "j < length (rs_conns s1)" "rs_conns s1 ! j = ?c\<lparr>rc_phase := Rp_Draining\<rparr>" "rs_broker s1 = rs_broker s"
    using assms(1,2) by (simp_all add: s1_def rp_put_def)
  have run1: "(rp_server_step cfg push collect)\<^sup>*\<^sup>* s s1"
    unfolding s1_def by (rule rp_task_step [OF assms(1,2)]) (rule rp_step.notified [OF assms(3,4)])
  from drain_packets_eq [OF wf, of "rc_sid ?c"] pkts(1) obtain b where "drain_packets (rc_sid ?c) (rs_broker s) = (Ok pkts, b)" by auto
  then have d: "rp_drain push (rs_broker s1, rs_conns s1 ! j) = Some (b, ?c\<lparr>rc_phase := Rp_Writing pkts\<rparr>)"
    using rp_collect_take [OF push] pkts(2) at1 by (simp add: rp_drain_def)
  let ?s2 = "rp_put j (?c\<lparr>rc_phase := Rp_Writing pkts\<rparr>) (s1\<lparr>rs_broker := b\<rparr>)"
  have "rp_step cfg push collect s1 j (rs_conns s1 ! j) ?s2"
    using rp_step.drain [of "rs_conns s1 ! j" cfg push collect s1 j] at1(3) d by (simp add: rp_broker_outcome_def)
  from rp_task_step [OF at1(1,2) this] have run2: "(rp_server_step cfg push collect)\<^sup>*\<^sup>* s ?s2" using run1 by (rule rtranclp_trans [rotated])
  have at2: "\<not> rs_halted ?s2" "j < length (rs_conns ?s2)" "rs_conns ?s2 ! j = ?c\<lparr>rc_phase := Rp_Writing pkts\<rparr>"
    using at1 by (simp_all add: rp_put_def)
  from write_run [OF at2(1,2), of pkts N M cfg push collect] at2(3) pkts(3,4) run2 show ?thesis by (auto intro: rtranclp_trans)
qed

lemma rp_publish_step:
  assumes wf: "broker_wf cfg b" and cfg: "config_ok cfg" "0 < QUEUE_SIZE cfg" and idle: "\<forall>k. rx b k = []"
    and sid: "rc_sid c \<in> set (session_ids b)"
    and room: "\<forall>k \<in> set (recipients cfg p b). has_room cfg b k"
      "length (tx b (rc_sid c)) + (if rc_sid c \<in> set (recipients cfg p b) then 1 else 0) + length (acks p) \<le> QUEUE_SIZE cfg"
  shows "\<exists>b' ks ps. rp_process cfg push t (Publish p) (b, c) = Some (b', c\<lparr>rc_phase := Rp_Notifying ks ps\<rparr>) \<and> broker_wf cfg b' \<and>
    (\<forall>k. k \<in> set (recipients cfg p b) \<longrightarrow> k \<noteq> rc_sid c \<longrightarrow> k \<in> set ks \<and> tx b' k = tx b k @ [Publish p])"
proof -
  let ?t = "rp_current_time_nanos t"
  from publish_processed [OF wf sid idle cfg(2) room, of ?t] obtain b1 where
    b1: "receive_and_process cfg (rc_sid c) (Publish p) ?t b = (Ok (), b1)" "broker_wf cfg b1" "session_ids b1 = session_ids b"
      "tx b1 = (\<lambda>k. tx b k @ (if k \<in> set (recipients cfg p b) then [Publish p] else []) @ (if k = rc_sid c then acks p else []))"
    by blast
  from pending_eq [OF b1(2) cfg(1)] obtain v where v: "PicoBroker_get_sessions_with_pending_packets cfg b1 = Ok v"
    "HeaplessVec_as_slice v = filter (\<lambda>k. tx b1 k \<noteq> []) (session_ids b1)" "vec_wf v" by blast
  from drain_packets_eq [OF b1(2), of "rc_sid c"] obtain b2 where
    b2: "drain_packets (rc_sid c) b1 = (Ok (tx b1 (rc_sid c)), b2)" "tx b2 = (tx b1)(rc_sid c := [])" "broker_wf cfg b2" by blast
  have "rp_process cfg push t (Publish p) (b, c) =
      Some (b2, c\<lparr>rc_phase := Rp_Notifying (HeaplessVec_as_slice v) (rp_collect push (tx b1 (rc_sid c)))\<rparr>)"
    using HeaplessVec_collect_into_iter [OF v(3), of 0] by (simp add: rp_process_def b1(1) v(1) b2(1))
  moreover have "k \<in> set (HeaplessVec_as_slice v) \<and> tx b2 k = tx b k @ [Publish p]" if "k \<in> set (recipients cfg p b)" "k \<noteq> rc_sid c" for k
    using that recipients_registered [OF wf, of p] v(2) b1(3,4) b2(2) by auto
  ultimately show ?thesis using b2(3) by blast
qed

end
