(* ===== verification/Deployments.thy ===== *)
theory Deployments
  imports Server_Tokio_Service Server_Rp_Service
begin

text \<open>
  The programs that are built: the type aliases and \<^verbatim>\<open>main\<close> of the tokio server (\<^verbatim>\<open>main.rs\<close>), the constants of \<^verbatim>\<open>main.rs\<close> of the rp2040 server and
  its unused \<^verbatim>\<open>MqttServer\<close> (\<^verbatim>\<open>server.rs\<close>). Their capacities satisfy the conditions of the properties, so that these hold of them.
\<close>

section \<open>The tokio server\<close>

definition tokio_DefaultMqttServer :: config where
  "tokio_DefaultMqttServer = \<lparr>MAX_TOPIC_NAME_LENGTH = 64, MAX_PAYLOAD_SIZE = 256, QUEUE_SIZE = 8, MAX_SESSIONS = 4, MAX_TOPICS = 32,
     MAX_SUBSCRIBERS_PER_TOPIC = 8\<rparr>"

definition tokio_SmallMqttServer :: config where
  "tokio_SmallMqttServer = \<lparr>MAX_TOPIC_NAME_LENGTH = 32, MAX_PAYLOAD_SIZE = 128, QUEUE_SIZE = 4, MAX_SESSIONS = 2, MAX_TOPICS = 16,
     MAX_SUBSCRIBERS_PER_TOPIC = 4\<rparr>"

definition tokio_LargeMqttServer :: config where
  "tokio_LargeMqttServer = \<lparr>MAX_TOPIC_NAME_LENGTH = 128, MAX_PAYLOAD_SIZE = 1024, QUEUE_SIZE = 16, MAX_SESSIONS = 16, MAX_TOPICS = 128,
     MAX_SUBSCRIBERS_PER_TOPIC = 32\<rparr>"

definition tokio_main_config :: config where
  "tokio_main_config = \<lparr>MAX_TOPIC_NAME_LENGTH = 64, MAX_PAYLOAD_SIZE = 256, QUEUE_SIZE = 8, MAX_SESSIONS = 4, MAX_TOPICS = 32,
     MAX_SUBSCRIBERS_PER_TOPIC = 8\<rparr>"

definition tokio_main :: tokio_server where
  "tokio_main = MqttServer_new tokio_main_config"

section \<open>The rp2040 server\<close>

definition rp_main_config :: config where
  "rp_main_config = \<lparr>MAX_TOPIC_NAME_LENGTH = 20, MAX_PAYLOAD_SIZE = 128, QUEUE_SIZE = 5, MAX_SESSIONS = 4, MAX_TOPICS = 8,
     MAX_SUBSCRIBERS_PER_TOPIC = 4\<rparr>"

text \<open>The type aliases of \<^verbatim>\<open>main.rs\<close>, for any mutex\<close>

definition rp_DefaultMqttServer :: config where
  "rp_DefaultMqttServer = \<lparr>MAX_TOPIC_NAME_LENGTH = 64, MAX_PAYLOAD_SIZE = 256, QUEUE_SIZE = 8, MAX_SESSIONS = 4, MAX_TOPICS = 32,
     MAX_SUBSCRIBERS_PER_TOPIC = 8\<rparr>"

definition rp_SmallMqttServer :: config where
  "rp_SmallMqttServer = \<lparr>MAX_TOPIC_NAME_LENGTH = 32, MAX_PAYLOAD_SIZE = 128, QUEUE_SIZE = 4, MAX_SESSIONS = 2, MAX_TOPICS = 16,
     MAX_SUBSCRIBERS_PER_TOPIC = 4\<rparr>"

definition rp_LargeMqttServer :: config where
  "rp_LargeMqttServer = \<lparr>MAX_TOPIC_NAME_LENGTH = 128, MAX_PAYLOAD_SIZE = 1024, QUEUE_SIZE = 16, MAX_SESSIONS = 16, MAX_TOPICS = 128,
     MAX_SUBSCRIBERS_PER_TOPIC = 32\<rparr>"

record rp_MqttServerConfig =
  rsc_default_keep_alive_secs :: u16
  rsc_cleanup_interval_secs :: u64

definition rp_MqttServerConfig_default :: rp_MqttServerConfig where
  "rp_MqttServerConfig_default = \<lparr>rsc_default_keep_alive_secs = 60, rsc_cleanup_interval_secs = 5\<rparr>"

text \<open>The defaults of the const generics of \<^verbatim>\<open>MqttServer\<close>, and the record itself with the shared components as values\<close>

definition rp_MqttServer_generics :: config where
  "rp_MqttServer_generics = \<lparr>MAX_TOPIC_NAME_LENGTH = 64, MAX_PAYLOAD_SIZE = 256, QUEUE_SIZE = 8, MAX_SESSIONS = 4, MAX_TOPICS = 32,
     MAX_SUBSCRIBERS_PER_TOPIC = 8\<rparr>"

record rp_MqttServer =
  rms_broker :: PicoBroker
  rms_notification_registry :: NotificationRegistry
  rms_session_id_gen :: u64
  rms_config :: rp_MqttServerConfig

definition rp_MqttServer_with_config :: "PicoBroker \<Rightarrow> NotificationRegistry \<Rightarrow> u64 \<Rightarrow> rp_MqttServerConfig \<Rightarrow> rp_MqttServer" where
  "rp_MqttServer_with_config broker notification_registry gen config =
     \<lparr>rms_broker = broker, rms_notification_registry = notification_registry, rms_session_id_gen = gen, rms_config = config\<rparr>"

definition rp_MqttServer_new :: "PicoBroker \<Rightarrow> NotificationRegistry \<Rightarrow> u64 \<Rightarrow> rp_MqttServer" where
  "rp_MqttServer_new broker notification_registry gen =
     \<lparr>rms_broker = broker, rms_notification_registry = notification_registry, rms_session_id_gen = gen,
      rms_config = rp_MqttServerConfig_default\<rparr>"

lemma rp_MqttServer_new_default: "rp_MqttServer_new b r g = rp_MqttServer_with_config b r g rp_MqttServerConfig_default"
  by (simp add: rp_MqttServer_new_def rp_MqttServer_with_config_def)

section \<open>The conditions of the properties\<close>

lemmas deployment_defs = tokio_DefaultMqttServer_def tokio_SmallMqttServer_def tokio_LargeMqttServer_def tokio_main_config_def
  rp_main_config_def rp_MqttServer_generics_def rp_DefaultMqttServer_def rp_SmallMqttServer_def rp_LargeMqttServer_def

lemma deployments_ok:
  "cfg \<in> {tokio_DefaultMqttServer, tokio_SmallMqttServer, tokio_LargeMqttServer, tokio_main_config, rp_main_config,
     rp_MqttServer_generics, rp_DefaultMqttServer, rp_SmallMqttServer, rp_LargeMqttServer} \<Longrightarrow> config_ok cfg \<and> 0 < QUEUE_SIZE cfg \<and> 0 < MAX_SESSIONS cfg"
  by (auto simp: config_ok_def deployment_defs)

text \<open>The broker of the tokio program is always well-formed, whatever the clients send and however the tasks interleave.\<close>

lemma tokio_main_sound:
  assumes "(tokio_step tokio_main_config hc ready faults)\<^sup>*\<^sup>* tokio_main s"
  shows "broker_wf tokio_main_config (ts_broker s) \<and> traffic_wf tokio_main_config (ts_broker s)"
proof -
  have ok: "config_ok tokio_main_config" using deployments_ok by blast
  have "tokio_reachable tokio_main_config hc ready faults s"
    using reachable_run [OF assms] tokio_reachable.start by (simp add: tokio_main_def)
  from tokio_reachable_inv [OF this ok] have "reachable tokio_main_config (ts_broker s)" by (simp add: server_inv_def)
  from reachable_invariants [OF this ok] show ?thesis .
qed

text \<open>
  The vector of eight packets in the handler of the rp2040 program holds a whole transmit queue, and the cleanup task finds room for all
  sessions; with the capacities of \<^verbatim>\<open>LargeMqttServer\<close> neither would be so.
\<close>

lemma rp_main_bounds:
  "QUEUE_SIZE rp_main_config \<le> 8" "MAX_SESSIONS rp_main_config \<le> 4" "8 < QUEUE_SIZE rp_LargeMqttServer"
  "4 < MAX_SESSIONS rp_LargeMqttServer"
  by (simp_all add: deployment_defs)

lemma rp_main_drains_all:
  assumes "\<forall>v pkt. push v pkt = (if length v < 8 then Some (v @ [pkt]) else None)" "broker_wf rp_main_config b"
  shows "\<exists>b'. rp_drain push (b, c) = Some (b', c\<lparr>rc_phase := Rp_Writing (tx b (rc_sid c))\<rparr>) \<and> tx b' = (tx b)(rc_sid c := [])"
proof -
  have "length (tx b (rc_sid c)) \<le> 8" using tx_within [OF assms(2), of "rc_sid c"] rp_main_bounds(1) by simp
  with rp_drain_sends_eight [OF assms, of c] show ?thesis by simp
qed

end
