(* ===== verification/Strings.thy ===== *)
theory Strings
  imports Heapless
begin

text \<open>
  The methods of \<^verbatim>\<open>str\<close> that the hexadecimal helpers (\<^verbatim>\<open>protocol/utils.rs\<close>) and the build script of the rp2040 server use:
  white space, \<^verbatim>\<open>trim\<close>, \<^verbatim>\<open>split_whitespace\<close>, \<^verbatim>\<open>lines\<close>, \<^verbatim>\<open>split_once\<close>, \<^verbatim>\<open>trim_matches\<close> and \<^verbatim>\<open>u8::from_str_radix\<close>. A text is the list of its UTF-8 bytes.
\<close>

section \<open>White space\<close>

text \<open>
  The length of the encoding of a character with the Unicode property \<^verbatim>\<open>White_Space\<close> at the start of a text, zero if there is none.
  The characters are U+0009 to U+000D, U+0020, U+0085, U+00A0, U+1680, U+2000 to U+200A, U+2028, U+2029, U+202F, U+205F and
  U+3000. In valid UTF-8 these sequences occur at character boundaries only.
\<close>

fun ws_len :: "bytes \<Rightarrow> nat" where
  "ws_len [] = 0"
| "ws_len (a # bs) =
     (if 0x09 \<le> a \<and> a \<le> 0x0D \<or> a = 0x20 then 1
      else case bs of
        [] \<Rightarrow> 0
      | b # cs \<Rightarrow>
          if a = 0xC2 \<and> (b = 0x85 \<or> b = 0xA0) then 2
          else case cs of
            [] \<Rightarrow> 0
          | c # _ \<Rightarrow>
              if a = 0xE1 \<and> b = 0x9A \<and> c = 0x80 \<or>
                 a = 0xE2 \<and> b = 0x80 \<and> (0x80 \<le> c \<and> c \<le> 0x8A \<or> c = 0xA8 \<or> c = 0xA9 \<or> c = 0xAF) \<or>
                 a = 0xE2 \<and> b = 0x81 \<and> c = 0x9F \<or>
                 a = 0xE3 \<and> b = 0x80 \<and> c = 0x80
              then 3 else 0)"

lemma ws_len_printable:
  assumes "0x20 < a" "a < 0x80"
  shows "ws_len (a # bs) = 0"
proof -
  have "\<not> a \<le> 0x0D" "a \<noteq> 0x20" "a \<noteq> 0xC2" "a \<noteq> 0xE1" "a \<noteq> 0xE2" "a \<noteq> 0xE3"
    using assms by (auto simp: word_le_nat_alt word_less_nat_alt)
  then show ?thesis by (simp split: list.split)
qed

lemma ws_len_le: "ws_len bs \<le> length bs"
  by (cases bs rule: ws_len.cases) (auto split: list.split)

function trim_start :: "bytes \<Rightarrow> bytes" where
  "trim_start bs = (if ws_len bs = 0 then bs else trim_start (drop (ws_len bs) bs))"
  by pat_completeness auto
termination
proof (relation "measure length")
  fix bs :: bytes assume "ws_len bs \<noteq> 0"
  then show "(drop (ws_len bs) bs, bs) \<in> measure length" by (cases bs) auto
qed simp

text \<open>The same at the end of a text: the number of its last bytes that are a white space character.\<close>

definition ws_end :: "bytes \<Rightarrow> nat" where
  "ws_end bs =
     (if list_ex (\<lambda>n. n \<le> length bs \<and> ws_len (drop (length bs - n) bs) = n) [1, 2, 3]
      then hd (filter (\<lambda>n. n \<le> length bs \<and> ws_len (drop (length bs - n) bs) = n) [1, 2, 3]) else 0)"

lemma ws_end_le: "ws_end bs \<le> length bs"
  by (auto simp: ws_end_def)

function trim_end :: "bytes \<Rightarrow> bytes" where
  "trim_end bs = (if ws_end bs = 0 then bs else trim_end (take (length bs - ws_end bs) bs))"
  by pat_completeness auto
termination
proof (relation "measure length")
  fix bs :: bytes assume "ws_end bs \<noteq> 0"
  then show "(take (length bs - ws_end bs) bs, bs) \<in> measure length" using ws_end_le [of bs] by (cases bs) auto
qed simp

declare trim_start.simps [simp del] trim_end.simps [simp del]

definition trim :: "bytes \<Rightarrow> bytes" where
  "trim bs = trim_end (trim_start bs)"

text \<open>\<^verbatim>\<open>split_whitespace\<close>: the pieces between white space that are not empty; \<open>w\<close> is the piece at hand.\<close>

function split_whitespace_loop :: "bytes \<Rightarrow> bytes \<Rightarrow> bytes list" where
  "split_whitespace_loop w [] = (if w = [] then [] else [w])"
| "split_whitespace_loop w (b # bs) =
     (if ws_len (b # bs) = 0 then split_whitespace_loop (w @ [b]) bs
      else (if w = [] then [] else [w]) @ split_whitespace_loop [] (drop (ws_len (b # bs)) (b # bs)))"
  by pat_completeness auto
termination
proof (relation "measure (\<lambda>(w, bs). length bs)")
  fix w b and bs :: bytes assume "ws_len (b # bs) \<noteq> 0"
  then show "(([], drop (ws_len (b # bs)) (b # bs)), w, b # bs) \<in> measure (\<lambda>(w, bs). length bs)" by simp
qed auto

definition split_whitespace :: "bytes \<Rightarrow> bytes list" where
  "split_whitespace bs = split_whitespace_loop [] bs"

section \<open>Lines and separators\<close>

text \<open>\<^verbatim>\<open>lines\<close>: a line feed ends a line, with a carriage return before it; the last line may lack it.\<close>

definition strip_cr :: "bytes \<Rightarrow> bytes" where
  "strip_cr l = (if l \<noteq> [] \<and> last l = 0x0D then butlast l else l)"

fun lines_loop :: "bytes \<Rightarrow> bytes \<Rightarrow> bytes list" where
  "lines_loop l [] = (if l = [] then [] else [l])"
| "lines_loop l (b # bs) = (if b = 0x0A then strip_cr l # lines_loop [] bs else lines_loop (l @ [b]) bs)"

definition lines :: "bytes \<Rightarrow> bytes list" where
  "lines bs = lines_loop [] bs"

definition split_once :: "u8 \<Rightarrow> bytes \<Rightarrow> (bytes \<times> bytes) option" where
  "split_once c bs = (case position (\<lambda>b. b = c) bs of Some i \<Rightarrow> Some (take i bs, drop (i + 1) bs) | None \<Rightarrow> None)"

definition trim_matches :: "u8 \<Rightarrow> bytes \<Rightarrow> bytes" where
  "trim_matches c bs = rev (dropWhile (\<lambda>b. b = c) (rev (dropWhile (\<lambda>b. b = c) bs)))"

section \<open>Hexadecimal digits\<close>

definition hex_value :: "u8 \<Rightarrow> nat option" where
  "hex_value c =
     (if 0x30 \<le> c \<and> c \<le> 0x39 then Some (unat c - 0x30)
      else if 0x41 \<le> c \<and> c \<le> 0x46 then Some (unat c - 0x41 + 10)
      else if 0x61 \<le> c \<and> c \<le> 0x66 then Some (unat c - 0x61 + 10)
      else None)"

text \<open>\<^verbatim>\<open>u8::from_str_radix(s, 16)\<close>: a sign \<^verbatim>\<open>+\<close> is allowed, an empty text, another character or a value above 255 is an error.\<close>

fun from_hex_loop :: "nat \<Rightarrow> bytes \<Rightarrow> u8 option" where
  "from_hex_loop n [] = Some (of_nat n)"
| "from_hex_loop n (c # cs) =
     (case hex_value c of
        Some d \<Rightarrow> if n * 16 + d < 256 then from_hex_loop (n * 16 + d) cs else None
      | None \<Rightarrow> None)"

definition u8_from_hex :: "bytes \<Rightarrow> u8 option" where
  "u8_from_hex s =
     (let digits = (if s \<noteq> [] \<and> hd s = 0x2B then tl s else s) in
      if digits = [] then None else from_hex_loop 0 digits)"

end
