(* ===== verification/Texts.thy ===== *)
theory Texts
  imports Packets Topics
begin

text \<open>
  The texts of the program: the \<^verbatim>\<open>Display\<close> implementations of the errors (\<^verbatim>\<open>error.rs\<close>, \<^verbatim>\<open>protocol/error.rs\<close>), of the
  strings and of the packets (\<^verbatim>\<open>protocol/packets/*.rs\<close>), the names of packets in the logs of the example programs, and the
  hexadecimal helpers of \<^verbatim>\<open>protocol/utils.rs\<close>. What \<^verbatim>\<open>core::fmt\<close> does for integers, characters and derived \<^verbatim>\<open>Debug\<close> is modelled as far as
  these texts use it.
\<close>

section \<open>Decimal numbers\<close>

definition digit_char :: "nat \<Rightarrow> char" where
  "digit_char d = char_of (48 + d)"

fun decimal :: "nat \<Rightarrow> string" where
  "decimal n = (if n < 10 then [digit_char n] else decimal (n div 10) @ [digit_char (n mod 10)])"

declare decimal.simps [simp del]

definition is_digit :: "char \<Rightarrow> bool" where
  "is_digit c \<longleftrightarrow> 48 \<le> (of_char c :: nat) \<and> (of_char c :: nat) < 58"

definition number :: "string \<Rightarrow> nat" where
  "number = foldl (\<lambda>a c. 10 * a + (of_char c - 48)) 0"

lemma of_digit_char: "d < 10 \<Longrightarrow> of_char (digit_char d) = 48 + d"
  by (simp add: digit_char_def)

lemma decimal_digits: "decimal n \<noteq> [] \<and> (\<forall>c \<in> set (decimal n). is_digit c)"
  by (induction n rule: decimal.induct) (subst (1 2) decimal.simps, auto simp: is_digit_def of_digit_char)

lemma number_decimal: "number (decimal n) = n"
proof (induction n rule: decimal.induct)
  case (1 n)
  then show ?case by (subst decimal.simps) (simp add: number_def of_digit_char)
qed

lemma decimal_inject [simp]: "decimal m = decimal n \<longleftrightarrow> m = n"
  by (metis number_decimal)

text \<open>A number ends where the next character is not a digit, so two texts with numbers are equal only if the numbers are.\<close>

lemma takeWhile_decimal: "\<not> is_digit c \<Longrightarrow> takeWhile is_digit (decimal n @ c # r) = decimal n"
  "takeWhile is_digit (decimal n) = decimal n"
  using decimal_digits [of n] by (simp_all add: takeWhile_append)

lemma decimal_split [simp]:
  assumes "\<not> is_digit c" "\<not> is_digit d"
  shows "decimal m @ c # r = decimal n @ d # s \<longleftrightarrow> m = n \<and> c = d \<and> r = s"
proof
  assume e: "decimal m @ c # r = decimal n @ d # s"
  have "decimal m = decimal n"
    using takeWhile_decimal(1) [OF assms(1), of m r] takeWhile_decimal(1) [OF assms(2), of n s] e by simp
  with e show "m = n \<and> c = d \<and> r = s" by simp
qed simp

lemma decimal_ends [simp]:
  assumes "\<not> is_digit c"
  shows "decimal m @ c # r \<noteq> decimal n" "decimal n \<noteq> decimal m @ c # r"
  using decimal_digits [of n] assms by (metis in_set_conv_decomp)+

lemma decimal_starts [simp]:
  assumes "\<not> is_digit c"
  shows "decimal m \<noteq> c # r" "c # r \<noteq> decimal m" "decimal m @ s \<noteq> c # r" "c # r \<noteq> decimal m @ s"
  using decimal_digits [of m] assms by (cases "decimal m"; auto)+

section \<open>Errors\<close>

fun NetworkError_text :: "NetworkError \<Rightarrow> string" where
  "NetworkError_text ConnectionClosed = ''Connection closed''"
| "NetworkError_text ReadFailed = ''Read operation failed''"
| "NetworkError_text ReadWouldBlock = ''Read operation would block''"
| "NetworkError_text ReadTimedOut = ''Read operation timed out''"
| "NetworkError_text ReadInterrupted = ''Read operation interrupted''"
| "NetworkError_text WriteFailed = ''Write operation failed''"
| "NetworkError_text WriteWouldBlock = ''Write operation would block''"
| "NetworkError_text WriteTimedOut = ''Write operation timed out''"
| "NetworkError_text WriteInterrupted = ''Write operation interrupted''"
| "NetworkError_text FlushFailed = ''Flush operation failed''"
| "NetworkError_text AcceptFailed = ''Accept connection failed''"
| "NetworkError_text AcceptWouldBlock = ''No pending connection to accept''"
| "NetworkError_text CloseFailed = ''Close operation failed''"

fun ProtocolError_text :: "ProtocolError \<Rightarrow> string" where
  "ProtocolError_text (BufferTooSmall n) = ''Buffer too small for packet: size '' @ decimal n"
| "ProtocolError_text ClientIdEmpty = ''Client ID is empty in CONNECT packet''"
| "ProtocolError_text (ClientIdLengthExceeded max_length actual_length) =
     ''Client ID length exceeded: length '' @ decimal actual_length @ '', max '' @ decimal max_length"
| "ProtocolError_text (IncompletePacket n) = ''Incomplete packet: available '' @ decimal n"
| "ProtocolError_text (InvalidConnectFlags flags) = ''Invalid connect flags in CONNECT packet: '' @ decimal (unat flags)"
| "ProtocolError_text (InvalidConnectReturnCode code) =
     ''Invalid connect return code in CONNACK: '' @ decimal (unat code)"
| "ProtocolError_text (InvalidPacketLength n m) =
     ''Invalid packet length: expected '' @ decimal n @ '', got '' @ decimal m"
| "ProtocolError_text (InvalidPacketType packet_type) = ''Invalid packet type: '' @ decimal (unat packet_type)"
| "ProtocolError_text InvalidProtocolName = ''Invalid protocol name in CONNECT packet''"
| "ProtocolError_text (InvalidSessionPresentFlag flag) =
     ''Invalid session present flag in CONNACK packet: '' @ decimal (unat flag)"
| "ProtocolError_text InvalidUtf8String = ''Invalid UTF-8 string''"
| "ProtocolError_text MissingPacketId = ''Missing Packet Identifier where one is required''"
| "ProtocolError_text (PasswordLengthExceeded max_length actual_length) =
     ''Password length exceeded: length '' @ decimal actual_length @ '', max '' @ decimal max_length"
| "ProtocolError_text (PayloadTooLarge max_size actual_size) =
     ''Payload too large: size '' @ decimal actual_size @ '', max '' @ decimal max_size"
| "ProtocolError_text (InvalidQosLevel level) = ''Invalid QoS level: '' @ decimal (unat level)"
| "ProtocolError_text TopicEmpty = ''Topic name is empty''"
| "ProtocolError_text (TopicNameLengthExceeded max_length actual_length) =
     ''Topic name length exceeded: length '' @ decimal actual_length @ '', max '' @ decimal max_length"
| "ProtocolError_text (UnsupportedProtocolLevel level) =
     ''Unsupported protocol level in CONNECT packet: '' @ decimal (unat level)"
| "ProtocolError_text (UsernameLengthExceeded max_length actual_length) =
     ''Username length exceeded: length '' @ decimal actual_length @ '', max '' @ decimal max_length"

fun BrokerError_text :: "BrokerError \<Rightarrow> string" where
  "BrokerError_text (SessionAlreadyExists session_id) = ''Session '' @ decimal (unat session_id) @ '' already exists''"
| "BrokerError_text (SessionNotFound session_id) = ''Session '' @ decimal (unat session_id) @ '' not found''"
| "BrokerError_text (SessionQueueFull session_id queue_size) =
     ''Session '' @ decimal (unat session_id) @ '' queue full (size: '' @ decimal queue_size @ '')''"
| "BrokerError_text (SessionDisconnected session_id) = ''Session '' @ decimal (unat session_id) @ '' disconnected''"
| "BrokerError_text (MaxSessionsReached current limit) =
     ''Maximum sessions reached: '' @ decimal current @ ''/'' @ decimal limit"
| "BrokerError_text (MaxSubscribersPerTopicReached current limit) =
     ''Maximum subscribers per topic reached: '' @ decimal current @ ''/'' @ decimal limit"
| "BrokerError_text (MaxTopicsReached current limit) = ''Maximum topics reached: '' @ decimal current @ ''/'' @ decimal limit"
| "BrokerError_text (Network error) = ''Network error: '' @ NetworkError_text error"
| "BrokerError_text (Protocol error) = ''Protocol error: '' @ ProtocolError_text error"
| "BrokerError_text BufferFull = ''Buffer full''"

text \<open>The texts tell all errors apart, with their numbers.\<close>

lemma not_digits [simp]: "\<not> is_digit CHR '' ''" "\<not> is_digit CHR ''/''" "\<not> is_digit CHR '',''" "\<not> is_digit CHR '')''"
  by (simp_all add: is_digit_def)

lemma unat_eq_iff: "unat a = unat b \<longleftrightarrow> a = b"
  by (simp add: word_unat_eq_iff)

lemma NetworkError_text_inject [simp]: "NetworkError_text e = NetworkError_text e' \<longleftrightarrow> e = e'"
  by (cases e; cases e') simp_all

lemma ProtocolError_text_inject [simp]: "ProtocolError_text e = ProtocolError_text e' \<longleftrightarrow> e = e'"
  by (cases e; cases e') (auto simp: unat_eq_iff)

lemma BrokerError_text_inject [simp]: "BrokerError_text e = BrokerError_text e' \<longleftrightarrow> e = e'"
  by (cases e; cases e') (auto simp: unat_eq_iff)

section \<open>Writing to a formatter\<close>

text \<open>
  A \<^verbatim>\<open>fmt\<close> method appends to the output and may stop with \<^verbatim>\<open>core::fmt::Error\<close>; what it has written by then stays.
\<close>

datatype fmt_error = fmt_Error

type_synonym formatter = "(bytes, unit, fmt_error) action"

definition str :: "string \<Rightarrow> bytes" where
  "str = map of_char"

lemma str_code [code]: "str s = map (\<lambda>c. word_of_int (of_char c)) s"
  by (simp add: str_def of_int_of_char)

definition fmt_str :: "bytes \<Rightarrow> formatter" where
  "fmt_str s = (\<lambda>out. (Ok (), out @ s))"

definition fmt_text :: "string \<Rightarrow> formatter" where
  "fmt_text t = fmt_str (str t)"

definition HeaplessString_fmt :: "HeaplessString \<Rightarrow> formatter" where
  "HeaplessString_fmt s =
     (case from_utf8 (HeaplessString_bytes s) of
        Some t \<Rightarrow> fmt_str t
      | None \<Rightarrow> fail fmt_Error)"

definition ClientId_fmt :: "ClientId \<Rightarrow> formatter" where
  "ClientId_fmt c = HeaplessString_fmt c"

definition TopicName_fmt :: "TopicName \<Rightarrow> formatter" where
  "TopicName_fmt t = HeaplessString_fmt t"

section \<open>Derived Debug\<close>

definition bool_text :: "bool \<Rightarrow> string" where
  "bool_text b = (if b then ''true'' else ''false'')"

fun option_debug :: "('a \<Rightarrow> string) \<Rightarrow> 'a option \<Rightarrow> string" where
  "option_debug f None = ''None''"
| "option_debug f (Some x) = ''Some('' @ f x @ '')''"

fun comma_separated :: "string list \<Rightarrow> string" where
  "comma_separated [] = []"
| "comma_separated [t] = t"
| "comma_separated (t # u # ts) = t @ '', '' @ comma_separated (u # ts)"

definition bytes_debug :: "bytes \<Rightarrow> string" where
  "bytes_debug bs = ''['' @ comma_separated (map (\<lambda>b. decimal (unat b)) bs) @ '']''"

definition HeaplessString_debug :: "HeaplessString \<Rightarrow> string" where
  "HeaplessString_debug s =
     ''HeaplessString { length: '' @ decimal (unat (slength s)) @ '', data: '' @ bytes_debug (sdata s) @ '' }''"

definition HeaplessVec_debug :: "u8 HeaplessVec \<Rightarrow> string" where
  "HeaplessVec_debug v =
     ''HeaplessVec { length: '' @ decimal (unat (vlength v)) @ '', data: '' @ bytes_debug (vdata v) @ '' }''"

definition TopicName_debug :: "TopicName \<Rightarrow> string" where
  "TopicName_debug t = ''TopicName('' @ HeaplessString_debug t @ '')''"

fun QoS_debug :: "QoS \<Rightarrow> string" where
  "QoS_debug AtMostOnce = ''AtMostOnce''"
| "QoS_debug AtLeastOnce = ''AtLeastOnce''"
| "QoS_debug ExactlyOnce = ''ExactlyOnce''"

fun ConnectReturnCode_debug :: "ConnectReturnCode \<Rightarrow> string" where
  "ConnectReturnCode_debug Accepted = ''Accepted''"
| "ConnectReturnCode_debug UnacceptableProtocolVersion = ''UnacceptableProtocolVersion''"
| "ConnectReturnCode_debug IdentifierRejected = ''IdentifierRejected''"
| "ConnectReturnCode_debug ServerUnavailable = ''ServerUnavailable''"
| "ConnectReturnCode_debug BadUserNameOrPassword = ''BadUserNameOrPassword''"
| "ConnectReturnCode_debug NotAuthorized = ''NotAuthorized''"

text \<open>\<^verbatim>\<open>{:08b}\<close> of a byte\<close>

definition binary8 :: "u8 \<Rightarrow> string" where
  "binary8 b = map (\<lambda>i. if bit b i then CHR ''1'' else CHR ''0'') [7, 6, 5, 4, 3, 2, 1, 0]"

section \<open>Packets\<close>

definition PubAckPacket_fmt :: "PubAckPacket \<Rightarrow> formatter" where
  "PubAckPacket_fmt p = fmt_text (''PubAckPacket { packet_id: '' @ decimal (unat (puback_packet_id p)) @ '' }'')"

definition PubRecPacket_fmt :: "PubRecPacket \<Rightarrow> formatter" where
  "PubRecPacket_fmt p = fmt_text (''PubRecPacket { packet_id: '' @ decimal (unat (pubrec_packet_id p)) @ '' }'')"

definition PubRelPacket_fmt :: "PubRelPacket \<Rightarrow> formatter" where
  "PubRelPacket_fmt p = fmt_text (''PubRelPacket { packet_id: '' @ decimal (unat (pubrel_packet_id p)) @ '' }'')"

definition PubCompPacket_fmt :: "PubCompPacket \<Rightarrow> formatter" where
  "PubCompPacket_fmt p = fmt_text (''PubCompPacket { packet_id: '' @ decimal (unat (pubcomp_packet_id p)) @ '' }'')"

definition UnsubAckPacket_fmt :: "UnsubAckPacket \<Rightarrow> formatter" where
  "UnsubAckPacket_fmt p = fmt_text (''UnsubAckPacket { packet_id: '' @ decimal (unat (unsuback_packet_id p)) @ '' }'')"

definition PingReqPacket_fmt :: "PingReqPacket \<Rightarrow> formatter" where
  "PingReqPacket_fmt p = fmt_text ''PingReqPacket { }''"

definition PingRespPacket_fmt :: "PingRespPacket \<Rightarrow> formatter" where
  "PingRespPacket_fmt p = fmt_text ''PingRespPacket { }''"

definition DisconnectPacket_fmt :: "DisconnectPacket \<Rightarrow> formatter" where
  "DisconnectPacket_fmt p = fmt_text ''DisconnectPacket { }''"

definition ConnAckPacket_fmt :: "ConnAckPacket \<Rightarrow> formatter" where
  "ConnAckPacket_fmt p =
     fmt_text (''ConnAckPacket { session_present: '' @ bool_text (session_present p) @ '', return_code: '' @
       ConnectReturnCode_debug (return_code p) @ '' }'')"

definition SubAckPacket_fmt :: "SubAckPacket \<Rightarrow> formatter" where
  "SubAckPacket_fmt p =
     fmt_text (''SubAckPacket { packet_id: '' @ decimal (unat (suback_packet_id p)) @ '', granted_qos: '' @
       QoS_debug (granted_qos p) @ '' }'')"

definition PublishPacket_fmt :: "PublishPacket \<Rightarrow> formatter" where
  "PublishPacket_fmt p =
     then_do (fmt_text ''PublishPacket { topic_name: '') (\<lambda>_.
     then_do (TopicName_fmt (pub_topic_name p)) (\<lambda>_.
     fmt_text ('', packet_id: '' @ option_debug (\<lambda>n. decimal (unat n)) (pub_packet_id p) @ '', qos: '' @ QoS_debug (pub_qos p) @
       '', dup: '' @ bool_text (pub_dup p) @ '', retain: '' @ bool_text (pub_retain p) @ '', payload: '' @
       decimal (HeaplessVec_len (pub_payload p)) @ '' bytes }'')))"

definition SubscribePacket_fmt :: "SubscribePacket \<Rightarrow> formatter" where
  "SubscribePacket_fmt p =
     then_do (fmt_text (''SubscribePacket { packet_id: '' @ decimal (unat (sub_packet_id p)) @ '', topic_filter: '')) (\<lambda>_.
     then_do (TopicName_fmt (sub_topic_filter p)) (\<lambda>_.
     fmt_text ('', requested_qos: '' @ QoS_debug (sub_requested_qos p) @ '' }'')))"

definition UnsubscribePacket_fmt :: "UnsubscribePacket \<Rightarrow> formatter" where
  "UnsubscribePacket_fmt p =
     then_do (fmt_text (''UnsubscribePacket { packet_id: '' @ decimal (unat (unsub_packet_id p)) @ '', topic_filter: '')) (\<lambda>_.
     then_do (TopicName_fmt (unsub_topic_filter p)) (\<lambda>_. fmt_text '' }''))"

definition ConnectPacket_fmt :: "ConnectPacket \<Rightarrow> formatter" where
  "ConnectPacket_fmt p =
     then_do (fmt_text ''ConnectPacket { client_id: '') (\<lambda>_.
     then_do (ClientId_fmt (con_client_id p)) (\<lambda>_.
     fmt_text ('', keep_alive: '' @ decimal (unat (con_keep_alive p)) @ '', connect_flags: '' @ binary8 (connect_flags p) @
       '', will_topic: '' @ option_debug TopicName_debug (will_topic p) @
       '', will_payload: '' @ option_debug HeaplessVec_debug (will_payload p) @
       '', username: '' @ option_debug HeaplessString_debug (username p) @
       '', password: '' @ option_debug HeaplessVec_debug (password p) @ '' }'')))"

fun Packet_fmt :: "Packet \<Rightarrow> formatter" where
  "Packet_fmt (Connect p) = ConnectPacket_fmt p"
| "Packet_fmt (ConnAck p) = ConnAckPacket_fmt p"
| "Packet_fmt (Publish p) = PublishPacket_fmt p"
| "Packet_fmt (PubAck p) = PubAckPacket_fmt p"
| "Packet_fmt (PubRec p) = PubRecPacket_fmt p"
| "Packet_fmt (PubRel p) = PubRelPacket_fmt p"
| "Packet_fmt (PubComp p) = PubCompPacket_fmt p"
| "Packet_fmt (Subscribe p) = SubscribePacket_fmt p"
| "Packet_fmt (SubAck p) = SubAckPacket_fmt p"
| "Packet_fmt (Unsubscribe p) = UnsubscribePacket_fmt p"
| "Packet_fmt (UnsubAck p) = UnsubAckPacket_fmt p"
| "Packet_fmt (PingReq p) = PingReqPacket_fmt p"
| "Packet_fmt (PingResp p) = PingRespPacket_fmt p"
| "Packet_fmt (Disconnect p) = DisconnectPacket_fmt p"

fun packet_type_name :: "Packet \<Rightarrow> string" where
  "packet_type_name (Connect _) = ''CONNECT''"
| "packet_type_name (ConnAck _) = ''CONNACK''"
| "packet_type_name (Publish _) = ''PUBLISH''"
| "packet_type_name (PubAck _) = ''PUBACK''"
| "packet_type_name (PubRec _) = ''PUBREC''"
| "packet_type_name (PubRel _) = ''PUBREL''"
| "packet_type_name (PubComp _) = ''PUBCOMP''"
| "packet_type_name (Subscribe _) = ''SUBSCRIBE''"
| "packet_type_name (SubAck _) = ''SUBACK''"
| "packet_type_name (Unsubscribe _) = ''UNSUBSCRIBE''"
| "packet_type_name (UnsubAck _) = ''UNSUBACK''"
| "packet_type_name (PingReq _) = ''PINGREQ''"
| "packet_type_name (PingResp _) = ''PINGRESP''"
| "packet_type_name (Disconnect _) = ''DISCONNECT''"

text \<open>\<^verbatim>\<open>format!\<close> panics when a \<^verbatim>\<open>fmt\<close> method returns an error.\<close>

definition format :: "formatter \<Rightarrow> (bytes, 'e) result" where
  "format f = (case f [] of (Ok _, out) \<Rightarrow> Ok out | _ \<Rightarrow> Panic)"

text \<open>\<^verbatim>\<open>packet_details\<close> of the tokio server and of the client\<close>

fun packet_details :: "Packet \<Rightarrow> (bytes, unit) result" where
  "packet_details (Connect c) = format (then_do (fmt_text ''client_id='') (\<lambda>_. ClientId_fmt (con_client_id c)))"
| "packet_details (ConnAck c) = format (fmt_text (''rc='' @ decimal (unat (ConnectReturnCode_as_u8 (return_code c)))))"
| "packet_details (Publish p) =
     format (then_do (fmt_text ''topic='') (\<lambda>_.
       then_do (TopicName_fmt (pub_topic_name p)) (\<lambda>_.
       fmt_text ('', qos='' @ decimal (unat (QoS_as_u8 (pub_qos p))) @ '', retain='' @ bool_text (pub_retain p) @
         '', payload_len='' @ decimal (HeaplessVec_len (pub_payload p))))))"
| "packet_details (PubAck p) = format (fmt_text (''packet_id='' @ decimal (unat (puback_packet_id p))))"
| "packet_details (PubRec p) = format (fmt_text (''packet_id='' @ decimal (unat (pubrec_packet_id p))))"
| "packet_details (PubRel p) = format (fmt_text (''packet_id='' @ decimal (unat (pubrel_packet_id p))))"
| "packet_details (PubComp p) = format (fmt_text (''packet_id='' @ decimal (unat (pubcomp_packet_id p))))"
| "packet_details (Subscribe s) =
     format (fmt_text (''packet_id='' @ decimal (unat (sub_packet_id s)) @ '', topics='' @
       decimal (HeaplessString_len (sub_topic_filter s))))"
| "packet_details (SubAck _) = Ok []"
| "packet_details (Unsubscribe u) =
     format (fmt_text (''packet_id='' @ decimal (unat (unsub_packet_id u)) @ '', topics='' @
       decimal (HeaplessString_len (unsub_topic_filter u))))"
| "packet_details (UnsubAck _) = Ok []"
| "packet_details (PingReq _) = Ok []"
| "packet_details (PingResp _) = Ok []"
| "packet_details (Disconnect _) = Ok []"

fun client_packet_details :: "Packet \<Rightarrow> (bytes, unit) result" where
  "client_packet_details (Connect c) =
     format (then_do (fmt_text ''client_id='') (\<lambda>_.
       then_do (ClientId_fmt (con_client_id c)) (\<lambda>_.
       fmt_text ('', keep_alive='' @ decimal (unat (con_keep_alive c)) @ '', clean_session='' @
         bool_text (ConnectFlags_contains (connect_flags c) ConnectFlags_CLEAN_SESSION)))))"
| "client_packet_details (ConnAck c) =
     format (fmt_text (''return_code='' @ ConnectReturnCode_debug (return_code c) @ '', session_present='' @
       bool_text (session_present c)))"
| "client_packet_details (Publish p) =
     format (then_do (fmt_text ''topic='') (\<lambda>_.
       then_do (TopicName_fmt (pub_topic_name p)) (\<lambda>_.
       fmt_text ('', qos='' @ decimal (unat (QoS_as_u8 (pub_qos p))) @ '', retain='' @ bool_text (pub_retain p) @
         '', payload_len='' @ decimal (HeaplessVec_len (pub_payload p))))))"
| "client_packet_details (PubAck p) = format (fmt_text (''packet_id='' @ decimal (unat (puback_packet_id p))))"
| "client_packet_details (PubRec p) = format (fmt_text (''packet_id='' @ decimal (unat (pubrec_packet_id p))))"
| "client_packet_details (PubRel p) = format (fmt_text (''packet_id='' @ decimal (unat (pubrel_packet_id p))))"
| "client_packet_details (PubComp p) = format (fmt_text (''packet_id='' @ decimal (unat (pubcomp_packet_id p))))"
| "client_packet_details (Subscribe s) =
     format (fmt_text (''packet_id='' @ decimal (unat (sub_packet_id s)) @ '', topic_filters='' @
       decimal (HeaplessString_len (sub_topic_filter s))))"
| "client_packet_details (SubAck s) =
     format (fmt_text (''packet_id='' @ decimal (unat (suback_packet_id s)) @ '', granted_qos='' @ QoS_debug (granted_qos s)))"
| "client_packet_details (Unsubscribe u) =
     format (fmt_text (''packet_id='' @ decimal (unat (unsub_packet_id u)) @ '', topic_filters='' @
       decimal (HeaplessString_len (unsub_topic_filter u))))"
| "client_packet_details (UnsubAck u) = format (fmt_text (''packet_id='' @ decimal (unat (unsuback_packet_id u))))"
| "client_packet_details (PingReq _) = Ok []"
| "client_packet_details (PingResp _) = Ok []"
| "client_packet_details (Disconnect _) = Ok []"

section \<open>Printing does not fail on what the decoders accept\<close>

definition prints :: "formatter \<Rightarrow> bytes \<Rightarrow> bool" where
  "prints f t \<longleftrightarrow> (\<forall>out. f out = (Ok (), out @ t))"

named_theorems printing

lemma prints_text [printing]: "prints (fmt_text t) (str t)"
  by (simp add: prints_def fmt_text_def fmt_str_def)

lemma prints_then [printing]: "prints f s \<Longrightarrow> prints g t \<Longrightarrow> prints (then_do f (\<lambda>_. g)) (s @ t)"
  by (simp add: prints_def then_do_cases(1))

lemma prints_string [printing]: "str_ok s \<Longrightarrow> prints (HeaplessString_fmt s) (HeaplessString_bytes s)"
  by (simp add: prints_def HeaplessString_fmt_def str_ok_def from_utf8_def fmt_str_def)

lemma prints_names [printing]:
  "str_ok s \<Longrightarrow> prints (ClientId_fmt s) (HeaplessString_bytes s)" "str_ok s \<Longrightarrow> prints (TopicName_fmt s) (HeaplessString_bytes s)"
  by (simp_all add: ClientId_fmt_def TopicName_fmt_def prints_string)

lemma prints_format: "prints f t \<Longrightarrow> format f = Ok t"
  by (simp add: prints_def format_def)

lemma string_fmt_fails: "\<not> valid_utf8 (HeaplessString_bytes s) \<Longrightarrow> HeaplessString_fmt s out = (Err fmt_Error, out)"
  by (simp add: HeaplessString_fmt_def from_utf8_def fail_def)

lemma wf_strings:
  "ConnectPacket_wf N M c \<Longrightarrow> str_ok (con_client_id c)" "PublishPacket_wf N M p \<Longrightarrow> str_ok (pub_topic_name p)"
  "SubscribePacket_wf N s \<Longrightarrow> str_ok (sub_topic_filter s)" "UnsubscribePacket_wf N u \<Longrightarrow> str_ok (unsub_topic_filter u)"
  by (simp_all add: ConnectPacket_wf_def PublishPacket_wf_def SubscribePacket_wf_def UnsubscribePacket_wf_def text_wf_def topic_wf_def)

lemmas packet_fmt_defs = ConnectPacket_fmt_def ConnAckPacket_fmt_def PublishPacket_fmt_def PubAckPacket_fmt_def PubRecPacket_fmt_def
  PubRelPacket_fmt_def PubCompPacket_fmt_def SubscribePacket_fmt_def SubAckPacket_fmt_def UnsubscribePacket_fmt_def
  UnsubAckPacket_fmt_def PingReqPacket_fmt_def PingRespPacket_fmt_def DisconnectPacket_fmt_def

lemma Packet_prints: "Packet_wf N M p \<Longrightarrow> \<exists>t. prints (Packet_fmt p) t"
  by (cases p) (auto simp: packet_fmt_defs dest!: wf_strings intro: printing exI)

lemma packet_details_Ok: "Packet_wf N M p \<Longrightarrow> \<exists>t. packet_details p = Ok t"
  by (cases p) (auto dest!: wf_strings intro!: prints_format printing exI)

lemma client_packet_details_Ok: "Packet_wf N M p \<Longrightarrow> \<exists>t. client_packet_details p = Ok t"
  by (cases p) (auto dest!: wf_strings intro!: prints_format printing exI)

text \<open>
  Every packet that the decoder accepts can be logged: its \<^verbatim>\<open>Display\<close> writes a text and does not fail, and \<^verbatim>\<open>packet_details\<close> of
  the tokio server and of the client, which format it, do not panic, because the strings in it are valid UTF-8.
\<close>

theorem decoded_packet_printed:
  assumes "N < 2 ^ 8" "M < 2 ^ 16" "Packet_decode N M bs = Ok p"
  shows "(\<exists>t. \<forall>out. Packet_fmt p out = (Ok (), out @ t)) \<and> (\<exists>t. packet_details p = Ok t) \<and> (\<exists>t. client_packet_details p = Ok t)"
proof -
  note wf = Packet_decode_Ok [OF assms]
  show ?thesis using Packet_prints [OF wf] packet_details_Ok [OF wf] client_packet_details_Ok [OF wf] unfolding prints_def by blast
qed

theorem decoded_packet_printed_witness:
  "\<exists>t. \<forall>out. Packet_fmt (PingReq PingReqPacket) out = (Ok (), out @ t)"
proof -
  have "Packet_decode 2 2 [0xC0, 0] = Ok (PingReq PingReqPacket)"
    by (simp add: Packet_decode_def index_def PacketType_from.simps PingReqPacket_decode_def empty_decode_def
      validate_buffer_size_def validate_packet_type_def slice_from_def)
  from decoded_packet_printed [OF _ _ this] show ?thesis by simp
qed

text \<open>
  The texts of the errors tell all errors apart, with the numbers in them, through all levels: two values of \<^verbatim>\<open>BrokerError\<close> (and of
  the \<^verbatim>\<open>NetworkError\<close> and the \<^verbatim>\<open>ProtocolError\<close> inside) with the same \<^verbatim>\<open>Display\<close> text are equal.
\<close>

theorem error_texts_distinct: "BrokerError_text e = BrokerError_text e' \<longleftrightarrow> e = e'"
  by (rule BrokerError_text_inject)

end
