(* ===== verification/Build_Env.thy ===== *)
theory Build_Env
  imports Strings Texts
begin

text \<open>
  The build script of the rp2040 server (\<^verbatim>\<open>build.rs\<close>): it passes the variables of a \<^verbatim>\<open>.env\<close> file to the compiler unless the environment
  has them, and prints the directives for the linker. The files and the environment are arguments.
\<close>

section \<open>The script\<close>

definition env_line :: "(bytes \<Rightarrow> bool) \<Rightarrow> bytes \<Rightarrow> bytes option" where
  "env_line is_set line =
     (let line = trim line in
      if line = [] \<or> hd line = 0x23 then None
      else case split_once 0x3D line of
        None \<Rightarrow> None
      | Some (key, val) \<Rightarrow>
          let key = trim key; val = trim_matches 0x22 (trim val) in
          if \<not> is_set key then Some (str ''cargo:rustc-env='' @ key @ str ''='' @ val) else None)"

definition env_directives :: "(bytes \<Rightarrow> bool) \<Rightarrow> bytes \<Rightarrow> bytes list" where
  "env_directives is_set content = List.map_filter (env_line is_set) (lines content)"

text \<open>
  \<^verbatim>\<open>main\<close>: the lines it prints and its outcome. The arguments are the contents of \<^verbatim>\<open>.env\<close> if it can be read, which
  variables the environment has, the directory \<^verbatim>\<open>OUT_DIR\<close> if it is set, and whether \<^verbatim>\<open>memory.x\<close> can be written there.
\<close>

definition build_main :: "bytes option \<Rightarrow> (bytes \<Rightarrow> bool) \<Rightarrow> bytes option \<Rightarrow> bool \<Rightarrow> (unit, unit) result \<times> bytes list" where
  "build_main env_file is_set out_dir copied =
     (let printed = (case env_file of Some content \<Rightarrow> env_directives is_set content | None \<Rightarrow> []) in
      case out_dir of
        None \<Rightarrow> (Panic, printed)
      | Some out \<Rightarrow>
          if copied
          then (Ok (), printed @ [str ''cargo:rustc-link-search='' @ out, str ''cargo:rerun-if-changed=memory.x'',
                  str ''cargo:rerun-if-changed=.env''])
          else (Panic, printed))"

section \<open>Texts without white space at the ends\<close>

definition plain :: "bytes \<Rightarrow> bool" where
  "plain t \<longleftrightarrow> 0x0A \<notin> set t \<and> t \<noteq> [] \<and> 0x20 < hd t \<and> hd t < 0x80 \<and> 0x20 < last t \<and> last t < 0x80"

lemma ws_len_starting: "t \<noteq> [] \<Longrightarrow> 0x20 < hd t \<Longrightarrow> hd t < 0x80 \<Longrightarrow> ws_len t = 0"
  by (cases t) (auto simp: ws_len_printable simp del: ws_len.simps)

lemma ws_len_two: "ws_len [a, b] = 2 \<Longrightarrow> b = 0x85 \<or> b = 0xA0"
  by (auto split: if_splits)

lemma ws_len_three: "ws_len [a, b, c] = 3 \<Longrightarrow> 0x80 \<le> c"
  by (auto split: if_splits)

lemma length_two: "length xs = 2 \<Longrightarrow> \<exists>a b. xs = [a, b]" and length_three: "length ys = 3 \<Longrightarrow> \<exists>a b c. ys = [a, b, c]"
  by (auto simp: numeral_2_eq_2 numeral_3_eq_3 length_Suc_conv)

lemma ws_end_plain:
  assumes "t \<noteq> []" "0x20 < last t" "last t < 0x80"
  shows "ws_end t = 0"
proof -
  have e: "t = butlast t @ [last t]" using assms(1) by simp
  have "ws_len (drop (length t - n) t) \<noteq> n" if n: "n \<le> length t" "n \<in> {1, 2, 3}" for n
  proof -
    consider "n = 1" | "n = 2" | "n = 3" using n(2) by auto
    then show ?thesis
    proof cases
      case 1
      have "drop (length t - 1) t = [last t]" using assms(1) by (cases t rule: rev_cases) simp_all
      then show ?thesis using 1 ws_len_printable [OF assms(2,3), of "[]"] by simp
    next
      case 2
      have "length (drop (length t - 2) t) = 2" using 2 n(1) by simp
      from length_two [OF this] obtain a b where d: "drop (length t - 2) t = [a, b]" by blast
      then have "last t = b" using last_drop [of "length t - 2" t] assms(1) by simp
      then have "b \<noteq> 0x85" "b \<noteq> 0xA0" using assms(3) by auto
      then show ?thesis using ws_len_two [of a b] unfolding 2 d by blast
    next
      case 3
      have "length (drop (length t - 3) t) = 3" using 3 n(1) by simp
      from length_three [OF this] obtain a b c where d: "drop (length t - 3) t = [a, b, c]" by blast
      then have "last t = c" using last_drop [of "length t - 3" t] assms(1) by simp
      then have "\<not> 0x80 \<le> c" using assms(3) by simp
      then show ?thesis using ws_len_three [of a b c] unfolding 3 d by blast
    qed
  qed
  then show ?thesis by (auto simp: ws_end_def)
qed

lemma trim_plain: "plain t \<Longrightarrow> trim t = t"
  by (simp add: plain_def trim_def trim_start.simps trim_end.simps ws_len_starting ws_end_plain)

section \<open>Reading a file back\<close>

text \<open>What a \<^verbatim>\<open>.env\<close> file is made of, how it is written, and what it means.\<close>

datatype env_item = Blank | Comment bytes | Entry bytes bytes | Quoted bytes bytes

fun item_text :: "env_item \<Rightarrow> bytes" where
  "item_text Blank = []"
| "item_text (Comment t) = 0x23 # t"
| "item_text (Entry key val) = key @ 0x3D # val"
| "item_text (Quoted key val) = key @ 0x3D # 0x22 # val @ [0x22]"

definition key_ok :: "bytes \<Rightarrow> bool" where
  "key_ok key \<longleftrightarrow> plain key \<and> 0x3D \<notin> set key \<and> hd key \<noteq> 0x23"

fun item_ok :: "env_item \<Rightarrow> bool" where
  "item_ok Blank = True"
| "item_ok (Comment t) = plain (0x23 # t)"
| "item_ok (Entry key val) = (key_ok key \<and> plain val \<and> hd val \<noteq> 0x22 \<and> last val \<noteq> 0x22)"
| "item_ok (Quoted key val) = (key_ok key \<and> 0x0A \<notin> set val \<and> (val = [] \<or> hd val \<noteq> 0x22 \<and> last val \<noteq> 0x22))"

definition directive :: "bytes \<Rightarrow> bytes \<Rightarrow> bytes" where
  "directive key val = str ''cargo:rustc-env='' @ key @ str ''='' @ val"

fun item_meaning :: "(bytes \<Rightarrow> bool) \<Rightarrow> env_item \<Rightarrow> bytes list" where
  "item_meaning is_set (Entry key val) = (if is_set key then [] else [directive key val])"
| "item_meaning is_set (Quoted key val) = (if is_set key then [] else [directive key val])"
| "item_meaning is_set _ = []"

definition env_text :: "env_item list \<Rightarrow> bytes" where
  "env_text items = concat (map (\<lambda>i. item_text i @ [0x0A]) items)"

lemma split_once_first:
  assumes "c \<notin> set xs"
  shows "split_once c (xs @ c # ys) = Some (xs, ys)"
proof -
  have "position (\<lambda>b. b = c) (xs @ c # ys) = Some (length xs)" using assms by (induction xs) auto
  then show ?thesis by (simp add: split_once_def)
qed

lemma dropWhile_none: "val = [] \<or> hd val \<noteq> c \<Longrightarrow> dropWhile (\<lambda>b. b = c) val = val"
  by (cases val) auto

lemma trim_matches_none: "val = [] \<or> hd val \<noteq> c \<and> last val \<noteq> c \<Longrightarrow> trim_matches c val = val"
  by (auto simp: trim_matches_def dropWhile_none hd_rev)

lemma trim_matches_quotes:
  assumes "val = [] \<or> hd val \<noteq> c \<and> last val \<noteq> c"
  shows "trim_matches c (c # val @ [c]) = val"
proof (cases "val = []")
  case False
  then have "dropWhile (\<lambda>b. b = c) (val @ [c]) = val @ [c]" using assms by (cases val) auto
  moreover have "dropWhile (\<lambda>b. b = c) (rev val) = rev val" using assms False by (cases val rule: rev_cases) auto
  ultimately show ?thesis by (simp add: trim_matches_def)
qed (simp add: trim_matches_def)

lemma plain_pair:
  assumes "plain key" "plain val"
  shows "plain (key @ 0x3D # val)"
  using assms by (auto simp: plain_def)

lemma plain_quoted: "0x0A \<notin> set val \<Longrightarrow> plain (0x22 # val @ [0x22])"
  by (auto simp: plain_def)

lemma env_line_pair:
  assumes "key_ok key" "plain val"
  shows "env_line is_set (key @ 0x3D # val) = (if is_set key then None else Some (directive key (trim_matches 0x22 val)))"
proof -
  have k: "plain key" "0x3D \<notin> set key" "hd key \<noteq> 0x23" "key \<noteq> []" using assms(1) by (auto simp: key_ok_def plain_def)
  have "trim (key @ 0x3D # val) = key @ 0x3D # val" by (rule trim_plain [OF plain_pair [OF k(1) assms(2)]])
  then show ?thesis using k
    by (simp add: env_line_def Let_def split_once_first trim_plain [OF k(1)] trim_plain [OF assms(2)] directive_def)
qed

lemma env_line_item:
  assumes "item_ok i"
  shows "(case env_line is_set (item_text i) of None \<Rightarrow> [] | Some d \<Rightarrow> [d]) = item_meaning is_set i"
proof (cases i)
  case Blank
  then show ?thesis by (simp add: env_line_def trim_def trim_start.simps trim_end.simps ws_end_def)
next
  case (Comment t)
  then have "trim (0x23 # t) = 0x23 # t" using assms by (simp add: trim_plain)
  then show ?thesis using Comment by (simp add: env_line_def)
next
  case (Entry key val)
  then show ?thesis using assms env_line_pair [of key val is_set] by (simp add: trim_matches_none)
next
  case (Quoted key val)
  then show ?thesis using assms env_line_pair [of key "0x22 # val @ [0x22]" is_set] plain_quoted [of val]
    by (simp add: trim_matches_quotes)
qed

lemma lines_loop_line: "0x0A \<notin> set t \<Longrightarrow> lines_loop l (t @ 0x0A # bs) = strip_cr (l @ t) # lines_loop [] bs"
  by (induction t arbitrary: l) auto

lemma item_text_line:
  assumes "item_ok i"
  shows "0x0A \<notin> set (item_text i)" "strip_cr (item_text i) = item_text i"
proof -
  have p: "i \<noteq> Blank \<Longrightarrow> plain (item_text i)"
    using assms plain_pair plain_quoted by (cases i) (auto simp: key_ok_def)
  then show "0x0A \<notin> set (item_text i)" by (cases "i = Blank") (auto simp: plain_def)
  have "i \<noteq> Blank \<Longrightarrow> last (item_text i) \<noteq> 0x0D" using p by (auto simp: plain_def)
  then show "strip_cr (item_text i) = item_text i" by (cases "i = Blank") (auto simp: strip_cr_def)
qed

lemma lines_env_text: "\<forall>i \<in> set items. item_ok i \<Longrightarrow> lines (env_text items) = map item_text items"
  unfolding lines_def
  by (induction items) (simp_all add: env_text_def lines_loop_line item_text_line)

lemma map_filter_concat: "List.map_filter f xs = concat (map (\<lambda>x. case f x of None \<Rightarrow> [] | Some y \<Rightarrow> [y]) xs)"
  by (induction xs) (simp_all add: map_filter_simps split: option.split)

lemma env_directives_text:
  assumes "\<forall>i \<in> set items. item_ok i"
  shows "env_directives is_set (env_text items) = concat (map (item_meaning is_set) items)"
  unfolding env_directives_def lines_env_text [OF assms] map_filter_concat map_map comp_def
  using assms env_line_item by (intro arg_cong [where f = concat] map_cong) auto

text \<open>
  The build script reads a \<^verbatim>\<open>.env\<close> file back: for a file of blank lines, comments and assignments with plain or quoted values, it
  prints, in the order of the file, exactly one \<^verbatim>\<open>cargo:rustc-env\<close> directive for each assignment whose variable the
  environment does not set already, with the quotes removed, and then the three directives for the linker and Cargo.
\<close>

theorem env_file_read_back:
  assumes "\<forall>i \<in> set items. item_ok i"
  shows "build_main (Some (env_text items)) is_set (Some out) True =
    (Ok (), concat (map (item_meaning is_set) items) @
      [str ''cargo:rustc-link-search='' @ out, str ''cargo:rerun-if-changed=memory.x'', str ''cargo:rerun-if-changed=.env''])"
  by (simp add: build_main_def env_directives_text [OF assms])

theorem env_file_read_back_witness:
  "build_main (Some (str ''# net'' @ [0x0A] @ str ''SSID='' @ [0x22] @ str ''my net'' @ [0x22, 0x0A])) (\<lambda>_. False) (Some (str ''/o'')) True =
     (Ok (), [str ''cargo:rustc-env=SSID=my net'', str ''cargo:rustc-link-search=/o'', str ''cargo:rerun-if-changed=memory.x'',
        str ''cargo:rerun-if-changed=.env''])"
proof -
  let ?items = "[Comment (str '' net''), Quoted (str ''SSID'') (str ''my net'')]"
  have "\<forall>i \<in> set ?items. item_ok i" by (simp add: plain_def key_ok_def str_def)
  from env_file_read_back [OF this, of "\<lambda>_. False" "str ''/o''"] show ?thesis
    by (simp add: env_text_def str_def directive_def)
qed

end
