(* ===== verification/Server_Rp_Boot.thy ===== *)
theory Server_Rp_Boot
  imports Deployments Build_Env
begin

text \<open>
  How the rp2040 program comes up, the first part of \<^verbatim>\<open>main\<close> and \<^verbatim>\<open>WifiManager\<close> in \<^verbatim>\<open>main.rs\<close>: it brings up the radio, joins the network,
  and then starts the tasks whose steps are \<^const>\<open>rp_server_step\<close>. The crates it calls (\<^verbatim>\<open>embassy\<close>, \<^verbatim>\<open>cyw43\<close>) are parameters,
  the record \<open>platform\<close>; a call whose only effect is on the hardware is an event of a log. \<open>None\<close> stands for a boot
  that never comes to an end.
\<close>

section \<open>The hardware\<close>

datatype peripheral = PIN_23 | PIN_24 | PIN_25 | PIN_29 | PIO0 | DMA_CH0

record WifiPins =
  wp_pwr :: peripheral
  wp_cs :: peripheral
  wp_clk :: peripheral
  wp_dio :: peripheral
  wp_pio :: peripheral
  wp_dma :: peripheral

text \<open>The parts that \<^verbatim>\<open>Pio::new\<close> divides the block into, and those that \<^verbatim>\<open>PioKeepalive\<close> holds.\<close>

datatype pio_part = Common | Irq_Flags | Irq nat | State_Machine nat

record PioKeepalive =
  pk_common :: pio_part
  pk_irq_flags :: pio_part
  pk_irq1 :: pio_part
  pk_irq2 :: pio_part
  pk_irq3 :: pio_part
  pk_sm1 :: pio_part
  pk_sm2 :: pio_part
  pk_sm3 :: pio_part

section \<open>Tasks, events and the platform\<close>

datatype task = Cyw43_Runner_Task | Net_Runner_Task | Cleanup_Task | Accept_Task usize

datatype task_pool = Cyw43_Pool | Net_Pool | Cleanup_Pool | Accept_Pool

fun pool_of :: "task \<Rightarrow> task_pool" where
  "pool_of Cyw43_Runner_Task = Cyw43_Pool"
| "pool_of Net_Runner_Task = Net_Pool"
| "pool_of Cleanup_Task = Cleanup_Pool"
| "pool_of (Accept_Task _) = Accept_Pool"

text \<open>\<^verbatim>\<open>#[embassy_executor::task]\<close> is a pool of one task, \<^verbatim>\<open>#[embassy_executor::task(pool_size = MAX_SESSIONS)]\<close> one of several.\<close>

fun pool_size :: "task_pool \<Rightarrow> usize" where
  "pool_size Accept_Pool = MAX_SESSIONS rp_main_config"
| "pool_size _ = 1"

datatype boot_event =
    Output_New peripheral bool
  | Pio_New peripheral
  | Pio_Spi_New pio_part pio_part peripheral peripheral peripheral peripheral
  | Cyw43_New bytes
  | Spawn task bool
  | Control_Init bytes
  | Set_Power_Management string
  | Net_New usize u64
  | Join bytes bytes bool
  | Wait_Link_Up
  | Wait_Config_Up

text \<open>
  The crates: whether the executor takes a task beside those that run, the outcome of each attempt to join, the random
  seed, the address that DHCP has given, and the two files of the radio.
\<close>

record platform =
  pf_spawn :: "task \<Rightarrow> task list \<Rightarrow> bool"
  pf_join :: "nat \<Rightarrow> bool"
  pf_seed :: u64
  pf_config_v4 :: "bytes option"
  CYW43_FW :: bytes
  CYW43_CLM :: bytes

record boot =
  bt_log :: "boot_event list"
  bt_tasks :: "task list"

definition emit :: "boot_event \<Rightarrow> boot \<Rightarrow> boot" where
  "emit e s = s\<lparr>bt_log := bt_log s @ [e]\<rparr>"

text \<open>\<^verbatim>\<open>let _ = spawner.spawn(..)\<close>: the result is ignored.\<close>

definition spawn :: "platform \<Rightarrow> task \<Rightarrow> boot \<Rightarrow> boot" where
  "spawn pf t s =
     (let ok = pf_spawn pf t (bt_tasks s) in
      emit (Spawn t ok) (if ok then s\<lparr>bt_tasks := bt_tasks s @ [t]\<rparr> else s))"

section \<open>WifiManager\<close>

record WifiManager =
  wm_pio_keepalive :: PioKeepalive

definition init_cyw43 :: "platform \<Rightarrow> WifiPins \<Rightarrow> string \<Rightarrow> boot \<Rightarrow> PioKeepalive \<times> boot" where
  "init_cyw43 pf pins power_mode s =
     (let s = emit (Output_New (wp_pwr pins) False) s;
          s = emit (Output_New (wp_cs pins) True) s;
          s = emit (Pio_New (wp_pio pins)) s;
          s = emit (Pio_Spi_New (State_Machine 0) (Irq 0) (wp_cs pins) (wp_dio pins) (wp_clk pins) (wp_dma pins)) s;
          pio_keepalive = \<lparr>pk_common = Common, pk_irq_flags = Irq_Flags, pk_irq1 = Irq 1, pk_irq2 = Irq 2, pk_irq3 = Irq 3,
            pk_sm1 = State_Machine 1, pk_sm2 = State_Machine 2, pk_sm3 = State_Machine 3\<rparr>;
          s = emit (Cyw43_New (CYW43_FW pf)) s;
          s = spawn pf Cyw43_Runner_Task s;
          s = emit (Control_Init (CYW43_CLM pf)) s;
          s = emit (Set_Power_Management power_mode) s
      in (pio_keepalive, s))"

definition WifiManager_new :: "PioKeepalive \<Rightarrow> WifiManager" where
  "WifiManager_new pio_keepalive = \<lparr>wm_pio_keepalive = pio_keepalive\<rparr>"

partial_function (option) join_loop :: "platform \<Rightarrow> bytes \<Rightarrow> bytes \<Rightarrow> nat \<Rightarrow> boot \<Rightarrow> boot option" where
  "join_loop pf wifi_ssid wifi_password n s =
     (let ok = pf_join pf n; s' = emit (Join wifi_ssid wifi_password ok) s in
      if ok then Some s' else join_loop pf wifi_ssid wifi_password (n + 1) s')"

definition join_network :: "platform \<Rightarrow> bytes \<Rightarrow> bytes \<Rightarrow> boot \<Rightarrow> boot option" where
  "join_network pf wifi_ssid wifi_password s =
     map_option (\<lambda>s. emit Wait_Config_Up (emit Wait_Link_Up s)) (join_loop pf wifi_ssid wifi_password 0 s)"

section \<open>main\<close>

definition main_pins :: WifiPins where
  "main_pins = \<lparr>wp_pwr = PIN_23, wp_cs = PIN_25, wp_clk = PIN_29, wp_dio = PIN_24, wp_pio = PIO0, wp_dma = DMA_CH0\<rparr>"

definition main_spawn_tasks :: "platform \<Rightarrow> boot \<Rightarrow> boot" where
  "main_spawn_tasks pf s =
     fold (\<lambda>idx. spawn pf (Accept_Task idx)) [0..<MAX_SESSIONS rp_main_config] (spawn pf Cleanup_Task s)"

definition rp_boot :: "platform \<Rightarrow> bytes \<Rightarrow> bytes \<Rightarrow> ((WifiManager \<times> rp_server, unit) result \<times> boot) option" where
  "rp_boot pf WIFI_SSID WIFI_PASSWORD =
     (case init_cyw43 pf main_pins ''PowerSave'' \<lparr>bt_log = [], bt_tasks = []\<rparr> of (pio_keepalive, s) \<Rightarrow>
        let s = emit (Net_New 6 (pf_seed pf)) s;
            s = spawn pf Net_Runner_Task s;
            wifi_manager = WifiManager_new pio_keepalive
        in case join_network pf WIFI_SSID WIFI_PASSWORD s of
             None \<Rightarrow> None
           | Some s \<Rightarrow>
               (case pf_config_v4 pf of
                  None \<Rightarrow> Some (Panic, s)
                | Some ip_info \<Rightarrow> Some (Ok (wifi_manager, rp_main rp_main_config), main_spawn_tasks pf s)))"

section \<open>The loop that joins\<close>

lemma emit_simps [simp]: "bt_log (emit e s) = bt_log s @ [e]" "bt_tasks (emit e s) = bt_tasks s"
  by (simp_all add: emit_def)

lemma spawn_ok: "pf_spawn pf t (bt_tasks s) \<Longrightarrow>
    spawn pf t s = \<lparr>bt_log = bt_log s @ [Spawn t True], bt_tasks = bt_tasks s @ [t]\<rparr>"
  by (simp add: spawn_def emit_def)

lemma join_loop_returns:
  assumes "pf_join pf (n + k)" "\<forall>i < k. \<not> pf_join pf (n + i)"
  shows "join_loop pf ssid pw n s =
    Some (s\<lparr>bt_log := bt_log s @ replicate k (Join ssid pw False) @ [Join ssid pw True]\<rparr>)"
  using assms
proof (induction k arbitrary: n s)
  case 0
  then show ?case by (subst join_loop.simps) (simp add: emit_def)
next
  case (Suc k)
  have "\<not> pf_join pf n" using Suc.prems(2) by force
  have later: "\<forall>i < k. \<not> pf_join pf (n + 1 + i)" using Suc.prems(2) by auto
  have "join_loop pf ssid pw (n + 1) (emit (Join ssid pw False) s) =
      Some (s\<lparr>bt_log := bt_log s @ replicate (Suc k) (Join ssid pw False) @ [Join ssid pw True]\<rparr>)"
    using Suc.IH [OF _ later, of "emit (Join ssid pw False) s"] Suc.prems(1) by (simp add: emit_def)
  with \<open>\<not> pf_join pf n\<close> show ?case by (subst join_loop.simps) simp
qed

text \<open>Without a successful attempt the loop does not return: it has no value, by induction on its approximations.\<close>

lemma join_loop_diverges:
  assumes "\<forall>i. \<not> pf_join pf i"
  shows "join_loop pf ssid pw n s = None"
proof (rule ccontr)
  assume "join_loop pf ssid pw n s \<noteq> None"
  then obtain y where y: "join_loop pf ssid pw n s = Some y" by blast
  have "\<exists>i. pf_join pf i"
    by (rule join_loop.raw_induct [OF _ y, where P = "\<lambda>pf _ _ _ _ _. \<exists>i. pf_join pf i"])
      (auto simp: Let_def split: if_splits)
  then show False using assms by blast
qed

section \<open>The spawner\<close>

text \<open>What the executor promises of \<^verbatim>\<open>spawn\<close>: it takes a task as long as the pool of the task has a free place.\<close>

definition pools_respected :: "platform \<Rightarrow> bool" where
  "pools_respected pf \<longleftrightarrow>
     (\<forall>t ts. pf_spawn pf t ts \<longleftrightarrow> length (filter (\<lambda>u. pool_of u = pool_of t) ts) < pool_size (pool_of t))"

lemma spawn_accepts:
  assumes "pools_respected pf" "k \<le> MAX_SESSIONS rp_main_config" "filter (\<lambda>u. pool_of u = Accept_Pool) (bt_tasks s) = []"
  shows "fold (\<lambda>idx. spawn pf (Accept_Task idx)) [0..<k] s =
    \<lparr>bt_log = bt_log s @ map (\<lambda>i. Spawn (Accept_Task i) True) [0..<k], bt_tasks = bt_tasks s @ map Accept_Task [0..<k]\<rparr>"
  using assms(2)
proof (induction k)
  case (Suc k)
  let ?s = "\<lparr>bt_log = bt_log s @ map (\<lambda>i. Spawn (Accept_Task i) True) [0..<k], bt_tasks = bt_tasks s @ map Accept_Task [0..<k]\<rparr>"
  have "pf_spawn pf (Accept_Task k) (bt_tasks ?s)"
    using assms(1,3) Suc.prems by (simp add: pools_respected_def comp_def)
  then show ?case using Suc by (simp add: spawn_ok)
qed simp

definition tasks_of_main :: "task list" where
  "tasks_of_main = [Cyw43_Runner_Task, Net_Runner_Task, Cleanup_Task] @ map Accept_Task [0..<MAX_SESSIONS rp_main_config]"

text \<open>The log up to the first attempt to join.\<close>

definition radio_log :: "platform \<Rightarrow> boot_event list" where
  "radio_log pf = [Output_New PIN_23 False, Output_New PIN_25 True, Pio_New PIO0,
     Pio_Spi_New (State_Machine 0) (Irq 0) PIN_25 PIN_24 PIN_29 DMA_CH0, Cyw43_New (CYW43_FW pf), Spawn Cyw43_Runner_Task True,
     Control_Init (CYW43_CLM pf), Set_Power_Management ''PowerSave'', Net_New 6 (pf_seed pf), Spawn Net_Runner_Task True]"

definition joined_log :: "platform \<Rightarrow> bytes \<Rightarrow> bytes \<Rightarrow> nat \<Rightarrow> boot_event list" where
  "joined_log pf ssid pw n =
     radio_log pf @ replicate n (Join ssid pw False) @ [Join ssid pw True, Wait_Link_Up, Wait_Config_Up]"

definition main_keepalive :: PioKeepalive where
  "main_keepalive = \<lparr>pk_common = Common, pk_irq_flags = Irq_Flags, pk_irq1 = Irq 1, pk_irq2 = Irq 2, pk_irq3 = Irq 3,
     pk_sm1 = State_Machine 1, pk_sm2 = State_Machine 2, pk_sm3 = State_Machine 3\<rparr>"

lemma radio_up:
  assumes "pools_respected pf"
  shows "\<exists>s. init_cyw43 pf main_pins ''PowerSave'' \<lparr>bt_log = [], bt_tasks = []\<rparr> = (main_keepalive, s) \<and>
    spawn pf Net_Runner_Task (emit (Net_New 6 (pf_seed pf)) s) =
      \<lparr>bt_log = radio_log pf, bt_tasks = [Cyw43_Runner_Task, Net_Runner_Task]\<rparr>"
  using assms
  by (simp add: init_cyw43_def Let_def main_pins_def main_keepalive_def emit_def spawn_def pools_respected_def radio_log_def)

lemma tasks_up:
  assumes "pools_respected pf" "bt_tasks s = [Cyw43_Runner_Task, Net_Runner_Task]"
  shows "main_spawn_tasks pf s =
    \<lparr>bt_log = bt_log s @ Spawn Cleanup_Task True # map (\<lambda>i. Spawn (Accept_Task i) True) [0..<MAX_SESSIONS rp_main_config],
     bt_tasks = tasks_of_main\<rparr>"
proof -
  have "spawn pf Cleanup_Task s = \<lparr>bt_log = bt_log s @ [Spawn Cleanup_Task True], bt_tasks = bt_tasks s @ [Cleanup_Task]\<rparr>"
    using assms by (intro spawn_ok) (simp add: pools_respected_def)
  then show ?thesis
    unfolding main_spawn_tasks_def tasks_of_main_def using assms(2) by (simp add: spawn_accepts [OF assms(1)])
qed

text \<open>What \<^verbatim>\<open>main\<close> amounts to when the attempt after \<open>n\<close> failures joins the network.\<close>

definition booted :: "platform \<Rightarrow> bytes \<Rightarrow> bytes \<Rightarrow> nat \<Rightarrow> (WifiManager \<times> rp_server, unit) result \<times> boot" where
  "booted pf ssid pw n = (case pf_config_v4 pf of
       None \<Rightarrow> (Panic, \<lparr>bt_log = joined_log pf ssid pw n, bt_tasks = [Cyw43_Runner_Task, Net_Runner_Task]\<rparr>)
     | Some ip_info \<Rightarrow> (Ok (WifiManager_new main_keepalive, rp_main rp_main_config),
         \<lparr>bt_log = joined_log pf ssid pw n @
            Spawn Cleanup_Task True # map (\<lambda>i. Spawn (Accept_Task i) True) [0..<MAX_SESSIONS rp_main_config],
          bt_tasks = tasks_of_main\<rparr>))"

lemma join_network_returns:
  assumes "pf_join pf n" "\<forall>m < n. \<not> pf_join pf m"
  shows "join_network pf ssid pw s =
    Some (s\<lparr>bt_log := bt_log s @ replicate n (Join ssid pw False) @ [Join ssid pw True, Wait_Link_Up, Wait_Config_Up]\<rparr>)"
  using assms join_loop_returns [of pf 0 n ssid pw s] by (simp add: join_network_def emit_def)

lemma rp_boot_joined:
  assumes "pools_respected pf" "pf_join pf n" "\<forall>m < n. \<not> pf_join pf m"
  shows "rp_boot pf ssid pw = Some (booted pf ssid pw n)"
proof -
  obtain s where "init_cyw43 pf main_pins ''PowerSave'' \<lparr>bt_log = [], bt_tasks = []\<rparr> = (main_keepalive, s)"
    "spawn pf Net_Runner_Task (emit (Net_New 6 (pf_seed pf)) s) =
       \<lparr>bt_log = radio_log pf, bt_tasks = [Cyw43_Runner_Task, Net_Runner_Task]\<rparr>"
    using radio_up [OF assms(1)] by blast
  then show ?thesis
    by (simp add: rp_boot_def Let_def join_network_returns [OF assms(2,3)] joined_log_def booted_def tasks_up [OF assms(1)]
        split: option.split)
qed

lemma rp_boot_stuck: "\<forall>n. \<not> pf_join pf n \<Longrightarrow> rp_boot pf ssid pw = None"
  by (simp add: rp_boot_def Let_def join_network_def join_loop_diverges split: prod.split)

text \<open>From the boot on, the broker of the device stays well-formed, whatever the clients send and however the tasks interleave.\<close>

lemma rp_boot_server: "rp_boot pf ssid pw = Some (Ok (m, srv), s) \<Longrightarrow> srv = rp_main rp_main_config"
  by (auto simp: rp_boot_def Let_def split: prod.splits option.splits)

theorem rp_program_sound:
  assumes "rp_boot pf ssid pw = Some (Ok (m, srv), s)" "(rp_server_step rp_main_config push collect)\<^sup>*\<^sup>* srv t"
  shows "broker_wf rp_main_config (rs_broker t) \<and> traffic_wf rp_main_config (rs_broker t)"
proof -
  have ok: "config_ok rp_main_config" using deployments_ok by blast
  from assms(2) have "rp_reachable rp_main_config push collect t"
    unfolding rp_boot_server [OF assms(1)] by induction (auto intro: rp_reachable.intros)
  from rp_reachable_inv [OF this ok] reachable_invariants [OF _ ok] show ?thesis by blast
qed


text \<open>A platform whose third attempt to join succeeds.\<close>

definition demo_platform :: platform where
  "demo_platform = \<lparr>pf_spawn = \<lambda>t ts. length (filter (\<lambda>u. pool_of u = pool_of t) ts) < pool_size (pool_of t),
     pf_join = \<lambda>n. n = 2, pf_seed = 7, pf_config_v4 = Some (str ''192.168.0.2''), CYW43_FW = [], CYW43_CLM = []\<rparr>"


section \<open>From the environment file to the radio\<close>

text \<open>
  The program as it is built: the build script prints its directives, Cargo makes an environment for the compiler of them
  (the parameter \<open>cargo\<close>), and \<^verbatim>\<open>env!\<close> takes the name and the password of the network from it; without one of them the program is not built.
\<close>

definition rp_firmware :: "(bytes list \<Rightarrow> bytes \<Rightarrow> bytes option) \<Rightarrow> bytes option \<Rightarrow> (bytes \<Rightarrow> bool) \<Rightarrow> bytes option \<Rightarrow> bool \<Rightarrow>
    (bytes \<times> bytes) option" where
  "rp_firmware cargo env_file is_set out_dir copied =
     (case build_main env_file is_set out_dir copied of
        (Ok _, printed) \<Rightarrow>
          (case (cargo printed (str ''WIFI_SSID''), cargo printed (str ''WIFI_PASSWORD'')) of
             (Some ssid, Some pw) \<Rightarrow> Some (ssid, pw)
           | _ \<Rightarrow> None)
      | _ \<Rightarrow> None)"

text \<open>The assignments of a file, and what Cargo promises: a variable with one directive has the value of that directive.\<close>

fun item_assigns :: "env_item \<Rightarrow> (bytes \<times> bytes) list" where
  "item_assigns (Entry key val) = [(key, val)]"
| "item_assigns (Quoted key val) = [(key, val)]"
| "item_assigns _ = []"

definition assignments :: "env_item list \<Rightarrow> (bytes \<times> bytes) list" where
  "assignments items = concat (map item_assigns items)"

definition cargo_ok :: "(bytes list \<Rightarrow> bytes \<Rightarrow> bytes option) \<Rightarrow> bool" where
  "cargo_ok cargo \<longleftrightarrow> (\<forall>printed key val. directive key val \<in> set printed \<longrightarrow>
     (\<forall>v. directive key v \<in> set printed \<longrightarrow> v = val) \<longrightarrow> cargo printed key = Some val)"

lemma directive_inj:
  assumes "directive key val = directive key' val'" "0x3D \<notin> set key" "0x3D \<notin> set key'"
  shows "key = key' \<and> val = val'"
proof -
  have "key @ 0x3D # val = key' @ 0x3D # val'" using assms(1) by (simp add: directive_def str_def)
  then have "split_once 0x3D (key @ 0x3D # val) = split_once 0x3D (key' @ 0x3D # val')" by (simp only:)
  then show ?thesis unfolding split_once_first [OF assms(2)] split_once_first [OF assms(3)] by blast
qed

lemma directives_printed:
  assumes "\<forall>i \<in> set items. item_ok i" "key_ok key" "\<not> is_set key"
  shows "directive key val \<in> set (concat (map (item_meaning is_set) items)) \<longleftrightarrow> (key, val) \<in> set (assignments items)"
proof -
  have "directive key val \<in> set (item_meaning is_set i) \<longleftrightarrow> (key, val) \<in> set (item_assigns i)" if "item_ok i" for i
    using that assms(2,3) by (cases i) (auto simp: key_ok_def dest: directive_inj)
  then show ?thesis using assms(1) by (auto simp: assignments_def)
qed

lemma linker_lines: "directive key val \<notin> {str ''cargo:rustc-link-search='' @ out, str ''cargo:rerun-if-changed=memory.x'',
    str ''cargo:rerun-if-changed=.env''}"
  by (simp add: directive_def str_def)

lemma cargo_reads:
  assumes "cargo_ok cargo" "\<forall>i \<in> set items. item_ok i" "distinct (map fst (assignments items))" "(key, val) \<in> set (assignments items)"
    and "key_ok key" "\<not> is_set key" "build_main (Some (env_text items)) is_set (Some out) True = (Ok (), printed)"
  shows "cargo printed key = Some val"
proof -
  have "printed = concat (map (item_meaning is_set) items) @ [str ''cargo:rustc-link-search='' @ out,
      str ''cargo:rerun-if-changed=memory.x'', str ''cargo:rerun-if-changed=.env'']"
    using assms(7) by (simp add: build_main_def env_directives_text [OF assms(2)] del: append_assoc)
  then have "set printed = set (concat (map (item_meaning is_set) items)) \<union> {str ''cargo:rustc-link-search='' @ out,
      str ''cargo:rerun-if-changed=memory.x'', str ''cargo:rerun-if-changed=.env''}" by (simp only: set_append list.set)
  then have in_printed: "directive key v \<in> set printed \<longleftrightarrow> (key, v) \<in> set (assignments items)" for v
    by (simp only: Un_iff directives_printed [of items key is_set v, OF assms(2,5,6)] linker_lines simp_thms)
  have "v = val" if "(key, v) \<in> set (assignments items)" for v using eq_key_imp_eq_value [OF assms(3) that assms(4)] .
  with assms(1,4) in_printed show ?thesis unfolding cargo_ok_def by metis
qed


text \<open>Cargo, for the instance: the last directive for a variable counts.\<close>

definition cargo_env :: "bytes list \<Rightarrow> bytes \<Rightarrow> bytes option" where
  "cargo_env printed key =
     (let prefix = directive key []; found = filter (\<lambda>line. take (length prefix) line = prefix) printed in
      if found = [] then None else Some (drop (length prefix) (last found)))"

lemma cargo_env_ok: "cargo_ok cargo_env"
proof -
  have d: "take (length (directive key [])) line = directive key [] \<longleftrightarrow> (\<exists>v. line = directive key v)" for key line
  proof -
    have "directive key v = directive key [] @ v" for v by (simp add: directive_def)
    then show ?thesis by (metis append_eq_conv_conj append_take_drop_id)
  qed
  have "cargo_env printed key = Some val"
    if v: "directive key val \<in> set printed" "\<forall>v. directive key v \<in> set printed \<longrightarrow> v = val" for printed key val
  proof -
    let ?found = "filter (\<lambda>line. take (length (directive key [])) line = directive key []) printed"
    have "set ?found = {l \<in> set printed. \<exists>v. l = directive key v}" unfolding set_filter d ..
    also have "\<dots> = {directive key val}" using v by blast
    finally have "set ?found = {directive key val}" .
    then have "?found \<noteq> []" by (metis empty_not_insert list.set(1))
    with \<open>set ?found = {directive key val}\<close> have "last ?found = directive key val" using last_in_set by blast
    moreover have "drop (length (directive key [])) (directive key val) = val" by (simp add: directive_def)
    ultimately show ?thesis using \<open>?found \<noteq> []\<close> by (simp only: cargo_env_def Let_def if_False)
  qed
  then show ?thesis unfolding cargo_ok_def by blast
qed


end
