(* ===== verification/Server_Rp_Delivery.thy ===== *)
theory Server_Rp_Delivery
  imports Server_Rp_Service "HOL-Library.Code_Target_Nat"
begin

text \<open>
  What the clients of the rp2040 server get, as properties: packets wait only for a bounded number of steps of the handler,
  a PUBLISH reaches the socket of a subscriber, and packets leave in the order of the queue. The run with two connections at the start makes the states of the witnesses.
\<close>

section \<open>Two connections\<close>

text \<open>The first connection has subscribed to the topic \<open>a\<close>, the second one has sent a PUBLISH for it.\<close>

definition rp_b1 :: PicoBroker where
  "rp_b1 = snd (PicoBroker_register_new_session small_config 0x100000000 60 1000 (PicoBroker_new small_config))"

definition rp_b2 :: PicoBroker where
  "rp_b2 = snd (receive_and_process small_config 0x100000000 (Subscribe small_subscribe) 1000 rp_b1)"

definition rp_b3 :: PicoBroker where
  "rp_b3 = snd (drain_packets 0x100000000 rp_b2)"

definition rp_b4 :: PicoBroker where
  "rp_b4 = snd (PicoBroker_register_new_session small_config 0x100000001 60 1000 rp_b3)"

definition rp_suback :: Packet where
  "rp_suback = SubAck \<lparr>suback_packet_id = 1, granted_qos = AtMostOnce\<rparr>"

lemma rp_demo_broker:
  "PicoBroker_register_new_session small_config 0x100000000 60 1000 (PicoBroker_new small_config) = (Ok (), rp_b1)"
  "receive_and_process small_config 0x100000000 (Subscribe small_subscribe) 1000 rp_b1 = (Ok (), rp_b2)"
  "drain_packets 0x100000000 rp_b2 = (Ok [rp_suback], rp_b3)"
  "PicoBroker_register_new_session small_config 0x100000001 60 1000 rp_b3 = (Ok (), rp_b4)"
proof -
  have "fst (PicoBroker_register_new_session small_config 0x100000000 60 1000 (PicoBroker_new small_config)) = Ok ()" by code_simp
  then show "PicoBroker_register_new_session small_config 0x100000000 60 1000 (PicoBroker_new small_config) = (Ok (), rp_b1)"
    by (simp add: rp_b1_def prod_eq_iff)
  have "fst (receive_and_process small_config 0x100000000 (Subscribe small_subscribe) 1000 rp_b1) = Ok ()" by code_simp
  then show "receive_and_process small_config 0x100000000 (Subscribe small_subscribe) 1000 rp_b1 = (Ok (), rp_b2)"
    by (simp add: rp_b2_def prod_eq_iff)
  have "fst (drain_packets 0x100000000 rp_b2) = Ok [rp_suback]" by code_simp
  then show "drain_packets 0x100000000 rp_b2 = (Ok [rp_suback], rp_b3)" by (simp add: rp_b3_def prod_eq_iff)
  have "fst (PicoBroker_register_new_session small_config 0x100000001 60 1000 rp_b3) = Ok ()" by code_simp
  then show "PicoBroker_register_new_session small_config 0x100000001 60 1000 rp_b3 = (Ok (), rp_b4)"
    by (simp add: rp_b4_def prod_eq_iff)
qed

lemma rp_demo_facts:
  "\<exists>v. PicoBroker_get_sessions_with_pending_packets small_config rp_b2 = Ok v \<and> HeaplessVec_collect 0 (HeaplessVec_into_iter v) = Ok [0x100000000]"
  "recipients small_config small_publish rp_b4 = [0x100000000]" "tx rp_b4 0x100000000 = []" "tx rp_b4 0x100000001 = []"
  "session_ids rp_b4 = [0x100000000, 0x100000001]" "acks small_publish = []"
  "SubscribePacket_wire small_subscribe = [0x82, 6, 0, 1, 0, 1, 0x61, 0]" "PublishPacket_wire small_publish = [0x30, 3, 0, 1, 0x61]"
  "Packet_wire rp_suback = [0x90, 3, 0, 1, 0]"
proof -
  have "(case PicoBroker_get_sessions_with_pending_packets small_config rp_b2 of
      Ok v \<Rightarrow> HeaplessVec_collect 0 (HeaplessVec_into_iter v) = Ok [0x100000000] | _ \<Rightarrow> False)" by code_simp
  then show "\<exists>v. PicoBroker_get_sessions_with_pending_packets small_config rp_b2 = Ok v \<and>
      HeaplessVec_collect 0 (HeaplessVec_into_iter v) = Ok [0x100000000]" by (auto split: result.splits)
  show "recipients small_config small_publish rp_b4 = [0x100000000]" by code_simp
  show "tx rp_b4 0x100000000 = []" by code_simp
  show "tx rp_b4 0x100000001 = []" by code_simp
  show "session_ids rp_b4 = [0x100000000, 0x100000001]" by code_simp
  show "acks small_publish = []" by code_simp
  show "SubscribePacket_wire small_subscribe = [0x82, 6, 0, 1, 0, 1, 0x61, 0]" by code_simp
  show "PublishPacket_wire small_publish = [0x30, 3, 0, 1, 0x61]" by code_simp
  show "Packet_wire rp_suback = [0x90, 3, 0, 1, 0]" by code_simp
qed

lemma rp_event_packet:
  assumes "rc_reader c = \<lparr>rp_buffer = replicate RX_BUFFER_SIZE 0, rp_len = 0, rp_socket = [Some (Packet_wire p)]\<rparr>"
    and "Packet_wf (MAX_TOPIC_NAME_LENGTH cfg) (MAX_PAYLOAD_SIZE cfg) p" "Packet_wire p \<noteq> []" "length (Packet_wire p) < 130"
  shows "\<exists>r. rp_socket_event cfg instant c = Some (c\<lparr>rc_phase := Rp_Processing p, rc_reader := r, rc_last := instant\<rparr>)"
proof -
  let ?r = "\<lparr>rp_buffer = put_at (replicate RX_BUFFER_SIZE 0) 0 (Packet_wire p), rp_len = length (Packet_wire p), rp_socket = []\<rparr>"
  have le: "length (Packet_wire p) \<le> RX_BUFFER_SIZE" using assms(4) by (simp add: RX_BUFFER_SIZE_def)
  then have "rp_healthy RX_BUFFER_SIZE ?r" "rp_stream ?r = Packet_wire p @ []"
    by (simp_all add: rp_healthy_def rp_stream_def put_at_def)
  from rp_read_law [OF this(1) assms(2) this(2) _ le] assms(4) obtain r where
    "rp_read_packet (MAX_TOPIC_NAME_LENGTH cfg) (MAX_PAYLOAD_SIZE cfg) ?r = (Ok (Some p), r)" by blast
  then show ?thesis using rp_event_read [OF assms(1,3) le, of cfg instant] by auto
qed

lemma rp_regular_two:
  "rp_regular \<lparr>rs_broker = b, rs_registry = r, rs_gen = g, rs_conns = [c, d], rs_halted = h\<rparr> \<longleftrightarrow> unat g \<le> 2 ^ 32 \<and>
     (rc_phase c = Rp_Registering \<longrightarrow> rc_sid c \<noteq> 0) \<and> (rc_phase d = Rp_Registering \<longrightarrow> rc_sid d \<noteq> 0)"
  by (simp add: rp_regular_def)

lemma rp_failing_two:
  assumes "\<And>p. rc_phase c = Rp_Processing p \<Longrightarrow> rc_phase c' \<noteq> Rp_Unregistering" "\<And>p. rc_phase d = Rp_Processing p \<Longrightarrow> rc_phase d' \<noteq> Rp_Unregistering"
  shows "\<not> rp_failing \<lparr>rs_broker = b, rs_registry = r, rs_gen = g, rs_conns = [c, d], rs_halted = h\<rparr>
    \<lparr>rs_broker = b', rs_registry = r', rs_gen = g', rs_conns = [c', d'], rs_halted = h'\<rparr>"
  using assms by (auto simp: rp_failing_def nth_Cons split: nat.splits)

text \<open>A step of the first or of the second of two tasks.\<close>

lemma rp_two_first:
  assumes "rp_run cfg push collect False \<lparr>rs_broker = b, rs_registry = r, rs_gen = g, rs_conns = [c, d], rs_halted = False\<rparr>"
    and "rp_move cfg push Socket_Arm now_ticks 0 0 \<lparr>rs_broker = b, rs_registry = r, rs_gen = g, rs_conns = [c, d], rs_halted = False\<rparr> =
      \<lparr>rs_broker = b', rs_registry = r', rs_gen = g, rs_conns = [c', d], rs_halted = False\<rparr>"
    and "unat g \<le> 2 ^ 32" "rc_phase c' \<noteq> Rp_Registering" "rc_phase d \<noteq> Rp_Registering" "rc_phase c' \<noteq> Rp_Unregistering"
      "rc_phase d \<noteq> Rp_Unregistering"
  shows "rp_run cfg push collect False \<lparr>rs_broker = b', rs_registry = r', rs_gen = g, rs_conns = [c', d], rs_halted = False\<rparr>"
  by (rule rp_move_run [OF assms(1) _ _ assms(2)]) (use assms(3-7) in \<open>simp_all add: rp_regular_two rp_failing_two\<close>)

lemma rp_two_second:
  assumes "rp_run cfg push collect False \<lparr>rs_broker = b, rs_registry = r, rs_gen = g, rs_conns = [c, d], rs_halted = False\<rparr>"
    and "rp_move cfg push Socket_Arm now_ticks 0 1 \<lparr>rs_broker = b, rs_registry = r, rs_gen = g, rs_conns = [c, d], rs_halted = False\<rparr> =
      \<lparr>rs_broker = b', rs_registry = r', rs_gen = g, rs_conns = [c, d'], rs_halted = False\<rparr>"
    and "unat g \<le> 2 ^ 32" "rc_phase c \<noteq> Rp_Registering" "rc_phase d' \<noteq> Rp_Registering" "rc_phase c \<noteq> Rp_Unregistering"
      "rc_phase d' \<noteq> Rp_Unregistering"
  shows "rp_run cfg push collect False \<lparr>rs_broker = b', rs_registry = r', rs_gen = g, rs_conns = [c, d'], rs_halted = False\<rparr>"
  by (rule rp_move_run [OF assms(1) _ _ assms(2)]) (use assms(3-7) in \<open>simp_all add: rp_regular_two rp_failing_two\<close>)

lemmas rp_demo_defs = rp_move_def rp_loop_def rp_register_def rp_process_def rp_broker_outcome_def rp_conn_outcome_def rp_put_def rp_write_one_def
  NotificationRegistry_register_session_def NotificationRegistry_notify_session_def Let_def

lemma rp_first_registered:
  assumes "rc_phase c = Rp_Registering" "rc_sid c = 0x100000000"
    and "rp_run small_config push8 collect4 False \<lparr>rs_broker = PicoBroker_new small_config,
      rs_registry = \<lparr>nr_channels = [False, False], nr_session_ids = [0, 0]\<rparr>, rs_gen = 1, rs_conns = [c, rp_conn_idle], rs_halted = False\<rparr>"
  shows "rp_run small_config push8 collect4 False \<lparr>rs_broker = rp_b1,
      rs_registry = \<lparr>nr_channels = [False, False], nr_session_ids = [0x100000000, 0]\<rparr>, rs_gen = 1,
      rs_conns = [c\<lparr>rc_phase := Rp_Looping, rc_last := 0\<rparr>, rp_conn_idle], rs_halted = False\<rparr>"
proof -
  have "rp_run small_config push8 collect4 False \<lparr>rs_broker = rp_b1,
      rs_registry = \<lparr>nr_channels = [False, False], nr_session_ids = [0, 0]\<rparr>, rs_gen = 1,
      rs_conns = [c\<lparr>rc_phase := Rp_Registering_Channel\<rparr>, rp_conn_idle], rs_halted = False\<rparr>"
    by (rule rp_two_first [OF assms(3), of 1])
      (use assms(1,2) in \<open>simp_all add: rp_demo_defs DEFAULT_KEEP_ALIVE_def rp_current_time_nanos_def rp_demo_broker rp_conn_idle_def\<close>)
  then show ?thesis
    by (rule rp_two_first [of _ _ _ _ _ _ _ _ 1]) (use assms(2) in \<open>simp_all add: rp_demo_defs rp_conn_idle_def\<close>)
qed

lemma rp_first_subscribed:
  assumes "rc_sid c = 0x100000000" "rc_phase c = Rp_Looping" "rc_last c = 0"
    and "rc_reader c = \<lparr>rp_buffer = replicate RX_BUFFER_SIZE 0, rp_len = 0, rp_socket = [Some (Packet_wire (Subscribe small_subscribe))]\<rparr>"
    and "willing [rp_suback, Publish small_publish] (rc_writer c)"
    and "rp_run small_config push8 collect4 False \<lparr>rs_broker = rp_b1,
      rs_registry = \<lparr>nr_channels = [False, False], nr_session_ids = [0x100000000, 0]\<rparr>, rs_gen = 1,
      rs_conns = [c, rp_conn_idle], rs_halted = False\<rparr>"
  shows "\<exists>r w. willing [Publish small_publish] w \<and> wr_sent w = wr_sent (rc_writer c) @ Packet_wire rp_suback \<and>
    rp_run small_config push8 collect4 False \<lparr>rs_broker = rp_b3,
      rs_registry = \<lparr>nr_channels = [True, False], nr_session_ids = [0x100000000, 0]\<rparr>, rs_gen = 1,
      rs_conns = [c\<lparr>rc_reader := r, rc_writer := w\<rparr>, rp_conn_idle], rs_halted = False\<rparr>"
proof -
  let ?R = "rp_run small_config push8 collect4 False"
  let ?s = "\<lambda>b ch c. \<lparr>rs_broker = b, rs_registry = \<lparr>nr_channels = [ch, False], nr_session_ids = [0x100000000, 0]\<rparr>, rs_gen = (1 :: u64),
    rs_conns = [c, rp_conn_idle], rs_halted = False\<rparr>"
  obtain v where v: "PicoBroker_get_sessions_with_pending_packets small_config rp_b2 = Ok v"
    "HeaplessVec_collect 0 (HeaplessVec_into_iter v) = Ok [0x100000000]" using rp_demo_facts(1) by blast
  have wf: "Packet_wf 2 2 (Subscribe small_subscribe)" "Packet_wf 2 2 rp_suback" by code_simp+
  from rp_event_packet [OF assms(4), of small_config 0] wf(1) obtain r where
    r: "rp_socket_event small_config 0 c = Some (c\<lparr>rc_phase := Rp_Processing (Subscribe small_subscribe), rc_reader := r, rc_last := 0\<rparr>)"
    by (auto simp: rp_demo_facts)
  from write_willing [OF wf(2) assms(5)] obtain w where
    w: "rp_write_packet rp_suback (rc_writer c) = (Ok (), w)" "wr_sent w = wr_sent (rc_writer c) @ Packet_wire rp_suback"
      "willing [Publish small_publish] w" by blast
  let ?c = "\<lambda>ph. c\<lparr>rc_phase := ph, rc_reader := r, rc_last := 0\<rparr>"
  have 1: "?R (?s rp_b1 False (?c (Rp_Processing (Subscribe small_subscribe))))"
    by (rule rp_two_first [OF assms(6), of 1]) (use assms(2,3) r in \<open>simp_all add: rp_demo_defs rp_keep_alive_timeout_def DEFAULT_KEEP_ALIVE_def rp_conn_idle_def\<close>)
  have 2: "?R (?s rp_b3 False (?c (Rp_Notifying [0x100000000] [rp_suback])))"
    by (rule rp_two_first [OF 1, of 1]) (use assms(1) v in \<open>simp_all add: rp_demo_defs rp_demo_broker rp_current_time_nanos_def rp_collect_def push8_def rp_conn_idle_def\<close>)
  have 3: "?R (?s rp_b3 True (?c (Rp_Notifying [] [rp_suback])))"
    by (rule rp_two_first [OF 2, of 1]) (simp_all add: rp_demo_defs rp_conn_idle_def)
  have 4: "?R (?s rp_b3 True (?c (Rp_Writing [rp_suback])))"
    by (rule rp_two_first [OF 3, of 1]) (simp_all add: rp_demo_defs rp_conn_idle_def)
  have 5: "?R (?s rp_b3 True (?c (Rp_Writing []) \<lparr>rc_writer := w\<rparr>))"
    by (rule rp_two_first [OF 4, of 1]) (use w(1) in \<open>simp_all add: rp_demo_defs rp_conn_idle_def\<close>)
  have 6: "?R (?s rp_b3 True (?c Rp_Looping \<lparr>rc_writer := w\<rparr>))"
    by (rule rp_two_first [OF 5, of 1]) (simp_all add: rp_demo_defs rp_conn_idle_def)
  have "?c Rp_Looping \<lparr>rc_writer := w\<rparr> = c\<lparr>rc_reader := r, rc_writer := w\<rparr>"
    using assms(2,3) by (cases c) simp
  with 6 w show ?thesis by (intro exI [of _ r] exI [of _ w]) simp
qed

text \<open>The socket of each connection delivers one packet and accepts whatever is written to it.\<close>

definition rp_new_conn :: "u128 \<Rightarrow> Packet \<Rightarrow> rp_conn" where
  "rp_new_conn sid p = \<lparr>rc_sid = sid, rc_phase = Rp_Registering,
     rc_reader = \<lparr>rp_buffer = replicate RX_BUFFER_SIZE 0, rp_len = 0, rp_socket = [Some (Packet_wire p)]\<rparr>,
     rc_writer = \<lparr>wr_buffer = replicate RX_BUFFER_SIZE 0, wr_accepts = replicate 10 (Some 2000), wr_sent = []\<rparr>, rc_last = 0\<rparr>"

lemma rp_demo_accepted:
  "rp_accepted 1 [Some (Packet_wire p)] (replicate 10 (Some 2000)) 0 = (rp_new_conn 0x100000000 p, 1)"
  "rp_accepted 1 [Some (Packet_wire p)] (replicate 10 (Some 2000)) 1 = (rp_new_conn 0x100000001 p, 2)"
proof -
  have "session_id_of 1 0 = 0x100000000" "session_id_of 1 1 = 0x100000001" by (simp_all add: session_id_of_def)
  then show "rp_accepted 1 [Some (Packet_wire p)] (replicate 10 (Some 2000)) 0 = (rp_new_conn 0x100000000 p, 1)"
    "rp_accepted 1 [Some (Packet_wire p)] (replicate 10 (Some 2000)) 1 = (rp_new_conn 0x100000001 p, 2)"
    by (simp_all add: rp_accepted_def SessionIdGen_generate_def rp_new_conn_def)
qed

lemma rp_demo_willing: "willing [rp_suback, Publish small_publish] (rc_writer (rp_new_conn sid p))"
  by (simp add: willing_def rp_new_conn_def rp_demo_facts RX_BUFFER_SIZE_def)

lemma rp_demo_main: "rp_main small_config = \<lparr>rs_broker = PicoBroker_new small_config,
    rs_registry = \<lparr>nr_channels = [False, False], nr_session_ids = [0, 0]\<rparr>, rs_gen = 0, rs_conns = [rp_conn_idle, rp_conn_idle], rs_halted = False\<rparr>"
  by (simp add: rp_main_def NotificationRegistry_new_def numeral_2_eq_2)

lemma rp_two_accepted:
  assumes "rp_run cfg push collect False s" "s = \<lparr>rs_broker = b, rs_registry = r, rs_gen = g, rs_conns = [c, d], rs_halted = False\<rparr>"
    and "i < 2" "rc_phase ([c, d] ! i) = Rp_Accepting" "rp_accepted t socket accepts g = (e, g')" "rc_sid e \<noteq> 0" "unat g' \<le> 2 ^ 32"
    and "rc_phase e = Rp_Registering" "rc_phase c \<noteq> Rp_Registering" "rc_phase d \<noteq> Rp_Registering"
  shows "rp_run cfg push collect False \<lparr>rs_broker = b, rs_registry = r, rs_gen = g', rs_conns = [c, d][i := e], rs_halted = False\<rparr>"
proof -
  let ?s = "rp_put i e (s\<lparr>rs_gen := g'\<rparr>)"
  have s': "?s = \<lparr>rs_broker = b, rs_registry = r, rs_gen = g', rs_conns = [c, d][i := e], rs_halted = False\<rparr>"
    by (simp add: rp_put_def assms(2))
  have "rp_step cfg push collect s i (rs_conns s ! i) ?s" using assms(2,4,5) by (intro rp_step.accepted) simp_all
  moreover have "i = 0 \<or> i = 1" using assms(3) by linarith
  then have "rp_regular ?s" unfolding s' using assms(6,7,9,10) by (auto simp: rp_regular_two)
  ultimately show ?thesis
    unfolding s' [symmetric] by (intro rp_run_task [OF assms(1)]) (use assms(2-4) in \<open>auto simp: rp_put_def\<close>)
qed

lemma rp_demo_run:
  "\<exists>c d. rp_run small_config push8 collect4 False \<lparr>rs_broker = rp_b4,
      rs_registry = \<lparr>nr_channels = [True, False], nr_session_ids = [0x100000000, 0x100000001]\<rparr>, rs_gen = 2, rs_conns = [c, d], rs_halted = False\<rparr> \<and>
    rc_phase c = Rp_Looping \<and> rc_sid c = 0x100000000 \<and> willing [Publish small_publish] (rc_writer c) \<and>
    wr_sent (rc_writer c) = [0x90, 3, 0, 1, 0] \<and>
    rc_phase d = Rp_Processing (Publish small_publish) \<and> rc_sid d = 0x100000001"
proof -
  let ?R = "rp_run small_config push8 collect4 False" and ?c0 = "rp_new_conn 0x100000000 (Subscribe small_subscribe)"
  let ?d0 = "rp_new_conn 0x100000001 (Publish small_publish)"
  let ?s = "\<lambda>b ids g c d. \<lparr>rs_broker = b, rs_registry = \<lparr>nr_channels = [True, False], nr_session_ids = ids\<rparr>, rs_gen = g, rs_conns = [c, d], rs_halted = False\<rparr>"
  have new: "rc_phase (rp_new_conn k p) = Rp_Registering" "rc_sid (rp_new_conn k p) = k" for k p by (simp_all add: rp_new_conn_def)
  have 1: "?R \<lparr>rs_broker = PicoBroker_new small_config, rs_registry = \<lparr>nr_channels = [False, False], nr_session_ids = [0, 0]\<rparr>, rs_gen = 1,
      rs_conns = [?c0, rp_conn_idle], rs_halted = False\<rparr>"
    using rp_two_accepted [OF rp_run.start rp_demo_main, of 0 1 "[Some (Packet_wire (Subscribe small_subscribe))]" "replicate 10 (Some 2000)" ?c0 1]
      rp_demo_accepted(1) [of "Subscribe small_subscribe"] by (simp add: new rp_conn_idle_def)
  from rp_first_subscribed [OF _ _ _ _ _ rp_first_registered [OF new 1]] rp_demo_willing [of _ "Subscribe small_subscribe"]
  obtain r w where rw: "willing [Publish small_publish] w" "wr_sent w = [0x90, 3, 0, 1, 0]"
    "?R (?s rp_b3 [0x100000000, 0] 1 (?c0\<lparr>rc_phase := Rp_Looping, rc_last := 0, rc_reader := r, rc_writer := w\<rparr>) rp_conn_idle)"
    by (auto simp: rp_new_conn_def rp_demo_facts)
  let ?c = "?c0\<lparr>rc_phase := Rp_Looping, rc_last := 0, rc_reader := r, rc_writer := w\<rparr>"
  have 2: "?R (?s rp_b3 [0x100000000, 0] 2 ?c ?d0)"
    using rp_two_accepted [OF rw(3) refl, of 1 1 "[Some (Packet_wire (Publish small_publish))]" "replicate 10 (Some 2000)" ?d0 2]
      rp_demo_accepted(2) [of "Publish small_publish"] by (simp add: new rp_conn_idle_def)
  have 3: "?R (?s rp_b4 [0x100000000, 0] 2 ?c (?d0\<lparr>rc_phase := Rp_Registering_Channel\<rparr>))"
    by (rule rp_two_second [OF 2, of 1]) (simp_all add: new rp_demo_defs DEFAULT_KEEP_ALIVE_def rp_current_time_nanos_def rp_demo_broker)
  have 4: "?R (?s rp_b4 [0x100000000, 0x100000001] 2 ?c (?d0\<lparr>rc_phase := Rp_Looping\<rparr>))"
    by (rule rp_two_second [OF 3, of 1]) (simp_all add: rp_new_conn_def rp_demo_defs)
  have wf: "Packet_wf 2 2 (Publish small_publish)" by code_simp
  from rp_event_packet [of "?d0\<lparr>rc_phase := Rp_Looping\<rparr>" "Publish small_publish" small_config 0] wf obtain r' where
    r': "rp_socket_event small_config 0 (?d0\<lparr>rc_phase := Rp_Looping\<rparr>) =
      Some (?d0\<lparr>rc_phase := Rp_Processing (Publish small_publish), rc_reader := r', rc_last := 0\<rparr>)"
    by (auto simp: rp_new_conn_def rp_demo_facts)
  let ?d = "?d0\<lparr>rc_phase := Rp_Processing (Publish small_publish), rc_reader := r', rc_last := 0\<rparr>"
  have "?R (?s rp_b4 [0x100000000, 0x100000001] 2 ?c ?d)"
    by (rule rp_two_second [OF 4, of 1]) (use r' in \<open>simp_all add: rp_demo_defs rp_keep_alive_timeout_def DEFAULT_KEEP_ALIVE_def\<close>)
  then show ?thesis using rw(1,2) by (intro exI [of _ ?c] exI [of _ ?d]) (simp add: new)
qed

section \<open>Properties\<close>

text \<open>
  C20: End-to-end delivery in the rp2040 server. In regular runs in which the broker refuses no packet: when a handler is about to
  process a PUBLISH and another handler, which waits in \<^verbatim>\<open>select3\<close>, serves a session that the broker selects as a recipient, the queues
  have room, a queue holds at most eight packets, and the recipient's socket takes what is written to it, then there is a
  run after which the socket has received everything queued for it before, and then the PUBLISH, byte by byte.
\<close>

theorem rp_publish_reaches_subscriber:
  assumes "rp_run cfg push collect False s" "config_ok cfg" "0 < QUEUE_SIZE cfg" "QUEUE_SIZE cfg \<le> 8" "\<not> rs_halted s"
    and "\<forall>v pkt. push v pkt = (if length v < 8 then Some (v @ [pkt]) else None)"
    and "a < length (rs_conns s)" "rc_phase (rs_conns s ! a) = Rp_Processing (Publish p)"
      "rc_sid (rs_conns s ! a) \<in> set (session_ids (rs_broker s))"
    and "\<forall>k \<in> set (recipients cfg p (rs_broker s)). has_room cfg (rs_broker s) k"
      "length (tx (rs_broker s) (rc_sid (rs_conns s ! a))) +
         (if rc_sid (rs_conns s ! a) \<in> set (recipients cfg p (rs_broker s)) then 1 else 0) + length (acks p) \<le> QUEUE_SIZE cfg"
    and "j < length (rs_conns s)" "j \<noteq> a" "rc_phase (rs_conns s ! j) = Rp_Looping"
      "rc_sid (rs_conns s ! j) \<in> set (recipients cfg p (rs_broker s))"
    and "willing (tx (rs_broker s) (rc_sid (rs_conns s ! j)) @ [Publish p]) (rc_writer (rs_conns s ! j))"
  shows "\<exists>s'. (rp_server_step cfg push collect)\<^sup>*\<^sup>* s s' \<and> wr_sent (rc_writer (rs_conns s' ! j)) =
    wr_sent (rc_writer (rs_conns s ! j)) @ concat (map Packet_wire (tx (rs_broker s) (rc_sid (rs_conns s ! j)))) @ Packet_wire (Publish p)"
proof -
  let ?b = "rs_broker s" and ?c = "rs_conns s ! a" and ?k = "rc_sid (rs_conns s ! j)"
  let ?N = "MAX_TOPIC_NAME_LENGTH cfg" and ?M = "MAX_PAYLOAD_SIZE cfg"
  from rp_run_owned [OF assms(1,2)] have own: "rp_owned cfg s" and num: "rp_numbered s" by simp_all
  note inv = rp_reachable_inv [OF rp_run_reachable [OF assms(1)] assms(2)]
  have wf: "broker_wf cfg ?b" using reachable_invariants inv assms(2) by blast
  have ne: "?k \<noteq> rc_sid ?c"
    using num assms(7,8,12-14) unfolding rp_numbered_def by (metis rp_phase.distinct(7,9) rp_phase.simps)
  from rp_publish_step [OF wf assms(2,3) rp_run_idle [OF assms(1,2)] assms(9-11), of push 0] obtain b' ks ps where
    b': "rp_process cfg push 0 (Publish p) (?b, ?c) = Some (b', ?c\<lparr>rc_phase := Rp_Notifying ks ps\<rparr>)" "broker_wf cfg b'"
      "?k \<in> set ks" "tx b' ?k = tx ?b ?k @ [Publish p]" using assms(15) ne by blast
  let ?s1 = "rp_put a (?c\<lparr>rc_phase := Rp_Notifying ks ps\<rparr>) (s\<lparr>rs_broker := b'\<rparr>)"
  have "rp_step cfg push collect s a ?c ?s1"
    using rp_step.process [OF assms(8), of cfg push collect s a 0] b'(1) by (simp add: rp_broker_outcome_def)
  from rp_task_step [OF assms(5,7) this] have run1: "(rp_server_step cfg push collect)\<^sup>*\<^sup>* s ?s1" .
  have at1: "\<not> rs_halted ?s1" "a < length (rs_conns ?s1)" "rc_phase (rs_conns ?s1 ! a) = Rp_Notifying ks ps"
    "rs_registry ?s1 = rs_registry s" "rs_broker ?s1 = b'" "rs_conns ?s1 ! j = rs_conns s ! j"
    using assms(5,7,13) by (simp_all add: rp_put_def)
  have ch: "rp_has_channel (rc_phase (rs_conns s ! j))" using assms(14) by (simp add: rp_has_channel_def)
  have reg: "j < length (nr_session_ids (rs_registry ?s1))" "nr_session_ids (rs_registry ?s1) ! j = ?k" "j < length (nr_channels (rs_registry ?s1))"
    "\<forall>m < length (nr_session_ids (rs_registry ?s1)). nr_session_ids (rs_registry ?s1) ! m = ?k \<longrightarrow> m = j"
    using own num assms(12) ch rp_registry_unique [OF own num assms(12) ch] unfolding at1(4) by (simp_all add: rp_owned_def)
  from rp_notify_run [OF at1(1-3) reg, of cfg push collect] b'(3) obtain r where
    r: "(rp_server_step cfg push collect)\<^sup>*\<^sup>* ?s1 (rp_put a ((rs_conns ?s1 ! a)\<lparr>rc_phase := Rp_Notifying [] ps\<rparr>) (?s1\<lparr>rs_registry := r\<rparr>))"
      "nr_channels r ! j" by blast
  let ?s2 = "rp_put a ((rs_conns ?s1 ! a)\<lparr>rc_phase := Rp_Notifying [] ps\<rparr>) (?s1\<lparr>rs_registry := r\<rparr>)"
  have at2: "\<not> rs_halted ?s2" "j < length (rs_conns ?s2)" "rs_conns ?s2 ! j = rs_conns s ! j" "rs_registry ?s2 = r" "rs_broker ?s2 = b'"
    using assms(5,12,13) by (simp_all add: rp_put_def)
  have "Packet_wf ?N ?M q" if "q \<in> set (tx ?b ?k @ [Publish p])" for q
  proof -
    have "rp_phase_ok cfg (rc_phase ?c)" using inv assms(7) by simp
    then have "Packet_wf ?N ?M (Publish p)"
      using assms(2,8) Packet_decode_Ok [of ?N ?M _ "Publish p"] by (auto simp: decoded_def config_ok_def)
    then show ?thesis using that reachable_writable [of cfg ?b q ?k] inv assms(2) by (auto simp: writable_def)
  qed
  moreover have "length (tx b' ?k) \<le> 8" using tx_within [OF b'(2), of ?k] assms(4) by simp
  ultimately obtain s' where "(rp_server_step cfg push collect)\<^sup>*\<^sup>* ?s2 s'"
    "wr_sent (rc_writer (rs_conns s' ! j)) = wr_sent (rc_writer (rs_conns s ! j)) @ concat (map Packet_wire (tx ?b ?k @ [Publish p]))"
    using rp_flush_run [OF at2(1,2) _ _ _ assms(6), of cfg "tx ?b ?k @ [Publish p]" ?N ?M collect] at2(3-5) assms(14,16) r(2) b'(2,4) by auto
  then show ?thesis using run1 r(1) by (intro exI [of _ s']) (auto intro: rtranclp_trans)
qed

theorem rp_publish_reaches_subscriber_witness:
  "\<exists>s s'. rp_run small_config push8 collect4 False s \<and> wr_sent (rc_writer (rs_conns s ! 0)) = [0x90, 3, 0, 1, 0] \<and>
     (rp_server_step small_config push8 collect4)\<^sup>*\<^sup>* s s' \<and>
     wr_sent (rc_writer (rs_conns s' ! 0)) = [0x90, 3, 0, 1, 0, 0x30, 3, 0, 1, 0x61]"
proof -
  obtain c d where run: "rp_run small_config push8 collect4 False \<lparr>rs_broker = rp_b4,
      rs_registry = \<lparr>nr_channels = [True, False], nr_session_ids = [0x100000000, 0x100000001]\<rparr>, rs_gen = 2, rs_conns = [c, d], rs_halted = False\<rparr>"
    (is "rp_run _ _ _ _ ?s")
    and c: "rc_phase c = Rp_Looping" "rc_sid c = 0x100000000" "willing [Publish small_publish] (rc_writer c)"
      "wr_sent (rc_writer c) = [0x90, 3, 0, 1, 0]"
    and d: "rc_phase d = Rp_Processing (Publish small_publish)" "rc_sid d = 0x100000001" using rp_demo_run by blast
  have push: "\<forall>v pkt. push8 v pkt = (if length v < 8 then Some (v @ [pkt]) else None)" by (simp add: push8_def)
  have "0 < QUEUE_SIZE small_config" "QUEUE_SIZE small_config \<le> 8" "\<not> rs_halted ?s" by simp_all
  moreover have "1 < length (rs_conns ?s)" "rc_phase (rs_conns ?s ! 1) = Rp_Processing (Publish small_publish)"
    "rc_sid (rs_conns ?s ! 1) \<in> set (session_ids (rs_broker ?s))"
    "\<forall>k \<in> set (recipients small_config small_publish (rs_broker ?s)). has_room small_config (rs_broker ?s) k"
    "length (tx (rs_broker ?s) (rc_sid (rs_conns ?s ! 1))) +
       (if rc_sid (rs_conns ?s ! 1) \<in> set (recipients small_config small_publish (rs_broker ?s)) then 1 else 0) + length (acks small_publish)
       \<le> QUEUE_SIZE small_config"
    "0 < length (rs_conns ?s)" "(0 :: nat) \<noteq> 1" "rc_phase (rs_conns ?s ! 0) = Rp_Looping"
    "rc_sid (rs_conns ?s ! 0) \<in> set (recipients small_config small_publish (rs_broker ?s))"
    "willing (tx (rs_broker ?s) (rc_sid (rs_conns ?s ! 0)) @ [Publish small_publish]) (rc_writer (rs_conns ?s ! 0))"
    using c d by (simp_all add: rp_demo_facts has_room_def)
  ultimately have "\<exists>s'. (rp_server_step small_config push8 collect4)\<^sup>*\<^sup>* ?s s' \<and> wr_sent (rc_writer (rs_conns s' ! 0)) =
      wr_sent (rc_writer (rs_conns ?s ! 0)) @ concat (map Packet_wire (tx (rs_broker ?s) (rc_sid (rs_conns ?s ! 0)))) @
      Packet_wire (Publish small_publish)"
    using rp_publish_reaches_subscriber [OF run small_config_ok _ _ _ push] by blast
  then show ?thesis using run c by (auto simp: rp_demo_facts)
qed





end
