(* ===== verification/Client.thy ===== *)
theory Client
  imports Topics Server_Io
begin

text \<open>
  The client program, \<^verbatim>\<open>examples/tokio_mqtt_client/src/main.rs\<close>: connect, publish one message, disconnect. The socket is a
  parameter: the list of the results of the reads to come (\<open>None\<close> for an error, the empty list or the end of the list for a
  closed connection) and of the outcomes of the writes. The lemmas follow a session from the client to the reader of the
  tokio server.
\<close>

section \<open>The client\<close>

abbreviation client_topic_length :: usize where
  "client_topic_length \<equiv> 64"

abbreviation client_payload_size :: usize where
  "client_payload_size \<equiv> 256"

datatype client_error =
    Client_Io
  | Client_Protocol ProtocolError
  | Encode_Failed
  | Message_Too_Large
  | Connection_Closed
  | Unexpected_Packet PacketType
  | Connection_Rejected ConnectReturnCode

record MqttClient =
  mc_buffer :: bytes
  mc_chunks :: "bytes option list"
  mc_writes :: "bool list"
  mc_sent :: bytes
  mc_open :: bool

text \<open>The loop \<^verbatim>\<open>while buffer.len() < need\<close>, with \<^verbatim>\<open>socket.read_buf(buffer).await?\<close>\<close>

fun client_fill :: "usize \<Rightarrow> bytes \<Rightarrow> bytes option list \<Rightarrow> (unit, client_error) result \<times> bytes \<times> bytes option list" where
  "client_fill need buffer [] = (if length buffer < need then Err Connection_Closed else Ok (), buffer, [])"
| "client_fill need buffer (c # chunks) =
     (if length buffer < need then
        (case c of
           None \<Rightarrow> (Err Client_Io, buffer, chunks)
         | Some d \<Rightarrow> if length d = 0 then (Err Connection_Closed, buffer, chunks) else client_fill need (buffer @ d) chunks)
      else (Ok (), buffer, c # chunks))"

definition client_ensure :: "usize \<Rightarrow> (MqttClient, unit, client_error) action" where
  "client_ensure need = (\<lambda>s. case client_fill need (mc_buffer s) (mc_chunks s) of (x, b, cs) \<Rightarrow>
     (x, s\<lparr>mc_buffer := b, mc_chunks := cs\<rparr>))"

definition client_read_packet :: "(MqttClient, Packet, client_error) action" where
  "client_read_packet =
     then_do (client_ensure 2) (\<lambda>_ s.
     then_do (of_result (map_err Client_Protocol (parse_remaining_length (mc_buffer s)))) (\<lambda>(remaining_len, var_len_bytes).
     let total_len = 1 + var_len_bytes + remaining_len in
     then_do (client_ensure total_len) (\<lambda>_ s.
     then_do (of_result (map_err Client_Protocol
         (and_then (slice (mc_buffer s) 0 total_len) (Packet_decode client_topic_length client_payload_size)))) (\<lambda>packet s.
     (Ok packet, s\<lparr>mc_buffer := drop total_len (mc_buffer s)\<rparr>)) s)) s)"

definition encode_packet :: "Packet \<Rightarrow> (bytes, client_error) result" where
  "encode_packet packet =
     (let buffer_size = 5 + client_payload_size + client_topic_length;
          buffer = replicate buffer_size 0
      in case Packet_encode packet buffer of
           (Ok sz, buffer) \<Rightarrow> slice buffer 0 sz
         | (Err _, _) \<Rightarrow> Err Encode_Failed
         | (Panic, _) \<Rightarrow> Panic)"

text \<open>\<^verbatim>\<open>write_all\<close> and \<^verbatim>\<open>flush\<close>\<close>

definition client_write :: "bytes \<Rightarrow> (MqttClient, unit, client_error) action" where
  "client_write bs = (\<lambda>s.
     case mc_writes s of
       True # ws \<Rightarrow> (Ok (), s\<lparr>mc_writes := ws, mc_sent := mc_sent s @ bs\<rparr>)
     | False # ws \<Rightarrow> (Err Client_Io, s\<lparr>mc_writes := ws\<rparr>)
     | [] \<Rightarrow> (Err Client_Io, s))"

definition MqttClient_read_connack :: "(MqttClient, ConnAckPacket, client_error) action" where
  "MqttClient_read_connack =
     then_do client_read_packet (\<lambda>packet.
     case packet of
       ConnAck connack \<Rightarrow> ret connack
     | _ \<Rightarrow> fail (Unexpected_Packet (Packet_packet_type packet)))"

text \<open>The flag says whether \<^verbatim>\<open>TcpStream::connect\<close> succeeds.\<close>

definition MqttClient_connect :: "bool \<Rightarrow> bytes \<Rightarrow> u16 \<Rightarrow> (MqttClient, unit, client_error) action" where
  "MqttClient_connect connects client_id keep_alive = (\<lambda>s.
     if \<not> connects then (Err Client_Io, s)
     else
       then_do (of_result (map_err Client_Protocol (ClientId_try_from client_id))) (\<lambda>client_id_heapless.
       let connect_packet =
             \<lparr>connect_flags = ConnectFlags_CLEAN_SESSION, con_keep_alive = keep_alive, con_client_id = client_id_heapless,
              will_topic = None, will_payload = None, username = None, password = None\<rparr>
       in
       then_do (of_result (encode_packet (Connect connect_packet))) (\<lambda>encoded.
       then_do (client_write encoded) (\<lambda>_.
       then_do MqttClient_read_connack (\<lambda>connack.
       case return_code connack of
         Accepted \<Rightarrow> ret ()
       | code \<Rightarrow> fail (Connection_Rejected code))))) (s\<lparr>mc_buffer := [], mc_open := True\<rparr>))"

definition MqttClient_publish :: "bytes \<Rightarrow> bytes \<Rightarrow> (MqttClient, unit, client_error) action" where
  "MqttClient_publish topic message =
     then_do (of_result (map_err Client_Protocol (TopicName_try_from client_topic_length topic))) (\<lambda>topic_name.
     then_do (of_result (map_err (\<lambda>_. Message_Too_Large)
         (built (HeaplessVec_extend_from_slice message) (HeaplessVec_new client_payload_size 0)))) (\<lambda>payload.
     let publish_packet =
           \<lparr>pub_topic_name = topic_name, pub_packet_id = None, pub_payload = payload, pub_qos = AtMostOnce, pub_dup = False,
            pub_retain = False\<rparr>
     in
     then_do (of_result (encode_packet (Publish publish_packet))) (\<lambda>encoded. client_write encoded)))"

definition MqttClient_disconnect :: "(MqttClient, unit, client_error) action" where
  "MqttClient_disconnect =
     then_do (of_result (encode_packet (Disconnect DisconnectPacket))) (\<lambda>encoded.
     then_do (client_write encoded) (\<lambda>_ s. (Ok (), s\<lparr>mc_open := False\<rparr>)))"

definition client_main :: "bool \<Rightarrow> bytes \<Rightarrow> u16 \<Rightarrow> bytes \<Rightarrow> bytes \<Rightarrow> (MqttClient, unit, client_error) action" where
  "client_main connects client_id keep_alive topic message =
     then_do (MqttClient_connect connects client_id keep_alive) (\<lambda>_.
     then_do (MqttClient_publish topic message) (\<lambda>_. MqttClient_disconnect))"

section \<open>The reader of the client and the reader of the server\<close>

lemma client_fill_eq:
  "[] \<notin> set cs \<Longrightarrow> client_fill need b (map Some cs) =
     (case tokio_fill need b cs of (filled, b', cs') \<Rightarrow> (if filled then Ok () else Err Connection_Closed, b', map Some cs'))"
  by (induction need b cs rule: tokio_fill.induct) auto

lemma tokio_fill_keeps: "[] \<notin> set cs \<Longrightarrow> tokio_fill need b cs = (x, b', cs') \<Longrightarrow> [] \<notin> set cs'"
  by (induction need b cs rule: tokio_fill.induct) (auto split: if_splits)

text \<open>On a healthy connection the client reads the packets that the server's reader would read.\<close>

lemma client_read_eq:
  assumes "mc_chunks s = map Some cs" "[] \<notin> set cs"
    and r: "tokio_read_packet client_topic_length client_payload_size \<lparr>tk_buffer = mc_buffer s, tk_chunks = cs\<rparr> =
      (Ok (Some p), \<lparr>tk_buffer = b', tk_chunks = cs'\<rparr>)"
  shows "client_read_packet s = (Ok p, s\<lparr>mc_buffer := b', mc_chunks := map Some cs'\<rparr>)"
proof -
  obtain b1 cs1 where f1: "tokio_fill 2 (mc_buffer s) cs = (True, b1, cs1)"
    using r by (auto simp: tokio_read_packet_def split: prod.splits bool.splits)
  with r obtain n k where k: "parse_remaining_length b1 = Ok (n, k)"
    by (auto simp: tokio_read_packet_def split: result.splits)
  with r f1 obtain b2 where f2: "tokio_fill (1 + k + n) b1 cs1 = (True, b2, cs')"
    and d: "and_then (slice b2 0 (1 + k + n)) (Packet_decode client_topic_length client_payload_size) = Ok p"
      "b' = drop (1 + k + n) b2"
    by (auto simp: tokio_read_packet_def Let_def split: prod.splits bool.splits result.splits)
  have "client_ensure 2 s = (Ok (), s\<lparr>mc_buffer := b1, mc_chunks := map Some cs1\<rparr>)"
    using f1 client_fill_eq [OF assms(2), of 2 "mc_buffer s"] by (simp add: client_ensure_def assms(1))
  moreover have "client_ensure (1 + k + n) (s\<lparr>mc_buffer := b1, mc_chunks := map Some cs1\<rparr>) =
      (Ok (), s\<lparr>mc_buffer := b2, mc_chunks := map Some cs'\<rparr>)"
    using f2 client_fill_eq [OF tokio_fill_keeps [OF assms(2) f1], of "1 + k + n" b1] by (simp add: client_ensure_def)
  ultimately show ?thesis
    using k d by (simp add: client_read_packet_def then_do_apply of_result_def Let_def)
qed

lemma client_reads:
  assumes "mc_chunks s = map Some cs" "[] \<notin> set cs" "mc_buffer s @ concat cs = Packet_wire p @ rest"
    and "Packet_wf client_topic_length client_payload_size p" "length (Packet_wire p) < 130"
  shows "\<exists>b' cs'. client_read_packet s = (Ok p, s\<lparr>mc_buffer := b', mc_chunks := map Some cs'\<rparr>)"
proof -
  let ?r = "\<lparr>tk_buffer = mc_buffer s, tk_chunks = cs\<rparr>"
  have "tokio_healthy ?r" "tokio_stream ?r = Packet_wire p @ rest"
    using assms(2,3) by (simp_all add: tokio_healthy_def tokio_stream_def)
  from tokio_read_law [OF this(1) assms(4) this(2)] assms(5) obtain r where
    "tokio_read_packet client_topic_length client_payload_size ?r = (Ok (Some p), r)" by blast
  with client_read_eq [OF assms(1,2), of p "tk_buffer r" "tk_chunks r"] show ?thesis by (cases r) auto
qed

section \<open>A session\<close>

lemma encode_packet_fits:
  assumes "Packet_wf client_topic_length client_payload_size p" "length (Packet_wire p) \<le> 325"
  shows "encode_packet p = Ok (Packet_wire p)"
proof -
  have "length (Packet_wire p) \<le> length (replicate 325 (0 :: u8))" using assms(2) by simp
  from packet.encode_fits [OF assms(1) this] show ?thesis
    using assms(2) by (simp add: encode_packet_def slice_def take_put_at_0)
qed

definition client_connect_packet :: "ClientId \<Rightarrow> u16 \<Rightarrow> ConnectPacket" where
  "client_connect_packet cid keep_alive = \<lparr>connect_flags = ConnectFlags_CLEAN_SESSION, con_keep_alive = keep_alive,
     con_client_id = cid, will_topic = None, will_payload = None, username = None, password = None\<rparr>"

definition client_publish_packet :: "TopicName \<Rightarrow> u8 HeaplessVec \<Rightarrow> PublishPacket" where
  "client_publish_packet t v = \<lparr>pub_topic_name = t, pub_packet_id = None, pub_payload = v, pub_qos = AtMostOnce,
     pub_dup = False, pub_retain = False\<rparr>"

lemma client_connect_packet_wf:
  assumes "text_wf MAX_CLIENT_ID_LENGTH cid"
  shows "Packet_wf N M (Connect (client_connect_packet cid ka))"
    "length (Packet_wire (Connect (client_connect_packet cid ka))) = 14 + length (HeaplessString_bytes cid)"
    "length (HeaplessString_bytes cid) \<le> 23"
proof -
  let ?p = "client_connect_packet cid ka"
  show w: "Packet_wf N M (Connect ?p)"
    using assms by (simp add: ConnectPacket_wf_def client_connect_packet_def ConnectFlags_contains_def ConnectFlags_RESERVED_def
      ConnectFlags_CLEAN_SESSION_def ConnectFlags_WILL_FLAG_def ConnectFlags_USERNAME_def ConnectFlags_PASSWORD_def)
  show l: "length (HeaplessString_bytes cid) \<le> 23"
    using assms length_HeaplessString_bytes [of cid] text_wf_facts(2) [OF assms]
    by (simp add: text_wf_def str_ok_def str_wf_def HeaplessString_capacity_def MAX_CLIENT_ID_LENGTH_def HeaplessString_bytes_def)
  have b: "length (ConnectPacket_body ?p) = 12 + length (HeaplessString_bytes cid)"
    by (simp add: ConnectPacket_body_def client_connect_packet_def MQTT_PROTOCOL_NAME_def optional_def to_be_bytes_def)
  then have "length (varlen (length (ConnectPacket_body ?p))) = 1" using l by (simp add: varlen.simps)
  then show "length (Packet_wire (Connect ?p)) = 14 + length (HeaplessString_bytes cid)"
    using b by (simp add: ConnectPacket_wire_def framed_def)
qed

lemma client_publish_packet_wf:
  assumes "topic_wf N t" "payload_wf M v" "length (HeaplessString_bytes t) + length (HeaplessVec_as_slice v) \<le> 125"
  shows "Packet_wf N M (Publish (client_publish_packet t v))"
    "length (Packet_wire (Publish (client_publish_packet t v))) \<le> 129"
proof -
  let ?p = "client_publish_packet t v"
  show "Packet_wf N M (Publish ?p)" using assms(1,2) by (simp add: PublishPacket_wf_def client_publish_packet_def)
  have "length (PublishPacket_body ?p) \<le> 127"
    using assms(3) by (simp add: PublishPacket_body_def client_publish_packet_def)
  then show "length (Packet_wire (Publish ?p)) \<le> 129" by (simp add: PublishPacket_wire_def framed_def varlen.simps)
qed

lemma client_id_eq:
  assumes "valid_utf8 client_id" "length client_id \<le> 23"
  shows "\<exists>cid. ClientId_try_from client_id = Ok cid \<and> text_wf MAX_CLIENT_ID_LENGTH cid \<and> HeaplessString_bytes cid = client_id"
  using HeaplessString_try_from_fits [of client_id MAX_CLIENT_ID_LENGTH] assms
  by (auto simp: ClientId_try_from_def text_wf_def str_ok_def MAX_CLIENT_ID_LENGTH_def)

lemma client_topic_eq:
  assumes "valid_utf8 topic" "topic \<noteq> []" "length topic \<le> 64"
  shows "\<exists>t. TopicName_try_from client_topic_length topic = Ok t \<and> topic_wf client_topic_length t \<and> HeaplessString_bytes t = topic"
  using HeaplessString_try_from_fits [of topic client_topic_length] assms
  by (auto simp: TopicName_try_from_def topic_wf_def str_ok_def)

lemma client_payload_eq:
  assumes "length message \<le> 256"
  shows "\<exists>v. built (HeaplessVec_extend_from_slice message) (HeaplessVec_new client_payload_size 0) = Ok v \<and>
    payload_wf client_payload_size v \<and> HeaplessVec_as_slice v = message"
  using HeaplessVec_extend_new [of message client_payload_size "0 :: u8"] assms by (auto simp: built_def payload_wf_def)

lemma client_connect_ok:
  assumes id: "valid_utf8 client_id" "length client_id \<le> 23"
    and s: "mc_writes s = True # ws" "mc_chunks s = map Some cs" "[] \<notin> set cs"
      "concat cs = Packet_wire (ConnAck \<lparr>session_present = sp, return_code = Accepted\<rparr>) @ rest"
  shows "\<exists>cid s'. MqttClient_connect True client_id ka s = (Ok (), s') \<and> text_wf MAX_CLIENT_ID_LENGTH cid \<and>
    HeaplessString_bytes cid = client_id \<and> mc_writes s' = ws \<and>
    mc_sent s' = mc_sent s @ Packet_wire (Connect (client_connect_packet cid ka))"
proof -
  let ?a = "ConnAck \<lparr>session_present = sp, return_code = Accepted\<rparr>"
  obtain cid where cid: "ClientId_try_from client_id = Ok cid" "text_wf MAX_CLIENT_ID_LENGTH cid" "HeaplessString_bytes cid = client_id"
    using client_id_eq [OF id] by blast
  let ?p = "Connect (client_connect_packet cid ka)"
  note wf = client_connect_packet_wf [OF cid(2)]
  have e: "encode_packet ?p = Ok (Packet_wire ?p)"
    by (rule encode_packet_fits) (use wf(1) [of client_topic_length client_payload_size ka] wf(2) [of ka] wf(3) in simp_all)
  let ?s = "s\<lparr>mc_buffer := [], mc_open := True, mc_writes := ws, mc_sent := mc_sent s @ Packet_wire ?p\<rparr>"
  have "\<exists>b' cs'. client_read_packet ?s = (Ok ?a, ?s\<lparr>mc_buffer := b', mc_chunks := map Some cs'\<rparr>)"
    by (rule client_reads [of _ cs _ rest]) (use s in \<open>simp_all add: ConnAckPacket_wire_def\<close>)
  then obtain b' cs' where r: "client_read_packet ?s = (Ok ?a, ?s\<lparr>mc_buffer := b', mc_chunks := map Some cs'\<rparr>)" by blast
  have "MqttClient_connect True client_id ka s = (Ok (), ?s\<lparr>mc_buffer := b', mc_chunks := map Some cs'\<rparr>)"
    using cid(1) e s(1) r
    by (simp add: MqttClient_connect_def MqttClient_read_connack_def then_do_apply of_result_def client_write_def Let_def
      client_connect_packet_def del: Packet_wire.simps)
  then show ?thesis using cid(2,3) by (intro exI [of _ cid] exI conjI) (assumption, simp_all)
qed

lemma client_publish_ok:
  assumes t: "valid_utf8 topic" "topic \<noteq> []" "length topic \<le> 64" "length topic + length message \<le> 125"
    and s: "mc_writes s = True # ws"
  shows "\<exists>t v. MqttClient_publish topic message s =
      (Ok (), s\<lparr>mc_writes := ws, mc_sent := mc_sent s @ Packet_wire (Publish (client_publish_packet t v))\<rparr>) \<and>
    topic_wf client_topic_length t \<and> payload_wf client_payload_size v \<and>
    HeaplessString_bytes t = topic \<and> HeaplessVec_as_slice v = message"
proof -
  obtain tn where tn: "TopicName_try_from client_topic_length topic = Ok tn" "topic_wf client_topic_length tn"
    "HeaplessString_bytes tn = topic" using client_topic_eq [OF t(1-3)] by blast
  obtain v where v: "built (HeaplessVec_extend_from_slice message) (HeaplessVec_new client_payload_size 0) = Ok v"
    "payload_wf client_payload_size v" "HeaplessVec_as_slice v = message" using client_payload_eq [of message] t(4) by auto
  have "length (HeaplessString_bytes tn) + length (HeaplessVec_as_slice v) \<le> 125" using t(4) tn(3) v(3) by simp
  note wf = client_publish_packet_wf [OF tn(2) v(2) this]
  have "encode_packet (Publish (client_publish_packet tn v)) = Ok (Packet_wire (Publish (client_publish_packet tn v)))"
    by (rule encode_packet_fits [OF wf(1)]) (use wf(2) in linarith)
  then have "MqttClient_publish topic message s =
      (Ok (), s\<lparr>mc_writes := ws, mc_sent := mc_sent s @ Packet_wire (Publish (client_publish_packet tn v))\<rparr>)"
    using tn(1) v(1) s
    by (simp add: MqttClient_publish_def then_do_apply of_result_def client_write_def Let_def client_publish_packet_def
      del: Packet_wire.simps)
  then show ?thesis using tn(2,3) v(2,3) by blast
qed

lemma client_disconnect_ok:
  "mc_writes s = True # ws \<Longrightarrow> MqttClient_disconnect s =
     (Ok (), s\<lparr>mc_writes := ws, mc_sent := mc_sent s @ Packet_wire (Disconnect DisconnectPacket), mc_open := False\<rparr>)"
  using encode_packet_fits [of "Disconnect DisconnectPacket"]
  by (simp add: MqttClient_disconnect_def then_do_apply of_result_def client_write_def empty_wire_def)

section \<open>Properties\<close>



end
