(* ===== verification/Framing_Copies.thy ===== *)
theory Framing_Copies
  imports Server_Io Client Texts
begin

text \<open>
  The functions that the three programs have copies of. \<^verbatim>\<open>parse_remaining_length\<close> stands in \<^verbatim>\<open>io.rs\<close> of both servers and in the client:
  the copies are translated here with the width of \<^verbatim>\<open>usize\<close> on their targets and every overflow as a panic, and
  agree with \<^const>\<open>parse_remaining_length\<close>, which the models of the readers use. \<^verbatim>\<open>packet_type_name\<close> stands in the handlers of
  both servers and in the client.
\<close>

section \<open>The remaining length at the width of the target\<close>

function checked_parse_loop :: "nat \<Rightarrow> bytes \<Rightarrow> usize \<Rightarrow> usize \<Rightarrow> usize \<Rightarrow> (usize \<times> usize, ProtocolError) result" where
  "checked_parse_loop bits buffer idx multiplier value =
     (if idx \<ge> length buffer then Err (IncompletePacket (length buffer))
      else
        let byte = unat (buffer ! idx);
            idx' = idx + 1;
            product = (byte AND 0x7F) * multiplier;
            value' = value + product
        in if product \<ge> 2 ^ bits \<or> value' \<ge> 2 ^ bits then Panic
           else if byte AND 0x80 = 0 then Ok (value', idx' - 1)
           else
             let multiplier' = multiplier * 128 in
             if multiplier' \<ge> 2 ^ bits then Panic
             else if multiplier' > 128 * 128 * 128 then Err (InvalidPacketLength 4 5)
             else checked_parse_loop bits buffer idx' multiplier' value')"
  by pat_completeness auto
termination by (relation "measure (\<lambda>(bits, buffer, idx, _). length buffer - idx)") auto

declare checked_parse_loop.simps [simp del]

definition rp_parse_remaining_length :: "bytes \<Rightarrow> (usize \<times> usize, ProtocolError) result" where
  "rp_parse_remaining_length buffer = checked_parse_loop 32 buffer 1 1 0"

definition client_parse_remaining_length :: "bytes \<Rightarrow> (usize \<times> usize, ProtocolError) result" where
  "client_parse_remaining_length buffer = checked_parse_loop 64 buffer 1 1 0"

text \<open>With 29 bits nothing overflows: the multiplier is at most \<open>2 ^ 28\<close> when it is checked, and the value is below it.\<close>

lemma checked_parse_step:
  assumes "idx < length buffer" "m \<le> 128 ^ 3" "v < m" "29 \<le> bits"
  shows "checked_parse_loop bits buffer idx m v =
    (let byte = unat (buffer ! idx); v' = v + (byte mod 128) * m in
     if byte < 128 then Ok (v', idx)
     else if m * 128 > 128 * 128 * 128 then Err (InvalidPacketLength 4 5)
     else checked_parse_loop bits buffer (idx + 1) (m * 128) v')"
proof -
  let ?b = "unat (buffer ! idx)"
  have le: "?b mod 128 * m \<le> 127 * m" using mod_less_divisor [of 128 ?b] by (intro mult_le_mono1) linarith
  have big: "536870912 \<le> (2 :: nat) ^ bits" using power_increasing [OF assms(4), of "2 :: nat"] by simp
  have m: "m \<le> 2097152" using assms(2) by simp
  have "\<not> 2 ^ bits \<le> ?b mod 128 * m" "\<not> 2 ^ bits \<le> v + ?b mod 128 * m" "\<not> 2 ^ bits \<le> m * 128"
    using le big m assms(3) by linarith+
  then show ?thesis
    using assms(1) unat_u8_less [of "buffer ! idx"]
    by (subst checked_parse_loop.simps) (simp add: nat_and_127 nat_and_128 Let_def)
qed

lemma checked_parse_loop_eq:
  assumes "29 \<le> bits"
  shows "j \<le> 3 \<Longrightarrow> v < 128 ^ j \<Longrightarrow>
    checked_parse_loop bits buffer idx (128 ^ j) v = parse_remaining_length_loop buffer idx (128 ^ j) v"
proof (induction "3 - j" arbitrary: idx j v)
  case 0
  then have j: "j = 3" by simp
  show ?case
  proof (cases "idx < length buffer")
    case True
    show ?thesis
      using checked_parse_step [OF True _ 0(3) assms] 0 parse_step [OF True, of 3 v] by (simp add: j Let_def)
  next
    case False
    then show ?thesis by (simp add: checked_parse_loop.simps [of bits] parse_remaining_length_loop.simps [of buffer])
  qed
next
  case (Suc d)
  show ?case
  proof (cases "idx < length buffer")
    case True
    let ?b = "unat (buffer ! idx)"
    have m: "(128 :: nat) ^ j \<le> 128 ^ 3" "(128 :: nat) ^ j * 128 \<le> 128 ^ 3" "j \<noteq> 3"
      using Suc.hyps(2) power_increasing [of j 3 "128 :: nat"] power_increasing [of "j + 1" 3 "128 :: nat"] by auto
    have "v + ?b mod 128 * 128 ^ j < 128 ^ (j + 1)"
    proof -
      have "?b mod 128 \<le> 127" using mod_less_divisor [of 128 ?b] by linarith
      from mult_le_mono1 [OF this, of "128 ^ j"] have "v + ?b mod 128 * 128 ^ j < 128 ^ j + 127 * 128 ^ j"
        using Suc.prems(2) by linarith
      then show ?thesis by simp
    qed
    with Suc.hyps(1) [of "j + 1" _ "idx + 1"] Suc.hyps(2) have
      "checked_parse_loop bits buffer (idx + 1) (128 ^ (j + 1)) (v + ?b mod 128 * 128 ^ j) =
       parse_remaining_length_loop buffer (idx + 1) (128 ^ (j + 1)) (v + ?b mod 128 * 128 ^ j)" by simp
    then show ?thesis
      using checked_parse_step [OF True m(1) Suc.prems(2) assms] parse_step [OF True Suc.prems(1), of v] m
      by (simp add: Let_def mult.commute)
  next
    case False
    then show ?thesis by (simp add: checked_parse_loop.simps [of bits] parse_remaining_length_loop.simps [of buffer])
  qed
qed

text \<open>The three copies are one function, and none of them overflows on its target.\<close>

theorem parse_remaining_length_copies:
  "rp_parse_remaining_length buffer = parse_remaining_length buffer"
  "client_parse_remaining_length buffer = parse_remaining_length buffer"
  using checked_parse_loop_eq [of _ 0 0 buffer 1]
  by (simp_all add: rp_parse_remaining_length_def client_parse_remaining_length_def parse_remaining_length_def)

section \<open>The names of the packets\<close>

fun rp_packet_type_name :: "Packet \<Rightarrow> string" where
  "rp_packet_type_name (Connect _) = ''CONNECT''"
| "rp_packet_type_name (ConnAck _) = ''CONNACK''"
| "rp_packet_type_name (Publish _) = ''PUBLISH''"
| "rp_packet_type_name (PubAck _) = ''PUBACK''"
| "rp_packet_type_name (PubRec _) = ''PUBREC''"
| "rp_packet_type_name (PubRel _) = ''PUBREL''"
| "rp_packet_type_name (PubComp _) = ''PUBCOMP''"
| "rp_packet_type_name (Subscribe _) = ''SUBSCRIBE''"
| "rp_packet_type_name (SubAck _) = ''SUBACK''"
| "rp_packet_type_name (Unsubscribe _) = ''UNSUBSCRIBE''"
| "rp_packet_type_name (UnsubAck _) = ''UNSUBACK''"
| "rp_packet_type_name (PingReq _) = ''PINGREQ''"
| "rp_packet_type_name (PingResp _) = ''PINGRESP''"
| "rp_packet_type_name (Disconnect _) = ''DISCONNECT''"

fun client_packet_type_name :: "Packet \<Rightarrow> string" where
  "client_packet_type_name (Connect _) = ''CONNECT''"
| "client_packet_type_name (ConnAck _) = ''CONNACK''"
| "client_packet_type_name (Publish _) = ''PUBLISH''"
| "client_packet_type_name (PubAck _) = ''PUBACK''"
| "client_packet_type_name (PubRec _) = ''PUBREC''"
| "client_packet_type_name (PubRel _) = ''PUBREL''"
| "client_packet_type_name (PubComp _) = ''PUBCOMP''"
| "client_packet_type_name (Subscribe _) = ''SUBSCRIBE''"
| "client_packet_type_name (SubAck _) = ''SUBACK''"
| "client_packet_type_name (Unsubscribe _) = ''UNSUBSCRIBE''"
| "client_packet_type_name (UnsubAck _) = ''UNSUBACK''"
| "client_packet_type_name (PingReq _) = ''PINGREQ''"
| "client_packet_type_name (PingResp _) = ''PINGRESP''"
| "client_packet_type_name (Disconnect _) = ''DISCONNECT''"

text \<open>The name of a packet in the logs is the same in all programs, and tells the variant.\<close>

theorem packet_type_name_copies:
  "rp_packet_type_name p = packet_type_name p" "client_packet_type_name p = packet_type_name p"
  by (cases p; simp)+

theorem packet_type_name_tells: "packet_type_name p = packet_type_name q \<longleftrightarrow> Packet_packet_type p = Packet_packet_type q"
  by (cases p; cases q; simp)

end
