(* ===== verification/Conversions.thy ===== *)
theory Conversions
  imports Server_Tokio Server_Rp
begin

text \<open>
  The conversions, references and defaults of the types: \<^verbatim>\<open>Default\<close>, \<^verbatim>\<open>Deref\<close>, \<^verbatim>\<open>DerefMut\<close> and the borrowing iterators of the containers, the new
  types around \<^verbatim>\<open>HeaplessString\<close>, and the accessors of the servers. A mutable borrow is an action on the borrowed part whose effect is written
  back into the owner. The lemmas show that borrowing respects the invariants of the owners and cannot fail.
\<close>

section \<open>Containers\<close>

definition HeaplessString_default :: "usize \<Rightarrow> HeaplessString" where
  "HeaplessString_default N = \<lparr>slength = 0, sdata = replicate N 0\<rparr>"

definition HeaplessVec_default :: "usize \<Rightarrow> 'a \<Rightarrow> 'a HeaplessVec" where
  "HeaplessVec_default N dflt = \<lparr>vlength = 0, vdata = map (\<lambda>_. dflt) [0..<N]\<rparr>"

definition HeaplessVec_deref :: "'a HeaplessVec \<Rightarrow> ('a list, 'e) result" where
  "HeaplessVec_deref v = slice (vdata v) 0 (unat (vlength v))"

text \<open>\<open>m\<close> is what the caller does with \<^verbatim>\<open>&mut self.data[..self.length as usize]\<close>.\<close>

definition HeaplessVec_deref_mut :: "('a list, 'b, 'e) action \<Rightarrow> ('a HeaplessVec, 'b, 'e) action" where
  "HeaplessVec_deref_mut m = (\<lambda>v.
     case slice (vdata v) 0 (unat (vlength v)) of
       Ok xs \<Rightarrow> (case m xs of (x, ys) \<Rightarrow> (x, v\<lparr>vdata := put_at (vdata v) 0 ys\<rparr>))
     | Err e \<Rightarrow> (Err e, v)
     | Panic \<Rightarrow> (Panic, v))"

definition HeaplessVec_iter :: "'a HeaplessVec \<Rightarrow> 'a list" where
  "HeaplessVec_iter v = HeaplessVec_as_slice v"

text \<open>\<^verbatim>\<open>for x in &mut v { f(x) }\<close>\<close>

definition HeaplessVec_iter_mut :: "('a \<Rightarrow> 'a) \<Rightarrow> ('a HeaplessVec, unit, 'e) action" where
  "HeaplessVec_iter_mut f = HeaplessVec_deref_mut (\<lambda>xs. (Ok (), map f xs))"

lemma container_defaults:
  "HeaplessString_default N = HeaplessString_new N" "HeaplessVec_default N dflt = HeaplessVec_new N dflt"
  by (simp_all add: HeaplessString_default_def HeaplessString_new_def HeaplessVec_default_def HeaplessVec_new_def map_replicate_const)

lemma HeaplessVec_deref_eq: "vec_wf v \<Longrightarrow> HeaplessVec_deref v = Ok (HeaplessVec_as_slice v)"
  by (simp add: HeaplessVec_deref_def slice_def vec_wf_def HeaplessVec_as_slice_def)

text \<open>Whatever is done through a mutable borrow, which cannot change the number of elements: the vector holds the outcome.\<close>

lemma HeaplessVec_deref_mut_eq:
  assumes "vec_wf v" "m (HeaplessVec_as_slice v) = (x, ys)" "length ys = length (HeaplessVec_as_slice v)"
  shows "\<exists>v'. HeaplessVec_deref_mut m v = (x, v') \<and> vec_wf v' \<and> HeaplessVec_as_slice v' = ys \<and> HeaplessVec_len v' = HeaplessVec_len v \<and>
    HeaplessVec_capacity v' = HeaplessVec_capacity v"
  using assms length_as_slice [OF assms(1)]
  by (auto simp: HeaplessVec_deref_mut_def slice_def vec_wf_def HeaplessVec_as_slice_def HeaplessVec_len_def HeaplessVec_capacity_def put_at_def)

lemma HeaplessVec_iter_mut_eq:
  assumes "vec_wf v"
  shows "\<exists>v'. HeaplessVec_iter_mut f v = (Ok (), v') \<and> vec_wf v' \<and> HeaplessVec_iter v' = map f (HeaplessVec_iter v)"
  using HeaplessVec_deref_mut_eq [OF assms, of "\<lambda>xs. (Ok (), map f xs)"] by (auto simp: HeaplessVec_iter_mut_def HeaplessVec_iter_def)

section \<open>TopicName and ClientId\<close>

definition TopicName_new :: "HeaplessString \<Rightarrow> TopicName" where
  "TopicName_new name = name"

definition TopicName_from :: "HeaplessString \<Rightarrow> TopicName" where
  "TopicName_from name = name"

definition TopicName_deref :: "TopicName \<Rightarrow> HeaplessString" where
  "TopicName_deref t = t"

definition TopicName_deref_mut :: "(HeaplessString, 'a, 'e) action \<Rightarrow> (TopicName, 'a, 'e) action" where
  "TopicName_deref_mut m = on_field TopicName_deref (\<lambda>s _. TopicName_new s) m"

definition ClientId_new :: "HeaplessString \<Rightarrow> ClientId" where
  "ClientId_new value = value"

definition ClientId_from :: "HeaplessString \<Rightarrow> ClientId" where
  "ClientId_from value = value"

definition ClientId_deref :: "ClientId \<Rightarrow> HeaplessString" where
  "ClientId_deref c = c"

definition ClientId_deref_mut :: "(HeaplessString, 'a, 'e) action \<Rightarrow> (ClientId, 'a, 'e) action" where
  "ClientId_deref_mut m = on_field ClientId_deref (\<lambda>s _. ClientId_new s) m"

lemmas newtype_defs = TopicName_new_def TopicName_from_def TopicName_deref_def TopicName_deref_mut_def
  ClientId_new_def ClientId_from_def ClientId_deref_def ClientId_deref_mut_def on_field_def

text \<open>
  The new types check nothing: \<^verbatim>\<open>From\<close> and \<^verbatim>\<open>new\<close> take any string, also the empty one, and a method of the string that is called through
  \<^verbatim>\<open>DerefMut\<close> does to the name what it does to the string.
\<close>

lemma newtype_transparent:
  "TopicName_deref (TopicName_from s) = s" "TopicName_from s = TopicName_new s" "TopicName_deref_mut m t = m (TopicName_deref t)"
  "ClientId_deref (ClientId_from s) = s" "ClientId_from s = ClientId_new s" "ClientId_deref_mut m' c = m' (ClientId_deref c)"
  by (auto simp: newtype_defs split: prod.split)

text \<open>The accessors of a topic entry\<close>

definition TopicEntry_topic_name :: "TopicEntry \<Rightarrow> TopicName" where
  "TopicEntry_topic_name e = topic_name e"

lemma topic_name_kept:
  "TopicEntry_topic_name (TopicEntry_new S name) = name"
  "TopicEntry_topic_name (snd (TopicEntry_add_subscriber sid e)) = TopicEntry_topic_name e"
  by (auto simp: TopicEntry_topic_name_def TopicEntry_new_def TopicEntry_add_subscriber_def on_field_def Let_def split: prod.split result.split)

section \<open>The servers\<close>

definition SessionIdGenerator_new :: u64 where
  "SessionIdGenerator_new = 0"

definition SessionIdGenerator_default :: u64 where
  "SessionIdGenerator_default = SessionIdGenerator_new"

definition ServerState_default :: ServerState where
  "ServerState_default = ServerState_new"

text \<open>
  \<^verbatim>\<open>current_time_nanos\<close> of the tokio server. The clock is the argument, in nanoseconds relative to the epoch: one that is set before the
  epoch panics, and \<^verbatim>\<open>as_nanos\<close> fits \<^verbatim>\<open>u128\<close>.
\<close>

definition tokio_current_time_nanos :: "int \<Rightarrow> (u128, unit) result" where
  "tokio_current_time_nanos clock = (if clock < 0 then Panic else Ok (of_int clock))"

definition MqttServer_default :: "config \<Rightarrow> tokio_server" where
  "MqttServer_default cfg = MqttServer_new cfg"

definition MqttServer_broker :: "tokio_server \<Rightarrow> PicoBroker" where
  "MqttServer_broker s = ts_broker s"

definition MqttServer_connection_count :: "tokio_server \<Rightarrow> usize" where
  "MqttServer_connection_count s = ServerState_connection_count (ts_state s)"

text \<open>\<^verbatim>\<open>run\<close> returns only when the address cannot be bound; otherwise the steps of the server go on from the state it has.\<close>

definition MqttServer_run :: "(bytes \<Rightarrow> (unit, 'e) result) \<Rightarrow> bytes \<Rightarrow> tokio_server \<Rightarrow> (tokio_server, 'e) result" where
  "MqttServer_run bind bind_addr s = and_then (bind bind_addr) (\<lambda>_. Ok s)"

definition SessionIdGen_new :: u64 where
  "SessionIdGen_new = 0"

definition SessionIdGen_default :: u64 where
  "SessionIdGen_default = SessionIdGen_new"

record rp_HandlerConfig =
  rhc_default_keep_alive_secs :: u16

definition rp_HandlerConfig_default :: rp_HandlerConfig where
  "rp_HandlerConfig_default = \<lparr>rhc_default_keep_alive_secs = 60\<rparr>"

definition NotificationRegistry_receiver :: "usize \<Rightarrow> NotificationRegistry \<Rightarrow> (bool, unit) result" where
  "NotificationRegistry_receiver channel_idx r = index (nr_channels r) channel_idx"

text \<open>The start states of the servers are made of these defaults, and the receiver of a task exists.\<close>

lemma server_defaults:
  "session_id_gen ServerState_default = SessionIdGenerator_default" "ts_state (MqttServer_default cfg) = ServerState_default"
  "MqttServer_connection_count (MqttServer_default cfg) = 0" "MqttServer_broker (MqttServer_default cfg) = PicoBroker_new cfg"
  "rs_gen (rp_main cfg) = SessionIdGen_default" "rhc_default_keep_alive_secs rp_HandlerConfig_default = DEFAULT_KEEP_ALIVE"
  by (simp_all add: ServerState_default_def ServerState_new_def SessionIdGenerator_default_def SessionIdGenerator_new_def MqttServer_default_def
      MqttServer_new_def MqttServer_connection_count_def ServerState_connection_count_def MqttServer_broker_def rp_main_def SessionIdGen_default_def
      SessionIdGen_new_def rp_HandlerConfig_default_def DEFAULT_KEEP_ALIVE_def)

lemma receiver_exists:
  "i < n \<Longrightarrow> NotificationRegistry_receiver i (NotificationRegistry_new n) = Ok False"
  by (simp add: NotificationRegistry_receiver_def NotificationRegistry_new_def index_def)

lemma tokio_clock:
  assumes "0 \<le> clock" "clock < 2 ^ 128"
  shows "\<exists>t. tokio_current_time_nanos clock = Ok t \<and> uint t = clock"
  using assms by (simp add: tokio_current_time_nanos_def uint_word_of_int)

end
