(* ===== verification/Tests_Topics.thy ===== *)
theory Tests_Topics
  imports Texts "HOL-Library.Code_Target_Nat"
begin

text \<open>
  The unit tests of \<^verbatim>\<open>topics.rs\<close>, each translated into a truth value: the conjunction of its assertions, false where the
  test would panic. The model passes all of them, which ties it to the behaviour that the authors of the program check.
\<close>

definition unwrap :: "('a, 'e) result \<Rightarrow> ('a \<Rightarrow> bool) \<Rightarrow> bool" where
  "unwrap r f = (case r of Ok a \<Rightarrow> f a | _ \<Rightarrow> False)"

text \<open>\<^verbatim>\<open>registry.subscribe(...).unwrap()\<close> and \<^verbatim>\<open>registry.get_subscribers(...)\<close> of a \<^verbatim>\<open>TopicRegistry::<50, 10, 5>\<close>\<close>

definition subscribing :: "u128 \<Rightarrow> bytes \<Rightarrow> TopicRegistry \<Rightarrow> (TopicRegistry \<Rightarrow> bool) \<Rightarrow> bool" where
  "subscribing session topic_filter registry f =
     unwrap (TopicName_try_from 50 topic_filter) (\<lambda>name.
       case TopicRegistry_subscribe 5 session name registry of (Ok _, registry') \<Rightarrow> f registry' | _ \<Rightarrow> False)"

definition subscribers_are :: "bytes \<Rightarrow> TopicRegistry \<Rightarrow> (u128 HeaplessVec \<Rightarrow> bool) \<Rightarrow> bool" where
  "subscribers_are published registry f =
     unwrap (TopicName_try_from 50 published) (\<lambda>topic. unwrap (TopicRegistry_get_subscribers 5 topic registry) f)"

definition has :: "u128 HeaplessVec \<Rightarrow> u128 \<Rightarrow> bool" where
  "has v session \<longleftrightarrow> session \<in> set (HeaplessVec_as_slice v)"

primrec nexts :: "nat \<Rightarrow> LevelIterator \<Rightarrow> bytes option list" where
  "nexts 0 it = []"
| "nexts (Suc n) it = (case LevelIterator_next it of (x, it') \<Rightarrow> x # nexts n it')"

section \<open>Integration tests\<close>

definition test_exact_match_subscription :: bool where
  "test_exact_match_subscription \<longleftrightarrow>
     subscribing 1 (str ''sensors/temp'') (TopicRegistry_default 50 10 5) (\<lambda>r.
     subscribers_are (str ''sensors/temp'') r (\<lambda>v. HeaplessVec_len v = 1 \<and> has v 1) \<and>
     subscribers_are (str ''sensors/humidity'') r (\<lambda>v. HeaplessVec_len v = 0))"

definition test_plus_wildcard_subscription :: bool where
  "test_plus_wildcard_subscription \<longleftrightarrow>
     subscribing 1 (str ''sensors/+/temp'') (TopicRegistry_default 50 10 5) (\<lambda>r.
     list_all (\<lambda>topic_str. subscribers_are topic_str r (\<lambda>v. HeaplessVec_len v = 1 \<and> has v 1))
       [(str ''sensors/room1/temp''), (str ''sensors/room2/temp''), (str ''sensors/abc/temp''), (str ''sensors/123/temp'')] \<and>
     subscribers_are (str ''sensors/room1/temp/extra'') r (\<lambda>v. HeaplessVec_len v = 0) \<and>
     subscribers_are (str ''sensors/temp'') r (\<lambda>v. HeaplessVec_len v = 0))"

definition test_hash_wildcard_subscription :: bool where
  "test_hash_wildcard_subscription \<longleftrightarrow>
     subscribing 1 (str ''sensors/#'') (TopicRegistry_default 50 10 5) (\<lambda>r.
     list_all (\<lambda>topic_str. subscribers_are topic_str r (\<lambda>v. HeaplessVec_len v = 1 \<and> has v 1))
       [(str ''sensors''), (str ''sensors/temp''), (str ''sensors/temp/room1''), (str ''sensors/a/b/c/d/e/f'')] \<and>
     subscribers_are (str ''other/temp'') r (\<lambda>v. HeaplessVec_len v = 0))"

definition test_multiple_wildcard_subscriptions :: bool where
  "test_multiple_wildcard_subscriptions \<longleftrightarrow>
     subscribing 1 (str ''sensors/temp'') (TopicRegistry_default 50 10 5) (\<lambda>r.
     subscribing 2 (str ''sensors/+/temp'') r (\<lambda>r.
     subscribing 3 (str ''sensors/#'') r (\<lambda>r.
     subscribers_are (str ''sensors/room1/temp'') r (\<lambda>v. HeaplessVec_len v = 2 \<and> has v 2 \<and> has v 3 \<and> \<not> has v 1) \<and>
     subscribers_are (str ''sensors/temp'') r (\<lambda>v. HeaplessVec_len v = 2 \<and> has v 1 \<and> has v 3 \<and> \<not> has v 2) \<and>
     subscribers_are (str ''sensors/humidity'') r (\<lambda>v. HeaplessVec_len v = 1 \<and> has v 3))))"

definition test_duplicate_subscribers_via_wildcards :: bool where
  "test_duplicate_subscribers_via_wildcards \<longleftrightarrow>
     subscribing 1 (str ''sensors/temp'') (TopicRegistry_default 50 10 5) (\<lambda>r.
     subscribing 1 (str ''sensors/+'') r (\<lambda>r.
     subscribing 1 (str ''#'') r (\<lambda>r.
     subscribers_are (str ''sensors/temp'') r (\<lambda>v. HeaplessVec_len v = 1 \<and> has v 1))))"

definition test_invalid_wildcard_placement_literal_treatment :: bool where
  "test_invalid_wildcard_placement_literal_treatment \<longleftrightarrow>
     subscribing 1 (str ''sensors/#/temp'') (TopicRegistry_default 50 10 5) (\<lambda>r.
     subscribers_are (str ''sensors/temp'') r (\<lambda>v. HeaplessVec_len v = 0) \<and>
     subscribers_are (str ''sensors/anything/temp'') r (\<lambda>v. HeaplessVec_len v = 0))"

section \<open>Tests of the matching and of the level iterator\<close>

definition test_exact_match_single_level :: bool where
  "test_exact_match_single_level \<longleftrightarrow>
     topic_matches (str ''temp'') (str ''temp'') \<and>
     \<not> topic_matches (str ''temp'') (str ''humidity'')"

definition test_exact_match_multi_level :: bool where
  "test_exact_match_multi_level \<longleftrightarrow>
     topic_matches (str ''sensors/temp'') (str ''sensors/temp'') \<and>
     \<not> topic_matches (str ''sensors/temp'') (str ''sensors/humidity'')"

definition test_exact_match_different_levels :: bool where
  "test_exact_match_different_levels \<longleftrightarrow>
     \<not> topic_matches (str ''sensors/temp'') (str ''sensors'') \<and>
     \<not> topic_matches (str ''sensors'') (str ''sensors/temp'')"

definition test_plus_wildcard_single_level :: bool where
  "test_plus_wildcard_single_level \<longleftrightarrow>
     topic_matches (str ''temp'') (str ''+'') \<and>
     topic_matches (str ''any'') (str ''+'')"

definition test_plus_wildcard_middle :: bool where
  "test_plus_wildcard_middle \<longleftrightarrow>
     topic_matches (str ''sensors/room1/temp'') (str ''sensors/+/temp'') \<and>
     topic_matches (str ''sensors/xyz/temp'') (str ''sensors/+/temp'') \<and>
     \<not> topic_matches (str ''sensors/room1/temp/humidity'') (str ''sensors/+/temp'')"

definition test_plus_wildcard_first_level :: bool where
  "test_plus_wildcard_first_level \<longleftrightarrow>
     topic_matches (str ''abc/temp'') (str ''+/temp'') \<and>
     \<not> topic_matches (str ''xyz/abc/temp'') (str ''+/temp'')"

definition test_plus_wildcard_last_level :: bool where
  "test_plus_wildcard_last_level \<longleftrightarrow>
     topic_matches (str ''sensors/value'') (str ''sensors/+'') \<and>
     \<not> topic_matches (str ''sensors'') (str ''sensors/+'')"

definition test_multiple_plus_wildcards :: bool where
  "test_multiple_plus_wildcards \<longleftrightarrow>
     topic_matches (str ''a/b/c'') (str ''+/+/c'') \<and>
     topic_matches (str ''x/y/z'') (str ''+/+/+'') \<and>
     \<not> topic_matches (str ''a/b'') (str ''+/+/+'')"

definition test_plus_wildcard_literal_treatment :: bool where
  "test_plus_wildcard_literal_treatment \<longleftrightarrow>
     \<not> topic_matches (str ''sensors/room1/temp'') (str ''sensors/+/abc/temp'') \<and>
     topic_matches (str ''sensors/+/temp'') (str ''sensors/+/temp'') \<and>
     \<not> topic_matches (str ''sensors/abc/temp'') (str ''sensor+/+/temp'')"

definition test_hash_wildcard_match_all :: bool where
  "test_hash_wildcard_match_all \<longleftrightarrow>
     topic_matches (str ''anything'') (str ''#'') \<and>
     topic_matches (str ''any/thing'') (str ''#'') \<and>
     topic_matches (str ''any/thing/at/any/level'') (str ''#'')"

definition test_hash_wildcard_suffix :: bool where
  "test_hash_wildcard_suffix \<longleftrightarrow>
     topic_matches (str ''sensors'') (str ''sensors/#'') \<and>
     topic_matches (str ''sensors/temp'') (str ''sensors/#'') \<and>
     topic_matches (str ''sensors/temp/room1'') (str ''sensors/#'') \<and>
     topic_matches (str ''sensors/a/b/c/d'') (str ''sensors/#'') \<and>
     \<not> topic_matches (str ''sensors'') (str ''sensors/temp/#'')"

definition test_hash_wildcard_alone :: bool where
  "test_hash_wildcard_alone \<longleftrightarrow>
     topic_matches (str ''anything'') (str ''#'') \<and>
     topic_matches (str ''a/b/c'') (str ''#'')"

definition test_hash_wildcard_match_zero_levels :: bool where
  "test_hash_wildcard_match_zero_levels \<longleftrightarrow>
     topic_matches (str ''sensors'') (str ''sensors/#'')"

definition test_hash_wildcard_literal_treatment :: bool where
  "test_hash_wildcard_literal_treatment \<longleftrightarrow>
     \<not> topic_matches (str ''sensors/temp'') (str ''sensors/#/temp'') \<and>
     \<not> topic_matches (str ''sensors'') (str ''sensors/#/temp'')"

definition test_plus_and_hash_combined :: bool where
  "test_plus_and_hash_combined \<longleftrightarrow>
     topic_matches (str ''sensors/temp'') (str ''sensors/+/#'') \<and>
     topic_matches (str ''sensors/temp/room1'') (str ''sensors/+/#'') \<and>
     topic_matches (str ''sensors/room1/temp'') (str ''sensors/+/temp/#'')"

definition test_empty_topic_levels :: bool where
  "test_empty_topic_levels \<longleftrightarrow>
     topic_matches (str ''sensors//temp'') (str ''sensors//temp'') \<and>
     topic_matches (str ''sensors/'') (str ''sensors/'') \<and>
     topic_matches (str ''/temp'') (str ''/temp'')"

definition test_unicode_topics :: bool where
  "test_unicode_topics \<longleftrightarrow>
     topic_matches [0xC3, 0xB1, 0xC3, 0xA1, 0xC3, 0xA9] [0xC3, 0xB1, 0xC3, 0xA1, 0xC3, 0xA9] \<and>
     topic_matches [0x73, 0x65, 0x6E, 0x73, 0x6F, 0x72, 0x2F, 0xE6, 0xB8, 0xA9, 0xE5, 0xBA, 0xA6] [0x73, 0x65, 0x6E, 0x73, 0x6F, 0x72, 0x2F, 0xE6, 0xB8, 0xA9, 0xE5, 0xBA, 0xA6] \<and>
     topic_matches [0x73, 0x65, 0x6E, 0x73, 0x6F, 0x72, 0x2F, 0xE6, 0xB8, 0xA9, 0xE5, 0xBA, 0xA6] (str ''sensor/+'')"

definition test_case_sensitive :: bool where
  "test_case_sensitive \<longleftrightarrow>
     topic_matches (str ''Sensors/Temp'') (str ''Sensors/Temp'') \<and>
     \<not> topic_matches (str ''sensors/temp'') (str ''Sensors/Temp'') \<and>
     \<not> topic_matches (str ''Sensors/Temp'') (str ''sensors/temp'')"

definition test_long_topics :: bool where
  "test_long_topics \<longleftrightarrow>
     topic_matches (str ''a/b/c/d/e/f/g/h/i/j/k/l/m/n/o/p/q/r/s/t/u/v/w/x/y/z'') (str ''+/+/+/+/+/+/+/+/+/+/+/+/+/+/#'')"

definition test_empty_topic :: bool where
  "test_empty_topic \<longleftrightarrow>
     \<not> topic_matches [] (str ''sensors'') \<and>
     \<not> topic_matches (str ''sensors'') [] \<and>
     topic_matches [] [] \<and>
     topic_matches [] (str ''#'')"

definition test_level_iterator_basic :: bool where
  "test_level_iterator_basic \<longleftrightarrow>
     nexts 4 (LevelIterator_new (str ''sensors/temp/room1'')) = [Some (str ''sensors''), Some (str ''temp''), Some (str ''room1''), None]"

definition test_level_iterator_single_level :: bool where
  "test_level_iterator_single_level \<longleftrightarrow>
     nexts 2 (LevelIterator_new (str ''sensors'')) = [Some (str ''sensors''), None]"

definition test_level_iterator_empty_levels :: bool where
  "test_level_iterator_empty_levels \<longleftrightarrow>
     nexts 4 (LevelIterator_new (str ''sensors//temp'')) = [Some (str ''sensors''), Some [], Some (str ''temp''), None]"

definition test_level_iterator_trailing_slash :: bool where
  "test_level_iterator_trailing_slash \<longleftrightarrow>
     nexts 3 (LevelIterator_new (str ''sensors/'')) = [Some (str ''sensors''), Some [], None]"

definition test_level_iterator_leading_slash :: bool where
  "test_level_iterator_leading_slash \<longleftrightarrow>
     nexts 3 (LevelIterator_new (str ''/temp'')) = [Some [], Some (str ''temp''), None]"

definition test_level_iterator_empty_string :: bool where
  "test_level_iterator_empty_string \<longleftrightarrow>
     nexts 1 (LevelIterator_new []) = [None]"

section \<open>The model passes the tests\<close>

definition topics_tests :: "bool list" where
  "topics_tests =
     [test_exact_match_subscription, test_plus_wildcard_subscription, test_hash_wildcard_subscription,
      test_multiple_wildcard_subscriptions, test_duplicate_subscribers_via_wildcards,
      test_invalid_wildcard_placement_literal_treatment, test_exact_match_single_level,
      test_exact_match_multi_level, test_exact_match_different_levels, test_plus_wildcard_single_level,
      test_plus_wildcard_middle, test_plus_wildcard_first_level, test_plus_wildcard_last_level,
      test_multiple_plus_wildcards, test_plus_wildcard_literal_treatment, test_hash_wildcard_match_all,
      test_hash_wildcard_suffix, test_hash_wildcard_alone, test_hash_wildcard_match_zero_levels,
      test_hash_wildcard_literal_treatment, test_plus_and_hash_combined, test_empty_topic_levels,
      test_unicode_topics, test_case_sensitive, test_long_topics, test_empty_topic, test_level_iterator_basic,
      test_level_iterator_single_level, test_level_iterator_empty_levels, test_level_iterator_trailing_slash,
      test_level_iterator_leading_slash, test_level_iterator_empty_string]"

lemma test_exact_match_subscription_holds [simp]: "test_exact_match_subscription"
  by code_simp

lemma test_plus_wildcard_subscription_holds [simp]: "test_plus_wildcard_subscription"
  by code_simp

lemma test_hash_wildcard_subscription_holds [simp]: "test_hash_wildcard_subscription"
  by code_simp

lemma test_multiple_wildcard_subscriptions_holds [simp]: "test_multiple_wildcard_subscriptions"
  by code_simp

lemma test_duplicate_subscribers_via_wildcards_holds [simp]: "test_duplicate_subscribers_via_wildcards"
  by code_simp

lemma test_invalid_wildcard_placement_literal_treatment_holds [simp]: "test_invalid_wildcard_placement_literal_treatment"
  by code_simp

lemma test_exact_match_single_level_holds [simp]: "test_exact_match_single_level"
  by code_simp

lemma test_exact_match_multi_level_holds [simp]: "test_exact_match_multi_level"
  by code_simp

lemma test_exact_match_different_levels_holds [simp]: "test_exact_match_different_levels"
  by code_simp

lemma test_plus_wildcard_single_level_holds [simp]: "test_plus_wildcard_single_level"
  by code_simp

lemma test_plus_wildcard_middle_holds [simp]: "test_plus_wildcard_middle"
  by code_simp

lemma test_plus_wildcard_first_level_holds [simp]: "test_plus_wildcard_first_level"
  by code_simp

lemma test_plus_wildcard_last_level_holds [simp]: "test_plus_wildcard_last_level"
  by code_simp

lemma test_multiple_plus_wildcards_holds [simp]: "test_multiple_plus_wildcards"
  by code_simp

lemma test_plus_wildcard_literal_treatment_holds [simp]: "test_plus_wildcard_literal_treatment"
  by code_simp

lemma test_hash_wildcard_match_all_holds [simp]: "test_hash_wildcard_match_all"
  by code_simp

lemma test_hash_wildcard_suffix_holds [simp]: "test_hash_wildcard_suffix"
  by code_simp

lemma test_hash_wildcard_alone_holds [simp]: "test_hash_wildcard_alone"
  by code_simp

lemma test_hash_wildcard_match_zero_levels_holds [simp]: "test_hash_wildcard_match_zero_levels"
  by code_simp

lemma test_hash_wildcard_literal_treatment_holds [simp]: "test_hash_wildcard_literal_treatment"
  by code_simp

lemma test_plus_and_hash_combined_holds [simp]: "test_plus_and_hash_combined"
  by code_simp

lemma test_empty_topic_levels_holds [simp]: "test_empty_topic_levels"
  by code_simp

lemma test_unicode_topics_holds [simp]: "test_unicode_topics"
  by code_simp

lemma test_case_sensitive_holds [simp]: "test_case_sensitive"
  by code_simp

lemma test_long_topics_holds [simp]: "test_long_topics"
  by code_simp

lemma test_empty_topic_holds [simp]: "test_empty_topic"
  by code_simp

lemma test_level_iterator_basic_holds [simp]: "test_level_iterator_basic"
  by code_simp

lemma test_level_iterator_single_level_holds [simp]: "test_level_iterator_single_level"
  by code_simp

lemma test_level_iterator_empty_levels_holds [simp]: "test_level_iterator_empty_levels"
  by code_simp

lemma test_level_iterator_trailing_slash_holds [simp]: "test_level_iterator_trailing_slash"
  by code_simp

lemma test_level_iterator_leading_slash_holds [simp]: "test_level_iterator_leading_slash"
  by code_simp

lemma test_level_iterator_empty_string_holds [simp]: "test_level_iterator_empty_string"
  by code_simp

lemma topics_tests_hold: "\<forall>t \<in> set topics_tests. t"
  by (simp add: topics_tests_def)

end
