(* ===== verification/Hex.thy ===== *)
theory Hex
  imports Strings
begin

text \<open>
  \<^verbatim>\<open>bytes_to_hex\<close> and \<^verbatim>\<open>hex_to_bytes\<close> of \<^verbatim>\<open>protocol/utils.rs\<close>, on strings and vectors of fixed capacity.
\<close>

section \<open>The helpers\<close>

text \<open>\<^verbatim>\<open>let _ =\<close>: an error is dropped, a panic is not.\<close>

definition ignore :: "('s, 'a, 'e) action \<Rightarrow> ('s, unit, unit) action" where
  "ignore m = (\<lambda>s. case m s of (Panic, s') \<Rightarrow> (Panic, s') | (_, s') \<Rightarrow> (Ok (), s'))"

primrec hex_to_bytes_loop :: "bytes list \<Rightarrow> (u8 HeaplessVec, unit, unit) action" where
  "hex_to_bytes_loop [] = ret ()"
| "hex_to_bytes_loop (s # ss) =
     then_do (case u8_from_hex s of Some b \<Rightarrow> ignore (HeaplessVec_push b) | None \<Rightarrow> ret ()) (\<lambda>_. hex_to_bytes_loop ss)"

definition hex_to_bytes :: "usize \<Rightarrow> bytes \<Rightarrow> (u8 HeaplessVec, unit) result" where
  "hex_to_bytes N hex = built (hex_to_bytes_loop (split_whitespace hex)) (HeaplessVec_new N 0)"

definition hex_digit :: "nat \<Rightarrow> u8" where
  "hex_digit d = of_nat (if d < 10 then 0x30 + d else 0x37 + d)"

text \<open>\<^verbatim>\<open>{:02X}\<close>: the padding is written as a character of its own.\<close>

definition fmt_02X :: "u8 \<Rightarrow> (HeaplessString, unit, unit) action" where
  "fmt_02X b =
     (if b < 16 then then_do (HeaplessString_write_char 0x30) (\<lambda>_. HeaplessString_write_str [hex_digit (unat b)])
      else HeaplessString_write_str [hex_digit (unat b div 16), hex_digit (unat b mod 16)])"

primrec bytes_to_hex_loop :: "usize \<Rightarrow> bytes \<Rightarrow> (HeaplessString, unit, unit) action" where
  "bytes_to_hex_loop i [] = ret ()"
| "bytes_to_hex_loop i (byte # bytes) =
     then_do (if i > 0 then ignore (HeaplessString_push 0x20) else ret ()) (\<lambda>_.
     then_do (ignore (fmt_02X byte)) (\<lambda>_.
     bytes_to_hex_loop (i + 1) bytes))"

definition bytes_to_hex :: "usize \<Rightarrow> bytes \<Rightarrow> (HeaplessString, unit) result" where
  "bytes_to_hex N bytes = built (bytes_to_hex_loop 0 bytes) (HeaplessString_new N)"

section \<open>The text of a byte\<close>

definition hexpair :: "u8 \<Rightarrow> bytes" where
  "hexpair b = [hex_digit (unat b div 16), hex_digit (unat b mod 16)]"

lemma below_16: "(d :: nat) < 16 \<Longrightarrow> d \<in> {0, 1, 2, 3, 4, 5, 6, 7, 8, 9, 10, 11, 12, 13, 14, 15}"
  by simp arith

lemma hex_value_digit: "d < 16 \<Longrightarrow> hex_value (hex_digit d) = Some d"
  by (drule below_16, elim insertE emptyE; simp add: hex_value_def hex_digit_def)

lemma ws_len_digit: "d < 16 \<Longrightarrow> ws_len (hex_digit d # bs) = 0"
  by (rule ws_len_printable; drule below_16, elim insertE emptyE; simp add: hex_digit_def)

lemma nibbles: "unat (b :: u8) div 16 < 16" "unat b mod 16 < 16" "unat b div 16 * 16 + unat b mod 16 = unat b" "unat b < 256"
  using unsigned_less [of b] by (simp_all add: less_mult_imp_div_less)

lemma u8_from_hex_digits:
  assumes "h < 16" "l < 16"
  shows "u8_from_hex [hex_digit h, hex_digit l] = Some (of_nat (h * 16 + l))"
proof -
  have "hex_digit h \<noteq> 0x2B" using below_16 [OF assms(1)] by (auto simp: hex_digit_def)
  then show ?thesis using assms by (simp add: u8_from_hex_def hex_value_digit Let_def)
qed

lemma u8_from_hex_pair: "u8_from_hex (hexpair b) = Some b"
  unfolding hexpair_def u8_from_hex_digits [OF nibbles(1,2)] nibbles(3) by simp

section \<open>Writing\<close>

definition joined :: "bytes \<Rightarrow> bytes" where
  "joined bs = concat (map (\<lambda>b. 0x20 # hexpair b) bs)"

lemma fmt_02X_writes:
  assumes "str_wf s" "length (HeaplessString_bytes s) + 2 \<le> HeaplessString_capacity s"
  shows "\<exists>s'. ignore (fmt_02X b) s = (Ok (), s') \<and> str_wf s' \<and> HeaplessString_bytes s' = HeaplessString_bytes s @ hexpair b \<and>
    HeaplessString_capacity s' = HeaplessString_capacity s"
proof (cases "b < 16")
  case True
  then have n: "unat b div 16 = 0" "unat b mod 16 = unat b" by (simp_all add: word_less_nat_alt)
  from HeaplessString_write_str_eq [OF assms(1), of "encode_utf8 0x30"] assms(2) obtain s1 where
    s1: "HeaplessString_write_char 0x30 s = (Ok (), s1)" "str_wf s1" "HeaplessString_bytes s1 = HeaplessString_bytes s @ [0x30]"
      "HeaplessString_capacity s1 = HeaplessString_capacity s"
    by (auto simp: HeaplessString_write_char_def encode_utf8_def)
  from HeaplessString_write_str_eq [OF s1(2), of "[hex_digit (unat b)]"] assms(2) s1(3,4) obtain s2 where
    "HeaplessString_write_str [hex_digit (unat b)] s1 = (Ok (), s2)" "str_wf s2"
      "HeaplessString_bytes s2 = HeaplessString_bytes s @ [0x30, hex_digit (unat b)]"
      "HeaplessString_capacity s2 = HeaplessString_capacity s" by auto
  with s1(1) True show ?thesis by (simp add: ignore_def fmt_02X_def then_do_cases(1) hexpair_def n hex_digit_def [of 0])
next
  case False
  with HeaplessString_write_str_eq [OF assms(1), of "hexpair b"] assms(2) show ?thesis
    by (auto simp: ignore_def fmt_02X_def hexpair_def)
qed

lemma bytes_to_hex_loop_writes:
  assumes "str_wf s" "0 < i" "length (HeaplessString_bytes s) + 3 * length bs \<le> HeaplessString_capacity s"
  shows "\<exists>s'. bytes_to_hex_loop i bs s = (Ok (), s') \<and> str_wf s' \<and> HeaplessString_bytes s' = HeaplessString_bytes s @ joined bs"
  using assms
proof (induction bs arbitrary: i s)
  case (Cons b bs)
  have "unat (slength s) + len_utf8 0x20 \<le> length (sdata s)"
    using Cons.prems by (simp add: length_HeaplessString_bytes HeaplessString_capacity_def len_utf8_def)
  moreover from HeaplessString_append_eq [OF Cons.prems(1), of "[0x20]"] Cons.prems(3) obtain s1 where
    s1: "HeaplessString_append [0x20] s = (Ok () :: (unit, PushError) result, s1)" "str_wf s1"
      "HeaplessString_bytes s1 = HeaplessString_bytes s @ [0x20]" "HeaplessString_capacity s1 = HeaplessString_capacity s" by auto
  ultimately have p: "ignore (HeaplessString_push 0x20) s = (Ok (), s1)"
    by (simp add: ignore_def HeaplessString_push_def encode_utf8_def)
  from fmt_02X_writes [OF s1(2), of b] Cons.prems(3) s1(3,4) obtain s2 where
    s2: "ignore (fmt_02X b) s1 = (Ok (), s2)" "str_wf s2" "HeaplessString_bytes s2 = HeaplessString_bytes s @ 0x20 # hexpair b"
      "HeaplessString_capacity s2 = HeaplessString_capacity s" by auto
  from Cons.IH [OF s2(2), of "i + 1"] Cons.prems(3) s2(3,4) obtain s' where
    "bytes_to_hex_loop (i + 1) bs s2 = (Ok (), s')" "str_wf s'"
      "HeaplessString_bytes s' = HeaplessString_bytes s @ joined (b # bs)" by (auto simp: joined_def hexpair_def)
  then show ?case using p s2(1) Cons.prems(2) by (simp add: then_do_cases(1))
qed (simp add: joined_def)

lemma bytes_to_hex_text:
  assumes "N < 2 ^ 8" "3 * length bs \<le> N + 1"
  shows "\<exists>s. bytes_to_hex N bs = Ok s \<and> str_wf s \<and> HeaplessString_bytes s = tl (joined bs)"
proof (cases bs)
  case Nil
  then show ?thesis using HeaplessString_new_wf [OF assms(1)] by (simp add: bytes_to_hex_def built_def joined_def)
next
  case (Cons b bs')
  note new = HeaplessString_new_wf [OF assms(1)]
  from fmt_02X_writes [OF new(1), of b] new(2,3) assms(2) Cons obtain s1 where
    s1: "ignore (fmt_02X b) (HeaplessString_new N) = (Ok (), s1)" "str_wf s1" "HeaplessString_bytes s1 = hexpair b"
      "HeaplessString_capacity s1 = N" by auto
  from bytes_to_hex_loop_writes [OF s1(2), of 1 bs'] assms(2) Cons s1(3,4) obtain s' where
    "bytes_to_hex_loop 1 bs' s1 = (Ok (), s')" "str_wf s'" "HeaplessString_bytes s' = hexpair b @ joined bs'"
    by (auto simp: hexpair_def)
  then show ?thesis using s1(1) Cons by (simp add: bytes_to_hex_def built_def then_do_cases(1) joined_def)
qed

section \<open>Reading\<close>

lemma split_digits:
  "d < 16 \<Longrightarrow> split_whitespace_loop w (hex_digit d # bs) = split_whitespace_loop (w @ [hex_digit d]) bs"
  by (simp only: split_whitespace_loop.simps ws_len_digit refl if_True)

lemma split_pair: "split_whitespace_loop [] (hexpair b @ bs) = split_whitespace_loop (hexpair b) bs"
  using nibbles(1,2) [of b] by (simp add: hexpair_def split_digits del: split_whitespace_loop.simps)

lemma split_blank: "split_whitespace_loop w (0x20 # bs) = (if w = [] then [] else [w]) @ split_whitespace_loop [] bs"
  by (simp add: split_whitespace_loop.simps(2))

lemma split_joined: "w \<noteq> [] \<Longrightarrow> split_whitespace_loop w (joined bs) = w # map hexpair bs"
proof (induction bs arbitrary: w)
  case (Cons b bs)
  have "hexpair b \<noteq> []" by (simp add: hexpair_def)
  from Cons.IH [OF this] Cons.prems show ?case
    by (simp add: joined_def split_blank split_pair del: split_whitespace_loop.simps)
qed (simp add: joined_def)

lemma split_text: "split_whitespace (tl (joined bs)) = map hexpair bs"
proof (cases bs)
  case (Cons b bs')
  have "hexpair b \<noteq> []" by (simp add: hexpair_def)
  then have "split_whitespace_loop [] (hexpair b @ joined bs') = map hexpair bs"
    unfolding split_pair by (simp add: split_joined Cons)
  then show ?thesis by (simp add: split_whitespace_def joined_def Cons)
qed (simp add: split_whitespace_def joined_def)

lemma as_slice_within: "vec_wf v \<Longrightarrow> length (HeaplessVec_as_slice v) \<le> HeaplessVec_capacity v"
  by (simp add: vec_wf_def length_as_slice HeaplessVec_capacity_def)

lemma hex_to_bytes_loop_reads:
  assumes "vec_wf v"
  shows "\<exists>v'. hex_to_bytes_loop (map hexpair bs) v = (Ok (), v') \<and>
    HeaplessVec_as_slice v' = take (HeaplessVec_capacity v) (HeaplessVec_as_slice v @ bs)"
  using assms
proof (induction bs arbitrary: v)
  case Nil
  then show ?case by (simp add: as_slice_within)
next
  case (Cons b bs)
  show ?case
  proof (cases "length (HeaplessVec_as_slice v) < HeaplessVec_capacity v")
    case True
    from HeaplessVec_push_room [OF Cons.prems True, of b] obtain v1 where
      v1: "HeaplessVec_push b v = (Ok (), v1)" "vec_wf v1" "HeaplessVec_as_slice v1 = HeaplessVec_as_slice v @ [b]"
        "HeaplessVec_capacity v1 = HeaplessVec_capacity v" by blast
    with Cons.IH [OF v1(2)] show ?thesis by (simp add: u8_from_hex_pair ignore_def then_do_cases(1))
  next
    case False
    then have full: "length (HeaplessVec_as_slice v) = HeaplessVec_capacity v" using as_slice_within [OF Cons.prems] by simp
    from Cons.IH [OF Cons.prems] HeaplessVec_push_full [OF Cons.prems full, of b] full show ?thesis
      by (simp add: u8_from_hex_pair ignore_def then_do_cases(1))
  qed
qed

text \<open>
  The hexadecimal helpers are inverse to each other: the text that \<^verbatim>\<open>bytes_to_hex\<close> writes into a string with room for it is read back
  by \<^verbatim>\<open>hex_to_bytes\<close> as the same bytes, up to the capacity of the vector.
\<close>

theorem hex_round_trip:
  assumes "N < 2 ^ 8" "3 * length bs \<le> N + 1" "M < 2 ^ 16"
  shows "\<exists>s v. bytes_to_hex N bs = Ok s \<and> hex_to_bytes M (HeaplessString_bytes s) = Ok v \<and> HeaplessVec_as_slice v = take M bs"
proof -
  from bytes_to_hex_text [OF assms(1,2)] obtain s where s: "bytes_to_hex N bs = Ok s" "HeaplessString_bytes s = tl (joined bs)"
    by blast
  note new = HeaplessVec_new_wf [OF assms(3), of "0 :: u8"]
  from hex_to_bytes_loop_reads [OF new(1), of bs] new(2,3) obtain v where
    "hex_to_bytes_loop (map hexpair bs) (HeaplessVec_new M 0) = (Ok (), v)" "HeaplessVec_as_slice v = take M bs" by auto
  then show ?thesis using s by (simp add: hex_to_bytes_def built_def split_text)
qed

end
