(* ===== verification/Tests_Packets.thy ===== *)
theory Tests_Packets
  imports Hex Texts "HOL-Library.Code_Target_Nat"
begin

text \<open>
  The unit tests of the packets (\<^verbatim>\<open>protocol/packets/*.rs\<close>) except those of the CONNECT packet, each translated into a truth value: the
  conjunction of its assertions, false where the test would panic. Tests of the memory layout are left out.
\<close>

text \<open>
  \<^verbatim>\<open>roundtrip_test\<close> of a packet: the bytes are decoded, the packet is encoded into a buffer of zeros, and the result must
  be the bytes again; \<open>None\<close> if an assertion fails.
\<close>

definition roundtrip_test :: "(bytes \<Rightarrow> ('p, ProtocolError) result) \<Rightarrow> ('p \<Rightarrow> (bytes, usize, ProtocolError) action) \<Rightarrow> usize \<Rightarrow> bytes \<Rightarrow> 'p option" where
  "roundtrip_test decode encode n bytes =
     (case decode bytes of
        Ok packet \<Rightarrow>
          (case encode packet (replicate n 0) of
             (Ok encoded_size, buffer) \<Rightarrow>
               if encoded_size = length bytes \<and> take encoded_size buffer = bytes then Some packet else None
           | _ \<Rightarrow> None)
      | _ \<Rightarrow> None)"

definition passes :: "(bytes \<Rightarrow> 'p option) \<Rightarrow> bytes \<Rightarrow> ('p \<Rightarrow> bool) \<Rightarrow> bool" where
  "passes test bytes assertions = (case test bytes of Some packet \<Rightarrow> assertions packet | None \<Rightarrow> False)"

definition unwrapped :: "'a option \<Rightarrow> ('a \<Rightarrow> bool) \<Rightarrow> bool" where
  "unwrapped x f = (case x of Some a \<Rightarrow> f a | None \<Rightarrow> False)"

text \<open>
  The contract of the codecs replaces the evaluation of the encoder: it is enough to decode the bytes and to compare the wire format
  of the packet with them.
\<close>

context packet_codec
begin

lemma roundtrip_passes:
  assumes "\<And>p. decode bs = Ok p \<Longrightarrow> wf p" "length bs \<le> n" "case decode bs of Ok p \<Rightarrow> wire p = bs \<and> assertions p | _ \<Rightarrow> False"
  shows "passes (roundtrip_test decode encode n) bs assertions"
proof -
  obtain p where p: "decode bs = Ok p" "wire p = bs" "assertions p" using assms(3) by (auto split: result.splits)
  have "encode p (replicate n 0) = (Ok (length bs), put_at (replicate n 0) 0 bs)"
    using encode_fits [OF assms(1) [OF p(1)], of "replicate n 0"] p(2) assms(2) by simp
  then show ?thesis using p by (simp add: passes_def roundtrip_test_def take_put_at_0)
qed

end

text \<open>\<^verbatim>\<open>hex_to_bytes::<MAX_PAYLOAD_SIZE>\<close> with 128 bytes\<close>

definition of_hex :: "string \<Rightarrow> (bytes \<Rightarrow> bool) \<Rightarrow> bool" where
  "of_hex hex f = (case hex_to_bytes 128 (str hex) of Ok v \<Rightarrow> f (HeaplessVec_as_slice v) | _ \<Rightarrow> False)"

lemmas hex_text_defs = str_def joined_def hexpair_def hex_digit_def

lemma of_hexI:
  assumes "str hex = tl (joined bs)" "length bs \<le> 128" "f bs"
  shows "of_hex hex f"
proof -
  note new = HeaplessVec_new_wf [of 128 "0 :: u8"]
  from hex_to_bytes_loop_reads [OF new(1), of bs] new(2,3) assms(2) show ?thesis
    using assms(3) by (auto simp: of_hex_def hex_to_bytes_def built_def assms(1) split_text)
qed

section \<open>\<^verbatim>\<open>publish.rs\<close>\<close>

definition publish_roundtrip_test :: "bytes \<Rightarrow> PublishPacket option" where
  "publish_roundtrip_test = roundtrip_test (PublishPacket_decode 30 100) PublishPacket_encode 256"

definition publish_test_qos0_minimal_packet :: bool where
  "publish_test_qos0_minimal_packet \<longleftrightarrow>
     passes publish_roundtrip_test [0x30, 0x03, 0x00, 0x01, 0x61]
       (\<lambda>packet. HeaplessString_as_str (pub_topic_name packet) = str ''a'' \<and>
         pub_qos packet = AtMostOnce \<and> \<not> pub_dup packet \<and> \<not> pub_retain packet \<and>
         pub_packet_id packet = None \<and> HeaplessVec_len (pub_payload packet) = 0)"

definition publish_test_qos0_with_payload :: bool where
  "publish_test_qos0_with_payload \<longleftrightarrow>
     passes publish_roundtrip_test [0x30, 0x12, 0x00, 0x0B, 0x73, 0x65, 0x6E, 0x73, 0x6F, 0x72, 0x2F, 0x74, 0x65, 0x6D,
       0x70, 0x68, 0x65, 0x6C, 0x6C, 0x6F]
       (\<lambda>packet. HeaplessString_as_str (pub_topic_name packet) = str ''sensor/temp'' \<and>
         pub_qos packet = AtMostOnce \<and> HeaplessVec_as_slice (pub_payload packet) = str ''hello'')"

definition publish_test_qos1_with_packet_id :: bool where
  "publish_test_qos1_with_packet_id \<longleftrightarrow>
     passes publish_roundtrip_test [0x32, 0x05, 0x00, 0x01, 0x61, 0x00, 0x01]
       (\<lambda>packet. HeaplessString_as_str (pub_topic_name packet) = str ''a'' \<and>
         pub_qos packet = AtLeastOnce \<and> pub_packet_id packet = Some 1 \<and> HeaplessVec_len (pub_payload packet) = 0)"

definition publish_test_qos2_with_packet_id :: bool where
  "publish_test_qos2_with_packet_id \<longleftrightarrow>
     passes publish_roundtrip_test [0x34, 0x05, 0x00, 0x01, 0x61, 0xFF, 0xFF]
       (\<lambda>packet. HeaplessString_as_str (pub_topic_name packet) = str ''a'' \<and>
         pub_qos packet = ExactlyOnce \<and> pub_packet_id packet = Some 65535)"

definition publish_test_dup_flag :: bool where
  "publish_test_dup_flag \<longleftrightarrow>
     passes publish_roundtrip_test [0x38, 0x03, 0x00, 0x01, 0x61]
       (\<lambda>packet. pub_dup packet)"

definition publish_test_retain_flag :: bool where
  "publish_test_retain_flag \<longleftrightarrow>
     passes publish_roundtrip_test [0x31, 0x03, 0x00, 0x01, 0x61]
       (\<lambda>packet. pub_retain packet)"

definition publish_test_dup_and_retain_flags :: bool where
  "publish_test_dup_and_retain_flags \<longleftrightarrow>
     passes publish_roundtrip_test [0x3B, 0x05, 0x00, 0x01, 0x61, 0x00, 0x01]
       (\<lambda>packet. pub_dup packet \<and> pub_retain packet \<and> pub_qos packet = AtLeastOnce)"

definition publish_test_topic_simple :: bool where
  "publish_test_topic_simple \<longleftrightarrow>
     passes publish_roundtrip_test [0x30, 0x0E, 0x00, 0x0C, 0x73, 0x65, 0x6E, 0x73, 0x6F, 0x72, 0x73, 0x2F, 0x74, 0x65,
       0x6D, 0x70]
       (\<lambda>packet. HeaplessString_as_str (pub_topic_name packet) = str ''sensors/temp'')"

definition publish_test_topic_multi_level :: bool where
  "publish_test_topic_multi_level \<longleftrightarrow>
     passes publish_roundtrip_test [0x30, 0x17, 0x00, 0x15, 0x68, 0x6F, 0x6D, 0x65, 0x2F, 0x6C, 0x69, 0x76, 0x69, 0x6E,
       0x67, 0x72, 0x6F, 0x6F, 0x6D, 0x2F, 0x6C, 0x69, 0x67, 0x68, 0x74]
       (\<lambda>packet. HeaplessString_as_str (pub_topic_name packet) = str ''home/livingroom/light'')"

definition publish_test_topic_unicode :: bool where
  "publish_test_topic_unicode \<longleftrightarrow>
     passes publish_roundtrip_test [0x30, 0x08, 0x00, 0x06, 0xC3, 0xB1, 0xC3, 0xA1, 0xC3, 0xA9]
       (\<lambda>packet. HeaplessString_as_str (pub_topic_name packet) = [0xC3, 0xB1, 0xC3, 0xA1, 0xC3, 0xA9])"

definition publish_test_packet_id_one :: bool where
  "publish_test_packet_id_one \<longleftrightarrow>
     passes publish_roundtrip_test [0x32, 0x05, 0x00, 0x01, 0x61, 0x00, 0x01]
       (\<lambda>packet. pub_packet_id packet = Some 1)"

definition publish_test_packet_id_max :: bool where
  "publish_test_packet_id_max \<longleftrightarrow>
     passes publish_roundtrip_test [0x32, 0x05, 0x00, 0x01, 0x61, 0xFF, 0xFF]
       (\<lambda>packet. pub_packet_id packet = Some 65535)"

definition publish_test_payload_empty :: bool where
  "publish_test_payload_empty \<longleftrightarrow>
     passes publish_roundtrip_test [0x30, 0x03, 0x00, 0x01, 0x61]
       (\<lambda>packet. HeaplessVec_len (pub_payload packet) = 0)"

definition publish_test_payload_small :: bool where
  "publish_test_payload_small \<longleftrightarrow>
     passes publish_roundtrip_test (take 10 (put_at (replicate 256 0) 0 [0x30, 0x08, 0x00, 0x01, 0x61, 0x68, 0x65, 0x6C,
       0x6C, 0x6F])) (\<lambda>packet. HeaplessVec_as_slice (pub_payload packet) = str ''hello'')"

definition publish_test_payload_binary :: bool where
  "publish_test_payload_binary \<longleftrightarrow>
     passes publish_roundtrip_test [0x30, 0x08, 0x00, 0x01, 0x61, 0x00, 0x01, 0x02, 0xFF, 0xFE]
       (\<lambda>packet. HeaplessVec_as_slice (pub_payload packet) = [0x00, 0x01, 0x02, 0xFF, 0xFE])"

definition publish_test_example_a :: bool where
  "publish_test_example_a \<longleftrightarrow>
     passes publish_roundtrip_test [0x30, 0x08, 0x00, 0x04, 0x74, 0x65, 0x73, 0x74, 0x68, 0x69]
       (\<lambda>packet. \<not> pub_dup packet \<and> pub_qos packet = AtMostOnce \<and> \<not> pub_retain packet \<and>
         HeaplessString_as_str (pub_topic_name packet) = str ''test'' \<and>
         HeaplessVec_as_slice (pub_payload packet) = str ''hi'')"

definition publish_test_example_b :: bool where
  "publish_test_example_b \<longleftrightarrow>
     passes publish_roundtrip_test [0x32, 0x14, 0x00, 0x0C, 0x73, 0x65, 0x6E, 0x73, 0x6F, 0x72, 0x73, 0x2F, 0x74, 0x65,
       0x6D, 0x70, 0x00, 0x0A, 0x32, 0x32, 0x2E, 0x35]
       (\<lambda>packet. pub_qos packet = AtLeastOnce \<and>
         HeaplessString_as_str (pub_topic_name packet) = str ''sensors/temp'' \<and>
         pub_packet_id packet = Some 0x000A \<and> HeaplessVec_as_slice (pub_payload packet) = str ''22.5'')"

definition publish_test_example_c :: bool where
  "publish_test_example_c \<longleftrightarrow>
     passes publish_roundtrip_test [0x35, 0x08, 0x00, 0x03, 0x61, 0x2F, 0x62, 0x12, 0x34, 0x58]
       (\<lambda>packet. pub_qos packet = ExactlyOnce \<and> pub_retain packet \<and>
         HeaplessString_as_str (pub_topic_name packet) = str ''a/b'' \<and> pub_packet_id packet = Some 0x1234 \<and>
         HeaplessVec_as_slice (pub_payload packet) = str ''X'')"

definition publish_test_example_d :: bool where
  "publish_test_example_d \<longleftrightarrow>
     passes publish_roundtrip_test [0x3A, 0x05, 0x00, 0x01, 0x74, 0x00, 0x01]
       (\<lambda>packet. pub_qos packet = AtLeastOnce \<and> pub_dup packet \<and>
         HeaplessString_as_str (pub_topic_name packet) = str ''t'' \<and> pub_packet_id packet = Some 0x0001 \<and>
         HeaplessVec_as_slice (pub_payload packet) = [])"

section \<open>\<^verbatim>\<open>subscribe.rs\<close>\<close>

definition subscribe_roundtrip_test :: "bytes \<Rightarrow> SubscribePacket option" where
  "subscribe_roundtrip_test = roundtrip_test (SubscribePacket_decode 30) SubscribePacket_encode 128"

definition subscribe_test_packet_id_one :: bool where
  "subscribe_test_packet_id_one \<longleftrightarrow>
     passes subscribe_roundtrip_test [0x82, 0x06, 0x00, 0x01, 0x00, 0x01, 0x61, 0x00]
       (\<lambda>packet. sub_packet_id packet = 1)"

definition subscribe_test_packet_id_max :: bool where
  "subscribe_test_packet_id_max \<longleftrightarrow>
     passes subscribe_roundtrip_test [0x82, 0x06, 0xFF, 0xFF, 0x00, 0x01, 0x61, 0x01]
       (\<lambda>packet. sub_packet_id packet = 65535)"

definition subscribe_test_topic_filter_simple :: bool where
  "subscribe_test_topic_filter_simple \<longleftrightarrow>
     passes subscribe_roundtrip_test [0x82, 0x11, 0x00, 0x01, 0x00, 0x0C, 0x73, 0x65, 0x6E, 0x73, 0x6F, 0x72, 0x73, 0x2F,
       0x74, 0x65, 0x6D, 0x70, 0x00]
       (\<lambda>packet. HeaplessString_as_str (sub_topic_filter packet) = str ''sensors/temp'')"

definition subscribe_test_topic_filter_multi_level :: bool where
  "subscribe_test_topic_filter_multi_level \<longleftrightarrow>
     passes subscribe_roundtrip_test [0x82, 0x1A, 0x00, 0x01, 0x00, 0x15, 0x68, 0x6F, 0x6D, 0x65, 0x2F, 0x6C, 0x69, 0x76,
       0x69, 0x6E, 0x67, 0x72, 0x6F, 0x6F, 0x6D, 0x2F, 0x6C, 0x69, 0x67, 0x68, 0x74, 0x01]
       (\<lambda>packet. HeaplessString_as_str (sub_topic_filter packet) = str ''home/livingroom/light'')"

definition subscribe_test_topic_filter_with_wildcards :: bool where
  "subscribe_test_topic_filter_with_wildcards \<longleftrightarrow>
     passes subscribe_roundtrip_test [0x82, 0x13, 0x00, 0x01, 0x00, 0x0E, 0x73, 0x65, 0x6E, 0x73, 0x6F, 0x72, 0x73, 0x2F,
       0x2B, 0x2F, 0x74, 0x65, 0x6D, 0x70, 0x00]
       (\<lambda>packet. HeaplessString_as_str (sub_topic_filter packet) = str ''sensors/+/temp'') \<and>
     passes subscribe_roundtrip_test [0x82, 0x0E, 0x00, 0x01, 0x00, 0x09, 0x73, 0x65, 0x6E, 0x73, 0x6F, 0x72, 0x73, 0x2F,
       0x23, 0x01]
       (\<lambda>packet. HeaplessString_as_str (sub_topic_filter packet) = str ''sensors/#'')"

definition subscribe_test_topic_filter_single_char :: bool where
  "subscribe_test_topic_filter_single_char \<longleftrightarrow>
     passes subscribe_roundtrip_test [0x82, 0x06, 0x00, 0x01, 0x00, 0x01, 0x61, 0x00]
       (\<lambda>packet. HeaplessString_as_str (sub_topic_filter packet) = str ''a'') \<and>
     passes subscribe_roundtrip_test [0x82, 0x06, 0x00, 0x01, 0x00, 0x01, 0x23, 0x02]
       (\<lambda>packet. HeaplessString_as_str (sub_topic_filter packet) = str ''#'') \<and>
     passes subscribe_roundtrip_test [0x82, 0x06, 0x00, 0x01, 0x00, 0x01, 0x2B, 0x01]
       (\<lambda>packet. HeaplessString_as_str (sub_topic_filter packet) = str ''+'')"

definition subscribe_test_topic_filter_unicode :: bool where
  "subscribe_test_topic_filter_unicode \<longleftrightarrow>
     passes subscribe_roundtrip_test [0x82, 0x0B, 0x00, 0x01, 0x00, 0x06, 0xC3, 0xB1, 0xC3, 0xA1, 0xC3, 0xA9, 0x00]
       (\<lambda>packet. HeaplessString_as_str (sub_topic_filter packet) = [0xC3, 0xB1, 0xC3, 0xA1, 0xC3, 0xA9])"

definition subscribe_test_topic_filter_special_mqtt_chars :: bool where
  "subscribe_test_topic_filter_special_mqtt_chars \<longleftrightarrow>
     passes subscribe_roundtrip_test [0x82, 0x0B, 0x00, 0x01, 0x00, 0x06, 0x61, 0x2F, 0x62, 0x2B, 0x2F, 0x63, 0x02]
       (\<lambda>packet. HeaplessString_as_str (sub_topic_filter packet) = str ''a/b+/c'')"

definition subscribe_test_topic_filter_exactly_max_length :: bool where
  "subscribe_test_topic_filter_exactly_max_length \<longleftrightarrow>
     passes subscribe_roundtrip_test ([0x82, 0x23, 0x00, 0x01, 0x00,
       30] @ str ''123456789012345678901234567890'' @ [0x00]) (\<lambda>packet. HeaplessString_len (sub_topic_filter packet) = 30)"

definition subscribe_test_requested_qos_0 :: bool where
  "subscribe_test_requested_qos_0 \<longleftrightarrow>
     passes subscribe_roundtrip_test [0x82, 0x06, 0x00, 0x01, 0x00, 0x01, 0x61, 0x00]
       (\<lambda>packet. sub_requested_qos packet = AtMostOnce)"

definition subscribe_test_requested_qos_1 :: bool where
  "subscribe_test_requested_qos_1 \<longleftrightarrow>
     passes subscribe_roundtrip_test [0x82, 0x06, 0x00, 0x01, 0x00, 0x01, 0x61, 0x01]
       (\<lambda>packet. sub_requested_qos packet = AtLeastOnce)"

definition subscribe_test_requested_qos_2 :: bool where
  "subscribe_test_requested_qos_2 \<longleftrightarrow>
     passes subscribe_roundtrip_test [0x82, 0x06, 0x00, 0x01, 0x00, 0x01, 0x61, 0x02]
       (\<lambda>packet. sub_requested_qos packet = ExactlyOnce)"

definition subscribe_test_roundtrip_minimal_packet_qos0 :: bool where
  "subscribe_test_roundtrip_minimal_packet_qos0 \<longleftrightarrow>
     passes subscribe_roundtrip_test [0x82, 0x06, 0x00, 0x01, 0x00, 0x01, 0x61, 0x00]
       (\<lambda>packet. sub_packet_id packet = 1 \<and> HeaplessString_as_str (sub_topic_filter packet) = str ''a'' \<and>
         sub_requested_qos packet = AtMostOnce)"

definition subscribe_test_roundtrip_normal_packet_qos1 :: bool where
  "subscribe_test_roundtrip_normal_packet_qos1 \<longleftrightarrow>
     passes subscribe_roundtrip_test [0x82, 0x11, 0x12, 0x34, 0x00, 0x0C, 0x73, 0x65, 0x6E, 0x73, 0x6F, 0x72, 0x73, 0x2F,
       0x74, 0x65, 0x6D, 0x70, 0x01]
       (\<lambda>packet. sub_packet_id packet = 0x1234 \<and>
         HeaplessString_as_str (sub_topic_filter packet) = str ''sensors/temp'' \<and> sub_requested_qos packet = AtLeastOnce)"

definition subscribe_test_roundtrip_max_packet_id_qos2 :: bool where
  "subscribe_test_roundtrip_max_packet_id_qos2 \<longleftrightarrow>
     passes subscribe_roundtrip_test [0x82, 0x11, 0xFF, 0xFF, 0x00, 0x0C, 0x73, 0x65, 0x6E, 0x73, 0x6F, 0x72, 0x73, 0x2F,
       0x74, 0x65, 0x6D, 0x70, 0x02]
       (\<lambda>packet. sub_packet_id packet = 65535 \<and>
         HeaplessString_as_str (sub_topic_filter packet) = str ''sensors/temp'' \<and> sub_requested_qos packet = ExactlyOnce)"

definition subscribe_test_roundtrip_unicode_packet :: bool where
  "subscribe_test_roundtrip_unicode_packet \<longleftrightarrow>
     passes subscribe_roundtrip_test [0x82, 0x0B, 0x00, 0x64, 0x00, 0x06, 0xC3, 0xB1, 0xC3, 0xA1, 0xC3, 0xA9, 0x00]
       (\<lambda>packet. sub_packet_id packet = 100 \<and> HeaplessString_as_str (sub_topic_filter packet) = [0xC3, 0xB1,
         0xC3, 0xA1, 0xC3, 0xA9] \<and> sub_requested_qos packet = AtMostOnce)"

definition subscribe_test_roundtrip_wildcard_packet_qos2 :: bool where
  "subscribe_test_roundtrip_wildcard_packet_qos2 \<longleftrightarrow>
     passes subscribe_roundtrip_test [0x82, 0x0E, 0x01, 0xF4, 0x00, 0x09, 0x73, 0x65, 0x6E, 0x73, 0x6F, 0x72, 0x73, 0x2F,
       0x23, 0x02]
       (\<lambda>packet. sub_packet_id packet = 500 \<and>
         HeaplessString_as_str (sub_topic_filter packet) = str ''sensors/#'' \<and> sub_requested_qos packet = ExactlyOnce)"

definition subscribe_test_roundtrip_complex_topic_qos1 :: bool where
  "subscribe_test_roundtrip_complex_topic_qos1 \<longleftrightarrow>
     passes subscribe_roundtrip_test [0x82, 0x13, 0x03, 0xE8, 0x00, 0x0E, 0x73, 0x65, 0x6E, 0x73, 0x6F, 0x72, 0x73, 0x2F,
       0x2B, 0x2F, 0x74, 0x65, 0x6D, 0x70, 0x01]
       (\<lambda>packet. sub_packet_id packet = 1000 \<and>
         HeaplessString_as_str (sub_topic_filter packet) = str ''sensors/+/temp'' \<and> sub_requested_qos packet = AtLeastOnce)"

definition subscribe_test_example_a :: bool where
  "subscribe_test_example_a \<longleftrightarrow>
     passes subscribe_roundtrip_test [0x82, 0x0F, 0x00, 0x01, 0x00, 0x0A, 0x74, 0x65, 0x73, 0x74, 0x2F, 0x74, 0x6F, 0x70,
       0x69, 0x63, 0x00]
       (\<lambda>packet. sub_packet_id packet = 1 \<and>
         HeaplessString_as_str (sub_topic_filter packet) = str ''test/topic'' \<and> sub_requested_qos packet = AtMostOnce)"

section \<open>\<^verbatim>\<open>unsubscribe.rs\<close>\<close>

definition unsubscribe_roundtrip_test :: "bytes \<Rightarrow> UnsubscribePacket option" where
  "unsubscribe_roundtrip_test = roundtrip_test (UnsubscribePacket_decode 30) UnsubscribePacket_encode 128"

definition unsubscribe_test_packet_id_one :: bool where
  "unsubscribe_test_packet_id_one \<longleftrightarrow>
     passes unsubscribe_roundtrip_test [0xA2, 0x05, 0x00, 0x01, 0x00, 0x01, 0x61]
       (\<lambda>packet. unsub_packet_id packet = 1)"

definition unsubscribe_test_packet_id_max :: bool where
  "unsubscribe_test_packet_id_max \<longleftrightarrow>
     passes unsubscribe_roundtrip_test [0xA2, 0x05, 0xFF, 0xFF, 0x00, 0x01, 0x61]
       (\<lambda>packet. unsub_packet_id packet = 65535)"

definition unsubscribe_test_topic_filter_simple :: bool where
  "unsubscribe_test_topic_filter_simple \<longleftrightarrow>
     passes unsubscribe_roundtrip_test [0xA2, 0x10, 0x00, 0x01, 0x00, 0x0C, 0x73, 0x65, 0x6E, 0x73, 0x6F, 0x72, 0x73, 0x2F,
       0x74, 0x65, 0x6D, 0x70]
       (\<lambda>packet. HeaplessString_as_str (unsub_topic_filter packet) = str ''sensors/temp'')"

definition unsubscribe_test_topic_filter_multi_level :: bool where
  "unsubscribe_test_topic_filter_multi_level \<longleftrightarrow>
     passes unsubscribe_roundtrip_test [0xA2, 0x19, 0x00, 0x01, 0x00, 0x15, 0x68, 0x6F, 0x6D, 0x65, 0x2F, 0x6C, 0x69, 0x76,
       0x69, 0x6E, 0x67, 0x72, 0x6F, 0x6F, 0x6D, 0x2F, 0x6C, 0x69, 0x67, 0x68, 0x74]
       (\<lambda>packet. HeaplessString_as_str (unsub_topic_filter packet) = str ''home/livingroom/light'')"

definition unsubscribe_test_topic_filter_with_wildcards :: bool where
  "unsubscribe_test_topic_filter_with_wildcards \<longleftrightarrow>
     passes unsubscribe_roundtrip_test [0xA2, 0x12, 0x00, 0x01, 0x00, 0x0E, 0x73, 0x65, 0x6E, 0x73, 0x6F, 0x72, 0x73, 0x2F,
       0x2B, 0x2F, 0x74, 0x65, 0x6D, 0x70]
       (\<lambda>packet. HeaplessString_as_str (unsub_topic_filter packet) = str ''sensors/+/temp'') \<and>
     passes unsubscribe_roundtrip_test [0xA2, 0x0D, 0x00, 0x01, 0x00, 0x09, 0x73, 0x65, 0x6E, 0x73, 0x6F, 0x72, 0x73, 0x2F, 0x23]
       (\<lambda>packet. HeaplessString_as_str (unsub_topic_filter packet) = str ''sensors/#'')"

definition unsubscribe_test_topic_filter_single_char :: bool where
  "unsubscribe_test_topic_filter_single_char \<longleftrightarrow>
     passes unsubscribe_roundtrip_test [0xA2, 0x05, 0x00, 0x01, 0x00, 0x01, 0x61]
       (\<lambda>packet. HeaplessString_as_str (unsub_topic_filter packet) = str ''a'') \<and>
     passes unsubscribe_roundtrip_test [0xA2, 0x05, 0x00, 0x01, 0x00, 0x01, 0x23]
       (\<lambda>packet. HeaplessString_as_str (unsub_topic_filter packet) = str ''#'') \<and>
     passes unsubscribe_roundtrip_test [0xA2, 0x05, 0x00, 0x01, 0x00, 0x01, 0x2B]
       (\<lambda>packet. HeaplessString_as_str (unsub_topic_filter packet) = str ''+'')"

definition unsubscribe_test_topic_filter_unicode :: bool where
  "unsubscribe_test_topic_filter_unicode \<longleftrightarrow>
     passes unsubscribe_roundtrip_test [0xA2, 0x0A, 0x00, 0x01, 0x00, 0x06, 0xC3, 0xB1, 0xC3, 0xA1, 0xC3, 0xA9]
       (\<lambda>packet. HeaplessString_as_str (unsub_topic_filter packet) = [0xC3, 0xB1, 0xC3, 0xA1, 0xC3, 0xA9])"

definition unsubscribe_test_topic_filter_special_mqtt_chars :: bool where
  "unsubscribe_test_topic_filter_special_mqtt_chars \<longleftrightarrow>
     passes unsubscribe_roundtrip_test [0xA2, 0x0A, 0x00, 0x01, 0x00, 0x06, 0x61, 0x2F, 0x62, 0x2B, 0x2F, 0x63]
       (\<lambda>packet. HeaplessString_as_str (unsub_topic_filter packet) = str ''a/b+/c'')"

definition unsubscribe_test_topic_filter_exactly_max_length :: bool where
  "unsubscribe_test_topic_filter_exactly_max_length \<longleftrightarrow>
     passes unsubscribe_roundtrip_test ([0xA2, 0x22, 0x00, 0x01, 0x00,
       30] @ str ''123456789012345678901234567890'') (\<lambda>packet. HeaplessString_len (unsub_topic_filter packet) = 30)"

definition unsubscribe_test_roundtrip_minimal_packet :: bool where
  "unsubscribe_test_roundtrip_minimal_packet \<longleftrightarrow>
     passes unsubscribe_roundtrip_test [0xA2, 0x05, 0x00, 0x01, 0x00, 0x01, 0x61]
       (\<lambda>packet. unsub_packet_id packet = 1 \<and> HeaplessString_as_str (unsub_topic_filter packet) = str ''a'')"

definition unsubscribe_test_roundtrip_normal_packet :: bool where
  "unsubscribe_test_roundtrip_normal_packet \<longleftrightarrow>
     passes unsubscribe_roundtrip_test [0xA2, 0x10, 0x12, 0x34, 0x00, 0x0C, 0x73, 0x65, 0x6E, 0x73, 0x6F, 0x72, 0x73, 0x2F,
       0x74, 0x65, 0x6D, 0x70]
       (\<lambda>packet. unsub_packet_id packet = 0x1234 \<and>
         HeaplessString_as_str (unsub_topic_filter packet) = str ''sensors/temp'')"

definition unsubscribe_test_roundtrip_max_packet_id :: bool where
  "unsubscribe_test_roundtrip_max_packet_id \<longleftrightarrow>
     passes unsubscribe_roundtrip_test [0xA2, 0x10, 0xFF, 0xFF, 0x00, 0x0C, 0x73, 0x65, 0x6E, 0x73, 0x6F, 0x72, 0x73, 0x2F,
       0x74, 0x65, 0x6D, 0x70]
       (\<lambda>packet. unsub_packet_id packet = 65535 \<and>
         HeaplessString_as_str (unsub_topic_filter packet) = str ''sensors/temp'')"

definition unsubscribe_test_roundtrip_unicode_packet :: bool where
  "unsubscribe_test_roundtrip_unicode_packet \<longleftrightarrow>
     passes unsubscribe_roundtrip_test [0xA2, 0x0A, 0x00, 0x64, 0x00, 0x06, 0xC3, 0xB1, 0xC3, 0xA1, 0xC3, 0xA9]
       (\<lambda>packet. unsub_packet_id packet = 100 \<and> HeaplessString_as_str (unsub_topic_filter packet) = [0xC3,
         0xB1, 0xC3, 0xA1, 0xC3, 0xA9])"

definition unsubscribe_test_roundtrip_wildcard_packet :: bool where
  "unsubscribe_test_roundtrip_wildcard_packet \<longleftrightarrow>
     passes unsubscribe_roundtrip_test [0xA2, 0x0D, 0x01, 0xF4, 0x00, 0x09, 0x73, 0x65, 0x6E, 0x73, 0x6F, 0x72, 0x73, 0x2F, 0x23]
       (\<lambda>packet. unsub_packet_id packet = 500 \<and>
         HeaplessString_as_str (unsub_topic_filter packet) = str ''sensors/#'')"

section \<open>\<^verbatim>\<open>suback.rs\<close>\<close>

definition suback_roundtrip_test :: "bytes \<Rightarrow> SubAckPacket option" where
  "suback_roundtrip_test = roundtrip_test (SubAckPacket_decode) SubAckPacket_encode 128"

definition suback_test_packet_id_zero :: bool where
  "suback_test_packet_id_zero \<longleftrightarrow>
     passes suback_roundtrip_test [0x90, 0x03, 0x00, 0x00, 0x00]
       (\<lambda>packet. suback_packet_id packet = 0)"

definition suback_test_packet_id_one :: bool where
  "suback_test_packet_id_one \<longleftrightarrow>
     passes suback_roundtrip_test [0x90, 0x03, 0x00, 0x01, 0x00]
       (\<lambda>packet. suback_packet_id packet = 1)"

definition suback_test_packet_id_max :: bool where
  "suback_test_packet_id_max \<longleftrightarrow>
     passes suback_roundtrip_test [0x90, 0x03, 0xFF, 0xFF, 0x01]
       (\<lambda>packet. suback_packet_id packet = 65535)"

definition suback_test_granted_qos_0 :: bool where
  "suback_test_granted_qos_0 \<longleftrightarrow>
     passes suback_roundtrip_test [0x90, 0x03, 0x00, 0x01, 0x00]
       (\<lambda>packet. granted_qos packet = AtMostOnce)"

definition suback_test_granted_qos_1 :: bool where
  "suback_test_granted_qos_1 \<longleftrightarrow>
     passes suback_roundtrip_test [0x90, 0x03, 0x00, 0x01, 0x01]
       (\<lambda>packet. granted_qos packet = AtLeastOnce)"

definition suback_test_granted_qos_2 :: bool where
  "suback_test_granted_qos_2 \<longleftrightarrow>
     passes suback_roundtrip_test [0x90, 0x03, 0x00, 0x01, 0x02]
       (\<lambda>packet. granted_qos packet = ExactlyOnce)"

definition suback_test_roundtrip_qos0_packet_id_1 :: bool where
  "suback_test_roundtrip_qos0_packet_id_1 \<longleftrightarrow>
     passes suback_roundtrip_test [0x90, 0x03, 0x00, 0x01, 0x00]
       (\<lambda>packet. suback_packet_id packet = 1 \<and> granted_qos packet = AtMostOnce)"

definition suback_test_roundtrip_qos1_packet_id_1234 :: bool where
  "suback_test_roundtrip_qos1_packet_id_1234 \<longleftrightarrow>
     passes suback_roundtrip_test [0x90, 0x03, 0x12, 0x34, 0x01]
       (\<lambda>packet. suback_packet_id packet = 0x1234 \<and> granted_qos packet = AtLeastOnce)"

definition suback_test_roundtrip_qos2_packet_id_65535 :: bool where
  "suback_test_roundtrip_qos2_packet_id_65535 \<longleftrightarrow>
     passes suback_roundtrip_test [0x90, 0x03, 0xFF, 0xFF, 0x02]
       (\<lambda>packet. suback_packet_id packet = 65535 \<and> granted_qos packet = ExactlyOnce)"

section \<open>\<^verbatim>\<open>connack.rs\<close>\<close>

definition connack_roundtrip_test :: "bytes \<Rightarrow> ConnAckPacket option" where
  "connack_roundtrip_test = roundtrip_test (ConnAckPacket_decode) ConnAckPacket_encode 128"

definition test_connack_packet_roundtrip :: bool where
  "test_connack_packet_roundtrip \<longleftrightarrow>
     passes connack_roundtrip_test [0x20, 0x02, 0x00, 0x00] (\<lambda>packet. \<not> session_present packet) \<and>
     passes connack_roundtrip_test [0x20, 0x02, 0x01, 0x00] (\<lambda>packet. session_present packet) \<and>
     passes connack_roundtrip_test [0x20, 0x02, 0x00, 0x00] (\<lambda>packet. return_code packet = Accepted) \<and>
     passes connack_roundtrip_test [0x20, 0x02, 0x00,
       0x01] (\<lambda>packet. return_code packet = UnacceptableProtocolVersion) \<and>
     passes connack_roundtrip_test [0x20, 0x02, 0x00, 0x02] (\<lambda>packet. return_code packet = IdentifierRejected) \<and>
     passes connack_roundtrip_test [0x20, 0x02, 0x00, 0x03] (\<lambda>packet. return_code packet = ServerUnavailable) \<and>
     passes connack_roundtrip_test [0x20, 0x02, 0x00, 0x04] (\<lambda>packet. return_code packet = BadUserNameOrPassword) \<and>
     passes connack_roundtrip_test [0x20, 0x02, 0x00, 0x05] (\<lambda>packet. return_code packet = NotAuthorized)"

section \<open>\<^verbatim>\<open>puback.rs\<close>\<close>

definition puback_roundtrip_test :: "bytes \<Rightarrow> PubAckPacket option" where
  "puback_roundtrip_test = roundtrip_test (PubAckPacket_decode) PubAckPacket_encode 128"

definition test_puback_packet_roundtrip :: bool where
  "test_puback_packet_roundtrip \<longleftrightarrow>
     passes puback_roundtrip_test [0x40, 0x02, 0x12, 0x34]
       (\<lambda>packet. puback_packet_id packet = 0x1234)"

section \<open>\<^verbatim>\<open>pubrec.rs\<close>\<close>

definition pubrec_roundtrip_test :: "bytes \<Rightarrow> PubRecPacket option" where
  "pubrec_roundtrip_test = roundtrip_test (PubRecPacket_decode) PubRecPacket_encode 128"

definition test_pubrec_packet_roundtrip :: bool where
  "test_pubrec_packet_roundtrip \<longleftrightarrow>
     passes pubrec_roundtrip_test [0x50, 0x02, 0xAB, 0xCD]
       (\<lambda>packet. pubrec_packet_id packet = 0xABCD)"

section \<open>\<^verbatim>\<open>pubrel.rs\<close>\<close>

definition pubrel_roundtrip_test :: "bytes \<Rightarrow> PubRelPacket option" where
  "pubrel_roundtrip_test = roundtrip_test (PubRelPacket_decode) PubRelPacket_encode 128"

definition test_pubrel_packet_roundtrip :: bool where
  "test_pubrel_packet_roundtrip \<longleftrightarrow>
     passes pubrel_roundtrip_test [0x62, 0x02, 0x00, 0x01]
       (\<lambda>packet. pubrel_packet_id packet = 0x0001)"

section \<open>\<^verbatim>\<open>pubcomp.rs\<close>\<close>

definition pubcomp_roundtrip_test :: "bytes \<Rightarrow> PubCompPacket option" where
  "pubcomp_roundtrip_test = roundtrip_test (PubCompPacket_decode) PubCompPacket_encode 128"

definition test_pubcomp_packet_roundtrip :: bool where
  "test_pubcomp_packet_roundtrip \<longleftrightarrow>
     passes pubcomp_roundtrip_test [0x70, 0x02, 0xFF, 0xFF]
       (\<lambda>packet. pubcomp_packet_id packet = 0xFFFF)"

section \<open>\<^verbatim>\<open>unsuback.rs\<close>\<close>

definition unsuback_roundtrip_test :: "bytes \<Rightarrow> UnsubAckPacket option" where
  "unsuback_roundtrip_test = roundtrip_test (UnsubAckPacket_decode) UnsubAckPacket_encode 128"

definition test_unsuback_packet_roundtrip :: bool where
  "test_unsuback_packet_roundtrip \<longleftrightarrow>
     passes unsuback_roundtrip_test [0xB0, 0x02, 0x12, 0x34]
       (\<lambda>packet. unsuback_packet_id packet = 0x1234)"

section \<open>\<^verbatim>\<open>pingreq.rs\<close>\<close>

definition pingreq_roundtrip_test :: "bytes \<Rightarrow> PingReqPacket option" where
  "pingreq_roundtrip_test = roundtrip_test (PingReqPacket_decode) PingReqPacket_encode 128"

definition test_pingreq_packet_roundtrip :: bool where
  "test_pingreq_packet_roundtrip \<longleftrightarrow>
     pingreq_roundtrip_test [0xC0, 0x00] = Some PingReqPacket"

section \<open>\<^verbatim>\<open>pingresp.rs\<close>\<close>

definition pingresp_roundtrip_test :: "bytes \<Rightarrow> PingRespPacket option" where
  "pingresp_roundtrip_test = roundtrip_test (PingRespPacket_decode) PingRespPacket_encode 128"

definition test_pingresp_packet_roundtrip :: bool where
  "test_pingresp_packet_roundtrip \<longleftrightarrow>
     pingresp_roundtrip_test [0xD0, 0x00] = Some PingRespPacket"

section \<open>\<^verbatim>\<open>disconnect.rs\<close>\<close>

definition disconnect_roundtrip_test :: "bytes \<Rightarrow> DisconnectPacket option" where
  "disconnect_roundtrip_test = roundtrip_test (DisconnectPacket_decode) DisconnectPacket_encode 128"

definition test_disconnect_packet_roundtrip :: bool where
  "test_disconnect_packet_roundtrip \<longleftrightarrow>
     disconnect_roundtrip_test [0xE0, 0x00] = Some DisconnectPacket"

section \<open>The model passes the tests\<close>

definition packet_tests :: "bool list" where
  "packet_tests =
     [publish_test_qos0_minimal_packet, publish_test_qos0_with_payload, publish_test_qos1_with_packet_id,
      publish_test_qos2_with_packet_id, publish_test_dup_flag, publish_test_retain_flag,
      publish_test_dup_and_retain_flags, publish_test_topic_simple, publish_test_topic_multi_level,
      publish_test_topic_unicode, publish_test_packet_id_one, publish_test_packet_id_max,
      publish_test_payload_empty, publish_test_payload_small, publish_test_payload_binary, publish_test_example_a,
      publish_test_example_b, publish_test_example_c, publish_test_example_d, subscribe_test_packet_id_one,
      subscribe_test_packet_id_max, subscribe_test_topic_filter_simple, subscribe_test_topic_filter_multi_level,
      subscribe_test_topic_filter_with_wildcards, subscribe_test_topic_filter_single_char,
      subscribe_test_topic_filter_unicode, subscribe_test_topic_filter_special_mqtt_chars,
      subscribe_test_topic_filter_exactly_max_length, subscribe_test_requested_qos_0,
      subscribe_test_requested_qos_1, subscribe_test_requested_qos_2, subscribe_test_roundtrip_minimal_packet_qos0,
      subscribe_test_roundtrip_normal_packet_qos1, subscribe_test_roundtrip_max_packet_id_qos2,
      subscribe_test_roundtrip_unicode_packet, subscribe_test_roundtrip_wildcard_packet_qos2,
      subscribe_test_roundtrip_complex_topic_qos1, subscribe_test_example_a, unsubscribe_test_packet_id_one,
      unsubscribe_test_packet_id_max, unsubscribe_test_topic_filter_simple,
      unsubscribe_test_topic_filter_multi_level, unsubscribe_test_topic_filter_with_wildcards,
      unsubscribe_test_topic_filter_single_char, unsubscribe_test_topic_filter_unicode,
      unsubscribe_test_topic_filter_special_mqtt_chars, unsubscribe_test_topic_filter_exactly_max_length,
      unsubscribe_test_roundtrip_minimal_packet, unsubscribe_test_roundtrip_normal_packet,
      unsubscribe_test_roundtrip_max_packet_id, unsubscribe_test_roundtrip_unicode_packet,
      unsubscribe_test_roundtrip_wildcard_packet, suback_test_packet_id_zero, suback_test_packet_id_one,
      suback_test_packet_id_max, suback_test_granted_qos_0, suback_test_granted_qos_1, suback_test_granted_qos_2,
      suback_test_roundtrip_qos0_packet_id_1, suback_test_roundtrip_qos1_packet_id_1234,
      suback_test_roundtrip_qos2_packet_id_65535, test_connack_packet_roundtrip, test_puback_packet_roundtrip,
      test_pubrec_packet_roundtrip, test_pubrel_packet_roundtrip, test_pubcomp_packet_roundtrip,
      test_unsuback_packet_roundtrip, test_pingreq_packet_roundtrip, test_pingresp_packet_roundtrip,
      test_disconnect_packet_roundtrip]"

lemma publish_passes:
  assumes "length bs \<le> 256" "case PublishPacket_decode 30 100 bs of Ok p \<Rightarrow> PublishPacket_wire p = bs \<and> assertions p | _ \<Rightarrow> False"
  shows "passes publish_roundtrip_test bs assertions"
  unfolding publish_roundtrip_test_def using assms by (intro publish.roundtrip_passes) (auto intro: PublishPacket_decode_Ok [of 30 100])

lemma publish_test_qos0_minimal_packet_holds [simp]: "publish_test_qos0_minimal_packet"
  unfolding publish_test_qos0_minimal_packet_def by (intro conjI publish_passes; code_simp)

lemma publish_test_qos0_with_payload_holds [simp]: "publish_test_qos0_with_payload"
  unfolding publish_test_qos0_with_payload_def by (intro conjI publish_passes; code_simp)

lemma publish_test_qos1_with_packet_id_holds [simp]: "publish_test_qos1_with_packet_id"
  unfolding publish_test_qos1_with_packet_id_def by (intro conjI publish_passes; code_simp)

lemma publish_test_qos2_with_packet_id_holds [simp]: "publish_test_qos2_with_packet_id"
  unfolding publish_test_qos2_with_packet_id_def by (intro conjI publish_passes; code_simp)

lemma publish_test_dup_flag_holds [simp]: "publish_test_dup_flag"
  unfolding publish_test_dup_flag_def by (intro conjI publish_passes; code_simp)

lemma publish_test_retain_flag_holds [simp]: "publish_test_retain_flag"
  unfolding publish_test_retain_flag_def by (intro conjI publish_passes; code_simp)

lemma publish_test_dup_and_retain_flags_holds [simp]: "publish_test_dup_and_retain_flags"
  unfolding publish_test_dup_and_retain_flags_def by (intro conjI publish_passes; code_simp)

lemma publish_test_topic_simple_holds [simp]: "publish_test_topic_simple"
  unfolding publish_test_topic_simple_def by (intro conjI publish_passes; code_simp)

lemma publish_test_topic_multi_level_holds [simp]: "publish_test_topic_multi_level"
  unfolding publish_test_topic_multi_level_def by (intro conjI publish_passes; code_simp)

lemma publish_test_topic_unicode_holds [simp]: "publish_test_topic_unicode"
  unfolding publish_test_topic_unicode_def by (intro conjI publish_passes; code_simp)

lemma publish_test_packet_id_one_holds [simp]: "publish_test_packet_id_one"
  unfolding publish_test_packet_id_one_def by (intro conjI publish_passes; code_simp)

lemma publish_test_packet_id_max_holds [simp]: "publish_test_packet_id_max"
  unfolding publish_test_packet_id_max_def by (intro conjI publish_passes; code_simp)

lemma publish_test_payload_empty_holds [simp]: "publish_test_payload_empty"
  unfolding publish_test_payload_empty_def by (intro conjI publish_passes; code_simp)

lemma publish_test_payload_small_holds [simp]: "publish_test_payload_small"
  unfolding publish_test_payload_small_def by (intro conjI publish_passes; code_simp)

lemma publish_test_payload_binary_holds [simp]: "publish_test_payload_binary"
  unfolding publish_test_payload_binary_def by (intro conjI publish_passes; code_simp)

lemma publish_test_example_a_holds [simp]: "publish_test_example_a"
  unfolding publish_test_example_a_def by (intro conjI publish_passes; code_simp)

lemma publish_test_example_b_holds [simp]: "publish_test_example_b"
  unfolding publish_test_example_b_def by (intro conjI publish_passes; code_simp)

lemma publish_test_example_c_holds [simp]: "publish_test_example_c"
  unfolding publish_test_example_c_def by (intro conjI publish_passes; code_simp)

lemma publish_test_example_d_holds [simp]: "publish_test_example_d"
  unfolding publish_test_example_d_def by (intro conjI publish_passes; code_simp)

lemma subscribe_passes:
  assumes "length bs \<le> 128" "case SubscribePacket_decode 30 bs of Ok p \<Rightarrow> SubscribePacket_wire p = bs \<and> assertions p | _ \<Rightarrow> False"
  shows "passes subscribe_roundtrip_test bs assertions"
  unfolding subscribe_roundtrip_test_def using assms by (intro subscribe.roundtrip_passes) (auto intro: SubscribePacket_decode_Ok [of 30])

lemma subscribe_test_packet_id_one_holds [simp]: "subscribe_test_packet_id_one"
  unfolding subscribe_test_packet_id_one_def by (intro conjI subscribe_passes; code_simp)

lemma subscribe_test_packet_id_max_holds [simp]: "subscribe_test_packet_id_max"
  unfolding subscribe_test_packet_id_max_def by (intro conjI subscribe_passes; code_simp)

lemma subscribe_test_topic_filter_simple_holds [simp]: "subscribe_test_topic_filter_simple"
  unfolding subscribe_test_topic_filter_simple_def by (intro conjI subscribe_passes; code_simp)

lemma subscribe_test_topic_filter_multi_level_holds [simp]: "subscribe_test_topic_filter_multi_level"
  unfolding subscribe_test_topic_filter_multi_level_def by (intro conjI subscribe_passes; code_simp)

lemma subscribe_test_topic_filter_with_wildcards_holds [simp]: "subscribe_test_topic_filter_with_wildcards"
  unfolding subscribe_test_topic_filter_with_wildcards_def by (intro conjI subscribe_passes; code_simp)

lemma subscribe_test_topic_filter_single_char_holds [simp]: "subscribe_test_topic_filter_single_char"
  unfolding subscribe_test_topic_filter_single_char_def by (intro conjI subscribe_passes; code_simp)

lemma subscribe_test_topic_filter_unicode_holds [simp]: "subscribe_test_topic_filter_unicode"
  unfolding subscribe_test_topic_filter_unicode_def by (intro conjI subscribe_passes; code_simp)

lemma subscribe_test_topic_filter_special_mqtt_chars_holds [simp]: "subscribe_test_topic_filter_special_mqtt_chars"
  unfolding subscribe_test_topic_filter_special_mqtt_chars_def by (intro conjI subscribe_passes; code_simp)

lemma subscribe_test_topic_filter_exactly_max_length_holds [simp]: "subscribe_test_topic_filter_exactly_max_length"
  unfolding subscribe_test_topic_filter_exactly_max_length_def by (intro conjI subscribe_passes; code_simp)

lemma subscribe_test_requested_qos_0_holds [simp]: "subscribe_test_requested_qos_0"
  unfolding subscribe_test_requested_qos_0_def by (intro conjI subscribe_passes; code_simp)

lemma subscribe_test_requested_qos_1_holds [simp]: "subscribe_test_requested_qos_1"
  unfolding subscribe_test_requested_qos_1_def by (intro conjI subscribe_passes; code_simp)

lemma subscribe_test_requested_qos_2_holds [simp]: "subscribe_test_requested_qos_2"
  unfolding subscribe_test_requested_qos_2_def by (intro conjI subscribe_passes; code_simp)

lemma subscribe_test_roundtrip_minimal_packet_qos0_holds [simp]: "subscribe_test_roundtrip_minimal_packet_qos0"
  unfolding subscribe_test_roundtrip_minimal_packet_qos0_def by (intro conjI subscribe_passes; code_simp)

lemma subscribe_test_roundtrip_normal_packet_qos1_holds [simp]: "subscribe_test_roundtrip_normal_packet_qos1"
  unfolding subscribe_test_roundtrip_normal_packet_qos1_def by (intro conjI subscribe_passes; code_simp)

lemma subscribe_test_roundtrip_max_packet_id_qos2_holds [simp]: "subscribe_test_roundtrip_max_packet_id_qos2"
  unfolding subscribe_test_roundtrip_max_packet_id_qos2_def by (intro conjI subscribe_passes; code_simp)

lemma subscribe_test_roundtrip_unicode_packet_holds [simp]: "subscribe_test_roundtrip_unicode_packet"
  unfolding subscribe_test_roundtrip_unicode_packet_def by (intro conjI subscribe_passes; code_simp)

lemma subscribe_test_roundtrip_wildcard_packet_qos2_holds [simp]: "subscribe_test_roundtrip_wildcard_packet_qos2"
  unfolding subscribe_test_roundtrip_wildcard_packet_qos2_def by (intro conjI subscribe_passes; code_simp)

lemma subscribe_test_roundtrip_complex_topic_qos1_holds [simp]: "subscribe_test_roundtrip_complex_topic_qos1"
  unfolding subscribe_test_roundtrip_complex_topic_qos1_def by (intro conjI subscribe_passes; code_simp)

lemma subscribe_test_example_a_holds [simp]: "subscribe_test_example_a"
  unfolding subscribe_test_example_a_def by (intro conjI subscribe_passes; code_simp)

lemma unsubscribe_passes:
  assumes "length bs \<le> 128" "case UnsubscribePacket_decode 30 bs of Ok p \<Rightarrow> UnsubscribePacket_wire p = bs \<and> assertions p | _ \<Rightarrow> False"
  shows "passes unsubscribe_roundtrip_test bs assertions"
  unfolding unsubscribe_roundtrip_test_def using assms by (intro unsubscribe.roundtrip_passes) (auto intro: UnsubscribePacket_decode_Ok [of 30])

lemma unsubscribe_test_packet_id_one_holds [simp]: "unsubscribe_test_packet_id_one"
  unfolding unsubscribe_test_packet_id_one_def by (intro conjI unsubscribe_passes; code_simp)

lemma unsubscribe_test_packet_id_max_holds [simp]: "unsubscribe_test_packet_id_max"
  unfolding unsubscribe_test_packet_id_max_def by (intro conjI unsubscribe_passes; code_simp)

lemma unsubscribe_test_topic_filter_simple_holds [simp]: "unsubscribe_test_topic_filter_simple"
  unfolding unsubscribe_test_topic_filter_simple_def by (intro conjI unsubscribe_passes; code_simp)

lemma unsubscribe_test_topic_filter_multi_level_holds [simp]: "unsubscribe_test_topic_filter_multi_level"
  unfolding unsubscribe_test_topic_filter_multi_level_def by (intro conjI unsubscribe_passes; code_simp)

lemma unsubscribe_test_topic_filter_with_wildcards_holds [simp]: "unsubscribe_test_topic_filter_with_wildcards"
  unfolding unsubscribe_test_topic_filter_with_wildcards_def by (intro conjI unsubscribe_passes; code_simp)

lemma unsubscribe_test_topic_filter_single_char_holds [simp]: "unsubscribe_test_topic_filter_single_char"
  unfolding unsubscribe_test_topic_filter_single_char_def by (intro conjI unsubscribe_passes; code_simp)

lemma unsubscribe_test_topic_filter_unicode_holds [simp]: "unsubscribe_test_topic_filter_unicode"
  unfolding unsubscribe_test_topic_filter_unicode_def by (intro conjI unsubscribe_passes; code_simp)

lemma unsubscribe_test_topic_filter_special_mqtt_chars_holds [simp]: "unsubscribe_test_topic_filter_special_mqtt_chars"
  unfolding unsubscribe_test_topic_filter_special_mqtt_chars_def by (intro conjI unsubscribe_passes; code_simp)

lemma unsubscribe_test_topic_filter_exactly_max_length_holds [simp]: "unsubscribe_test_topic_filter_exactly_max_length"
  unfolding unsubscribe_test_topic_filter_exactly_max_length_def by (intro conjI unsubscribe_passes; code_simp)

lemma unsubscribe_test_roundtrip_minimal_packet_holds [simp]: "unsubscribe_test_roundtrip_minimal_packet"
  unfolding unsubscribe_test_roundtrip_minimal_packet_def by (intro conjI unsubscribe_passes; code_simp)

lemma unsubscribe_test_roundtrip_normal_packet_holds [simp]: "unsubscribe_test_roundtrip_normal_packet"
  unfolding unsubscribe_test_roundtrip_normal_packet_def by (intro conjI unsubscribe_passes; code_simp)

lemma unsubscribe_test_roundtrip_max_packet_id_holds [simp]: "unsubscribe_test_roundtrip_max_packet_id"
  unfolding unsubscribe_test_roundtrip_max_packet_id_def by (intro conjI unsubscribe_passes; code_simp)

lemma unsubscribe_test_roundtrip_unicode_packet_holds [simp]: "unsubscribe_test_roundtrip_unicode_packet"
  unfolding unsubscribe_test_roundtrip_unicode_packet_def by (intro conjI unsubscribe_passes; code_simp)

lemma unsubscribe_test_roundtrip_wildcard_packet_holds [simp]: "unsubscribe_test_roundtrip_wildcard_packet"
  unfolding unsubscribe_test_roundtrip_wildcard_packet_def by (intro conjI unsubscribe_passes; code_simp)

lemma suback_passes:
  assumes "length bs \<le> 128" "case SubAckPacket_decode bs of Ok p \<Rightarrow> SubAckPacket_wire p = bs \<and> assertions p | _ \<Rightarrow> False"
  shows "passes suback_roundtrip_test bs assertions"
  unfolding suback_roundtrip_test_def using assms by (intro suback.roundtrip_passes) (auto intro: TrueI)

lemma suback_test_packet_id_zero_holds [simp]: "suback_test_packet_id_zero"
  unfolding suback_test_packet_id_zero_def by (intro conjI suback_passes; code_simp)

lemma suback_test_packet_id_one_holds [simp]: "suback_test_packet_id_one"
  unfolding suback_test_packet_id_one_def by (intro conjI suback_passes; code_simp)

lemma suback_test_packet_id_max_holds [simp]: "suback_test_packet_id_max"
  unfolding suback_test_packet_id_max_def by (intro conjI suback_passes; code_simp)

lemma suback_test_granted_qos_0_holds [simp]: "suback_test_granted_qos_0"
  unfolding suback_test_granted_qos_0_def by (intro conjI suback_passes; code_simp)

lemma suback_test_granted_qos_1_holds [simp]: "suback_test_granted_qos_1"
  unfolding suback_test_granted_qos_1_def by (intro conjI suback_passes; code_simp)

lemma suback_test_granted_qos_2_holds [simp]: "suback_test_granted_qos_2"
  unfolding suback_test_granted_qos_2_def by (intro conjI suback_passes; code_simp)

lemma suback_test_roundtrip_qos0_packet_id_1_holds [simp]: "suback_test_roundtrip_qos0_packet_id_1"
  unfolding suback_test_roundtrip_qos0_packet_id_1_def by (intro conjI suback_passes; code_simp)

lemma suback_test_roundtrip_qos1_packet_id_1234_holds [simp]: "suback_test_roundtrip_qos1_packet_id_1234"
  unfolding suback_test_roundtrip_qos1_packet_id_1234_def by (intro conjI suback_passes; code_simp)

lemma suback_test_roundtrip_qos2_packet_id_65535_holds [simp]: "suback_test_roundtrip_qos2_packet_id_65535"
  unfolding suback_test_roundtrip_qos2_packet_id_65535_def by (intro conjI suback_passes; code_simp)

lemma connack_passes:
  assumes "length bs \<le> 128" "case ConnAckPacket_decode bs of Ok p \<Rightarrow> ConnAckPacket_wire p = bs \<and> assertions p | _ \<Rightarrow> False"
  shows "passes connack_roundtrip_test bs assertions"
  unfolding connack_roundtrip_test_def using assms by (intro connack.roundtrip_passes) (auto intro: TrueI)

lemma test_connack_packet_roundtrip_holds [simp]: "test_connack_packet_roundtrip"
  unfolding test_connack_packet_roundtrip_def by (intro conjI connack_passes; code_simp)

lemma puback_passes:
  assumes "length bs \<le> 128" "case PubAckPacket_decode bs of Ok p \<Rightarrow> (\<lambda>p. packet_id_wire PT_PubAck 0 (puback_packet_id p)) p = bs \<and> assertions p | _ \<Rightarrow> False"
  shows "passes puback_roundtrip_test bs assertions"
  unfolding puback_roundtrip_test_def using assms by (intro puback.roundtrip_passes) (auto intro: TrueI)

lemma test_puback_packet_roundtrip_holds [simp]: "test_puback_packet_roundtrip"
  unfolding test_puback_packet_roundtrip_def by (intro conjI puback_passes; code_simp)

lemma pubrec_passes:
  assumes "length bs \<le> 128" "case PubRecPacket_decode bs of Ok p \<Rightarrow> (\<lambda>p. packet_id_wire PT_PubRec 0 (pubrec_packet_id p)) p = bs \<and> assertions p | _ \<Rightarrow> False"
  shows "passes pubrec_roundtrip_test bs assertions"
  unfolding pubrec_roundtrip_test_def using assms by (intro pubrec.roundtrip_passes) (auto intro: TrueI)

lemma test_pubrec_packet_roundtrip_holds [simp]: "test_pubrec_packet_roundtrip"
  unfolding test_pubrec_packet_roundtrip_def by (intro conjI pubrec_passes; code_simp)

lemma pubrel_passes:
  assumes "length bs \<le> 128" "case PubRelPacket_decode bs of Ok p \<Rightarrow> (\<lambda>p. packet_id_wire PT_PubRel 2 (pubrel_packet_id p)) p = bs \<and> assertions p | _ \<Rightarrow> False"
  shows "passes pubrel_roundtrip_test bs assertions"
  unfolding pubrel_roundtrip_test_def using assms by (intro pubrel.roundtrip_passes) (auto intro: TrueI)

lemma test_pubrel_packet_roundtrip_holds [simp]: "test_pubrel_packet_roundtrip"
  unfolding test_pubrel_packet_roundtrip_def by (intro conjI pubrel_passes; code_simp)

lemma pubcomp_passes:
  assumes "length bs \<le> 128" "case PubCompPacket_decode bs of Ok p \<Rightarrow> (\<lambda>p. packet_id_wire PT_PubComp 0 (pubcomp_packet_id p)) p = bs \<and> assertions p | _ \<Rightarrow> False"
  shows "passes pubcomp_roundtrip_test bs assertions"
  unfolding pubcomp_roundtrip_test_def using assms by (intro pubcomp.roundtrip_passes) (auto intro: TrueI)

lemma test_pubcomp_packet_roundtrip_holds [simp]: "test_pubcomp_packet_roundtrip"
  unfolding test_pubcomp_packet_roundtrip_def by (intro conjI pubcomp_passes; code_simp)

lemma unsuback_passes:
  assumes "length bs \<le> 128" "case UnsubAckPacket_decode bs of Ok p \<Rightarrow> (\<lambda>p. packet_id_wire PT_UnsubAck 0 (unsuback_packet_id p)) p = bs \<and> assertions p | _ \<Rightarrow> False"
  shows "passes unsuback_roundtrip_test bs assertions"
  unfolding unsuback_roundtrip_test_def using assms by (intro unsuback.roundtrip_passes) (auto intro: TrueI)

lemma test_unsuback_packet_roundtrip_holds [simp]: "test_unsuback_packet_roundtrip"
  unfolding test_unsuback_packet_roundtrip_def by (intro conjI unsuback_passes; code_simp)

lemma test_pingreq_packet_roundtrip_holds [simp]: "test_pingreq_packet_roundtrip"
  by code_simp

lemma test_pingresp_packet_roundtrip_holds [simp]: "test_pingresp_packet_roundtrip"
  by code_simp

lemma test_disconnect_packet_roundtrip_holds [simp]: "test_disconnect_packet_roundtrip"
  by code_simp

lemma packet_tests_hold: "\<forall>t \<in> set packet_tests. t"
  by (simp add: packet_tests_def)

end
