(* ===== verification/Tests_Connect.thy ===== *)
theory Tests_Connect
  imports Tests_Packets
begin

text \<open>
  The unit tests of the CONNECT packet (\<^verbatim>\<open>protocol/packets/connect.rs\<close>), which give the bytes as hexadecimal text.
\<close>

section \<open>\<^verbatim>\<open>connect.rs\<close>\<close>

definition connect_roundtrip_test :: "bytes \<Rightarrow> ConnectPacket option" where
  "connect_roundtrip_test = roundtrip_test (ConnectPacket_decode 30 128) ConnectPacket_encode 512"

definition test_connect_flag_clean_session_set :: bool where
  "test_connect_flag_clean_session_set \<longleftrightarrow>
     of_hex ''10 0F 00 04 4D 51 54 54 04 02 00 3C 00 03 61 62 63'' (\<lambda>bytes.
       passes connect_roundtrip_test bytes (\<lambda>packet. ConnectFlags_contains (connect_flags packet) ConnectFlags_CLEAN_SESSION))"

definition test_connect_flag_clean_session_not_set :: bool where
  "test_connect_flag_clean_session_not_set \<longleftrightarrow>
     of_hex ''10 0F 00 04 4D 51 54 54 04 00 00 3C 00 03 61 62 63'' (\<lambda>bytes.
       passes connect_roundtrip_test bytes (\<lambda>packet. \<not> ConnectFlags_contains (connect_flags packet) ConnectFlags_CLEAN_SESSION))"

definition test_connect_flag_reserved_bit_set :: bool where
  "test_connect_flag_reserved_bit_set \<longleftrightarrow>
     of_hex ''10 0F 00 04 4D 51 54 54 04 03 00 3C 00 03 61 62 63'' (\<lambda>bytes.
       ConnectPacket_decode 30 128 bytes = Err (InvalidConnectFlags 3))"

definition test_connect_flag_will_flag_set :: bool where
  "test_connect_flag_will_flag_set \<longleftrightarrow>
     of_hex ''10 20 00 04 4D 51 54 54 04 06 00 3C 00 03 61 62 63 00 06 77 69 6C 6C 74 70 00 07 77 69 6C 6C 6D 73 67'' (\<lambda>bytes.
       passes connect_roundtrip_test bytes (\<lambda>packet. ConnectFlags_contains (connect_flags packet) ConnectFlags_WILL_FLAG))"

definition test_connect_flag_will_flag_not_set :: bool where
  "test_connect_flag_will_flag_not_set \<longleftrightarrow>
     of_hex ''10 0F 00 04 4D 51 54 54 04 02 00 3C 00 03 61 62 63'' (\<lambda>bytes.
       passes connect_roundtrip_test bytes (\<lambda>packet. \<not> ConnectFlags_contains (connect_flags packet) ConnectFlags_WILL_FLAG))"

definition test_connect_flag_will_qos_0 :: bool where
  "test_connect_flag_will_qos_0 \<longleftrightarrow>
     of_hex ''10 20 00 04 4D 51 54 54 04 06 00 3C 00 03 61 62 63 00 06 77 69 6C 6C 74 70 00 07 77 69 6C 6C 6D 73 67'' (\<lambda>bytes.
       passes connect_roundtrip_test bytes (\<lambda>packet. \<not> ConnectFlags_contains (connect_flags packet) ConnectFlags_WILL_QOS_1 \<and> \<not> ConnectFlags_contains (connect_flags packet) ConnectFlags_WILL_QOS_2))"

definition test_connect_flag_will_qos_1 :: bool where
  "test_connect_flag_will_qos_1 \<longleftrightarrow>
     of_hex ''10 20 00 04 4D 51 54 54 04 0E 00 3C 00 03 61 62 63 00 06 77 69 6C 6C 74 70 00 07 77 69 6C 6C 6D 73 67'' (\<lambda>bytes.
       passes connect_roundtrip_test bytes (\<lambda>packet. ConnectFlags_contains (connect_flags packet) ConnectFlags_WILL_QOS_1))"

definition test_connect_flag_will_qos_2 :: bool where
  "test_connect_flag_will_qos_2 \<longleftrightarrow>
     of_hex ''10 20 00 04 4D 51 54 54 04 16 00 3C 00 03 61 62 63 00 06 77 69 6C 6C 74 70 00 07 77 69 6C 6C 6D 73 67'' (\<lambda>bytes.
       passes connect_roundtrip_test bytes (\<lambda>packet. ConnectFlags_contains (connect_flags packet) ConnectFlags_WILL_QOS_2))"

definition test_connect_flag_will_retain_set :: bool where
  "test_connect_flag_will_retain_set \<longleftrightarrow>
     of_hex ''10 20 00 04 4D 51 54 54 04 26 00 3C 00 03 61 62 63 00 06 77 69 6C 6C 74 70 00 07 77 69 6C 6C 6D 73 67'' (\<lambda>bytes.
       passes connect_roundtrip_test bytes (\<lambda>packet. ConnectFlags_contains (connect_flags packet) ConnectFlags_WILL_RETAIN))"

definition test_connect_flag_will_retain_not_set :: bool where
  "test_connect_flag_will_retain_not_set \<longleftrightarrow>
     of_hex ''10 0F 00 04 4D 51 54 54 04 02 00 3C 00 03 61 62 63'' (\<lambda>bytes.
       passes connect_roundtrip_test bytes (\<lambda>packet. \<not> ConnectFlags_contains (connect_flags packet) ConnectFlags_WILL_RETAIN))"

definition test_connect_flag_username_set :: bool where
  "test_connect_flag_username_set \<longleftrightarrow>
     of_hex ''10 16 00 04 4D 51 54 54 04 82 00 3C 00 03 61 62 63 00 05 75 73 65 72 31'' (\<lambda>bytes.
       passes connect_roundtrip_test bytes (\<lambda>packet. ConnectFlags_contains (connect_flags packet) ConnectFlags_USERNAME))"

definition test_connect_flag_username_not_set :: bool where
  "test_connect_flag_username_not_set \<longleftrightarrow>
     of_hex ''10 0F 00 04 4D 51 54 54 04 02 00 3C 00 03 61 62 63'' (\<lambda>bytes.
       passes connect_roundtrip_test bytes (\<lambda>packet. \<not> ConnectFlags_contains (connect_flags packet) ConnectFlags_USERNAME))"

definition test_connect_flag_password_set :: bool where
  "test_connect_flag_password_set \<longleftrightarrow>
     of_hex ''10 1C 00 04 4D 51 54 54 04 C2 00 3C 00 03 61 62 63 00 05 75 73 65 72 31 00 04 70 61 73 73'' (\<lambda>bytes.
       passes connect_roundtrip_test bytes (\<lambda>packet. ConnectFlags_contains (connect_flags packet) ConnectFlags_PASSWORD))"

definition test_connect_flag_password_not_set :: bool where
  "test_connect_flag_password_not_set \<longleftrightarrow>
     of_hex ''10 0F 00 04 4D 51 54 54 04 02 00 3C 00 03 61 62 63'' (\<lambda>bytes.
       passes connect_roundtrip_test bytes (\<lambda>packet. \<not> ConnectFlags_contains (connect_flags packet) ConnectFlags_PASSWORD))"

definition connect_test_keep_alive_value_60 :: bool where
  "connect_test_keep_alive_value_60 \<longleftrightarrow>
     of_hex ''10 0F 00 04 4D 51 54 54 04 02 00 3C 00 03 61 62 63'' (\<lambda>bytes.
       passes connect_roundtrip_test bytes (\<lambda>packet. con_keep_alive packet = 60))"

definition connect_test_keep_alive_value_zero :: bool where
  "connect_test_keep_alive_value_zero \<longleftrightarrow>
     of_hex ''10 0F 00 04 4D 51 54 54 04 02 00 00 00 03 61 62 63'' (\<lambda>bytes.
       passes connect_roundtrip_test bytes (\<lambda>packet. con_keep_alive packet = 0))"

definition connect_test_keep_alive_value_max :: bool where
  "connect_test_keep_alive_value_max \<longleftrightarrow>
     of_hex ''10 0F 00 04 4D 51 54 54 04 02 FF FF 00 03 61 62 63'' (\<lambda>bytes.
       passes connect_roundtrip_test bytes (\<lambda>packet. con_keep_alive packet = 65535))"

definition connect_test_session_client_id_value_abc :: bool where
  "connect_test_session_client_id_value_abc \<longleftrightarrow>
     of_hex ''10 0F 00 04 4D 51 54 54 04 02 00 3C 00 03 61 62 63'' (\<lambda>bytes.
       passes connect_roundtrip_test bytes (\<lambda>packet. HeaplessString_as_str (con_client_id packet) = str ''abc''))"

definition connect_test_session_client_id_empty_with_clean_session :: bool where
  "connect_test_session_client_id_empty_with_clean_session \<longleftrightarrow>
     of_hex ''10 0C 00 04 4D 51 54 54 04 02 00 3C 00 00'' (\<lambda>bytes.
       passes connect_roundtrip_test bytes (\<lambda>packet. HeaplessString_as_str (con_client_id packet) = []))"

definition connect_test_session_client_id_exactly_max_length :: bool where
  "connect_test_session_client_id_exactly_max_length \<longleftrightarrow>
     of_hex ''10 23 00 04 4D 51 54 54 04 02 00 3C 00 17 61 61 61 61 61 61 61 61 61 61 61 61 61 61 61 61 61 61 61 61 61 61 61'' (\<lambda>bytes.
       passes connect_roundtrip_test bytes (\<lambda>packet. HeaplessString_len (con_client_id packet) = 23))"

definition connect_test_session_client_id_unicode :: bool where
  "connect_test_session_client_id_unicode \<longleftrightarrow>
     of_hex ''10 15 00 04 4D 51 54 54 04 02 00 3C 00 09 E4 BD A0 E5 A5 BD E4 B8 96'' (\<lambda>bytes.
       passes connect_roundtrip_test bytes (\<lambda>packet. HeaplessString_as_str (con_client_id packet) = [0xE4, 0xBD,
         0xA0, 0xE5, 0xA5, 0xBD, 0xE4, 0xB8, 0x96]))"

definition connect_test_will_topic_valid :: bool where
  "connect_test_will_topic_valid \<longleftrightarrow>
     of_hex ''10 20 00 04 4D 51 54 54 04 06 00 3C 00 03 61 62 63 00 06 77 69 6C 6C 74 70 00 07 77 69 6C 6C 6D 73 67'' (\<lambda>bytes.
       passes connect_roundtrip_test bytes (\<lambda>packet. map_option HeaplessString_as_str (will_topic packet) = Some (str ''willtp'')))"

definition connect_test_will_payload_valid :: bool where
  "connect_test_will_payload_valid \<longleftrightarrow>
     of_hex ''10 20 00 04 4D 51 54 54 04 06 00 3C 00 03 61 62 63 00 06 77 69 6C 6C 74 70 00 07 77 69 6C 6C 6D 73 67'' (\<lambda>bytes.
       passes connect_roundtrip_test bytes (\<lambda>packet. map_option HeaplessVec_as_slice (will_payload packet) = Some (str ''willmsg'')))"

definition connect_test_will_payload_empty :: bool where
  "connect_test_will_payload_empty \<longleftrightarrow>
     of_hex ''10 19 00 04 4D 51 54 54 04 06 00 3C 00 03 61 62 63 00 06 77 69 6C 6C 74 70 00 00'' (\<lambda>bytes.
       passes connect_roundtrip_test bytes (\<lambda>packet. unwrapped (will_payload packet) (\<lambda>x. HeaplessVec_len x = 0)))"

definition connect_test_username_value_user1 :: bool where
  "connect_test_username_value_user1 \<longleftrightarrow>
     of_hex ''10 16 00 04 4D 51 54 54 04 82 00 3C 00 03 61 62 63 00 05 75 73 65 72 31'' (\<lambda>bytes.
       passes connect_roundtrip_test bytes (\<lambda>packet. map_option HeaplessString_as_str (username packet) = Some (str ''user1'')))"

definition connect_test_username_empty :: bool where
  "connect_test_username_empty \<longleftrightarrow>
     of_hex ''10 11 00 04 4D 51 54 54 04 82 00 3C 00 03 61 62 63 00 00'' (\<lambda>bytes.
       passes connect_roundtrip_test bytes (\<lambda>packet. unwrapped (username packet) (\<lambda>x. HeaplessString_len x = 0)))"

definition connect_test_username_exactly_max_length :: bool where
  "connect_test_username_exactly_max_length \<longleftrightarrow>
     of_hex ''10 2F 00 04 4D 51 54 54 04 82 00 3C 00 03 61 62 63 00 1E 75 75 75 75 75 75 75 75 75 75 75 75 75 75 75 75 75 75 75 75 75 75 75 75 75 75 75 75 75 75'' (\<lambda>bytes.
       passes connect_roundtrip_test bytes (\<lambda>packet. unwrapped (username packet) (\<lambda>x. HeaplessString_len x = 30)))"

definition connect_test_username_unicode :: bool where
  "connect_test_username_unicode \<longleftrightarrow>
     of_hex ''10 17 00 04 4D 51 54 54 04 82 00 3C 00 03 61 62 63 00 06 C3 B1 C3 A1 C3 A9'' (\<lambda>bytes.
       passes connect_roundtrip_test bytes (\<lambda>packet. unwrapped (username packet) (\<lambda>x. HeaplessString_as_str x = [0xC3, 0xB1, 0xC3, 0xA1, 0xC3, 0xA9])))"

definition connect_test_password_value_pass1 :: bool where
  "connect_test_password_value_pass1 \<longleftrightarrow>
     of_hex ''10 1D 00 04 4D 51 54 54 04 C2 00 3C 00 03 61 62 63 00 05 75 73 65 72 31 00 05 70 61 73 73 31'' (\<lambda>bytes.
       passes connect_roundtrip_test bytes (\<lambda>packet. map_option HeaplessVec_as_slice (password packet) = Some (str ''pass1'')))"

definition connect_test_password_empty :: bool where
  "connect_test_password_empty \<longleftrightarrow>
     of_hex ''10 18 00 04 4D 51 54 54 04 C2 00 3C 00 03 61 62 63 00 05 75 73 65 72 31 00 00'' (\<lambda>bytes.
       passes connect_roundtrip_test bytes (\<lambda>packet. unwrapped (password packet) (\<lambda>x. HeaplessVec_len x = 0)))"

definition connect_test_password_exactly_max_length :: bool where
  "connect_test_password_exactly_max_length \<longleftrightarrow>
     of_hex ''10 36 00 04 4D 51 54 54 04 C2 00 3C 00 03 61 62 63 00 05 75 73 65 72 31 00 1E 70 70 70 70 70 70 70 70 70 70 70 70 70 70 70 70 70 70 70 70 70 70 70 70 70 70 70 70 70 70'' (\<lambda>bytes.
       passes connect_roundtrip_test bytes (\<lambda>packet. unwrapped (password packet) (\<lambda>x. HeaplessVec_len x = 30)))"

definition connect_test_password_binary_data :: bool where
  "connect_test_password_binary_data \<longleftrightarrow>
     of_hex ''10 20 00 04 4D 51 54 54 04 C2 00 3C 00 03 61 62 63 00 05 75 73 65 72 31 00 08 00 01 FF FE 00 FF 01 02'' (\<lambda>bytes.
       passes connect_roundtrip_test bytes (\<lambda>packet. unwrapped (password packet) (\<lambda>x. HeaplessVec_as_slice x = [0x00, 0x01, 0xFF, 0xFE, 0x00, 0xFF, 0x01, 0x02])))"

section \<open>The model passes the tests\<close>

definition connect_tests :: "bool list" where
  "connect_tests =
     [test_connect_flag_clean_session_set, test_connect_flag_clean_session_not_set,
      test_connect_flag_reserved_bit_set, test_connect_flag_will_flag_set, test_connect_flag_will_flag_not_set,
      test_connect_flag_will_qos_0, test_connect_flag_will_qos_1, test_connect_flag_will_qos_2,
      test_connect_flag_will_retain_set, test_connect_flag_will_retain_not_set, test_connect_flag_username_set,
      test_connect_flag_username_not_set, test_connect_flag_password_set, test_connect_flag_password_not_set,
      connect_test_keep_alive_value_60, connect_test_keep_alive_value_zero, connect_test_keep_alive_value_max,
      connect_test_session_client_id_value_abc, connect_test_session_client_id_empty_with_clean_session,
      connect_test_session_client_id_exactly_max_length, connect_test_session_client_id_unicode,
      connect_test_will_topic_valid, connect_test_will_payload_valid, connect_test_will_payload_empty,
      connect_test_username_value_user1, connect_test_username_empty, connect_test_username_exactly_max_length,
      connect_test_username_unicode, connect_test_password_value_pass1, connect_test_password_empty,
      connect_test_password_exactly_max_length, connect_test_password_binary_data]"

lemma connect_passes:
  assumes "length bs \<le> 512" "case ConnectPacket_decode 30 128 bs of Ok p \<Rightarrow> ConnectPacket_wire p = bs \<and> assertions p | _ \<Rightarrow> False"
  shows "passes connect_roundtrip_test bs assertions"
  unfolding connect_roundtrip_test_def using assms by (intro connect.roundtrip_passes) (auto intro: ConnectPacket_decode_Ok [of 30 128])

lemma test_connect_flag_clean_session_set_holds [simp]: "test_connect_flag_clean_session_set"
  unfolding test_connect_flag_clean_session_set_def
  by (rule of_hexI [where bs = "[0x10, 0x0F, 0x00, 0x04, 0x4D, 0x51, 0x54, 0x54, 0x04, 0x02, 0x00, 0x3C, 0x00, 0x03, 0x61,
    0x62, 0x63]"],
    simp add: hex_text_defs, simp, rule connect_passes, simp, code_simp)

lemma test_connect_flag_clean_session_not_set_holds [simp]: "test_connect_flag_clean_session_not_set"
  unfolding test_connect_flag_clean_session_not_set_def
  by (rule of_hexI [where bs = "[0x10, 0x0F, 0x00, 0x04, 0x4D, 0x51, 0x54, 0x54, 0x04, 0x00, 0x00, 0x3C, 0x00, 0x03, 0x61,
    0x62, 0x63]"],
    simp add: hex_text_defs, simp, rule connect_passes, simp, code_simp)

lemma test_connect_flag_reserved_bit_set_holds [simp]: "test_connect_flag_reserved_bit_set"
  unfolding test_connect_flag_reserved_bit_set_def
  by (rule of_hexI [where bs = "[0x10, 0x0F, 0x00, 0x04, 0x4D, 0x51, 0x54, 0x54, 0x04, 0x03, 0x00, 0x3C, 0x00, 0x03, 0x61,
    0x62, 0x63]"],
    simp add: hex_text_defs, simp, code_simp)

lemma test_connect_flag_will_flag_set_holds [simp]: "test_connect_flag_will_flag_set"
  unfolding test_connect_flag_will_flag_set_def
  by (rule of_hexI [where bs = "[0x10, 0x20, 0x00, 0x04, 0x4D, 0x51, 0x54, 0x54, 0x04, 0x06, 0x00, 0x3C, 0x00, 0x03, 0x61,
    0x62, 0x63, 0x00, 0x06, 0x77, 0x69, 0x6C, 0x6C, 0x74, 0x70, 0x00, 0x07, 0x77, 0x69, 0x6C, 0x6C, 0x6D, 0x73, 0x67]"],
    simp add: hex_text_defs, simp, rule connect_passes, simp, code_simp)

lemma test_connect_flag_will_flag_not_set_holds [simp]: "test_connect_flag_will_flag_not_set"
  unfolding test_connect_flag_will_flag_not_set_def
  by (rule of_hexI [where bs = "[0x10, 0x0F, 0x00, 0x04, 0x4D, 0x51, 0x54, 0x54, 0x04, 0x02, 0x00, 0x3C, 0x00, 0x03, 0x61,
    0x62, 0x63]"],
    simp add: hex_text_defs, simp, rule connect_passes, simp, code_simp)

lemma test_connect_flag_will_qos_0_holds [simp]: "test_connect_flag_will_qos_0"
  unfolding test_connect_flag_will_qos_0_def
  by (rule of_hexI [where bs = "[0x10, 0x20, 0x00, 0x04, 0x4D, 0x51, 0x54, 0x54, 0x04, 0x06, 0x00, 0x3C, 0x00, 0x03, 0x61,
    0x62, 0x63, 0x00, 0x06, 0x77, 0x69, 0x6C, 0x6C, 0x74, 0x70, 0x00, 0x07, 0x77, 0x69, 0x6C, 0x6C, 0x6D, 0x73, 0x67]"],
    simp add: hex_text_defs, simp, rule connect_passes, simp, code_simp)

lemma test_connect_flag_will_qos_1_holds [simp]: "test_connect_flag_will_qos_1"
  unfolding test_connect_flag_will_qos_1_def
  by (rule of_hexI [where bs = "[0x10, 0x20, 0x00, 0x04, 0x4D, 0x51, 0x54, 0x54, 0x04, 0x0E, 0x00, 0x3C, 0x00, 0x03, 0x61,
    0x62, 0x63, 0x00, 0x06, 0x77, 0x69, 0x6C, 0x6C, 0x74, 0x70, 0x00, 0x07, 0x77, 0x69, 0x6C, 0x6C, 0x6D, 0x73, 0x67]"],
    simp add: hex_text_defs, simp, rule connect_passes, simp, code_simp)

lemma test_connect_flag_will_qos_2_holds [simp]: "test_connect_flag_will_qos_2"
  unfolding test_connect_flag_will_qos_2_def
  by (rule of_hexI [where bs = "[0x10, 0x20, 0x00, 0x04, 0x4D, 0x51, 0x54, 0x54, 0x04, 0x16, 0x00, 0x3C, 0x00, 0x03, 0x61,
    0x62, 0x63, 0x00, 0x06, 0x77, 0x69, 0x6C, 0x6C, 0x74, 0x70, 0x00, 0x07, 0x77, 0x69, 0x6C, 0x6C, 0x6D, 0x73, 0x67]"],
    simp add: hex_text_defs, simp, rule connect_passes, simp, code_simp)

lemma test_connect_flag_will_retain_set_holds [simp]: "test_connect_flag_will_retain_set"
  unfolding test_connect_flag_will_retain_set_def
  by (rule of_hexI [where bs = "[0x10, 0x20, 0x00, 0x04, 0x4D, 0x51, 0x54, 0x54, 0x04, 0x26, 0x00, 0x3C, 0x00, 0x03, 0x61,
    0x62, 0x63, 0x00, 0x06, 0x77, 0x69, 0x6C, 0x6C, 0x74, 0x70, 0x00, 0x07, 0x77, 0x69, 0x6C, 0x6C, 0x6D, 0x73, 0x67]"],
    simp add: hex_text_defs, simp, rule connect_passes, simp, code_simp)

lemma test_connect_flag_will_retain_not_set_holds [simp]: "test_connect_flag_will_retain_not_set"
  unfolding test_connect_flag_will_retain_not_set_def
  by (rule of_hexI [where bs = "[0x10, 0x0F, 0x00, 0x04, 0x4D, 0x51, 0x54, 0x54, 0x04, 0x02, 0x00, 0x3C, 0x00, 0x03, 0x61,
    0x62, 0x63]"],
    simp add: hex_text_defs, simp, rule connect_passes, simp, code_simp)

lemma test_connect_flag_username_set_holds [simp]: "test_connect_flag_username_set"
  unfolding test_connect_flag_username_set_def
  by (rule of_hexI [where bs = "[0x10, 0x16, 0x00, 0x04, 0x4D, 0x51, 0x54, 0x54, 0x04, 0x82, 0x00, 0x3C, 0x00, 0x03, 0x61,
    0x62, 0x63, 0x00, 0x05, 0x75, 0x73, 0x65, 0x72, 0x31]"],
    simp add: hex_text_defs, simp, rule connect_passes, simp, code_simp)

lemma test_connect_flag_username_not_set_holds [simp]: "test_connect_flag_username_not_set"
  unfolding test_connect_flag_username_not_set_def
  by (rule of_hexI [where bs = "[0x10, 0x0F, 0x00, 0x04, 0x4D, 0x51, 0x54, 0x54, 0x04, 0x02, 0x00, 0x3C, 0x00, 0x03, 0x61,
    0x62, 0x63]"],
    simp add: hex_text_defs, simp, rule connect_passes, simp, code_simp)

lemma test_connect_flag_password_set_holds [simp]: "test_connect_flag_password_set"
  unfolding test_connect_flag_password_set_def
  by (rule of_hexI [where bs = "[0x10, 0x1C, 0x00, 0x04, 0x4D, 0x51, 0x54, 0x54, 0x04, 0xC2, 0x00, 0x3C, 0x00, 0x03, 0x61,
    0x62, 0x63, 0x00, 0x05, 0x75, 0x73, 0x65, 0x72, 0x31, 0x00, 0x04, 0x70, 0x61, 0x73, 0x73]"],
    simp add: hex_text_defs, simp, rule connect_passes, simp, code_simp)

lemma test_connect_flag_password_not_set_holds [simp]: "test_connect_flag_password_not_set"
  unfolding test_connect_flag_password_not_set_def
  by (rule of_hexI [where bs = "[0x10, 0x0F, 0x00, 0x04, 0x4D, 0x51, 0x54, 0x54, 0x04, 0x02, 0x00, 0x3C, 0x00, 0x03, 0x61,
    0x62, 0x63]"],
    simp add: hex_text_defs, simp, rule connect_passes, simp, code_simp)

lemma connect_test_keep_alive_value_60_holds [simp]: "connect_test_keep_alive_value_60"
  unfolding connect_test_keep_alive_value_60_def
  by (rule of_hexI [where bs = "[0x10, 0x0F, 0x00, 0x04, 0x4D, 0x51, 0x54, 0x54, 0x04, 0x02, 0x00, 0x3C, 0x00, 0x03, 0x61,
    0x62, 0x63]"],
    simp add: hex_text_defs, simp, rule connect_passes, simp, code_simp)

lemma connect_test_keep_alive_value_zero_holds [simp]: "connect_test_keep_alive_value_zero"
  unfolding connect_test_keep_alive_value_zero_def
  by (rule of_hexI [where bs = "[0x10, 0x0F, 0x00, 0x04, 0x4D, 0x51, 0x54, 0x54, 0x04, 0x02, 0x00, 0x00, 0x00, 0x03, 0x61,
    0x62, 0x63]"],
    simp add: hex_text_defs, simp, rule connect_passes, simp, code_simp)

lemma connect_test_keep_alive_value_max_holds [simp]: "connect_test_keep_alive_value_max"
  unfolding connect_test_keep_alive_value_max_def
  by (rule of_hexI [where bs = "[0x10, 0x0F, 0x00, 0x04, 0x4D, 0x51, 0x54, 0x54, 0x04, 0x02, 0xFF, 0xFF, 0x00, 0x03, 0x61,
    0x62, 0x63]"],
    simp add: hex_text_defs, simp, rule connect_passes, simp, code_simp)

lemma connect_test_session_client_id_value_abc_holds [simp]: "connect_test_session_client_id_value_abc"
  unfolding connect_test_session_client_id_value_abc_def
  by (rule of_hexI [where bs = "[0x10, 0x0F, 0x00, 0x04, 0x4D, 0x51, 0x54, 0x54, 0x04, 0x02, 0x00, 0x3C, 0x00, 0x03, 0x61,
    0x62, 0x63]"],
    simp add: hex_text_defs, simp, rule connect_passes, simp, code_simp)

lemma connect_test_session_client_id_empty_with_clean_session_holds [simp]: "connect_test_session_client_id_empty_with_clean_session"
  unfolding connect_test_session_client_id_empty_with_clean_session_def
  by (rule of_hexI [where bs = "[0x10, 0x0C, 0x00, 0x04, 0x4D, 0x51, 0x54, 0x54, 0x04, 0x02, 0x00, 0x3C, 0x00, 0x00]"],
    simp add: hex_text_defs, simp, rule connect_passes, simp, code_simp)

lemma connect_test_session_client_id_exactly_max_length_holds [simp]: "connect_test_session_client_id_exactly_max_length"
  unfolding connect_test_session_client_id_exactly_max_length_def
  by (rule of_hexI [where bs = "[0x10, 0x23, 0x00, 0x04, 0x4D, 0x51, 0x54, 0x54, 0x04, 0x02, 0x00, 0x3C, 0x00, 0x17, 0x61,
    0x61, 0x61, 0x61, 0x61, 0x61, 0x61, 0x61, 0x61, 0x61, 0x61, 0x61, 0x61, 0x61, 0x61, 0x61, 0x61, 0x61, 0x61, 0x61, 0x61,
    0x61, 0x61]"],
    simp add: hex_text_defs, simp, rule connect_passes, simp, code_simp)

lemma connect_test_session_client_id_unicode_holds [simp]: "connect_test_session_client_id_unicode"
  unfolding connect_test_session_client_id_unicode_def
  by (rule of_hexI [where bs = "[0x10, 0x15, 0x00, 0x04, 0x4D, 0x51, 0x54, 0x54, 0x04, 0x02, 0x00, 0x3C, 0x00, 0x09, 0xE4,
    0xBD, 0xA0, 0xE5, 0xA5, 0xBD, 0xE4, 0xB8, 0x96]"],
    simp add: hex_text_defs, simp, rule connect_passes, simp, code_simp)

lemma connect_test_will_topic_valid_holds [simp]: "connect_test_will_topic_valid"
  unfolding connect_test_will_topic_valid_def
  by (rule of_hexI [where bs = "[0x10, 0x20, 0x00, 0x04, 0x4D, 0x51, 0x54, 0x54, 0x04, 0x06, 0x00, 0x3C, 0x00, 0x03, 0x61,
    0x62, 0x63, 0x00, 0x06, 0x77, 0x69, 0x6C, 0x6C, 0x74, 0x70, 0x00, 0x07, 0x77, 0x69, 0x6C, 0x6C, 0x6D, 0x73, 0x67]"],
    simp add: hex_text_defs, simp, rule connect_passes, simp, code_simp)

lemma connect_test_will_payload_valid_holds [simp]: "connect_test_will_payload_valid"
  unfolding connect_test_will_payload_valid_def
  by (rule of_hexI [where bs = "[0x10, 0x20, 0x00, 0x04, 0x4D, 0x51, 0x54, 0x54, 0x04, 0x06, 0x00, 0x3C, 0x00, 0x03, 0x61,
    0x62, 0x63, 0x00, 0x06, 0x77, 0x69, 0x6C, 0x6C, 0x74, 0x70, 0x00, 0x07, 0x77, 0x69, 0x6C, 0x6C, 0x6D, 0x73, 0x67]"],
    simp add: hex_text_defs, simp, rule connect_passes, simp, code_simp)

lemma connect_test_will_payload_empty_holds [simp]: "connect_test_will_payload_empty"
  unfolding connect_test_will_payload_empty_def
  by (rule of_hexI [where bs = "[0x10, 0x19, 0x00, 0x04, 0x4D, 0x51, 0x54, 0x54, 0x04, 0x06, 0x00, 0x3C, 0x00, 0x03, 0x61,
    0x62, 0x63, 0x00, 0x06, 0x77, 0x69, 0x6C, 0x6C, 0x74, 0x70, 0x00, 0x00]"],
    simp add: hex_text_defs, simp, rule connect_passes, simp, code_simp)

lemma connect_test_username_value_user1_holds [simp]: "connect_test_username_value_user1"
  unfolding connect_test_username_value_user1_def
  by (rule of_hexI [where bs = "[0x10, 0x16, 0x00, 0x04, 0x4D, 0x51, 0x54, 0x54, 0x04, 0x82, 0x00, 0x3C, 0x00, 0x03, 0x61,
    0x62, 0x63, 0x00, 0x05, 0x75, 0x73, 0x65, 0x72, 0x31]"],
    simp add: hex_text_defs, simp, rule connect_passes, simp, code_simp)

lemma connect_test_username_empty_holds [simp]: "connect_test_username_empty"
  unfolding connect_test_username_empty_def
  by (rule of_hexI [where bs = "[0x10, 0x11, 0x00, 0x04, 0x4D, 0x51, 0x54, 0x54, 0x04, 0x82, 0x00, 0x3C, 0x00, 0x03, 0x61,
    0x62, 0x63, 0x00, 0x00]"],
    simp add: hex_text_defs, simp, rule connect_passes, simp, code_simp)

lemma connect_test_username_exactly_max_length_holds [simp]: "connect_test_username_exactly_max_length"
  unfolding connect_test_username_exactly_max_length_def
  by (rule of_hexI [where bs = "[0x10, 0x2F, 0x00, 0x04, 0x4D, 0x51, 0x54, 0x54, 0x04, 0x82, 0x00, 0x3C, 0x00, 0x03, 0x61,
    0x62, 0x63, 0x00, 0x1E, 0x75, 0x75, 0x75, 0x75, 0x75, 0x75, 0x75, 0x75, 0x75, 0x75, 0x75, 0x75, 0x75, 0x75, 0x75, 0x75,
    0x75, 0x75, 0x75, 0x75, 0x75, 0x75, 0x75, 0x75, 0x75, 0x75, 0x75, 0x75, 0x75, 0x75]"],
    simp add: hex_text_defs, simp, rule connect_passes, simp, code_simp)

lemma connect_test_username_unicode_holds [simp]: "connect_test_username_unicode"
  unfolding connect_test_username_unicode_def
  by (rule of_hexI [where bs = "[0x10, 0x17, 0x00, 0x04, 0x4D, 0x51, 0x54, 0x54, 0x04, 0x82, 0x00, 0x3C, 0x00, 0x03, 0x61,
    0x62, 0x63, 0x00, 0x06, 0xC3, 0xB1, 0xC3, 0xA1, 0xC3, 0xA9]"],
    simp add: hex_text_defs, simp, rule connect_passes, simp, code_simp)

lemma connect_test_password_value_pass1_holds [simp]: "connect_test_password_value_pass1"
  unfolding connect_test_password_value_pass1_def
  by (rule of_hexI [where bs = "[0x10, 0x1D, 0x00, 0x04, 0x4D, 0x51, 0x54, 0x54, 0x04, 0xC2, 0x00, 0x3C, 0x00, 0x03, 0x61,
    0x62, 0x63, 0x00, 0x05, 0x75, 0x73, 0x65, 0x72, 0x31, 0x00, 0x05, 0x70, 0x61, 0x73, 0x73, 0x31]"],
    simp add: hex_text_defs, simp, rule connect_passes, simp, code_simp)

lemma connect_test_password_empty_holds [simp]: "connect_test_password_empty"
  unfolding connect_test_password_empty_def
  by (rule of_hexI [where bs = "[0x10, 0x18, 0x00, 0x04, 0x4D, 0x51, 0x54, 0x54, 0x04, 0xC2, 0x00, 0x3C, 0x00, 0x03, 0x61,
    0x62, 0x63, 0x00, 0x05, 0x75, 0x73, 0x65, 0x72, 0x31, 0x00, 0x00]"],
    simp add: hex_text_defs, simp, rule connect_passes, simp, code_simp)

lemma connect_test_password_exactly_max_length_holds [simp]: "connect_test_password_exactly_max_length"
  unfolding connect_test_password_exactly_max_length_def
  by (rule of_hexI [where bs = "[0x10, 0x36, 0x00, 0x04, 0x4D, 0x51, 0x54, 0x54, 0x04, 0xC2, 0x00, 0x3C, 0x00, 0x03, 0x61,
    0x62, 0x63, 0x00, 0x05, 0x75, 0x73, 0x65, 0x72, 0x31, 0x00, 0x1E, 0x70, 0x70, 0x70, 0x70, 0x70, 0x70, 0x70, 0x70, 0x70,
    0x70, 0x70, 0x70, 0x70, 0x70, 0x70, 0x70, 0x70, 0x70, 0x70, 0x70, 0x70, 0x70, 0x70, 0x70, 0x70, 0x70, 0x70, 0x70, 0x70,
    0x70]"],
    simp add: hex_text_defs, simp, rule connect_passes, simp, code_simp)

lemma connect_test_password_binary_data_holds [simp]: "connect_test_password_binary_data"
  unfolding connect_test_password_binary_data_def
  by (rule of_hexI [where bs = "[0x10, 0x20, 0x00, 0x04, 0x4D, 0x51, 0x54, 0x54, 0x04, 0xC2, 0x00, 0x3C, 0x00, 0x03, 0x61,
    0x62, 0x63, 0x00, 0x05, 0x75, 0x73, 0x65, 0x72, 0x31, 0x00, 0x08, 0x00, 0x01, 0xFF, 0xFE, 0x00, 0xFF, 0x01, 0x02]"],
    simp add: hex_text_defs, simp, rule connect_passes, simp, code_simp)

lemma connect_tests_hold: "\<forall>t \<in> set connect_tests. t"
  by (simp add: connect_tests_def)

end
