(* ===== verification/Tests_Misc.thy ===== *)
theory Tests_Misc
  imports Hex Texts Server_Tokio_Laws "HOL-Library.Code_Target_Nat"
begin

text \<open>
  The unit tests of \<^verbatim>\<open>protocol/heapless.rs\<close> and of \<^verbatim>\<open>state.rs\<close> and \<^verbatim>\<open>io.rs\<close> of the tokio server, translated like those of the packets.
  The test of the memory layout is left out. The clock of the session identifiers is an argument.
\<close>

section \<open>\<^verbatim>\<open>heapless.rs\<close>\<close>

text \<open>A statement of a test: a panic makes it fail, \<^verbatim>\<open>let _ =\<close> (\<open>ignore\<close>) drops errors, and \<^verbatim>\<open>unwrap\<close> does not.\<close>

definition stepping :: "('s, 'a, 'e) action \<Rightarrow> 's \<Rightarrow> ('s \<Rightarrow> bool) \<Rightarrow> bool" where
  "stepping m s f = (case m s of (Ok _, s') \<Rightarrow> f s' | _ \<Rightarrow> False)"

primrec pushing :: "u8 list \<Rightarrow> u8 HeaplessVec \<Rightarrow> (u8 HeaplessVec \<Rightarrow> bool) \<Rightarrow> bool" where
  "pushing [] v f = f v"
| "pushing (x # xs) v f = stepping (ignore (HeaplessVec_push x)) v (\<lambda>v. pushing xs v f)"

definition test_extend_from_slice :: bool where
  "test_extend_from_slice \<longleftrightarrow>
     pushing [1, 2] (HeaplessVec_new 5 0) (\<lambda>vec.
       case HeaplessVec_extend_from_slice [] vec of (r, vec) \<Rightarrow> is_ok r \<and> HeaplessVec_len vec = 2 \<and>
      (case HeaplessVec_extend_from_slice [3, 4] vec of (r, vec) \<Rightarrow>
         is_ok r \<and> HeaplessVec_len vec = 4 \<and> HeaplessVec_as_slice vec = [1, 2, 3, 4] \<and>
      (case HeaplessVec_extend_from_slice [5, 6] vec of (r, vec) \<Rightarrow> r = Err PushError \<and> HeaplessVec_len vec = 4)))"

definition test_remove :: bool where
  "test_remove \<longleftrightarrow>
     pushing [1, 2, 3, 4] (HeaplessVec_new 5 0) (\<lambda>vec.
       stepping (HeaplessVec_remove 1 :: (u8 HeaplessVec, unit, unit) action) vec (\<lambda>vec. HeaplessVec_as_slice vec = [1, 3, 4] \<and>
       stepping (HeaplessVec_remove 0 :: (u8 HeaplessVec, unit, unit) action) vec (\<lambda>vec. HeaplessVec_as_slice vec = [3, 4] \<and>
       stepping (HeaplessVec_remove 1 :: (u8 HeaplessVec, unit, unit) action) vec (\<lambda>vec. HeaplessVec_as_slice vec = [3] \<and>
       stepping (HeaplessVec_remove 0 :: (u8 HeaplessVec, unit, unit) action) vec (\<lambda>vec. HeaplessVec_is_empty vec)))))"

text \<open>\<^verbatim>\<open>#[should_panic]\<close>\<close>

definition test_remove_out_of_bounds :: bool where
  "test_remove_out_of_bounds \<longleftrightarrow>
     stepping (HeaplessVec_push 1) (HeaplessVec_new 5 (0 :: u8)) (\<lambda>vec. fst (HeaplessVec_remove 5 vec) = (Panic :: (unit, unit) result))"

definition test_retain :: bool where
  "test_retain \<longleftrightarrow>
     pushing [1, 2, 3, 4, 5] (HeaplessVec_new 10 0) (\<lambda>vec.
       stepping (HeaplessVec_retain (\<lambda>x. x mod 2 = 0) :: (u8 HeaplessVec, unit, unit) action) vec (\<lambda>vec.
         HeaplessVec_as_slice vec = [2, 4] \<and>
       stepping (HeaplessVec_retain (\<lambda>_. True) :: (u8 HeaplessVec, unit, unit) action) vec (\<lambda>vec. HeaplessVec_as_slice vec = [2, 4] \<and>
       stepping (HeaplessVec_retain (\<lambda>_. False) :: (u8 HeaplessVec, unit, unit) action) vec (\<lambda>vec. HeaplessVec_is_empty vec))))"

text \<open>The iterators of the reference and of \<^verbatim>\<open>iter\<close> are those of the slice.\<close>

definition test_vec_iteration_via_deref :: bool where
  "test_vec_iteration_via_deref \<longleftrightarrow>
     pushing [1, 2, 3] (HeaplessVec_new 5 0) (\<lambda>vec.
       map Some (HeaplessVec_as_slice vec) @ [None] = [Some 1, Some 2, Some 3, None] \<and>
       foldl (+) 0 (HeaplessVec_as_slice vec) = 6)"

definition test_fmt_write_basic :: bool where
  "test_fmt_write_basic \<longleftrightarrow>
     stepping (HeaplessString_write_str (str ''hello'')) (HeaplessString_new 10) (\<lambda>s.
       HeaplessString_as_str s = str ''hello'' \<and> HeaplessString_len s = 5)"

definition test_fmt_write_formatting :: bool where
  "test_fmt_write_formatting \<longleftrightarrow>
     stepping (HeaplessString_write_str (str ''Hello, world!'')) (HeaplessString_new 20) (\<lambda>s.
       HeaplessString_as_str s = str ''Hello, world!'')"

definition test_fmt_write_truncates_on_overflow :: bool where
  "test_fmt_write_truncates_on_overflow \<longleftrightarrow>
     stepping (HeaplessString_write_str (str ''hello world'')) (HeaplessString_new 5) (\<lambda>s.
       HeaplessString_as_str s = str ''hello'' \<and> HeaplessString_len s = 5)"

section \<open>\<^verbatim>\<open>state.rs\<close> and \<^verbatim>\<open>io.rs\<close>\<close>

definition test_session_id_generation :: "u64 \<Rightarrow> u64 \<Rightarrow> bool" where
  "test_session_id_generation now1 now2 =
     (case SessionIdGenerator_generate now1 0 of (id1, gen) \<Rightarrow>
      case SessionIdGenerator_generate now2 gen of (id2, gen) \<Rightarrow> id1 \<noteq> id2)"

definition test_server_state_default :: bool where
  "test_server_state_default \<longleftrightarrow> ServerState_connection_count ServerState_new = 0"

definition test_parse_remaining_length_single_byte :: bool where
  "test_parse_remaining_length_single_byte \<longleftrightarrow> parse_remaining_length [0x10, 0x05] = Ok (5, 1)"

definition test_parse_remaining_length_multi_byte :: bool where
  "test_parse_remaining_length_multi_byte \<longleftrightarrow> parse_remaining_length [0x10, 0x80, 0x01] = Ok (128, 2)"

section \<open>The model passes the tests\<close>

definition misc_tests :: "bool list" where
  "misc_tests =
     [test_extend_from_slice, test_remove, test_remove_out_of_bounds, test_retain, test_vec_iteration_via_deref,
      test_fmt_write_basic, test_fmt_write_formatting, test_fmt_write_truncates_on_overflow, test_server_state_default,
      test_parse_remaining_length_single_byte, test_parse_remaining_length_multi_byte]"

lemma misc_tests_evaluated [simp]:
  test_extend_from_slice test_remove test_remove_out_of_bounds test_retain test_vec_iteration_via_deref
  test_fmt_write_basic test_fmt_write_formatting test_fmt_write_truncates_on_overflow test_server_state_default
  test_parse_remaining_length_single_byte test_parse_remaining_length_multi_byte
  by code_simp+

lemma misc_tests_hold: "\<forall>t \<in> set misc_tests. t"
  by (simp add: misc_tests_def)

text \<open>Whatever the clock says, the two identifiers differ in their low bits.\<close>

lemma test_session_id_generation_holds: "test_session_id_generation now1 now2"
proof -
  have "session_id_of now1 (of_nat 0) \<noteq> session_id_of now2 (of_nat 1)"
    using session_id_low [of now1 0] session_id_low [of now2 1] by auto
  then show ?thesis by (simp add: test_session_id_generation_def SessionIdGenerator_generate_def)
qed

end
