(* ===== verification/Spec2Isabelle.thy ===== *)
theory Spec2Isabelle
  imports Server_Rp_Boot Server_Rp_Delivery Framing_Copies Conversions Tests_Topics Tests_Connect Tests_Misc
begin

text \<open>
  \<^bold>\<open>picobroker\<close> is an MQTT 3.1.1 broker for small devices, written in Rust without an allocator: all tables and
  queues have a fixed capacity (const generics), and the broker is a synchronous state machine that a server program
  drives. This development models the library (\<^verbatim>\<open>src/src\<close>), the two server programs and the client program around it
  (\<^verbatim>\<open>src/examples\<close>), and proves what makes them correct.

  \<^bold>\<open>The program.\<close> A server registers a session per connection, decodes each frame with \<^verbatim>\<open>Packet::decode\<close> and queues the
  packet with \<^verbatim>\<open>queue_packet_received_from_client\<close>. \<^verbatim>\<open>process_all_session_packets\<close> takes every received packet and runs its
  handler, which changes the session, the topic registry and the transmit queues; the server then takes packets
  with \<^verbatim>\<open>dequeue_packet_to_send_to_client\<close> and encodes them. Sessions end by \<^verbatim>\<open>remove_session\<close>, after a disconnect or when
  \<^verbatim>\<open>get_expired_sessions\<close> lists them. The tokio server runs one handler task per connection and a cleanup task, which share the
  broker under a mutex and wake each other through channels; the rp2040 server does the same with a fixed number of
  sockets on a microcontroller.

  \<^bold>\<open>The theories,\<close> each one a part of the code, in the order of their imports:

  \<^item> \<open>Prelude\<close>: machine types (\<open>u8\<close> to \<open>u128\<close> are words, \<open>usize\<close> is \<open>nat\<close>), \<open>result\<close> with a third value \<open>Panic\<close> for
    everything that panics in Rust, methods as functions from a state to a result and a state, indexing and slicing.
  \<^item> \<open>Utf8\<close>: \<^verbatim>\<open>core::str::from_utf8\<close> and \<^verbatim>\<open>char::encode_utf8\<close> of the standard library.
  \<^item> \<open>Errors\<close>: \<^verbatim>\<open>error.rs\<close>, \<^verbatim>\<open>protocol/error.rs\<close>.
  \<^item> \<open>Heapless\<close>: \<^verbatim>\<open>protocol/heapless.rs\<close>; strings with a \<open>u8\<close> length, vectors with a \<open>u16\<close> length and every loop over their
    arrays. The locales \<open>bounded_vec\<close> and \<open>fifo_queue\<close> state what the clients rely on.
  \<^item> \<open>Wire\<close>: \<^verbatim>\<open>protocol/utils.rs\<close>, \<^verbatim>\<open>qos.rs\<close>, \<^verbatim>\<open>packet_type.rs\<close>; the remaining length and length-prefixed data.
  \<^item> \<open>Codec\<close>: the traits of \<^verbatim>\<open>protocol/packets/mod.rs\<close> and the locale \<open>packet_codec\<close>, the contract of an encoder and a
    decoder for a given wire format. It is interpreted for each of the 14 packets and for the enumeration.
  \<^item> \<open>Packets_Fixed\<close>, \<open>Packets_Var\<close>, \<open>Connect_Packet\<close>, \<open>Packets\<close>: \<^verbatim>\<open>protocol/packets/*.rs\<close>, \<^verbatim>\<open>client.rs\<close>.
  \<^item> \<open>Topics\<close>: \<^verbatim>\<open>topics.rs\<close>; abstractly a set of pairs of filter and session (locale \<open>subscription_store\<close>).
  \<^item> \<open>Sessions\<close>: \<^verbatim>\<open>session.rs\<close>; abstractly a finite map from identifiers to sessions with two lists of packets
    (locale \<open>session_store\<close>).
  \<^item> \<open>Broker\<close>, \<open>Broker_Laws\<close>, \<open>Broker_Steps\<close>: \<^verbatim>\<open>broker.rs\<close>; the operations, the contract \<open>broker_handler\<close> of a packet
    handler with its interpretations, and the public methods as a step relation with its reachable states.
  \<^item> \<open>Server_Io\<close>: the \<^verbatim>\<open>io.rs\<close> of both servers; cutting a stream that arrives in pieces into packets, and the transmit
    buffers. The locale \<open>frame_reader\<close> is the contract of a reader, interpreted for both.
  \<^item> \<open>Server_State\<close>: the \<^verbatim>\<open>state.rs\<close> of both servers; session identifiers and tables of channels.
  \<^item> \<open>Server_Broker\<close>: what both servers do while they hold the broker mutex.
  \<^item> \<open>Server_Tokio\<close>, \<open>Server_Tokio_Laws\<close>, \<open>Server_Tokio_Runs\<close>: \<^verbatim>\<open>handler.rs\<close> and \<^verbatim>\<open>server.rs\<close> of the tokio server as a step
    relation on the broker, the tables and the tasks; the effect of each section, the invariants under every
    interleaving, and particular runs.
  \<^item> \<open>Server_Tokio_Delivery\<close>, \<open>Server_Tokio_Service\<close>: the way of a packet from one connection to another, from the queue
    of the broker to the bytes on the socket, in order and complete. \<open>handler_move\<close> runs a handler on a concrete input.
  \<^item> \<open>Broker_Isolation\<close>: what processing does not touch.
  \<^item> \<open>Server_Rp\<close>, \<open>Server_Rp_Laws\<close>, \<open>Server_Rp_Halt\<close>: \<^verbatim>\<open>handler.rs\<close> and the tasks of \<^verbatim>\<open>main.rs\<close> of the rp2040 server, likewise;
    ownership and wake-ups in its runs, and what can halt the device.
  \<^item> \<open>Server_Rp_Service\<close>, \<open>Server_Rp_Delivery\<close>: how long packets wait in the rp2040 server, the way of a PUBLISH to the socket of a
    subscriber, and the order of the packets on a socket; \<open>rp_move\<close> is one turn of a task as a function, for concrete runs.
  \<^item> \<open>Deployments\<close>: the capacities of the programs that are built, \<^verbatim>\<open>main.rs\<close> of both servers and \<^verbatim>\<open>server.rs\<close> of the rp2040 server.
  \<^item> \<open>Server_Rp_Boot\<close>: \<^verbatim>\<open>main\<close> and \<^verbatim>\<open>WifiManager\<close> of the rp2040 server, from the pins to the tasks, and the way of the variables of the build.
  \<^item> \<open>Framing_Copies\<close>, \<open>Conversions\<close>: the functions that the programs have copies of, at the width of each target; the conversions, borrows
    and defaults of the types.
  \<^item> \<open>Client\<close>: \<^verbatim>\<open>main.rs\<close> of the client, and a session from the client to the reader of the server.
  \<^item> \<open>Texts\<close>: \<^verbatim>\<open>Display\<close> of errors, strings and packets, and the texts of packets in the logs.
  \<^item> \<open>Strings\<close>, \<open>Hex\<close>, \<open>Build_Env\<close>: methods of \<^verbatim>\<open>str\<close>, the hexadecimal helpers of \<^verbatim>\<open>utils.rs\<close>, and \<^verbatim>\<open>build.rs\<close> of the rp2040 server.
  \<^item> \<open>Tests_Topics\<close>, \<open>Tests_Packets\<close>, \<open>Tests_Connect\<close>, \<open>Tests_Misc\<close>: the unit tests in the sources, translated and shown to hold.

  \<^bold>\<open>Definitions and code.\<close> A definition has the name of the Rust function, prefixed by the type of an \<^verbatim>\<open>impl\<close>. A \<^verbatim>\<open>&mut self\<close>
  method is a function to a result and the new state, so that the state after an error is visible. Arrays are lists of the
  length of the capacity, with the unused slots in them: what the code leaves behind there is in the model. Const
  generics are arguments, or the capacity of the container at hand. Integer overflow is a panic, as in a build with overflow
  checks; \<open>usize\<close> is unbounded, except in \<open>read_variable_length_at\<close> and \<open>checked_parse_loop\<close>, which take its width: in the first a
  32-bit target differs, in the second it does not. A loop is a recursive function with a termination proof; no fuel is used anywhere. In particular the
  loop over received packets is total because no handler adds to a receive queue. The one loop that may run for ever, joining the network,
  is a partial function to \<open>option\<close>.

  In the server programs a step is what a task does between two \<^verbatim>\<open>await\<close>s; a section under the broker mutex contains none,
  so it is one step, and the interleaving of the tasks is the nondeterminism of the step relation. What is not in the
  repository is an argument: a socket is the list of the results of its reads and writes, the clock gives the
  times of the steps, the bounded channels of the runtime are the predicate \<open>ready\<close> (with \<open>bounded ready\<close> where their documented
  behaviour matters), and the vectors of the crate \<^verbatim>\<open>heapless\<close> are functions. The concurrent maps of the tokio server are
  a set and a map. The task with number \<open>i\<close> has a session identifier with \<open>i\<close> in its low 32 bits; properties that need
  different identifiers are stated for at most \<open>2 ^ 32\<close> accepted connections, the bound up to which the generator keeps
  them different.

  \<^bold>\<open>What is shown.\<close> Every packet round-trips through its encoder and decoder, also inside a longer buffer; encodings are
  prefix-free; whatever decodes is well-formed; the inputs on which decoding panics are characterised. The wildcard
  matching equals the matching of the MQTT standard where a \<^verbatim>\<open>#\<close> is last. The registries refine a set of subscriptions and a
  map of sessions. For the broker: the invariants of reachable states, absence of panics, the exact effect of each
  handler and public method, delivery of a PUBLISH to the sessions with a matching subscription, and that what
  is sent can be encoded and understood. Some properties record behaviour that is surprising or wrong: wrap-around of the string
  length, panics of the decoders, the treatment of an inner \<^verbatim>\<open>#\<close>, and the publisher's error on a full queue.
  For the servers: both readers recover a stream of packets of at most 129 bytes from any division into pieces, and
  dropping a read in \<^verbatim>\<open>select!\<close> loses nothing; both servers refine the state machine of the broker; in the tokio server every
  session belongs to one handler and a finished handler leaves nothing behind, no wake-up is lost while no packet fails,
  channels stay bounded, the cleanup task removes exactly the stale sessions, the frames of a connection leave in the order of its queue,
  and a PUBLISH from one connection can reach the socket of a subscriber; sessions without subscription are left alone.
  In the rp2040 server sessions are owned and wake-ups kept likewise, a PUBLISH can reach the socket of a subscriber, packets wait only for a bounded
  number of steps of their handler under every interleaving and leave in the order of the queue, the broker of the device stays well-formed from
  the boot on (\<open>rp_program_sound\<close>), and only one kind of malformed frame can halt it; the program comes up exactly when
  it can join the network, with the name and password of the \<^verbatim>\<open>.env\<close> file, and then all its tasks run. A session of the client is understood
  by the server. The properties that record flaws: a handler that waits for itself, connections that outlive their session,
  split length fields, a transmit buffer that is too small, and the packets and the device that the rp2040 server can lose.
  The configuration is assumed to fit the machine types of the lengths (\<open>config_ok\<close>): names below 256 bytes, all other
  capacities below 65536.

  The texts of errors are distinct, printing a decoded packet does not fail, the build script reads a \<^verbatim>\<open>.env\<close> file back, the copies of
  \<^verbatim>\<open>parse_remaining_length\<close> agree and overflow on no target, and the unit tests of the repository hold of the definitions.

  \<^bold>\<open>What is not modelled.\<close> Log calls apart from the texts of packets; the tests of the memory layout (\<^verbatim>\<open>size_of\<close>), which depend on the
  compiler; what the drivers, the network stack and the executor of the rp2040 do inside: the calls into them are events or parameters. Two threads
  that contend for a shard of a concurrent map are not told apart from two steps in either order. The unbounded loops of the servers are not
  claimed to terminate. That a PUBLISH arrives is stated as the existence of a run from every such state; the bound on the steps that packets wait
  holds for every scheduler of the rp2040 server, but there is none for the tokio server, whose \<^verbatim>\<open>select!\<close> chooses at random among the
  branches that are ready and may choose another one again and again.
\<close>

section \<open>The invariants of the broker\<close>

text \<open>
  C1: In every state that a sequence of calls of the public methods reaches, both registries are well-formed (array
  invariants, distinct session identifiers, distinct filters, no filter without a subscriber), every subscriber is a
  registered session, and every packet in a queue is well-formed.
\<close>

theorem reachable_broker_well_formed:
  assumes "config_ok cfg" "reachable cfg b"
  shows "broker_wf cfg b \<and> traffic_wf cfg b"
  using reachable_invariants [OF assms(2,1)] .

theorem reachable_broker_well_formed_witness: "broker_wf small_config small_broker \<and> traffic_wf small_config small_broker"
  using reachable_broker_well_formed [OF small_config_ok small_broker_facts(3)] .

text \<open>
  C6: No public method of the broker panics in a reachable state, whatever its arguments: no index is out of range, no
  length or counter overflows, no \<^verbatim>\<open>unwrap\<close> fails.
\<close>

theorem reachable_broker_never_panics:
  assumes "config_ok cfg" "reachable cfg b"
  shows "fst (PicoBroker_register_new_session cfg sid ka t b) \<noteq> Panic \<and>
    fst (PicoBroker_queue_packet_received_from_client sid p t b) \<noteq> Panic \<and>
    fst (PicoBroker_process_all_session_packets cfg b) \<noteq> Panic \<and>
    fst (PicoBroker_dequeue_packet_to_send_to_client sid b) \<noteq> Panic \<and>
    fst (PicoBroker_mark_session_disconnected sid b) \<noteq> Panic \<and>
    fst (PicoBroker_remove_session sid b) \<noteq> Panic \<and>
    PicoBroker_get_sessions_with_pending_packets cfg b \<noteq> Panic"
proof -
  have wf: "broker_wf cfg b" using reachable_invariants [OF assms(2,1)] by simp
  have "fst (PicoBroker_register_new_session cfg sid ka t b) \<noteq> Panic"
    using wf by (cases rule: register_step [where sid = sid and ka = ka and t = t]) auto
  moreover have "fst (PicoBroker_queue_packet_received_from_client sid p t b) \<noteq> Panic"
    using receive_step [OF wf, of sid p t] receive_missing [OF wf, of sid p t]
    by (cases "sid \<in> set (session_ids b)") (auto split: if_splits)
  moreover have "fst (PicoBroker_process_all_session_packets cfg b) \<noteq> Panic"
    using process_all_eq [OF wf] by auto
  moreover have "fst (PicoBroker_dequeue_packet_to_send_to_client sid b) \<noteq> Panic"
    using send_step [OF wf, of sid] send_missing [OF wf, of sid] by (cases "sid \<in> set (session_ids b)") auto
  moreover have "fst (PicoBroker_mark_session_disconnected sid b) \<noteq> Panic"
    using mark_disconnected_step [OF wf, of sid] by (cases "session_of b sid") auto
  moreover have "fst (PicoBroker_remove_session sid b) \<noteq> Panic" using remove_session_step [OF wf, of sid] by auto
  moreover have "PicoBroker_get_sessions_with_pending_packets cfg b \<noteq> Panic" using pending_eq [OF wf assms(1)] by auto
  ultimately show ?thesis by blast
qed

theorem reachable_broker_never_panics_witness:
  "fst (PicoBroker_process_all_session_packets small_config small_broker) \<noteq> Panic \<and>
   fst (PicoBroker_remove_session 9 small_broker) \<noteq> Panic"
  using reachable_broker_never_panics [OF small_config_ok small_broker_facts(3), of 9] by blast

section \<open>From a subscription to the delivery\<close>

text \<open>
  C7: \<^verbatim>\<open>handle_publish\<close> with room in the queues: the PUBLISH is appended unchanged to the transmit queue of each
  recipient, then the PUBACK to the publisher's queue (for QoS 1 and 2 only), and nothing else changes: not the
  subscriptions, not the receive queues, not the state of any session. The recipients are registered and distinct.
\<close>

theorem publish_delivered:
  assumes "broker_wf cfg b" "sid \<in> set (session_ids b)" "\<forall>k \<in> set (recipients cfg p b). has_room cfg b k"
    and "length (tx b sid) + (if sid \<in> set (recipients cfg p b) then 1 else 0) + length (acks p) \<le> QUEUE_SIZE cfg"
  shows "\<exists>b'. PicoBroker_handle_publish cfg sid p b = (Ok (), b') \<and> broker_wf cfg b' \<and> only_tx b b' \<and>
    tx b' = (\<lambda>k. tx b k @ (if k \<in> set (recipients cfg p b) then [Publish p] else []) @ (if k = sid then acks p else [])) \<and>
    distinct (recipients cfg p b) \<and> set (recipients cfg p b) \<subseteq> set (session_ids b)"
  using handle_publish_delivers [OF assms] recipients_registered [OF assms(1)] by blast

theorem publish_delivered_witness:
  "\<exists>b'. PicoBroker_handle_publish small_config 7 small_publish small_subscribed = (Ok (), b') \<and>
     tx b' 7 = tx small_subscribed 7 @ [Publish small_publish]"
proof -
  have "7 \<in> set (session_ids small_subscribed)" "\<forall>k \<in> set (recipients small_config small_publish small_subscribed).
      has_room small_config small_subscribed k"
    "length (tx small_subscribed 7) + (if 7 \<in> set (recipients small_config small_publish small_subscribed) then 1 else 0) +
      length (acks small_publish) \<le> QUEUE_SIZE small_config"
    by (simp_all add: small_subscribed_facts small_recipients has_room_def)
  from publish_delivered [OF small_subscribed_facts(2) this] show ?thesis by (auto simp: small_recipients)
qed

text \<open>
  C34: \<^verbatim>\<open>handle_publish\<close> without room in the queue of some recipient: the first full one stops the delivery. The
  recipients before it have received the PUBLISH, the others (also those with room) have not, there is no PUBACK,
  and the error names the full session.
\<close>

theorem publish_refused:
  assumes "broker_wf cfg b" "\<not> (\<forall>k \<in> set (recipients cfg p b). has_room cfg b k)"
  shows "\<exists>b' before k after. recipients cfg p b = before @ k # after \<and> \<not> has_room cfg b k \<and>
    PicoBroker_handle_publish cfg sid p b = (Err (SessionQueueFull k (QUEUE_SIZE cfg)), b') \<and>
    broker_wf cfg b' \<and> only_tx b b' \<and> tx b' = (\<lambda>j. tx b j @ (if j \<in> set before then [Publish p] else []))"
  using handle_publish_refused [OF assms] .

theorem publish_refused_witness:
  "\<exists>b'. PicoBroker_handle_publish small_config 7 small_publish small_full = (Err (SessionQueueFull 7 2), b') \<and>
     tx b' 7 = tx small_full 7"
proof -
  have full: "\<not> (\<forall>k \<in> set (recipients small_config small_publish small_full). has_room small_config small_full k)"
    by (simp add: small_full_facts has_room_def)
  have "before = [] \<and> k = 7" if "recipients small_config small_publish small_full = before @ k # after" for before k after
    using that small_full_facts(3) recipients_registered(1) [OF small_full_facts(1), of small_publish]
    by (cases before) auto
  with publish_refused [OF small_full_facts(1) full, of 7] show ?thesis by fastforce
qed

text \<open>
  C10: A session that has subscribed is served: after a successful \<^verbatim>\<open>handle_subscribe\<close>, a PUBLISH from any session
  on a topic that matches the filter reaches it, if at most \<^verbatim>\<open>MAX_SUBSCRIBERS_PER_TOPIC\<close> sessions have a
  matching subscription and the queues have room.
\<close>

theorem subscribed_session_is_served:
  assumes "broker_wf cfg b" "sid \<in> set (session_ids b)" "PicoBroker_handle_subscribe cfg sid s b = (Ok (), b1)"
    and "topic_matches (HeaplessString_as_str (pub_topic_name p)) (HeaplessString_as_str (sub_topic_filter s))"
    and "card {k. \<exists>f. (f, k) \<in> subscriptions_of b1 \<and>
      topic_matches (HeaplessString_as_str (pub_topic_name p)) (HeaplessString_as_str f)} \<le> MAX_SUBSCRIBERS_PER_TOPIC cfg"
    and "pid \<in> set (session_ids b)" "\<forall>k \<in> set (recipients cfg p b1). has_room cfg b1 k"
    and "length (tx b1 pid) + (if pid \<in> set (recipients cfg p b1) then 1 else 0) + length (acks p) \<le> QUEUE_SIZE cfg"
  shows "\<exists>b2 rest. PicoBroker_handle_publish cfg pid p b1 = (Ok (), b2) \<and> tx b2 sid = tx b1 sid @ Publish p # rest"
proof -
  from handle_subscribe_eq [OF assms(1,2), of s] assms(3) have
    b1: "broker_wf cfg b1" "subscriptions_of b1 = insert (sub_topic_filter s, sid) (subscriptions_of b)" by auto
  from h_subscribe.handler_law [of cfg sid s] assms(1,2) have "session_ids b1 = session_ids b"
    by (rule handler_okE) (use assms(3) in simp)
  with assms(6) have pid: "pid \<in> set (session_ids b1)" by simp
  have "sid \<in> set (recipients cfg p b1)" using recipients_all [OF assms(5)] b1(2) assms(4) by auto
  with handle_publish_delivers [OF b1(1) pid assms(7,8)] show ?thesis by auto
qed

theorem subscribed_session_is_served_witness:
  "\<exists>b2 rest. PicoBroker_handle_publish small_config 7 small_publish small_subscribed = (Ok (), b2) \<and>
     tx b2 7 = tx small_subscribed 7 @ Publish small_publish # rest"
proof -
  have m: "{k. \<exists>f. (f, k) \<in> subscriptions_of small_subscribed \<and>
      topic_matches (HeaplessString_as_str (pub_topic_name small_publish)) (HeaplessString_as_str f)} = {7}"
    by (auto simp: small_subscribed_facts small_topic_matches)
  show ?thesis
    by (rule subscribed_session_is_served [OF small_broker_facts(2) _ small_subscribed_facts(1)])
      (simp_all add: m [simplified] small_broker_facts small_subscribed_facts(5) small_recipients has_room_def small_topic_matches)
qed

section \<open>The other handlers\<close>

text \<open>
  C35: \<^verbatim>\<open>handle_subscribe\<close>: on success the subscription is recorded and a SUBACK with the identifier and the granted
  QoS of the request is queued; with a full transmit queue the subscription is recorded although the call fails;
  with a full registry nothing changes. In every case the broker stays well-formed.
\<close>

theorem subscribe_handled:
  assumes "broker_wf cfg b" "sid \<in> set (session_ids b)"
  shows "\<exists>x b'. PicoBroker_handle_subscribe cfg sid p b = (x, b') \<and> broker_wf cfg b' \<and>
    (x = Ok () \<and> subscriptions_of b' = insert (sub_topic_filter p, sid) (subscriptions_of b) \<and>
       tx b' = (tx b)(sid := tx b sid @ [SubAck \<lparr>suback_packet_id = sub_packet_id p, granted_qos = sub_requested_qos p\<rparr>]) \<or>
     x = Err (SessionQueueFull sid (QUEUE_SIZE cfg)) \<and> length (tx b sid) = QUEUE_SIZE cfg \<and> tx b' = tx b \<and>
       subscriptions_of b' = insert (sub_topic_filter p, sid) (subscriptions_of b) \<or>
     (\<exists>e. x = Err e \<and> subscribe_error cfg b (sub_topic_filter p) e) \<and> b' = b \<and>
       (sub_topic_filter p, sid) \<notin> subscriptions_of b)"
  using handle_subscribe_eq [OF assms] .

theorem subscribe_handled_witness:
  "\<exists>b'. PicoBroker_handle_subscribe small_config 7 small_subscribe small_broker = (Ok (), b') \<and>
     subscriptions_of b' = {(small_topic, 7)} \<and> tx b' 7 = [SubAck \<lparr>suback_packet_id = 1, granted_qos = AtMostOnce\<rparr>]"
  using subscribe_handled [OF small_broker_facts(2), of 7 small_subscribe] small_subscribed_facts(1)
  by (auto simp: small_broker_facts)

text \<open>
  C36: \<^verbatim>\<open>handle_connect\<close> marks the session connected with the keep-alive of the packet and, if it is not empty, its
  client identifier; the other sessions and the subscriptions stay as they are. It queues the CONNACK, or fails
  with \<^verbatim>\<open>SessionQueueFull\<close> after the session has been marked.
\<close>

theorem connect_handled:
  assumes "broker_wf cfg b" "session_of b sid = Some s" "str_ok (con_client_id c)"
  shows "\<exists>x b'. PicoBroker_handle_connect sid c b = (x, b') \<and> broker_wf cfg b' \<and> br_topics b' = br_topics b \<and>
    map_option core (session_of b' sid) = Some (core (connected c s)) \<and>
    (\<forall>k. k \<noteq> sid \<longrightarrow> map_option core (session_of b' k) = map_option core (session_of b k)) \<and>
    (if length (tx b sid) < QUEUE_SIZE cfg
     then x = Ok () \<and> tx b' = (tx b)(sid := tx b sid @ [ConnAck ConnAckPacket_default])
     else x = Err (SessionQueueFull sid (QUEUE_SIZE cfg)) \<and> tx b' = tx b)"
proof -
  from handle_connect_updates [OF assms] obtain b1 where
    b1: "PicoBroker_handle_connect sid c b =
      on_sessions (SessionRegistry_queue_tx_packet sid (ConnAck ConnAckPacket_default)) b1" "broker_wf cfg b1"
      "br_topics b1 = br_topics b" "session_ids b1 = session_ids b" "session_of b1 = (session_of b)(sid \<mapsto> connected c s)"
    by blast
  have t: "tx b1 = tx b" using b1(5) assms(2) by (auto simp: tx_def fun_eq_iff connected_def)
  have "sid \<in> set (session_ids b1)" using assms(2) b1(4) session_of_iff by metis
  with b1(2) show ?thesis
  proof (cases rule: queue_tx_step [where p = "ConnAck ConnAckPacket_default"])
    case (queued b2)
    have "map_option core (session_of b2 k) = map_option core (session_of b1 k)" "br_topics b2 = br_topics b1" for k
      using queued(4) by (simp_all add: only_tx_def)
    then show ?thesis using b1 t queued by (intro exI [of _ "Ok ()"] exI [of _ b2]) simp
  next
    case full
    then show ?thesis using b1 t by auto
  qed
qed

theorem connect_handled_witness:
  "\<exists>b'. PicoBroker_handle_connect 7 \<lparr>connect_flags = 2, con_keep_alive = 30, con_client_id = HeaplessString_new 23,
     will_topic = None, will_payload = None, username = None, password = None\<rparr> small_broker = (Ok (), b') \<and>
     tx b' 7 = [ConnAck ConnAckPacket_default]"
proof -
  let ?c = "\<lparr>connect_flags = 2, con_keep_alive = 30, con_client_id = HeaplessString_new 23,
     will_topic = None, will_payload = None, username = None, password = None\<rparr>"
  have "str_ok (con_client_id ?c)" using HeaplessString_new_wf [of 23] by (simp add: str_ok_def)
  from connect_handled [OF small_broker_facts(2,5) this] show ?thesis
    by (auto simp: small_broker_facts)
qed

text \<open>
  C13: \<^verbatim>\<open>process_all_session_packets\<close> terminates and, on success, has handled every received packet of every session:
  all receive queues are empty. It fails only with a capacity error; the transmit queues only grow, and only by
  responses to packets that were received.
\<close>

theorem received_packets_processed:
  assumes "broker_wf cfg b"
  shows "\<exists>x b'. PicoBroker_process_all_session_packets cfg b = (x, b') \<and> broker_wf cfg b' \<and>
    session_ids b' = session_ids b \<and>
    (x = Ok () \<and> (\<forall>k. rx b' k = []) \<or> (\<exists>e. x = Err e \<and> capacity_error cfg e)) \<and>
    appends (responses_from b (set (session_ids b))) b b'"
proof -
  from process_all_eq [OF assms] obtain x b' where "PicoBroker_process_all_session_packets cfg b = (x, b')" "fine cfg x"
    "broker_wf cfg b'" "session_ids b' = session_ids b" "is_ok x \<longrightarrow> (\<forall>k. rx b' k = [])"
    "appends (responses_from b (set (session_ids b))) b b'" by blast
  then show ?thesis by (cases x) auto
qed

theorem received_packets_processed_witness:
  "PicoBroker_process_all_session_packets small_config small_pinged = (Ok (), small_answered) \<and> rx small_answered 7 = []"
  using received_packets_processed [OF small_pinged_facts(1)] small_answered_facts(1) by auto

text \<open>
  C11: Isolation. Whatever packets the other sessions have sent, processing them does not touch a session without
  subscription and without received packets: its transmit queue stays as it is, and it gets no subscription.
\<close>

theorem unsubscribed_session_isolated:
  assumes "broker_wf cfg b" "\<forall>f. (f, k) \<notin> subscriptions_of b" "rx b k = []"
    and "PicoBroker_process_all_session_packets cfg b = (x, b')"
  shows "tx b' k = tx b k \<and> rx b' k = [] \<and> (\<forall>f. (f, k) \<notin> subscriptions_of b')"
proof -
  have "unsubscribed k b" using assms(2) by (force simp: unsubscribed_def)
  from process_all_spares [OF assms(1) this assms(3,4)] show ?thesis by (force simp: unsubscribed_def)
qed

theorem unsubscribed_session_isolated_witness:
  "tx (snd (PicoBroker_process_all_session_packets small_config demo_published)) 0 = [Publish small_publish] \<and>
   tx (snd (PicoBroker_process_all_session_packets small_config demo_published)) 1 = []"
proof -
  have "broker_wf small_config demo_b4"
    using server_invD(1) [OF tokio_reachable_inv [OF demo_reachable small_config_ok] small_config_ok] by (simp add: demo_server_eq)
  from receive_step [OF this, of 0 "Publish small_publish" 0] have wf: "broker_wf small_config demo_published"
    by (auto simp: demo_io demo_published_def)
  have "subscriptions_of demo_published = {(small_topic, 0)}" "rx demo_published 1 = []" "tx demo_published 1 = []"
    by code_simp+
  with unsubscribed_session_isolated [OF wf, of 1]
  have "tx (snd (PicoBroker_process_all_session_packets small_config demo_published)) 1 = []" by (simp add: prod_eq_iff)
  moreover have "tx (snd (PicoBroker_process_all_session_packets small_config demo_published)) 0 = [Publish small_publish]"
    by code_simp
  ultimately show ?thesis by simp
qed

section \<open>The interface to the transport\<close>

text \<open>
  C31: A removed session is forgotten: it is not registered and has no subscription, all other sessions and
  subscriptions are kept, no later PUBLISH is delivered to it, and nothing can be received from or sent to it.
\<close>

theorem removed_session_forgotten:
  assumes "broker_wf cfg b"
  shows "\<exists>b'. PicoBroker_remove_session sid b = (Ok (sid \<in> set (session_ids b)), b') \<and> broker_wf cfg b' \<and>
    session_of b' = (session_of b)(sid := None) \<and> subscriptions_of b' = {q \<in> subscriptions_of b. snd q \<noteq> sid} \<and>
    sid \<notin> set (recipients cfg p b') \<and>
    PicoBroker_queue_packet_received_from_client sid r t b' = (Err (SessionNotFound sid), b') \<and>
    PicoBroker_dequeue_packet_to_send_to_client sid b' = (Err (SessionNotFound sid), b')"
proof -
  from remove_session_step [OF assms, of sid] obtain b' where
    b': "PicoBroker_remove_session sid b = (Ok (sid \<in> set (session_ids b)), b')" "broker_wf cfg b'"
      "session_ids b' = filter (\<lambda>k. k \<noteq> sid) (session_ids b)" "session_of b' = (session_of b)(sid := None)"
      "subscriptions_of b' = {p \<in> subscriptions_of b. snd p \<noteq> sid}" by blast
  then have "sid \<notin> set (session_ids b')" by simp
  then show ?thesis
    using b' recipients_registered(2) [OF b'(2), of p] receive_missing [OF b'(2)] send_missing [OF b'(2)] by blast
qed

theorem removed_session_forgotten_witness:
  "\<exists>b'. PicoBroker_remove_session 7 small_subscribed = (Ok True, b') \<and> subscriptions_of b' = {} \<and>
     7 \<notin> set (recipients small_config small_publish b')"
  using removed_session_forgotten [OF small_subscribed_facts(2), of 7 small_publish undefined 0]
  by (auto simp: small_subscribed_facts)

text \<open>
  C27: What the broker hands to the transport can be sent and is understood: in a reachable state, every packet that
  is dequeued for a client can be encoded into any buffer with room for its bytes, and decoding these bytes gives the
  packet back.
\<close>

theorem sent_packet_understood:
  assumes "config_ok cfg" "reachable cfg b"
    and "PicoBroker_dequeue_packet_to_send_to_client sid b = (Ok (Some p), b')" "length (Packet_wire p) \<le> length buf"
  shows "\<exists>n buf'. Packet_encode p buf = (Ok n, buf') \<and>
    Packet_decode (MAX_TOPIC_NAME_LENGTH cfg) (MAX_PAYLOAD_SIZE cfg) (take n buf') = Ok p"
proof -
  from reachable_invariants [OF assms(2,1)] have wf: "broker_wf cfg b" and t: "traffic_wf cfg b" by simp_all
  have sid: "sid \<in> set (session_ids b)" using send_missing [OF wf, of sid] assms(3) by auto
  with send_step [OF wf sid] assms(3) have "front_of (tx b sid) = Some p" by auto
  then have "p \<in> set (tx b sid)" by (cases "tx b sid") (auto simp: front_of_def)
  with t have pw: "Packet_wf (MAX_TOPIC_NAME_LENGTH cfg) (MAX_PAYLOAD_SIZE cfg) p" unfolding traffic_wf_def by blast
  show ?thesis using packet.encode_fits [OF pw assms(4)] packet.encode_Ok(3) [OF pw] packet.round_trip [OF pw] by metis
qed

theorem sent_packet_understood_witness:
  "\<exists>n buf'. Packet_encode (PingResp PingRespPacket) [0, 0, 0] = (Ok n, buf') \<and>
     Packet_decode 2 2 (take n buf') = Ok (PingResp PingRespPacket)"
proof -
  have wf: "broker_wf small_config small_answered"
    using reachable_invariants [OF small_answered_facts(2) small_config_ok] by simp
  have "7 \<in> set (session_ids small_answered)"
    using queues_of_unregistered [of 7 small_answered] small_answered_facts(3) by auto
  from send_step [OF wf this] obtain b' where
    "PicoBroker_dequeue_packet_to_send_to_client 7 small_answered = (Ok (Some (PingResp PingRespPacket)), b')"
    by (auto simp: small_answered_facts(3) front_of_def)
  from sent_packet_understood [OF small_config_ok small_answered_facts(2) this, of "[0, 0, 0]"] show ?thesis
    by (simp add: empty_wire_def)
qed

section \<open>The unit tests of the repository\<close>


end
